(* ===== verification/Prelude.thy ===== *)
theory Prelude
  imports Main "HOL-Library.Sublist"
begin

text \<open>
  What every component of the development shares: Go's error values and their sentinels,
  programs that pass the world explicitly and may fail or not return, a calculus of total
  correctness for such programs, and the operations of Go's packages \<^verbatim>\<open>strings\<close> and
  \<^verbatim>\<open>strconv\<close> that the code under \<^verbatim>\<open>src/internal\<close> uses.

  Strings are lists of bytes, as in Go. White space is ASCII white space.
\<close>

named_theorems wp_intros \<open>introduction rules of the total-correctness calculus\<close>

section \<open>Errors\<close>

text \<open>
  An error value is a sentinel compared by identity, or the result of
  \<^verbatim>\<open>fmt.Errorf\<close> / \<^verbatim>\<open>errors.New\<close>: a message and the errors it wraps with \<^verbatim>\<open>%w\<close>.
  The four first sentinels are those of \<^verbatim>\<open>internal/apperrors\<close>; the others are Go's.
\<close>

datatype sentinel = ErrReconnect | ErrFatal | ErrRateLimited | ErrTokenRejected
  | ErrCanceled | ErrDeadlineExceeded | ErrNotExist

datatype err = Sentinel sentinel | Errorf string "err list"

text \<open>\<^verbatim>\<open>errors.Is\<close>: the sentinel occurs in the tree of wrapped errors.\<close>

fun errors_is :: "err \<Rightarrow> sentinel \<Rightarrow> bool" where
  "errors_is (Sentinel t) s = (t = s)"
| "errors_is (Errorf m es) s = (\<exists>e \<in> set es. errors_is e s)"

section \<open>Programs\<close>

text \<open>
  A program takes the world and returns a result and the new world; the result is an error
  or a value. \<open>None\<close> is a program that does not return.
\<close>

type_synonym ('w, 'a) prog = "'w \<Rightarrow> ((err + 'a) \<times> 'w) option"

definition ret :: "'a \<Rightarrow> ('w, 'a) prog" where
  "ret a w = Some (Inr a, w)"

definition throw :: "err \<Rightarrow> ('w, 'a) prog" where
  "throw e w = Some (Inl e, w)"

text \<open>\<^verbatim>\<open>if err != nil { return err }\<close> after a call: the rest runs on success only.\<close>

definition bindP :: "('w, 'a) prog \<Rightarrow> ('a \<Rightarrow> ('w, 'b) prog) \<Rightarrow> ('w, 'b) prog" where
  "bindP m f w = (case m w of
       None \<Rightarrow> None
     | Some (Inl e, w') \<Rightarrow> Some (Inl e, w')
     | Some (Inr a, w') \<Rightarrow> f a w')"

text \<open>The result as a value, so that the caller inspects \<^verbatim>\<open>err\<close> itself.\<close>

definition tryP :: "('w, 'a) prog \<Rightarrow> ('w, err + 'a) prog" where
  "tryP m w = (case m w of None \<Rightarrow> None | Some (r, w') \<Rightarrow> Some (Inr r, w'))"

text \<open>A call whose error is dropped.\<close>

definition ignoreP :: "('w, 'a) prog \<Rightarrow> ('w, unit) prog" where
  "ignoreP m w = (case m w of None \<Rightarrow> None | Some (r, w') \<Rightarrow> Some (Inr (), w'))"

text \<open>\<^verbatim>\<open>fmt.Errorf("...: %w", err)\<close> around the error of a call.\<close>

definition wrapErr :: "string \<Rightarrow> ('w, 'a) prog \<Rightarrow> ('w, 'a) prog" where
  "wrapErr s m w = (case m w of
       None \<Rightarrow> None
     | Some (Inl e, w') \<Rightarrow> Some (Inl (Errorf s [e]), w')
     | Some (Inr a, w') \<Rightarrow> Some (Inr a, w'))"

text \<open>Reading and writing the world.\<close>

definition getsP :: "('w \<Rightarrow> 'a) \<Rightarrow> ('w, 'a) prog" where
  "getsP f w = Some (Inr (f w), w)"

definition modifyP :: "('w \<Rightarrow> 'w) \<Rightarrow> ('w, unit) prog" where
  "modifyP f w = Some (Inr (), f w)"

text \<open>\<^verbatim>\<open>&&\<close> of two conditions that read the world: the second is not evaluated after a false first.\<close>

definition andP :: "('w, bool) prog \<Rightarrow> ('w, bool) prog \<Rightarrow> ('w, bool) prog" where
  "andP a b = bindP a (\<lambda>x. if x then b else ret False)"

text \<open>A \<^verbatim>\<open>for _, x := range xs\<close> loop that returns on the first error.\<close>

fun forP :: "'a list \<Rightarrow> ('a \<Rightarrow> ('w, unit) prog) \<Rightarrow> ('w, unit) prog" where
  "forP [] f = ret ()"
| "forP (x # xs) f = bindP (f x) (\<lambda>_. forP xs f)"

text \<open>A deferred call: \<open>d\<close> runs after \<open>m\<close>, whatever \<open>m\<close> returned, and its error is dropped.\<close>

definition deferP :: "('w, 'b) prog \<Rightarrow> ('w, 'a) prog \<Rightarrow> ('w, 'a) prog" where
  "deferP d m w = (case m w of
       None \<Rightarrow> None
     | Some (r, w') \<Rightarrow> (case d w' of None \<Rightarrow> None | Some (_, w'') \<Rightarrow> Some (r, w'')))"

subsection \<open>Total correctness\<close>

text \<open>\<open>wp m Q w\<close>: from \<open>w\<close> the program returns, and its result and new world satisfy \<open>Q\<close>.\<close>

definition wp :: "('w, 'a) prog \<Rightarrow> (err + 'a \<Rightarrow> 'w \<Rightarrow> bool) \<Rightarrow> 'w \<Rightarrow> bool" where
  "wp m Q w = (case m w of None \<Rightarrow> False | Some (r, w') \<Rightarrow> Q r w')"

lemma wp_iff: "wp m Q w \<longleftrightarrow> (\<exists>r w'. m w = Some (r, w') \<and> Q r w')"
  by (auto simp: wp_def split: option.splits)

lemma wpD: "wp m Q w \<Longrightarrow> m w = Some (r, w') \<Longrightarrow> Q r w'"
  by (simp add: wp_def)

lemma wp_returns: "wp m Q w \<Longrightarrow> \<exists>r w'. m w = Some (r, w')"
  by (auto simp: wp_iff)

lemma wp_conseq: "wp m Q w \<Longrightarrow> (\<And>r w'. Q r w' \<Longrightarrow> Q' r w') \<Longrightarrow> wp m Q' w"
  by (auto simp: wp_iff)

lemma wp_ret: "wp (ret a) Q w = Q (Inr a) w"
  by (simp add: wp_def ret_def)

lemma wp_throw: "wp (throw e) Q w = Q (Inl e) w"
  by (simp add: wp_def throw_def)

lemma wp_bindP:
  "wp (bindP m f) Q w =
     wp m (\<lambda>r w'. case r of Inl e \<Rightarrow> Q (Inl e) w' | Inr a \<Rightarrow> wp (f a) Q w') w"
  by (simp add: wp_def bindP_def split: option.splits sum.splits)

lemma wp_tryP: "wp (tryP m) Q w = wp m (\<lambda>r. Q (Inr r)) w"
  by (simp add: wp_def tryP_def split: option.splits)

lemma wp_ignoreP: "wp (ignoreP m) Q w = wp m (\<lambda>r. Q (Inr ())) w"
  by (simp add: wp_def ignoreP_def split: option.splits)

lemma wp_wrapErr:
  "wp (wrapErr s m) Q w =
     wp m (\<lambda>r. case r of Inl e \<Rightarrow> Q (Inl (Errorf s [e])) | Inr a \<Rightarrow> Q (Inr a)) w"
  by (simp add: wp_def wrapErr_def split: option.splits sum.splits)

lemma wp_deferP: "wp (deferP d m) Q w = wp m (\<lambda>r. wp d (\<lambda>_. Q r)) w"
  by (simp add: wp_def deferP_def split: option.splits)

lemma wp_getsP: "wp (getsP f) Q w = Q (Inr (f w)) w"
  by (simp add: wp_def getsP_def)

lemma wp_modifyP: "wp (modifyP f) Q w = Q (Inr ()) (f w)"
  by (simp add: wp_def modifyP_def)

lemmas wp_simps = wp_getsP wp_modifyP wp_ret wp_throw wp_bindP wp_tryP wp_ignoreP wp_wrapErr wp_deferP

declare wp_simps [simp]

text \<open>
  An invariant of the loop body, the world generalised: it holds when the loop ends, by an
  error or not.
\<close>

lemma wp_forP_inv:
  assumes "I w"
    and "\<And>x w. x \<in> set xs \<Longrightarrow> I w \<Longrightarrow> wp (f x) (\<lambda>_. I) w"
  shows "wp (forP xs f) (\<lambda>_. I) w"
  using assms
proof (induction xs arbitrary: w)
  case Nil
  then show ?case by simp
next
  case (Cons x xs)
  have "wp (f x) (\<lambda>_. I) w" using Cons.prems by simp
  then show ?case
    using Cons.prems(2) Cons.IH
    by (auto elim!: wp_conseq split: sum.splits)
qed

text \<open>\<open>m\<close> returns from every world that satisfies \<open>I\<close>, and keeps \<open>I\<close> whatever its result.\<close>

definition keeps :: "('w \<Rightarrow> bool) \<Rightarrow> ('w, 'a) prog \<Rightarrow> bool" where
  "keeps I m \<longleftrightarrow> (\<forall>w. I w \<longrightarrow> wp m (\<lambda>_. I) w)"

lemma keepsI: "(\<And>w. I w \<Longrightarrow> wp m (\<lambda>_. I) w) \<Longrightarrow> keeps I m"
  by (simp add: keeps_def)

lemma keepsD: "keeps I m \<Longrightarrow> I w \<Longrightarrow> wp m (\<lambda>_. I) w"
  by (simp add: keeps_def)

lemma wp_keeps: "keeps I m \<Longrightarrow> I w \<Longrightarrow> (\<And>r w'. I w' \<Longrightarrow> Q r w') \<Longrightarrow> wp m Q w"
  by (blast dest: keepsD intro: wp_conseq)

lemma keeps_run: "keeps I m \<Longrightarrow> I w \<Longrightarrow> \<exists>r w'. m w = Some (r, w') \<and> I w'"
  by (auto simp: keeps_def wp_iff)

lemma keeps_ret [simp, intro]: "keeps I (ret a)"
  by (simp add: keeps_def)

lemma keeps_throw [simp, intro]: "keeps I (throw e)"
  by (simp add: keeps_def)

lemma keeps_getsP [simp, intro]: "keeps I (getsP f)"
  by (simp add: keeps_def)

lemma keeps_bindP [intro]: "keeps I m \<Longrightarrow> (\<And>a. keeps I (f a)) \<Longrightarrow> keeps I (bindP m f)"
  by (rule keepsI) (auto elim!: wp_keeps dest: keepsD split: sum.splits)

lemma keeps_tryP [intro]: "keeps I m \<Longrightarrow> keeps I (tryP m)"
  by (simp add: keeps_def)

lemma keeps_ignoreP [intro]: "keeps I m \<Longrightarrow> keeps I (ignoreP m)"
  by (simp add: keeps_def)

lemma keeps_wrapErr [intro]: "keeps I m \<Longrightarrow> keeps I (wrapErr s m)"
  by (rule keepsI) (auto elim!: wp_keeps split: sum.splits)

lemma keeps_deferP [intro]: "keeps I d \<Longrightarrow> keeps I m \<Longrightarrow> keeps I (deferP d m)"
  by (rule keepsI, simp, erule (1) wp_keeps, erule (1) keepsD)

lemma keeps_andP [intro]: "keeps I a \<Longrightarrow> keeps I b \<Longrightarrow> keeps I (andP a b)"
  by (auto simp: andP_def)

lemma keeps_forP [intro]: "(\<And>x. x \<in> set xs \<Longrightarrow> keeps I (f x)) \<Longrightarrow> keeps I (forP xs f)"
  by (auto intro!: keepsI wp_forP_inv dest: keepsD)

text \<open>One step of a chain of calls, each of which keeps \<open>I\<close>.\<close>

lemma wp_keeps_bindP:
  assumes "keeps I m" and "I w" and "\<And>e w'. I w' \<Longrightarrow> Q (Inl e) w'" and "\<And>a w'. I w' \<Longrightarrow> wp (f a) Q w'"
  shows "wp (bindP m f) Q w"
  by (simp, rule wp_keeps [OF assms(1,2)]) (auto intro: assms(3,4) split: sum.splits)

lemma wp_keeps_ignoreP:
  assumes "keeps I m" and "I w" and "\<And>w'. I w' \<Longrightarrow> wp (f ()) Q w'"
  shows "wp (bindP (ignoreP m) f) Q w"
  by (simp, rule wp_keeps [OF assms(1,2)]) (rule assms(3))

subsection \<open>Partial success and guaranteed success\<close>

text \<open>
  \<open>wpS m Q w\<close>: \<open>m\<close> returns, and if it succeeds its value and the new world satisfy \<open>Q\<close>.
  \<open>succeeds I m\<close>: from every world that satisfies \<open>I\<close>, \<open>m\<close> returns without an error and
  keeps \<open>I\<close>.
\<close>

definition wpS :: "('w, 'a) prog \<Rightarrow> ('a \<Rightarrow> 'w \<Rightarrow> bool) \<Rightarrow> 'w \<Rightarrow> bool" where
  "wpS m Q = wp m (\<lambda>r w'. case r of Inl _ \<Rightarrow> True | Inr x \<Rightarrow> Q x w')"

definition succeeds :: "('w \<Rightarrow> bool) \<Rightarrow> ('w, 'a) prog \<Rightarrow> bool" where
  "succeeds I m \<longleftrightarrow> (\<forall>w. I w \<longrightarrow> wp m (\<lambda>r w'. (\<exists>x. r = Inr x) \<and> I w') w)"

lemma wpSI: "wp m (\<lambda>r w'. case r of Inl _ \<Rightarrow> True | Inr x \<Rightarrow> Q x w') w \<Longrightarrow> wpS m Q w"
  by (simp add: wpS_def)

lemma wpSD: "wpS m Q w \<Longrightarrow> m w = Some (Inr x, w') \<Longrightarrow> Q x w'"
  by (auto simp: wpS_def wp_def)

lemma wpS_returns: "wpS m Q w \<Longrightarrow> \<exists>r w'. m w = Some (r, w')"
  by (auto simp: wpS_def wp_iff)

lemma wpS_conseq: "wpS m Q w \<Longrightarrow> (\<And>x w'. Q x w' \<Longrightarrow> Q' x w') \<Longrightarrow> wpS m Q' w"
  unfolding wpS_def by (erule wp_conseq) (auto split: sum.splits)

lemma wpS_eq: "wpS m Q w \<Longrightarrow> wpS m (\<lambda>x w'. Q x w' \<and> m w = Some (Inr x, w')) w"
  by (auto simp: wpS_def wp_def split: option.splits sum.splits)

lemma wpS_conj: "wpS m P w \<Longrightarrow> wpS m Q w \<Longrightarrow> wpS m (\<lambda>x w'. P x w' \<and> Q x w') w"
  by (auto simp: wpS_def wp_def split: option.splits sum.splits)

lemma wpS_ret [simp]: "wpS (ret a) Q = Q a"
  by (rule ext) (simp add: wpS_def)

lemma wpS_throw [simp]: "wpS (throw e) Q w"
  by (simp add: wpS_def)

lemma wpS_modifyP [simp]: "wpS (modifyP f) Q w = Q () (f w)"
  by (simp add: wpS_def)

lemma wpS_bindP [simp]: "wpS (bindP m f) Q w = wpS m (\<lambda>x. wpS (f x) Q) w"
  by (simp add: wpS_def wp_def bindP_def split: option.splits sum.splits)

lemma wpS_wrapErr [simp]: "wpS (wrapErr s m) Q = wpS m Q"
  by (rule ext) (simp add: wpS_def wp_def wrapErr_def split: option.splits sum.splits)

text \<open>A loop whose steps, when they succeed, go from \<open>J a\<close> to \<open>J (g a x)\<close>.\<close>

lemma wpS_forP_foldl:
  assumes "\<And>a x w. x \<in> set xs \<Longrightarrow> J a w \<Longrightarrow> wpS (f x) (\<lambda>_. J (g a x)) w" and "J a w"
  shows "wpS (forP xs f) (\<lambda>_. J (foldl g a xs)) w"
  using assms
proof (induction xs arbitrary: a w)
  case (Cons x xs)
  show ?case
  proof (simp, rule wpS_conseq [OF Cons.prems(1) [OF _ Cons.prems(2)]])
    fix y w' assume "J (g a x) w'"
    then show "wpS (forP xs f) (\<lambda>_. J (foldl g (g a x) xs)) w'"
      by (intro Cons.IH Cons.prems(1)) auto
  qed simp
qed simp

lemma keeps_wpS: "keeps I m \<Longrightarrow> I w \<Longrightarrow> wpS m (\<lambda>_. I) w"
  unfolding wpS_def by (erule (1) wp_keeps) (auto split: sum.splits)

lemma keeps_conj: "keeps I m \<Longrightarrow> keeps J m \<Longrightarrow> keeps (\<lambda>w. I w \<and> J w) m"
  by (auto simp: keeps_def wp_iff) fastforce

lemma keeps_ex: "(\<And>x. keeps (I x) m) \<Longrightarrow> keeps (\<lambda>w. \<exists>x. I x w) m"
  by (auto simp: keeps_def wp_iff) blast

lemma keeps_const: "keeps (\<lambda>_. True) m \<Longrightarrow> keeps (\<lambda>_. b) m"
  by (auto simp: keeps_def)

lemma succeeds_ex: "(\<And>x. succeeds (I x) m) \<Longrightarrow> succeeds (\<lambda>w. \<exists>x. I x w) m"
  by (auto simp: succeeds_def wp_iff) blast

lemma succeedsI: "(\<And>w. I w \<Longrightarrow> wp m (\<lambda>r w'. (\<exists>x. r = Inr x) \<and> I w') w) \<Longrightarrow> succeeds I m"
  by (simp add: succeeds_def)

lemma succeedsD: "succeeds I m \<Longrightarrow> I w \<Longrightarrow> \<exists>x w'. m w = Some (Inr x, w') \<and> I w'"
  by (auto simp: succeeds_def wp_iff)

lemma succeeds_keeps: "succeeds I m \<Longrightarrow> keeps I m"
  by (auto simp: succeeds_def keeps_def elim!: wp_conseq)

lemma wp_succeeds: "succeeds I m \<Longrightarrow> I w \<Longrightarrow> (\<And>x w'. I w' \<Longrightarrow> Q (Inr x) w') \<Longrightarrow> wp m Q w"
  unfolding succeeds_def by (blast intro: wp_conseq)

lemma succeeds_ret [simp, intro]: "succeeds I (ret a)"
  by (simp add: succeeds_def)

lemma succeeds_bindP [intro]: "succeeds I m \<Longrightarrow> (\<And>a. succeeds I (f a)) \<Longrightarrow> succeeds I (bindP m f)"
  by (rule succeedsI, simp, erule (1) wp_succeeds) (simp add: succeeds_def)

lemma succeeds_wrapErr [intro]: "succeeds I m \<Longrightarrow> succeeds I (wrapErr s m)"
  by (rule succeedsI, simp, erule (1) wp_succeeds) simp

lemma succeeds_ignoreP [intro]: "keeps I m \<Longrightarrow> succeeds I (ignoreP m)"
  by (rule succeedsI, simp, erule (1) wp_keeps)

lemma succeeds_tryP [intro]: "keeps I m \<Longrightarrow> succeeds I (tryP m)"
  by (rule succeedsI, simp, erule (1) wp_keeps)

lemma succeeds_forP [intro]: "(\<And>x. x \<in> set xs \<Longrightarrow> succeeds I (f x)) \<Longrightarrow> succeeds I (forP xs f)"
  by (induction xs) auto

section \<open>Lists\<close>

text \<open>The first element of each key, in order: what a loop with a \<^verbatim>\<open>seen\<close> map collects.\<close>

fun firstsBy :: "('a \<Rightarrow> 'b) \<Rightarrow> 'a list \<Rightarrow> 'a list" where
  "firstsBy f [] = []"
| "firstsBy f (x # xs) = x # filter (\<lambda>y. f y \<noteq> f x) (firstsBy f xs)"

lemma firstsBy_subset: "set (firstsBy f xs) \<subseteq> set xs"
  by (induction xs) auto

lemma firstsBy_keys [simp]: "f ` set (firstsBy f xs) = f ` set xs"
proof (induction xs)
  case (Cons x xs)
  have "insert (f x) (f ` {y \<in> set (firstsBy f xs). f y \<noteq> f x}) = insert (f x) (f ` set (firstsBy f xs))" by blast
  then show ?case using Cons by simp
qed simp

lemma firstsBy_distinct [simp]: "distinct (map f (firstsBy f xs))"
  by (induction xs) (auto simp: distinct_map inj_on_def)

lemma firstsBy_append: "firstsBy f (xs @ ys) = firstsBy f xs @ filter (\<lambda>y. f y \<notin> f ` set xs) (firstsBy f ys)"
  by (induction xs) (auto intro!: filter_cong)

text \<open>Reading a list as a map by key: a later entry replaces an earlier one.\<close>

lemma foldl_map_upd: "foldl (\<lambda>m x. m(f x \<mapsto> x)) m xs = m ++ map_of (map (\<lambda>x. (f x, x)) (rev xs))"
  by (induction xs arbitrary: m) (auto simp: map_add_def fun_eq_iff split: option.splits)

lemma map_of_key_None: "map_of (map (\<lambda>x. (f x, x)) xs) k = None \<longleftrightarrow> k \<notin> f ` set xs"
  by (induction xs) auto

lemma map_of_key_append:
  "f y \<notin> f ` set xs \<Longrightarrow> map_of (map (\<lambda>x. (f x, x)) (xs @ [y])) = (map_of (map (\<lambda>x. (f x, x)) xs))(f y \<mapsto> y)"
  by (induction xs) (auto simp: fun_eq_iff)

lemma map_of_update:
  assumes "i < length xs" and "f y = f (xs ! i)" and "distinct (map f xs)"
  shows "map_of (map (\<lambda>x. (f x, x)) (xs[i := y])) = (map_of (map (\<lambda>x. (f x, x)) xs))(f y \<mapsto> y)"
  using assms
proof (induction xs arbitrary: i)
  case (Cons x xs)
  show ?case
  proof (cases i)
    case 0
    then show ?thesis using Cons.prems by (auto simp: fun_eq_iff)
  next
    case (Suc j)
    then have "f x \<noteq> f y" using Cons.prems by auto
    then show ?thesis using Suc Cons by (auto simp: fun_eq_iff)
  qed
qed simp

end
