(* ===== verification/GoStrings.thy ===== *)
theory GoStrings
  imports Prelude
begin

text \<open>
  The functions of Go's \<^verbatim>\<open>strings\<close> and \<^verbatim>\<open>strconv\<close> that the code uses, as executable
  definitions on byte lists, with the facts the components need: joining and splitting are
  inverse, trimming, and decimal numbers read back as printed.
\<close>

section \<open>Searching and cutting\<close>

definition HasPrefix :: "string \<Rightarrow> string \<Rightarrow> bool" where
  "HasPrefix s p = prefix p s"

definition HasSuffix :: "string \<Rightarrow> string \<Rightarrow> bool" where
  "HasSuffix s p = suffix p s"

definition Contains :: "string \<Rightarrow> string \<Rightarrow> bool" where
  "Contains s sub = sublist sub s"

definition TrimPrefix :: "string \<Rightarrow> string \<Rightarrow> string" where
  "TrimPrefix s p = (if HasPrefix s p then drop (length p) s else s)"

text \<open>\<^verbatim>\<open>strings.Split\<close> on a one-byte separator: never empty, one more part than separators.\<close>

fun Split :: "char \<Rightarrow> string \<Rightarrow> string list" where
  "Split c [] = [[]]"
| "Split c (x # xs) = (if x = c then [] # Split c xs
     else (case Split c xs of [] \<Rightarrow> [[x]] | y # ys \<Rightarrow> (x # y) # ys))"

text \<open>\<^verbatim>\<open>strings.SplitN(s, c, 2)\<close>.\<close>

definition SplitN2 :: "char \<Rightarrow> string \<Rightarrow> string list" where
  "SplitN2 c s = (if c \<in> set s then [takeWhile (\<lambda>x. x \<noteq> c) s, tl (dropWhile (\<lambda>x. x \<noteq> c) s)] else [s])"

fun Join :: "string list \<Rightarrow> string \<Rightarrow> string" where
  "Join [] sep = []"
| "Join [s] sep = s"
| "Join (s # t # ss) sep = s @ sep @ Join (t # ss) sep"

definition isSpace :: "char \<Rightarrow> bool" where
  "isSpace c = (c \<in> {CHR 0x09, CHR 0x0A, CHR 0x0B, CHR 0x0C, CHR 0x0D, CHR 0x20})"

definition TrimSpace :: "string \<Rightarrow> string" where
  "TrimSpace s = rev (dropWhile isSpace (rev (dropWhile isSpace s)))"

text \<open>\<^verbatim>\<open>strings.FieldsFunc\<close>: the maximal runs of bytes that are not separators.\<close>

fun FieldsFunc :: "(char \<Rightarrow> bool) \<Rightarrow> string \<Rightarrow> string list" where
  "FieldsFunc p [] = []"
| "FieldsFunc p (x # xs) =
     (if p x then FieldsFunc p xs
      else (case xs of [] \<Rightarrow> [[x]]
            | y # ys \<Rightarrow> (if p y then [x] # FieldsFunc p xs
                        else (case FieldsFunc p xs of [] \<Rightarrow> [[x]] | f # fs \<Rightarrow> (x # f) # fs))))"

definition Fields :: "string \<Rightarrow> string list" where
  "Fields s = FieldsFunc isSpace s"

text \<open>\<^verbatim>\<open>strings.ReplaceAll\<close> of a one-byte string.\<close>

definition ReplaceAll :: "string \<Rightarrow> char \<Rightarrow> string \<Rightarrow> string" where
  "ReplaceAll s c new = concat (map (\<lambda>x. if x = c then new else [x]) s)"

definition toLower :: "string \<Rightarrow> string" where
  "toLower s = map (\<lambda>c. let n = (of_char c :: nat) in
     if 65 \<le> n \<and> n \<le> 90 then char_of (n + 32) else c) s"

lemma Split_not_Nil [simp]: "Split c s \<noteq> []"
  by (cases s) (auto split: list.splits)

lemma Split_no_sep: "c \<notin> set s \<Longrightarrow> Split c s = [s]"
  by (induction s) (auto split: list.splits)

lemma Split_append_sep: "c \<notin> set s \<Longrightarrow> Split c (s @ c # t) = s # Split c t"
  by (induction s) (auto split: list.splits)

lemma Split_parts_no_sep: "p \<in> set (Split c s) \<Longrightarrow> c \<notin> set p"
  by (induction s arbitrary: p) (auto split: list.splits if_splits)

lemma Split_Join:
  "xs \<noteq> [] \<Longrightarrow> (\<And>x. x \<in> set xs \<Longrightarrow> c \<notin> set x) \<Longrightarrow> Split c (Join xs [c]) = xs"
proof (induction xs "[c]" rule: Join.induct)
  case (3 s t ss)
  then show ?case by (simp add: Split_append_sep)
qed (auto simp: Split_no_sep)

lemma Join_Split: "Join (Split c s) [c] = s"
proof (induction s)
  case (Cons x s)
  obtain y ys where "Split c s = y # ys" by (meson Split_not_Nil neq_Nil_conv)
  with Cons show ?case by (cases ys) auto
qed simp

lemma SplitN2_append: "c \<notin> set s \<Longrightarrow> SplitN2 c (s @ c # t) = [s, t]"
proof -
  assume c: "c \<notin> set s"
  then have "takeWhile (\<lambda>x. x \<noteq> c) (s @ c # t) = s" "dropWhile (\<lambda>x. x \<noteq> c) (s @ c # t) = c # t"
    by (induction s) auto
  then show ?thesis by (simp add: SplitN2_def)
qed

lemma FieldsFunc_sep: "list_all p s \<Longrightarrow> FieldsFunc p (s @ t) = FieldsFunc p t"
  by (induction s) auto

lemma FieldsFunc_word: "w \<noteq> [] \<Longrightarrow> list_all (\<lambda>c. \<not> p c) w \<Longrightarrow> FieldsFunc p w = [w]"
proof (induction w)
  case (Cons x w)
  then show ?case by (cases w) auto
qed simp

lemma FieldsFunc_word_sep:
  "w \<noteq> [] \<Longrightarrow> list_all (\<lambda>c. \<not> p c) w \<Longrightarrow> p c \<Longrightarrow> FieldsFunc p (w @ c # t) = w # FieldsFunc p t"
proof (induction w)
  case (Cons x w)
  then show ?case by (cases w) auto
qed simp

lemma dropWhile_hd_id: "(\<And>x. s \<noteq> [] \<Longrightarrow> x = hd s \<Longrightarrow> \<not> P x) \<Longrightarrow> dropWhile P s = s"
  by (cases s) auto

lemma TrimSpace_id:
  "s = [] \<or> (\<not> isSpace (hd s) \<and> \<not> isSpace (last s)) \<Longrightarrow> TrimSpace s = s"
  by (auto simp: TrimSpace_def dropWhile_hd_id hd_rev)

lemma TrimSpace_snoc: "isSpace c \<Longrightarrow> s \<noteq> [] \<Longrightarrow> \<not> isSpace (hd s) \<Longrightarrow> TrimSpace (s @ [c]) = TrimSpace s"
  by (simp add: TrimSpace_def dropWhile_hd_id)

lemma ReplaceAll_Nil [simp]: "ReplaceAll [] c new = []"
  by (simp add: ReplaceAll_def)

lemma ReplaceAll_Cons [simp]:
  "ReplaceAll (x # s) c new = (if x = c then new else [x]) @ ReplaceAll s c new"
  by (simp add: ReplaceAll_def)

lemma ReplaceAll_append [simp]: "ReplaceAll (s @ t) c new = ReplaceAll s c new @ ReplaceAll t c new"
  by (simp add: ReplaceAll_def)

lemma ReplaceAll_no_sep: "c \<notin> set s \<Longrightarrow> ReplaceAll s c new = s"
  by (induction s) auto

section \<open>Decimal numbers\<close>

definition isDigit :: "char \<Rightarrow> bool" where
  "isDigit c = (48 \<le> (of_char c :: nat) \<and> (of_char c :: nat) \<le> 57)"

definition digitVal :: "char \<Rightarrow> nat" where
  "digitVal c = of_char c - 48"

definition digitChar :: "nat \<Rightarrow> char" where
  "digitChar n = char_of (48 + n)"

fun ItoaN :: "nat \<Rightarrow> string" where
  "ItoaN n = (if n < 10 then [digitChar n] else ItoaN (n div 10) @ [digitChar (n mod 10)])"

declare ItoaN.simps [simp del]

definition Itoa :: "int \<Rightarrow> string" where
  "Itoa i = (if i < 0 then CHR ''-'' # ItoaN (nat (- i)) else ItoaN (nat i))"

definition valDigits :: "string \<Rightarrow> nat" where
  "valDigits s = foldl (\<lambda>n c. 10 * n + digitVal c) 0 s"

definition AtoiN :: "string \<Rightarrow> nat option" where
  "AtoiN s = (if s \<noteq> [] \<and> list_all isDigit s then Some (valDigits s) else None)"

text \<open>
  \<^verbatim>\<open>strconv.ParseInt(s, 10, 64)\<close>: an optional sign, digits, and the range of \<^verbatim>\<open>int64\<close>.
  \<^verbatim>\<open>strconv.Atoi\<close> is the same where \<^verbatim>\<open>int\<close> has 64 bits.
\<close>

definition inInt64 :: "int \<Rightarrow> bool" where
  "inInt64 i = (- (2 ^ 63) \<le> i \<and> i < 2 ^ 63)"

definition ParseInt :: "string \<Rightarrow> int option" where
  "ParseInt s =
     (let r = (case s of
           [] \<Rightarrow> None
         | c # t \<Rightarrow> (if c = CHR ''-'' then map_option (\<lambda>n. - int n) (AtoiN t)
                    else if c = CHR ''+'' then map_option int (AtoiN t)
                    else map_option int (AtoiN s)))
      in case r of None \<Rightarrow> None | Some i \<Rightarrow> (if inInt64 i then Some i else None))"

text \<open>The value alone, when the caller drops the error: 0 for a syntax error, else the nearest \<^verbatim>\<open>int64\<close>.\<close>

definition ParseIntV :: "string \<Rightarrow> int" where
  "ParseIntV s =
     (case s of
        [] \<Rightarrow> 0
      | c # t \<Rightarrow>
          (if c = CHR ''-'' then (case AtoiN t of None \<Rightarrow> 0 | Some n \<Rightarrow> max (- (2 ^ 63)) (- int n))
           else case AtoiN (if c = CHR ''+'' then t else s) of None \<Rightarrow> 0 | Some n \<Rightarrow> min (2 ^ 63 - 1) (int n)))"

lemma ParseIntV_Some: "ParseInt s = Some i \<Longrightarrow> ParseIntV s = i"
  by (auto simp: ParseInt_def ParseIntV_def inInt64_def Let_def split: list.splits if_splits option.splits)

lemma of_char_digitChar: "n < 10 \<Longrightarrow> (of_char (digitChar n) :: nat) = 48 + n"
  by (simp add: digitChar_def)

lemma isDigit_digitChar [simp]: "n < 10 \<Longrightarrow> isDigit (digitChar n)"
  by (simp add: isDigit_def of_char_digitChar)

lemma digitVal_digitChar [simp]: "n < 10 \<Longrightarrow> digitVal (digitChar n) = n"
  by (simp add: digitVal_def of_char_digitChar)

lemma ItoaN_not_Nil [simp]: "ItoaN n \<noteq> []"
  by (subst ItoaN.simps) simp

lemma ItoaN_digits: "list_all isDigit (ItoaN n)"
proof (induction n rule: ItoaN.induct)
  case (1 n)
  then show ?case by (subst ItoaN.simps) simp
qed

lemma valDigits_ItoaN: "valDigits (ItoaN n) = n"
proof (induction n rule: ItoaN.induct)
  case (1 n)
  show ?case
  proof (cases "n < 10")
    case True
    then show ?thesis by (subst ItoaN.simps) (simp add: valDigits_def)
  next
    case False
    with 1 show ?thesis by (subst ItoaN.simps) (simp add: valDigits_def)
  qed
qed

lemma AtoiN_ItoaN [simp]: "AtoiN (ItoaN n) = Some n"
  by (simp add: AtoiN_def ItoaN_digits valDigits_ItoaN)

lemma ItoaN_inj: "ItoaN m = ItoaN n \<longleftrightarrow> m = n"
  by (metis valDigits_ItoaN)

lemma isDigit_not_special:
  "isDigit c \<Longrightarrow> c \<noteq> CHR ''-'' \<and> c \<noteq> CHR ''+'' \<and> \<not> isSpace c"
  by (auto simp: isDigit_def isSpace_def)

lemma ItoaN_hd: "isDigit (hd (ItoaN n))"
  using ItoaN_digits [of n] by (cases "ItoaN n") auto

lemma ItoaN_chars: "c \<in> set (ItoaN n) \<Longrightarrow> isDigit c"
  using ItoaN_digits [of n] by (auto simp: list_all_iff)

lemma ParseInt_Itoa: "inInt64 i \<Longrightarrow> ParseInt (Itoa i) = Some i"
proof -
  assume i: "inInt64 i"
  obtain c t where ct: "ItoaN (nat i) = c # t" by (meson ItoaN_not_Nil neq_Nil_conv)
  then have "isDigit c" using ItoaN_hd [of "nat i"] by simp
  with i ct show ?thesis
    using AtoiN_ItoaN [of "nat i"]
    by (auto simp: ParseInt_def Itoa_def dest!: isDigit_not_special)
qed

lemma Itoa_chars: "c \<in> set (Itoa i) \<Longrightarrow> isDigit c \<or> c = CHR ''-''"
  by (auto simp: Itoa_def dest: ItoaN_chars split: if_splits)

lemma Itoa_inj: "Itoa i = Itoa j \<longleftrightarrow> i = j"
proof
  have no_minus: "ItoaN m \<noteq> CHR ''-'' # t" for m t
    using ItoaN_hd [of m] isDigit_not_special by (metis list.sel(1))
  show "Itoa i = Itoa j \<Longrightarrow> i = j"
    using no_minus no_minus [symmetric]
    by (auto simp: Itoa_def ItoaN_inj nat_eq_iff split: if_splits)
qed simp

text \<open>The same digits by integer arithmetic, which the simplifier evaluates on numerals.\<close>

function ItoaZ :: "int \<Rightarrow> string" where
  "ItoaZ i = (if i < 10 then [char_of (48 + i)] else ItoaZ (i div 10) @ [char_of (48 + i mod 10)])"
  by auto
termination by (relation "measure nat") auto

declare ItoaZ.simps [simp del, code]

lemma ItoaZ_eq: "ItoaZ (int n) = ItoaN n"
proof (induction n rule: ItoaN.induct)
  case (1 n)
  have d: "(char_of (48 + int m) :: char) = digitChar m" for m :: nat
    unfolding digitChar_def by (metis char_of_nat of_nat_add of_nat_numeral)
  show ?case
    using 1 d [of n] d [of "n mod 10"] by (simp add: ItoaN.simps [of n] ItoaZ.simps [of "int n"] zdiv_int zmod_int)
qed

lemma Itoa_code [code]: "Itoa i = (if i < 0 then CHR ''-'' # ItoaZ (- i) else ItoaZ i)"
  using ItoaZ_eq [of "nat i"] ItoaZ_eq [of "nat (- i)"] by (auto simp: Itoa_def split: if_splits)

end
