(* ===== verification/Netfilter.thy ===== *)
theory Netfilter
  imports GoStrings "HOL-Library.Multiset" "HOL-Library.AList"
begin

text \<open>
  The code that pia-tun drives and that is not part of it: the package
  \<^verbatim>\<open>go-iptables\<close> and the command \<^verbatim>\<open>ip\<close>. Both are parameters of the model: a record
  \<open>netops\<close> of operations on an opaque kernel state \<open>'k\<close>, each of which may fail.

  The locale \<open>netfilter\<close> states what the code relies on, in terms of two observations of the
  kernel: \<open>V\<close>, the rules of every chain, and \<open>R\<close>, the policy-routing rules of a family. Each
  operation either succeeds with its documented effect or fails; a failing operation leaves
  both observations as they were (but for \<open>ClearAndDeleteChain\<close>, which may have flushed). The
  locale \<open>netfilter_host\<close> adds that on a healthy host an operation fails only for a documented
  reason. A reference kernel with fault injection interprets both; it is what the witnesses of
  the development run on.
\<close>

section \<open>The interface\<close>

datatype family = IPv4 | IPv6

text \<open>Both families, for the library's quantifiers and equality of maps over them.\<close>

instantiation family :: enum
begin

definition enum_family :: "family list" where
  "enum_family = [IPv4, IPv6]"

definition enum_all_family :: "(family \<Rightarrow> bool) \<Rightarrow> bool" where
  "enum_all_family P = (P IPv4 \<and> P IPv6)"

definition enum_ex_family :: "(family \<Rightarrow> bool) \<Rightarrow> bool" where
  "enum_ex_family P = (P IPv4 \<or> P IPv6)"

instance
proof
  show "(UNIV :: family set) = set enum_class.enum"
    by (auto simp: enum_family_def intro: family.exhaust)
  show "enum_class.enum_all P = Ball UNIV P" for P :: "family \<Rightarrow> bool"
    unfolding enum_all_family_def by (metis (full_types) UNIV_I family.exhaust)
  show "enum_class.enum_ex P = Bex UNIV P" for P :: "family \<Rightarrow> bool"
    unfolding enum_ex_family_def by (metis (full_types) UNIV_I family.exhaust)
qed (simp_all add: enum_family_def)

end

text \<open>A rule is the argument list given to iptables; a chain is named by family, table and name.\<close>

type_synonym spec = "string list"
type_synonym chainid = "family \<times> string \<times> string"
type_synonym chains = "chainid \<Rightarrow> spec list option"
type_synonym iprules = "family \<Rightarrow> (nat \<times> string list) multiset"

record 'k netops =
  nNewChain :: "family \<Rightarrow> string \<Rightarrow> string \<Rightarrow> 'k \<Rightarrow> err option \<times> 'k"
  nAppend :: "family \<Rightarrow> string \<Rightarrow> string \<Rightarrow> spec \<Rightarrow> 'k \<Rightarrow> err option \<times> 'k"
  nInsert :: "family \<Rightarrow> string \<Rightarrow> string \<Rightarrow> nat \<Rightarrow> spec \<Rightarrow> 'k \<Rightarrow> err option \<times> 'k"
  nDelete :: "family \<Rightarrow> string \<Rightarrow> string \<Rightarrow> spec \<Rightarrow> 'k \<Rightarrow> err option \<times> 'k"
  nClearAndDeleteChain :: "family \<Rightarrow> string \<Rightarrow> string \<Rightarrow> 'k \<Rightarrow> err option \<times> 'k"
  nList :: "family \<Rightarrow> string \<Rightarrow> string \<Rightarrow> 'k \<Rightarrow> (err + string list) \<times> 'k"
  nRun :: "string list \<Rightarrow> 'k \<Rightarrow> err option \<times> 'k"
  nOutput :: "string list \<Rightarrow> 'k \<Rightarrow> (err + string) \<times> 'k"

text \<open>A world with a kernel; every component's state extends it.\<close>

record 'k net =
  kern :: 'k

definition runK :: "('k \<Rightarrow> err option \<times> 'k) \<Rightarrow> (('k, 'm) net_scheme, unit) prog" where
  "runK c w = (case c (kern w) of
       (None, k) \<Rightarrow> Some (Inr (), w\<lparr>kern := k\<rparr>)
     | (Some e, k) \<Rightarrow> Some (Inl e, w\<lparr>kern := k\<rparr>))"

definition outK :: "('k \<Rightarrow> (err + 'a) \<times> 'k) \<Rightarrow> (('k, 'm) net_scheme, 'a) prog" where
  "outK c w = (case c (kern w) of (r, k) \<Rightarrow> Some (r, w\<lparr>kern := k\<rparr>))"

lemma wp_runK:
  assumes "\<And>k'. c (kern w) = (None, k') \<Longrightarrow> Q (Inr ()) (w\<lparr>kern := k'\<rparr>)"
    and "\<And>e k'. c (kern w) = (Some e, k') \<Longrightarrow> Q (Inl e) (w\<lparr>kern := k'\<rparr>)"
  shows "wp (runK c) Q w"
  using assms by (auto simp: wp_def runK_def split: prod.splits option.splits)

lemma wp_outK:
  assumes "\<And>r k'. c (kern w) = (r, k') \<Longrightarrow> Q r (w\<lparr>kern := k'\<rparr>)"
  shows "wp (outK c) Q w"
  using assms by (auto simp: wp_def outK_def split: prod.splits)

text \<open>The jump target of a rule: what follows \<^verbatim>\<open>-j\<close> at its end.\<close>

definition target :: "spec \<Rightarrow> string option" where
  "target s = (case rev s of t # j # _ \<Rightarrow> (if j = ''-j'' then Some t else None) | _ \<Rightarrow> None)"

lemma target_app [simp]: "target (m @ [''-j'', t]) = Some t"
  by (simp add: target_def)

text \<open>What \<^verbatim>\<open>iptables -S\<close> prints for a rule: \<^verbatim>\<open>-A\<close>, the chain, the matches, the target.\<close>

definition is_rule_line :: "string \<Rightarrow> spec \<Rightarrow> string \<Rightarrow> bool" where
  "is_rule_line c s l = (prefix (''-A '' @ c) l \<and> (\<forall>t. target s = Some t \<longrightarrow> suffix ('' -j '' @ t) l))"

text \<open>The family switch of the command \<^verbatim>\<open>ip\<close>.\<close>

fun famArgs :: "family \<Rightarrow> string list" where
  "famArgs IPv4 = []"
| "famArgs IPv6 = [''-6'']"

section \<open>What the code relies on\<close>

locale netfilter =
  fixes N :: "'k netops"
    and V :: "'k \<Rightarrow> chains"
    and R :: "'k \<Rightarrow> iprules"
  assumes new_ok: "nNewChain N f t c k = (None, k') \<Longrightarrow>
      V k (f, t, c) = None \<and> V k' = (V k)((f, t, c) \<mapsto> []) \<and> R k' = R k"
    and new_err: "nNewChain N f t c k = (Some e, k') \<Longrightarrow> V k' = V k \<and> R k' = R k"
    and append_ok: "nAppend N f t c s k = (None, k') \<Longrightarrow>
      \<exists>rs. V k (f, t, c) = Some rs \<and> V k' = (V k)((f, t, c) \<mapsto> rs @ [s]) \<and> R k' = R k"
    and append_err: "nAppend N f t c s k = (Some e, k') \<Longrightarrow> V k' = V k \<and> R k' = R k"
    and insert_ok: "nInsert N f t c n s k = (None, k') \<Longrightarrow>
      \<exists>rs. V k (f, t, c) = Some rs \<and> 1 \<le> n \<and> n \<le> Suc (length rs) \<and>
        V k' = (V k)((f, t, c) \<mapsto> take (n - 1) rs @ s # drop (n - 1) rs) \<and> R k' = R k"
    and insert_err: "nInsert N f t c n s k = (Some e, k') \<Longrightarrow> V k' = V k \<and> R k' = R k"
    and delete_ok: "nDelete N f t c s k = (None, k') \<Longrightarrow>
      \<exists>rs. V k (f, t, c) = Some rs \<and> s \<in> set rs \<and>
        V k' = (V k)((f, t, c) \<mapsto> remove1 s rs) \<and> R k' = R k"
    and delete_err: "nDelete N f t c s k = (Some e, k') \<Longrightarrow> V k' = V k \<and> R k' = R k"
    and clear_ok: "nClearAndDeleteChain N f t c k = (None, k') \<Longrightarrow>
      V k' = (V k)((f, t, c) := None) \<and> R k' = R k"
    and clear_err: "nClearAndDeleteChain N f t c k = (Some e, k') \<Longrightarrow>
      (V k' = V k \<or> (\<exists>rs. V k (f, t, c) = Some rs \<and> V k' = (V k)((f, t, c) \<mapsto> []))) \<and> R k' = R k"
    and list_ok: "nList N f t c k = (Inr ls, k') \<Longrightarrow>
      (\<exists>rs hdr lines. V k (f, t, c) = Some rs \<and> ls = hdr # lines \<and>
        \<not> prefix ''-A '' hdr \<and> \<not> sublist ''-j '' hdr \<and> list_all2 (is_rule_line c) rs lines) \<and>
      V k' = V k \<and> R k' = R k"
    and list_err: "nList N f t c k = (Inl e, k') \<Longrightarrow> V k' = V k \<and> R k' = R k"
    and rule_add_ok: "nRun N ([''ip''] @ famArgs f @ [''rule'', ''add''] @ sel @ [''priority'', ItoaN p]) k = (None, k') \<Longrightarrow>
      sel \<noteq> [] \<Longrightarrow> (p, sel) \<notin># R k f \<and> R k' = (R k)(f := add_mset (p, sel) (R k f)) \<and> V k' = V k"
    and rule_add_err: "nRun N ([''ip''] @ famArgs f @ [''rule'', ''add''] @ sel @ [''priority'', ItoaN p]) k = (Some e, k') \<Longrightarrow>
      sel \<noteq> [] \<Longrightarrow> R k' = R k \<and> V k' = V k"
    and rule_del_ok: "nRun N ([''ip''] @ famArgs f @ [''rule'', d, pw, ItoaN p]) k = (None, k') \<Longrightarrow>
      d \<in> {''del'', ''delete''} \<Longrightarrow> pw \<in> {''priority'', ''prio''} \<Longrightarrow>
      \<exists>sel. (p, sel) \<in># R k f \<and> R k' = (R k)(f := R k f - {#(p, sel)#}) \<and> V k' = V k"
    and rule_del_err: "nRun N ([''ip''] @ famArgs f @ [''rule'', d, pw, ItoaN p]) k = (Some e, k') \<Longrightarrow>
      d \<in> {''del'', ''delete''} \<Longrightarrow> pw \<in> {''priority'', ''prio''} \<Longrightarrow> R k' = R k \<and> V k' = V k"
    and rule_del_sel_ok: "nRun N ([''ip''] @ famArgs f @ [''rule'', ''del''] @ sel @ [''priority'', ItoaN p]) k = (None, k') \<Longrightarrow>
      sel \<noteq> [] \<Longrightarrow> (p, sel) \<in># R k f \<and> R k' = (R k)(f := R k f - {#(p, sel)#}) \<and> V k' = V k"
    and rule_del_sel_err: "nRun N ([''ip''] @ famArgs f @ [''rule'', ''del''] @ sel @ [''priority'', ItoaN p]) k = (Some e, k') \<Longrightarrow>
      sel \<noteq> [] \<Longrightarrow> R k' = R k \<and> V k' = V k"
    and route_show: "nOutput N [''ip'', x, ''route'', ''show'', y, z] k = (r, k') \<Longrightarrow> V k' = V k \<and> R k' = R k"

text \<open>
  A healthy host: while \<open>H\<close> holds an operation fails only when what it names is missing (or, for
  \<^verbatim>\<open>ip rule add\<close>, already there), and \<open>H\<close> keeps holding.
\<close>

locale netfilter_host = netfilter N V R
  for N :: "'k netops" and V :: "'k \<Rightarrow> chains" and R :: "'k \<Rightarrow> iprules" +
  fixes H :: "'k \<Rightarrow> bool"
  assumes new_succ: "H k \<Longrightarrow> nNewChain N f t c k = (x, k') \<Longrightarrow> H k' \<and> (V k (f, t, c) = None \<longrightarrow> x = None)"
    and append_succ: "H k \<Longrightarrow> nAppend N f t c s k = (x, k') \<Longrightarrow> H k' \<and> (V k (f, t, c) \<noteq> None \<longrightarrow> x = None)"
    and insert_succ: "H k \<Longrightarrow> nInsert N f t c n s k = (x, k') \<Longrightarrow>
      H k' \<and> (\<forall>rs. V k (f, t, c) = Some rs \<and> 1 \<le> n \<and> n \<le> Suc (length rs) \<longrightarrow> x = None)"
    and delete_succ: "H k \<Longrightarrow> nDelete N f t c s k = (x, k') \<Longrightarrow>
      H k' \<and> (\<forall>rs. V k (f, t, c) = Some rs \<and> s \<in> set rs \<longrightarrow> x = None)"
    and clear_succ: "H k \<Longrightarrow> nClearAndDeleteChain N f t c k = (x, k') \<Longrightarrow>
      H k' \<and> ((\<forall>c' rs s. V k (f, t, c') = Some rs \<longrightarrow> s \<in> set rs \<longrightarrow> target s \<noteq> Some c) \<longrightarrow> x = None)"
    and list_succ: "H k \<Longrightarrow> nList N f t c k = (y, k') \<Longrightarrow> H k' \<and> (V k (f, t, c) \<noteq> None \<longrightarrow> (\<exists>ls. y = Inr ls))"
    and rule_add_succ: "H k \<Longrightarrow>
      nRun N ([''ip''] @ famArgs f @ [''rule'', ''add''] @ sel @ [''priority'', ItoaN p]) k = (x, k') \<Longrightarrow>
      sel \<noteq> [] \<Longrightarrow> H k' \<and> ((p, sel) \<notin># R k f \<longrightarrow> x = None)"
    and rule_del_succ: "H k \<Longrightarrow> nRun N ([''ip''] @ famArgs f @ [''rule'', d, pw, ItoaN p]) k = (x, k') \<Longrightarrow>
      d \<in> {''del'', ''delete''} \<Longrightarrow> pw \<in> {''priority'', ''prio''} \<Longrightarrow>
      H k' \<and> ((\<exists>sel. (p, sel) \<in># R k f) \<longrightarrow> x = None)"
    and rule_del_sel_succ: "H k \<Longrightarrow>
      nRun N ([''ip''] @ famArgs f @ [''rule'', ''del''] @ sel @ [''priority'', ItoaN p]) k = (x, k') \<Longrightarrow>
      sel \<noteq> [] \<Longrightarrow> H k' \<and> ((p, sel) \<in># R k f \<longrightarrow> x = None)"
    and show_succ: "H k \<Longrightarrow> nOutput N [''ip'', a, ''route'', ''show'', b, c] k = (z, k') \<Longrightarrow> H k'"

section \<open>The operations as programs\<close>

text \<open>The rules of the calculus for each operation, in terms of the two observations.\<close>

context netfilter
begin

lemma wp_new [wp_intros]:
  assumes "\<And>k'. V (kern w) (f, t, c) = None \<Longrightarrow> V k' = (V (kern w))((f, t, c) \<mapsto> []) \<Longrightarrow>
      R k' = R (kern w) \<Longrightarrow> Q (Inr ()) (w\<lparr>kern := k'\<rparr>)"
    and "\<And>e k'. V k' = V (kern w) \<Longrightarrow> R k' = R (kern w) \<Longrightarrow> Q (Inl e) (w\<lparr>kern := k'\<rparr>)"
  shows "wp (runK (nNewChain N f t c)) Q w"
  by (rule wp_runK) (auto intro: assms dest!: new_ok new_err)

lemma wp_append [wp_intros]:
  assumes "\<And>k' rs. V (kern w) (f, t, c) = Some rs \<Longrightarrow> V k' = (V (kern w))((f, t, c) \<mapsto> rs @ [s]) \<Longrightarrow>
      R k' = R (kern w) \<Longrightarrow> Q (Inr ()) (w\<lparr>kern := k'\<rparr>)"
    and "\<And>e k'. V k' = V (kern w) \<Longrightarrow> R k' = R (kern w) \<Longrightarrow> Q (Inl e) (w\<lparr>kern := k'\<rparr>)"
  shows "wp (runK (nAppend N f t c s)) Q w"
  by (rule wp_runK) (auto intro: assms dest!: append_ok append_err)

lemma wp_insert [wp_intros]:
  assumes "\<And>k' rs. V (kern w) (f, t, c) = Some rs \<Longrightarrow> 1 \<le> n \<Longrightarrow> n \<le> Suc (length rs) \<Longrightarrow>
      V k' = (V (kern w))((f, t, c) \<mapsto> take (n - 1) rs @ s # drop (n - 1) rs) \<Longrightarrow>
      R k' = R (kern w) \<Longrightarrow> Q (Inr ()) (w\<lparr>kern := k'\<rparr>)"
    and "\<And>e k'. V k' = V (kern w) \<Longrightarrow> R k' = R (kern w) \<Longrightarrow> Q (Inl e) (w\<lparr>kern := k'\<rparr>)"
  shows "wp (runK (nInsert N f t c n s)) Q w"
  by (rule wp_runK) (auto intro: assms dest!: insert_ok insert_err)

lemma wp_delete [wp_intros]:
  assumes "\<And>k' rs. V (kern w) (f, t, c) = Some rs \<Longrightarrow> s \<in> set rs \<Longrightarrow>
      V k' = (V (kern w))((f, t, c) \<mapsto> remove1 s rs) \<Longrightarrow>
      R k' = R (kern w) \<Longrightarrow> Q (Inr ()) (w\<lparr>kern := k'\<rparr>)"
    and "\<And>e k'. V k' = V (kern w) \<Longrightarrow> R k' = R (kern w) \<Longrightarrow> Q (Inl e) (w\<lparr>kern := k'\<rparr>)"
  shows "wp (runK (nDelete N f t c s)) Q w"
  by (rule wp_runK) (auto intro: assms dest!: delete_ok delete_err)

lemma wp_clear [wp_intros]:
  assumes "\<And>k'. V k' = (V (kern w))((f, t, c) := None) \<Longrightarrow> R k' = R (kern w) \<Longrightarrow>
      Q (Inr ()) (w\<lparr>kern := k'\<rparr>)"
    and "\<And>e k'. V k' = V (kern w) \<Longrightarrow> R k' = R (kern w) \<Longrightarrow> Q (Inl e) (w\<lparr>kern := k'\<rparr>)"
    and "\<And>e k' rs. V (kern w) (f, t, c) = Some rs \<Longrightarrow> V k' = (V (kern w))((f, t, c) \<mapsto> []) \<Longrightarrow>
      R k' = R (kern w) \<Longrightarrow> Q (Inl e) (w\<lparr>kern := k'\<rparr>)"
  shows "wp (runK (nClearAndDeleteChain N f t c)) Q w"
  by (rule wp_runK) (auto intro: assms dest!: clear_ok clear_err)

lemma wp_list [wp_intros]:
  assumes "\<And>k' rs hdr lines. V (kern w) (f, t, c) = Some rs \<Longrightarrow> \<not> prefix ''-A '' hdr \<Longrightarrow>
      \<not> sublist ''-j '' hdr \<Longrightarrow> list_all2 (is_rule_line c) rs lines \<Longrightarrow> V k' = V (kern w) \<Longrightarrow>
      R k' = R (kern w) \<Longrightarrow> Q (Inr (hdr # lines)) (w\<lparr>kern := k'\<rparr>)"
    and "\<And>e k'. V k' = V (kern w) \<Longrightarrow> R k' = R (kern w) \<Longrightarrow> Q (Inl e) (w\<lparr>kern := k'\<rparr>)"
  shows "wp (outK (nList N f t c)) Q w"
proof (rule wp_outK)
  fix r k' assume *: "nList N f t c (kern w) = (r, k')"
  show "Q r (w\<lparr>kern := k'\<rparr>)"
    using * by (cases r) (auto intro: assms dest!: list_ok list_err)
qed

lemma wp_route_show [wp_intros]:
  assumes "\<And>r k'. V k' = V (kern w) \<Longrightarrow> R k' = R (kern w) \<Longrightarrow> Q r (w\<lparr>kern := k'\<rparr>)"
  shows "wp (outK (nOutput N [''ip'', x, ''route'', ''show'', y, z])) Q w"
  by (rule wp_outK) (auto intro: assms dest!: route_show)

lemma wp_rule_add:
  assumes "sel \<noteq> []"
    and "\<And>k'. (p, sel) \<notin># R (kern w) f \<Longrightarrow> V k' = V (kern w) \<Longrightarrow>
      R k' = (R (kern w))(f := add_mset (p, sel) (R (kern w) f)) \<Longrightarrow> Q (Inr ()) (w\<lparr>kern := k'\<rparr>)"
    and "\<And>e k'. V k' = V (kern w) \<Longrightarrow> R k' = R (kern w) \<Longrightarrow> Q (Inl e) (w\<lparr>kern := k'\<rparr>)"
  shows "wp (runK (nRun N ([''ip''] @ famArgs f @ [''rule'', ''add''] @ sel @ [''priority'', ItoaN p]))) Q w"
  by (rule wp_runK; (drule rule_add_ok [OF _ assms(1)] | drule rule_add_err [OF _ assms(1)]))
    (auto intro: assms)

lemma wp_rule_del_sel:
  assumes "sel \<noteq> []"
    and "\<And>k'. (p, sel) \<in># R (kern w) f \<Longrightarrow> V k' = V (kern w) \<Longrightarrow>
      R k' = (R (kern w))(f := R (kern w) f - {#(p, sel)#}) \<Longrightarrow> Q (Inr ()) (w\<lparr>kern := k'\<rparr>)"
    and "\<And>e k'. V k' = V (kern w) \<Longrightarrow> R k' = R (kern w) \<Longrightarrow> Q (Inl e) (w\<lparr>kern := k'\<rparr>)"
  shows "wp (runK (nRun N ([''ip''] @ famArgs f @ [''rule'', ''del''] @ sel @ [''priority'', ItoaN p]))) Q w"
  by (rule wp_runK; (drule rule_del_sel_ok [OF _ assms(1)] | drule rule_del_sel_err [OF _ assms(1)]))
    (auto intro: assms)

end

context netfilter_host
begin

lemma wp_new_host:
  assumes "H (kern w)" and "V (kern w) (f, t, c) = None"
    and "\<And>k'. H k' \<Longrightarrow> V k' = (V (kern w))((f, t, c) \<mapsto> []) \<Longrightarrow> R k' = R (kern w) \<Longrightarrow> Q (Inr ()) (w\<lparr>kern := k'\<rparr>)"
  shows "wp (runK (nNewChain N f t c)) Q w"
proof (rule wp_runK)
  fix k' assume *: "nNewChain N f t c (kern w) = (None, k')"
  then show "Q (Inr ()) (w\<lparr>kern := k'\<rparr>)"
    using new_ok [OF *] new_succ [OF assms(1) *] by (intro assms(3)) auto
next
  fix e k' assume *: "nNewChain N f t c (kern w) = (Some e, k')"
  then show "Q (Inl e) (w\<lparr>kern := k'\<rparr>)"
    using new_succ [OF assms(1) *] assms(2) by auto
qed

lemma wp_append_host:
  assumes "H (kern w)" and "V (kern w) (f, t, c) = Some rs"
    and "\<And>k'. H k' \<Longrightarrow> V k' = (V (kern w))((f, t, c) \<mapsto> rs @ [s]) \<Longrightarrow> R k' = R (kern w) \<Longrightarrow> Q (Inr ()) (w\<lparr>kern := k'\<rparr>)"
  shows "wp (runK (nAppend N f t c s)) Q w"
proof (rule wp_runK)
  fix k' assume *: "nAppend N f t c s (kern w) = (None, k')"
  then show "Q (Inr ()) (w\<lparr>kern := k'\<rparr>)"
    using append_ok [OF *] append_succ [OF assms(1) *] assms(2) by (intro assms(3)) auto
next
  fix e k' assume *: "nAppend N f t c s (kern w) = (Some e, k')"
  then show "Q (Inl e) (w\<lparr>kern := k'\<rparr>)"
    using append_succ [OF assms(1) *] assms(2) by auto
qed

lemma wp_insert_host:
  assumes "H (kern w)" and "V (kern w) (f, t, c) = Some rs" and "1 \<le> n" and "n \<le> Suc (length rs)"
    and "\<And>k'. H k' \<Longrightarrow> V k' = (V (kern w))((f, t, c) \<mapsto> take (n - 1) rs @ s # drop (n - 1) rs) \<Longrightarrow>
      R k' = R (kern w) \<Longrightarrow> Q (Inr ()) (w\<lparr>kern := k'\<rparr>)"
  shows "wp (runK (nInsert N f t c n s)) Q w"
proof (rule wp_runK)
  fix k' assume "nInsert N f t c n s (kern w) = (None, k')"
  then show "Q (Inr ()) (w\<lparr>kern := k'\<rparr>)"
    using insert_ok [of f t c n s "kern w" k'] insert_succ [OF assms(1), of f t c n s None k'] assms(2)
    by (intro assms(5)) auto
next
  fix e k' assume "nInsert N f t c n s (kern w) = (Some e, k')"
  then show "Q (Inl e) (w\<lparr>kern := k'\<rparr>)"
    using insert_succ [OF assms(1), of f t c n s "Some e" k'] assms(2-4) by auto
qed

lemma wp_append_host':
  assumes "H (kern w)" and "V (kern w) (f, t, c) \<noteq> None"
    and "\<And>k'. H k' \<Longrightarrow> V k' = (V (kern w))((f, t, c) \<mapsto> the (V (kern w) (f, t, c)) @ [s]) \<Longrightarrow> R k' = R (kern w) \<Longrightarrow>
      Q (Inr ()) (w\<lparr>kern := k'\<rparr>)"
  shows "wp (runK (nAppend N f t c s)) Q w"
proof -
  from assms(2) obtain rs where rs: "V (kern w) (f, t, c) = Some rs" by auto
  show ?thesis by (rule wp_append_host [OF assms(1) rs]) (use assms(3) rs in simp)
qed

lemma wp_insert_host':
  assumes "H (kern w)" and "V (kern w) (f, t, c) \<noteq> None" and "1 \<le> n" and "n \<le> Suc (length (the (V (kern w) (f, t, c))))"
    and "\<And>k'. H k' \<Longrightarrow> V k' = (V (kern w))((f, t, c) \<mapsto>
      take (n - 1) (the (V (kern w) (f, t, c))) @ s # drop (n - 1) (the (V (kern w) (f, t, c)))) \<Longrightarrow>
      R k' = R (kern w) \<Longrightarrow> Q (Inr ()) (w\<lparr>kern := k'\<rparr>)"
  shows "wp (runK (nInsert N f t c n s)) Q w"
proof -
  from assms(2) obtain rs where rs: "V (kern w) (f, t, c) = Some rs" by auto
  show ?thesis by (rule wp_insert_host [OF assms(1) rs assms(3)]) (use assms(4,5) rs in simp_all)
qed

text \<open>A deletion takes the rule away if it is there, and fails otherwise.\<close>

lemma wp_delete_host:
  assumes "H (kern w)" and "V (kern w) (f, t, c) = Some rs"
    and "\<And>r k'. H k' \<Longrightarrow> V k' = (V (kern w))((f, t, c) \<mapsto> remove1 s rs) \<Longrightarrow> R k' = R (kern w) \<Longrightarrow>
      Q r (w\<lparr>kern := k'\<rparr>)"
  shows "wp (runK (nDelete N f t c s)) Q w"
proof (rule wp_runK)
  fix k' assume *: "nDelete N f t c s (kern w) = (None, k')"
  then show "Q (Inr ()) (w\<lparr>kern := k'\<rparr>)"
    using delete_ok [OF *] delete_succ [OF assms(1) *] assms(2) by (intro assms(3)) auto
next
  fix e k' assume *: "nDelete N f t c s (kern w) = (Some e, k')"
  have "s \<notin> set rs" using delete_succ [OF assms(1) *] assms(2) by auto
  then show "Q (Inl e) (w\<lparr>kern := k'\<rparr>)"
    using delete_err [OF *] delete_succ [OF assms(1) *] assms(2)
    by (intro assms(3)) (auto simp: remove1_idem fun_upd_idem)
qed

lemma wp_clear_host:
  assumes "H (kern w)" and "\<And>c' rs s. V (kern w) (f, t, c') = Some rs \<Longrightarrow> s \<in> set rs \<Longrightarrow> target s \<noteq> Some c"
    and "\<And>k'. H k' \<Longrightarrow> V k' = (V (kern w))((f, t, c) := None) \<Longrightarrow> R k' = R (kern w) \<Longrightarrow> Q (Inr ()) (w\<lparr>kern := k'\<rparr>)"
  shows "wp (runK (nClearAndDeleteChain N f t c)) Q w"
proof (rule wp_runK)
  fix k' assume *: "nClearAndDeleteChain N f t c (kern w) = (None, k')"
  then show "Q (Inr ()) (w\<lparr>kern := k'\<rparr>)"
    using clear_ok [OF *] clear_succ [OF assms(1) *] by (intro assms(3)) auto
next
  fix e k' assume *: "nClearAndDeleteChain N f t c (kern w) = (Some e, k')"
  then show "Q (Inl e) (w\<lparr>kern := k'\<rparr>)"
    using clear_succ [OF assms(1) *] assms(2) by auto
qed

lemma wp_list_host:
  assumes "H (kern w)" and "V (kern w) (f, t, c) = Some rs"
    and "\<And>k' hdr lines. H k' \<Longrightarrow> \<not> prefix ''-A '' hdr \<Longrightarrow> \<not> sublist ''-j '' hdr \<Longrightarrow>
      list_all2 (is_rule_line c) rs lines \<Longrightarrow> V k' = V (kern w) \<Longrightarrow> R k' = R (kern w) \<Longrightarrow>
      Q (Inr (hdr # lines)) (w\<lparr>kern := k'\<rparr>)"
  shows "wp (outK (nList N f t c)) Q w"
proof (rule wp_outK)
  fix r k' assume *: "nList N f t c (kern w) = (r, k')"
  have s: "H k' \<and> (\<exists>ls. r = Inr ls)" using list_succ [OF assms(1) *] assms(2) by auto
  then obtain ls where r: "r = Inr ls" by auto
  show "Q r (w\<lparr>kern := k'\<rparr>)"
    using list_ok [of f t c "kern w" ls k'] * s r assms(2,3) by fastforce
qed

lemma wp_show_host:
  assumes "H (kern w)"
    and "\<And>r k'. H k' \<Longrightarrow> V k' = V (kern w) \<Longrightarrow> R k' = R (kern w) \<Longrightarrow> Q r (w\<lparr>kern := k'\<rparr>)"
  shows "wp (outK (nOutput N [''ip'', x, ''route'', ''show'', y, z])) Q w"
  by (rule wp_outK) (auto intro!: assms dest: route_show show_succ [OF assms(1)])

lemma wp_any_host:
  assumes "H (kern w)" and "\<And>r k'. H k' \<Longrightarrow> Q r (w\<lparr>kern := k'\<rparr>)"
  shows "wp (runK (nAppend N f t c s)) Q w" "wp (runK (nDelete N f t c s)) Q w"
  by (rule wp_runK; auto intro!: assms dest: append_succ [OF assms(1)] delete_succ [OF assms(1)])+

end

end
