(* ===== verification/Firewall.thy ===== *)
theory Firewall
  imports Netfilter
begin

text \<open>
  The iptables side of \<^verbatim>\<open>internal/firewall\<close>: the four chains and their baseline
  (\<^verbatim>\<open>chains.go\<close>), temporary exemptions, the VPN interface rules and the forwarded port
  (\<^verbatim>\<open>vpnrules.go\<close>), MSS clamping (\<^verbatim>\<open>mss.go\<close>) and the rules of the WAN-check bypass
  (\<^verbatim>\<open>bypass.go\<close>). Log lines are not modelled.
\<close>

section \<open>State and names\<close>

record 'k fw = "'k net" +
  ipt4Cmd :: string
  ipt6Cmd :: string
  active :: bool
  activePort :: int

definition tableFilter :: string where "tableFilter = ''filter''"
definition tableMangle :: string where "tableMangle = ''mangle''"
definition ChainIn :: string where "ChainIn = ''VPN_IN''"
definition ChainOut :: string where "ChainOut = ''VPN_OUT''"
definition chainIn6 :: string where "chainIn6 = ''VPN_IN6''"
definition chainOut6 :: string where "chainOut6 = ''VPN_OUT6''"
definition chainExempt :: string where "chainExempt = ''VPN_EXEMPTIONS''"
definition fwmark :: string where "fwmark = ''51820''"
definition vpnInsertPos :: nat where "vpnInsertPos = 3"
definition portInsertPos :: nat where "portInsertPos = 3"

lemmas names = tableFilter_def tableMangle_def ChainIn_def ChainOut_def chainIn6_def chainOut6_def
  chainExempt_def fwmark_def vpnInsertPos_def portInsertPos_def

text \<open>The rules the code writes.\<close>

definition estSpec :: spec where
  "estSpec = [''-m'', ''conntrack'', ''--ctstate'', ''ESTABLISHED,RELATED'', ''-j'', ''ACCEPT'']"

definition dropSpec :: spec where
  "dropSpec = [''-j'', ''DROP'']"

record chainDef =
  cdName :: string
  cdParent :: string
  cdIpt :: family
  cdLoFlag :: string

definition chainDefs :: "chainDef list" where
  "chainDefs = [
     \<lparr>cdName = ChainIn, cdParent = ''INPUT'', cdIpt = IPv4, cdLoFlag = ''-i''\<rparr>,
     \<lparr>cdName = ChainOut, cdParent = ''OUTPUT'', cdIpt = IPv4, cdLoFlag = ''-o''\<rparr>,
     \<lparr>cdName = chainIn6, cdParent = ''INPUT'', cdIpt = IPv6, cdLoFlag = ''-i''\<rparr>,
     \<lparr>cdName = chainOut6, cdParent = ''OUTPUT'', cdIpt = IPv6, cdLoFlag = ''-o''\<rparr>]"

section \<open>The baseline (chains.go)\<close>

definition cleanupChain :: "'k netops \<Rightarrow> chainDef \<Rightarrow> (('k, 'm) net_scheme, unit) prog" where
  "cleanupChain N c = bindP (ignoreP (runK (nDelete N (cdIpt c) tableFilter (cdParent c) [''-j'', cdName c])))
     (\<lambda>_. ignoreP (runK (nClearAndDeleteChain N (cdIpt c) tableFilter (cdName c))))"

definition cleanupChains :: "'k netops \<Rightarrow> (('k, 'm) net_scheme, unit) prog" where
  "cleanupChains N = forP chainDefs (cleanupChain N)"

definition setupBaselineChain :: "'k netops \<Rightarrow> chainDef \<Rightarrow> (('k, 'm) net_scheme, unit) prog" where
  "setupBaselineChain N c =
     bindP (wrapErr (''create '' @ cdName c) (runK (nNewChain N (cdIpt c) tableFilter (cdName c)))) (\<lambda>_.
     bindP (wrapErr (cdName c @ '': append established/related'')
       (runK (nAppend N (cdIpt c) tableFilter (cdName c) estSpec))) (\<lambda>_.
     bindP (wrapErr (cdName c @ '': append loopback'')
       (runK (nAppend N (cdIpt c) tableFilter (cdName c) [cdLoFlag c, ''lo'', ''-j'', ''ACCEPT'']))) (\<lambda>_.
     bindP (wrapErr (cdName c @ '': append DROP'')
       (runK (nAppend N (cdIpt c) tableFilter (cdName c) dropSpec))) (\<lambda>_.
     wrapErr (''insert '' @ cdName c @ '' into '' @ cdParent c)
       (runK (nInsert N (cdIpt c) tableFilter (cdParent c) 1 [''-j'', cdName c]))))))"

definition setupBaselineChains :: "'k netops \<Rightarrow> (('k, 'm) net_scheme, unit) prog" where
  "setupBaselineChains N = bindP (cleanupChains N) (\<lambda>_. forP chainDefs (setupBaselineChain N))"

definition ruleCount :: "'k netops \<Rightarrow> family \<Rightarrow> string \<Rightarrow> (('k, 'm) net_scheme, nat) prog" where
  "ruleCount N f chain =
     bindP (wrapErr (''list '' @ chain @ '' rules'') (outK (nList N f tableFilter chain))) (\<lambda>rules.
       let count = length (filter (\<lambda>rule. HasPrefix rule ''-A '') rules)
       in if count = 0 then throw (Errorf (''chain '' @ chain @ '' has no rules'') []) else ret count)"

definition insertBeforeDrop :: "'k netops \<Rightarrow> family \<Rightarrow> string \<Rightarrow> spec \<Rightarrow> (('k, 'm) net_scheme, unit) prog" where
  "insertBeforeDrop N f chain s =
     bindP (ruleCount N f chain) (\<lambda>pos. runK (nInsert N f tableFilter chain pos s))"

definition chainHasDrop :: "'k netops \<Rightarrow> family \<Rightarrow> string \<Rightarrow> (('k, 'm) net_scheme, bool) prog" where
  "chainHasDrop N f chain = bindP (tryP (outK (nList N f tableFilter chain))) (\<lambda>r. case r of
       Inl _ \<Rightarrow> ret False
     | Inr rules \<Rightarrow> ret (list_ex (\<lambda>rule. HasSuffix rule ''-j DROP'') rules))"

definition chainIsInParent :: "'k netops \<Rightarrow> family \<Rightarrow> string \<Rightarrow> string \<Rightarrow> (('k, 'm) net_scheme, bool) prog" where
  "chainIsInParent N f parent child = bindP (tryP (outK (nList N f tableFilter parent))) (\<lambda>r. case r of
       Inl _ \<Rightarrow> ret False
     | Inr rules \<Rightarrow> ret (list_ex (\<lambda>rule. Contains rule (''-j '' @ child)) rules))"

definition checkChainsPresent :: "'k netops \<Rightarrow> (('k, 'm) net_scheme, bool) prog" where
  "checkChainsPresent N =
     andP (chainHasDrop N IPv4 ChainIn) (andP (chainIsInParent N IPv4 ''INPUT'' ChainIn)
    (andP (chainHasDrop N IPv4 ChainOut) (andP (chainIsInParent N IPv4 ''OUTPUT'' ChainOut)
    (andP (chainHasDrop N IPv6 chainIn6) (andP (chainIsInParent N IPv6 ''INPUT'' chainIn6)
    (andP (chainHasDrop N IPv6 chainOut6) (chainIsInParent N IPv6 ''OUTPUT'' chainOut6)))))))"

text \<open>The attempts left; between two of them the code sleeps.\<close>

fun verifyAttempts :: "'k netops \<Rightarrow> nat \<Rightarrow> (('k, 'm) net_scheme, unit) prog" where
  "verifyAttempts N 0 = throw (Errorf ''killswitch verification failed'' [])"
| "verifyAttempts N (Suc n) =
     bindP (checkChainsPresent N) (\<lambda>ok. if ok then ret () else verifyAttempts N n)"

definition verifyKillswitch :: "'k netops \<Rightarrow> (('k, 'm) net_scheme, unit) prog" where
  "verifyKillswitch N = verifyAttempts N 4"

definition formatNetworks :: "string list \<Rightarrow> string list \<Rightarrow> string" where
  "formatNetworks v4 v6 = Join (v4 @ v6) '', ''"

section \<open>Exemptions, VPN rules, forwarded port (vpnrules.go)\<close>

record exemption =
  exIP :: string
  exPort :: string
  exProto :: string
  exComment :: string

definition createExemptChain :: "'k netops \<Rightarrow> (('k, 'm) net_scheme, unit) prog" where
  "createExemptChain N =
     bindP (wrapErr (''create '' @ chainExempt) (runK (nNewChain N IPv4 tableFilter chainExempt))) (\<lambda>_.
     ignoreP (runK (nInsert N IPv4 tableFilter ChainOut 1 [''-j'', chainExempt])))"

definition exemptSpec :: "string \<Rightarrow> string \<Rightarrow> string \<Rightarrow> spec" where
  "exemptSpec ip port proto = [''-d'', ip, ''-p'', proto, ''--dport'', port, ''-j'', ''ACCEPT'']"

definition AddExemption :: "'k netops \<Rightarrow> string \<Rightarrow> string \<Rightarrow> string \<Rightarrow> string \<Rightarrow> (('k, 'm) net_scheme, unit) prog" where
  "AddExemption N ip port proto comment =
     bindP (createExemptChain N) (\<lambda>_.
     wrapErr (chainExempt @ '': append exemption'')
       (runK (nAppend N IPv4 tableFilter chainExempt (exemptSpec ip port proto))))"

definition AddExemptions :: "'k netops \<Rightarrow> exemption list \<Rightarrow> (('k, 'm) net_scheme, unit) prog" where
  "AddExemptions N specs =
     bindP (createExemptChain N) (\<lambda>_.
     forP specs (\<lambda>s. ignoreP
       (runK (nAppend N IPv4 tableFilter chainExempt (exemptSpec (exIP s) (exPort s) (exProto s))))))"

definition RemoveExemptions :: "'k netops \<Rightarrow> (('k, 'm) net_scheme, unit) prog" where
  "RemoveExemptions N =
     bindP (ignoreP (runK (nDelete N IPv4 tableFilter ChainOut [''-j'', chainExempt]))) (\<lambda>_.
     ignoreP (runK (nClearAndDeleteChain N IPv4 tableFilter chainExempt)))"

definition fwmarkSpec :: spec where
  "fwmarkSpec = [''-m'', ''mark'', ''--mark'', fwmark, ''-j'', ''ACCEPT'']"

definition ifaceSpec :: spec where
  "ifaceSpec = [''-o'', ''pia0'', ''-j'', ''ACCEPT'']"

definition addVPN :: "'k netops \<Rightarrow> bool \<Rightarrow> (('k, 'm) net_scheme, unit) prog" where
  "addVPN N ipv6Enabled =
     bindP (wrapErr ''insert VPN interface rule''
       (runK (nInsert N IPv4 tableFilter ChainOut vpnInsertPos fwmarkSpec))) (\<lambda>_.
     bindP (wrapErr ''insert VPN interface rule''
       (runK (nInsert N IPv4 tableFilter ChainOut vpnInsertPos ifaceSpec))) (\<lambda>_.
     if ipv6Enabled then
       wrapErr ''insert IPv6 VPN interface rule''
         (runK (nInsert N IPv6 tableFilter chainOut6 vpnInsertPos ifaceSpec))
     else ret ()))"

definition portSpec :: "string \<Rightarrow> int \<Rightarrow> spec" where
  "portSpec proto port = [''-i'', ''pia0'', ''-p'', proto, ''--dport'', Itoa port, ''-j'', ''ACCEPT'']"

definition RemoveForwardedPort :: "'k netops \<Rightarrow> (('k, 'm) fw_scheme, unit) prog" where
  "RemoveForwardedPort N =
     bindP (getsP activePort) (\<lambda>p.
     if p = 0 then ret ()
     else bindP (ignoreP (runK (nDelete N IPv4 tableFilter ChainIn (portSpec ''tcp'' p)))) (\<lambda>_.
          ignoreP (runK (nDelete N IPv4 tableFilter ChainIn (portSpec ''udp'' p)))))"

definition AllowForwardedPort :: "'k netops \<Rightarrow> int \<Rightarrow> (('k, 'm) fw_scheme, unit) prog" where
  "AllowForwardedPort N port =
     bindP (RemoveForwardedPort N) (\<lambda>_.
     bindP (forP [''tcp'', ''udp''] (\<lambda>proto. wrapErr ''insert port forward rule''
       (runK (nInsert N IPv4 tableFilter ChainIn portInsertPos (portSpec proto port))))) (\<lambda>_.
     modifyP (activePort_update (\<lambda>_. port))))"

section \<open>MSS clamping (mss.go)\<close>

definition mssRuleSpec :: spec where
  "mssRuleSpec = [''-p'', ''tcp'', ''--tcp-flags'', ''SYN,RST'', ''SYN'', ''-j'', ''TCPMSS'', ''--clamp-mss-to-pmtu'']"

definition cleanupMSSClamping :: "'k netops \<Rightarrow> (('k, 'm) net_scheme, unit) prog" where
  "cleanupMSSClamping N =
     forP [(IPv4, ''FORWARD''), (IPv4, ''OUTPUT''), (IPv6, ''FORWARD''), (IPv6, ''OUTPUT'')]
       (\<lambda>(f, chain). ignoreP (runK (nDelete N f tableMangle chain mssRuleSpec)))"

definition setupMSSClamping :: "'k netops \<Rightarrow> bool \<Rightarrow> (('k, 'm) net_scheme, unit) prog" where
  "setupMSSClamping N ipv6Enabled =
     bindP (cleanupMSSClamping N) (\<lambda>_.
     bindP (ignoreP (runK (nAppend N IPv4 tableMangle ''FORWARD'' mssRuleSpec))) (\<lambda>_.
     bindP (ignoreP (runK (nAppend N IPv4 tableMangle ''OUTPUT'' mssRuleSpec))) (\<lambda>_.
     if ipv6Enabled then
       bindP (ignoreP (runK (nAppend N IPv6 tableMangle ''FORWARD'' mssRuleSpec))) (\<lambda>_.
       ignoreP (runK (nAppend N IPv6 tableMangle ''OUTPUT'' mssRuleSpec)))
     else ret ())))"

section \<open>The rules of the WAN-check bypass (bypass.go)\<close>

definition WANCheckIPs :: "string list" where
  "WANCheckIPs = [''129.6.15.29'', ''132.163.97.2'']"

definition bypassSpec :: "string \<Rightarrow> spec" where
  "bypassSpec ip = [''-p'', ''tcp'', ''--dport'', ''13'', ''-d'', ip, ''-j'', ''ACCEPT'']"

definition insertBypassRules :: "'k netops \<Rightarrow> (('k, 'm) net_scheme, unit) prog" where
  "insertBypassRules N = forP WANCheckIPs (\<lambda>ip. wrapErr (''insert bypass rule for '' @ ip)
     (insertBeforeDrop N IPv4 ChainOut (bypassSpec ip)))"

section \<open>What the operations do to the chains\<close>

text \<open>The baseline: each chain accepts established connections and loopback and drops the rest.\<close>

definition baseline :: "chains \<Rightarrow> chainDef \<Rightarrow> bool" where
  "baseline v c \<longleftrightarrow>
     v (cdIpt c, tableFilter, cdName c) = Some [estSpec, [cdLoFlag c, ''lo'', ''-j'', ''ACCEPT''], dropSpec] \<and>
     (\<exists>ps. v (cdIpt c, tableFilter, cdParent c) = Some ([''-j'', cdName c] # ps))"

lemma count_rule_lines:
  "list_all2 (is_rule_line c) rs lines \<Longrightarrow> filter (\<lambda>l. HasPrefix l ''-A '') lines = lines"
proof (rule filter_True)
  assume a: "list_all2 (is_rule_line c) rs lines"
  show "\<forall>l\<in>set lines. HasPrefix l ''-A ''"
  proof
    fix l assume "l \<in> set lines"
    with a obtain s where "is_rule_line c s l"
      by (metis list_all2_conv_all_nth in_set_conv_nth)
    then show "HasPrefix l ''-A ''" by (auto simp: is_rule_line_def HasPrefix_def prefix_def)
  qed
qed

context netfilter
begin

lemma wp_ruleCount [wp_intros]:
  assumes "\<And>k' rs. V (kern w) (f, tableFilter, c) = Some rs \<Longrightarrow> rs \<noteq> [] \<Longrightarrow> V k' = V (kern w) \<Longrightarrow>
      R k' = R (kern w) \<Longrightarrow> Q (Inr (length rs)) (w\<lparr>kern := k'\<rparr>)"
    and "\<And>e k'. V k' = V (kern w) \<Longrightarrow> R k' = R (kern w) \<Longrightarrow> Q (Inl e) (w\<lparr>kern := k'\<rparr>)"
  shows "wp (ruleCount N f c) Q w"
  using assms(2)
  by (auto simp: ruleCount_def Let_def HasPrefix_def [of _ "''-A ''"] count_rule_lines [unfolded HasPrefix_def]
      list_all2_lengthD [symmetric] intro!: wp_intros assms(1))

lemma wp_insertBeforeDrop [wp_intros]:
  assumes "\<And>k' rs r. V (kern w) (f, tableFilter, c) = Some (rs @ [r]) \<Longrightarrow>
      V k' = (V (kern w))((f, tableFilter, c) \<mapsto> rs @ [s, r]) \<Longrightarrow>
      R k' = R (kern w) \<Longrightarrow> Q (Inr ()) (w\<lparr>kern := k'\<rparr>)"
    and "\<And>e k'. V k' = V (kern w) \<Longrightarrow> R k' = R (kern w) \<Longrightarrow> Q (Inl e) (w\<lparr>kern := k'\<rparr>)"
  shows "wp (insertBeforeDrop N f c s) Q w"
proof -
  have "Q (Inr ()) (w\<lparr>kern := k'\<rparr>)" 
    if "V (kern w) (f, tableFilter, c) = Some rs" "rs \<noteq> []" "R k' = R (kern w)"
      "V k' = (V (kern w))((f, tableFilter, c) \<mapsto> take (length rs - 1) rs @ s # drop (length rs - 1) rs)" for rs k'
    using that assms(1) by (cases rs rule: rev_cases) auto
  then show ?thesis
    by (auto simp: insertBeforeDrop_def intro!: wp_intros assms)
qed

lemma wp_setupBaselineChain:
  assumes "\<And>k' ps. V (kern w) (cdIpt c, tableFilter, cdParent c) = Some ps \<Longrightarrow>
      V (kern w) (cdIpt c, tableFilter, cdName c) = None \<Longrightarrow>
      V k' = (V (kern w))((cdIpt c, tableFilter, cdName c) \<mapsto>
                [estSpec, [cdLoFlag c, ''lo'', ''-j'', ''ACCEPT''], dropSpec],
              (cdIpt c, tableFilter, cdParent c) \<mapsto> [''-j'', cdName c] # ps) \<Longrightarrow>
      R k' = R (kern w) \<Longrightarrow> Q (Inr ()) (w\<lparr>kern := k'\<rparr>)"
    and "\<And>e k'. R k' = R (kern w) \<Longrightarrow> Q (Inl e) (w\<lparr>kern := k'\<rparr>)"
    and "cdName c \<noteq> cdParent c"
  shows "wp (setupBaselineChain N c) Q w"
  using assms(3) by (auto simp: setupBaselineChain_def intro!: wp_intros assms(2))
    (rule assms(1))

lemma wp_cleanupChain:
  assumes "\<And>k'. R k' = R (kern w) \<Longrightarrow> Q (Inr ()) (w\<lparr>kern := k'\<rparr>)"
  shows "wp (cleanupChain N c) Q w"
  using assms by (auto simp: cleanupChain_def intro!: wp_intros)

lemma wp_cleanupChains:
  assumes "\<And>k'. R k' = R (kern w) \<Longrightarrow> Q (Inr ()) (w\<lparr>kern := k'\<rparr>)"
  shows "wp (cleanupChains N) Q w"
  by (auto simp: cleanupChains_def chainDefs_def intro!: wp_cleanupChain assms)

lemma wp_setupBaselineChains:
  assumes "\<And>k'. R k' = R (kern w) \<Longrightarrow> (\<forall>c\<in>set chainDefs. baseline (V k') c) \<Longrightarrow>
      Q (Inr ()) (w\<lparr>kern := k'\<rparr>)"
    and "\<And>e k'. R k' = R (kern w) \<Longrightarrow> Q (Inl e) (w\<lparr>kern := k'\<rparr>)"
  shows "wp (setupBaselineChains N) Q w"
  by (auto simp: setupBaselineChains_def chainDefs_def names intro!: wp_cleanupChains wp_setupBaselineChain assms)
    (auto simp: chainDefs_def baseline_def names)

end

section \<open>The killswitch invariant\<close>

text \<open>
  A chain is guarded when its parent hands it all traffic first, it ends with DROP, it still
  holds the two baseline rules, and every other rule is one of \<open>A\<close>.
\<close>

definition loSpec :: "chainDef \<Rightarrow> spec" where
  "loSpec c = [cdLoFlag c, ''lo'', ''-j'', ''ACCEPT'']"

definition guarded :: "spec set \<Rightarrow> chains \<Rightarrow> chainDef \<Rightarrow> bool" where
  "guarded A v c \<longleftrightarrow>
     (\<exists>rs. v (cdIpt c, tableFilter, cdName c) = Some (rs @ [dropSpec]) \<and>
        estSpec \<in> set rs \<and> loSpec c \<in> set rs \<and> set rs \<subseteq> A \<union> {estSpec, loSpec c}) \<and>
     (\<exists>ps. v (cdIpt c, tableFilter, cdParent c) = Some ([''-j'', cdName c] # ps))"

definition ks_inv :: "(string \<Rightarrow> spec set) \<Rightarrow> chains \<Rightarrow> bool" where
  "ks_inv A v \<longleftrightarrow> (\<forall>c \<in> set chainDefs. guarded (A (cdName c)) v c) \<and>
     (\<forall>es. v (IPv4, tableFilter, chainExempt) = Some es \<longrightarrow> set es \<subseteq> A chainExempt)"

lemma base_specs_neq: "estSpec \<noteq> loSpec c" "estSpec \<noteq> dropSpec" "loSpec c \<noteq> dropSpec"
  by (simp_all add: estSpec_def loSpec_def dropSpec_def)

lemma guarded_frame:
  assumes "guarded A v c"
    and "v' (cdIpt c, tableFilter, cdName c) = v (cdIpt c, tableFilter, cdName c)"
    and "v' (cdIpt c, tableFilter, cdParent c) = v (cdIpt c, tableFilter, cdParent c)"
  shows "guarded A v' c"
  using assms by (simp add: guarded_def)

lemma two_members_length: "x \<in> set xs \<Longrightarrow> y \<in> set xs \<Longrightarrow> x \<noteq> y \<Longrightarrow> 2 \<le> length xs"
  by (cases xs; cases "tl xs") auto

lemma guarded_insert:
  assumes "guarded A v c" and "v (cdIpt c, tableFilter, cdName c) = Some rs"
    and "s \<in> A" and "n \<le> 2" and "cdName c \<noteq> cdParent c"
  shows "guarded A (v((cdIpt c, tableFilter, cdName c) \<mapsto> take n rs @ s # drop n rs)) c"
proof -
  from assms(1,2) obtain xs where xs: "rs = xs @ [dropSpec]" "estSpec \<in> set xs" "loSpec c \<in> set xs"
    "set xs \<subseteq> A \<union> {estSpec, loSpec c}" by (auto simp: guarded_def)
  then have "n \<le> length xs"
    using two_members_length [of estSpec xs "loSpec c"] base_specs_neq assms(4) by auto
  then have "take n rs @ s # drop n rs = (take n xs @ s # drop n xs) @ [dropSpec]"
    using xs(1) by simp
  moreover have "set (take n xs @ s # drop n xs) = insert s (set xs)"
    by (metis append_take_drop_id list.simps(15) set_append Un_insert_right)
  ultimately show ?thesis using xs assms by (auto simp: guarded_def)
qed

lemma guarded_insert_last:
  assumes "guarded A v c" and "v (cdIpt c, tableFilter, cdName c) = Some (rs @ [r])"
    and "s \<in> A" and "cdName c \<noteq> cdParent c"
  shows "guarded A (v((cdIpt c, tableFilter, cdName c) \<mapsto> rs @ [s, r])) c"
  using assms by (auto simp: guarded_def intro!: exI [of _ "rs @ [s]"])

lemma guarded_remove:
  assumes "guarded A v c" and "v (cdIpt c, tableFilter, cdName c) = Some rs"
    and "s \<notin> {estSpec, loSpec c, dropSpec}" and "cdName c \<noteq> cdParent c"
  shows "guarded A (v((cdIpt c, tableFilter, cdName c) \<mapsto> remove1 s rs)) c"
proof -
  from assms(1,2) obtain xs where xs: "rs = xs @ [dropSpec]" "estSpec \<in> set xs" "loSpec c \<in> set xs"
    "set xs \<subseteq> A \<union> {estSpec, loSpec c}" by (auto simp: guarded_def)
  then have "remove1 s rs = remove1 s xs @ [dropSpec]"
    using assms(3) by (simp add: remove1_append remove1_idem)
  with xs assms show ?thesis
    using set_remove1_subset [of s xs] by (auto simp: guarded_def)
qed

lemma names_neq [simp]:
  "c \<in> set chainDefs \<Longrightarrow> cdName c \<noteq> cdParent c"
  "c \<in> set chainDefs \<Longrightarrow> cdName c \<noteq> chainExempt"
  "c \<in> set chainDefs \<Longrightarrow> cdParent c \<noteq> chainExempt"
  "c \<in> set chainDefs \<Longrightarrow> d \<in> set chainDefs \<Longrightarrow> cdName c \<noteq> cdParent d"
  "c \<in> set chainDefs \<Longrightarrow> d \<in> set chainDefs \<Longrightarrow> cdName c = cdName d \<longleftrightarrow> c = d"
  by (auto simp: chainDefs_def names)

text \<open>An update of one of the four chains that leaves it guarded keeps the invariant.\<close>

lemma ks_inv_chain_update:
  assumes "ks_inv A v" and "c \<in> set chainDefs"
    and "guarded (A (cdName c)) (v((cdIpt c, tableFilter, cdName c) := x)) c"
  shows "ks_inv A (v((cdIpt c, tableFilter, cdName c) := x))"
  unfolding ks_inv_def
proof (intro conjI ballI)
  fix d assume d: "d \<in> set chainDefs"
  show "guarded (A (cdName d)) (v((cdIpt c, tableFilter, cdName c) := x)) d"
  proof (cases "d = c")
    case False
    have "guarded (A (cdName d)) v d" using assms(1) d by (simp add: ks_inv_def)
    then show ?thesis
      by (rule guarded_frame) (use assms(2) d False in \<open>auto dest: names_neq\<close>)
  qed (use assms(3) in simp)
next
  show "\<forall>es. (v((cdIpt c, tableFilter, cdName c) := x)) (IPv4, tableFilter, chainExempt) = Some es \<longrightarrow>
      set es \<subseteq> A chainExempt"
    using assms(1,2) by (auto simp: ks_inv_def dest: names_neq)
qed

lemma ks_inv_exempt_update:
  assumes "ks_inv A v" and "\<And>es. x = Some es \<Longrightarrow> set es \<subseteq> A chainExempt"
  shows "ks_inv A (v((IPv4, tableFilter, chainExempt) := x))"
  using assms unfolding ks_inv_def
  by (auto intro: guarded_frame dest: names_neq(2,3))

lemma ks_inv_exempt_append:
  assumes "ks_inv A v" and "v (IPv4, tableFilter, chainExempt) = Some es" and "s \<in> A chainExempt"
  shows "ks_inv A (v((IPv4, tableFilter, chainExempt) \<mapsto> es @ [s]))"
  using assms by (intro ks_inv_exempt_update) (auto simp: ks_inv_def)

lemma ks_inv_other_update:
  assumes "ks_inv A v" and "t \<noteq> tableFilter"
  shows "ks_inv A (v((f, t, c) := x))"
  using assms unfolding ks_inv_def by (auto intro: guarded_frame)

lemma ks_inv_insert:
  assumes "ks_inv A v" and "c \<in> set chainDefs" and "v (cdIpt c, tableFilter, cdName c) = Some rs"
    and "s \<in> A (cdName c)" and "n \<le> 2"
  shows "ks_inv A (v((cdIpt c, tableFilter, cdName c) \<mapsto> take n rs @ s # drop n rs))"
  using assms by (intro ks_inv_chain_update guarded_insert) (auto simp: ks_inv_def)

lemma ks_inv_insert_last:
  assumes "ks_inv A v" and "c \<in> set chainDefs" and "v (cdIpt c, tableFilter, cdName c) = Some (rs @ [r])"
    and "s \<in> A (cdName c)"
  shows "ks_inv A (v((cdIpt c, tableFilter, cdName c) \<mapsto> rs @ [s, r]))"
  using assms by (intro ks_inv_chain_update guarded_insert_last) (auto simp: ks_inv_def)

lemma ks_inv_remove:
  assumes "ks_inv A v" and "c \<in> set chainDefs" and "v (cdIpt c, tableFilter, cdName c) = Some rs"
    and "s \<notin> {estSpec, loSpec c, dropSpec}"
  shows "ks_inv A (v((cdIpt c, tableFilter, cdName c) \<mapsto> remove1 s rs))"
  using assms by (intro ks_inv_chain_update guarded_remove) (auto simp: ks_inv_def)

definition inDef :: chainDef where
  "inDef = \<lparr>cdName = ChainIn, cdParent = ''INPUT'', cdIpt = IPv4, cdLoFlag = ''-i''\<rparr>"

definition in6Def :: chainDef where
  "in6Def = \<lparr>cdName = chainIn6, cdParent = ''INPUT'', cdIpt = IPv6, cdLoFlag = ''-i''\<rparr>"

definition outDef :: chainDef where
  "outDef = \<lparr>cdName = ChainOut, cdParent = ''OUTPUT'', cdIpt = IPv4, cdLoFlag = ''-o''\<rparr>"

definition out6Def :: chainDef where
  "out6Def = \<lparr>cdName = chainOut6, cdParent = ''OUTPUT'', cdIpt = IPv6, cdLoFlag = ''-o''\<rparr>"

lemma chainDef_sels [simp]:
  "inDef \<in> set chainDefs" "outDef \<in> set chainDefs" "in6Def \<in> set chainDefs" "out6Def \<in> set chainDefs"
  "cdName inDef = ChainIn" "cdName outDef = ChainOut" "cdName in6Def = chainIn6" "cdName out6Def = chainOut6"
  "cdIpt inDef = IPv4" "cdIpt outDef = IPv4" "cdIpt in6Def = IPv6" "cdIpt out6Def = IPv6"
  "cdParent inDef = ''INPUT''" "cdParent outDef = ''OUTPUT''" "cdParent in6Def = ''INPUT''" "cdParent out6Def = ''OUTPUT''"
  by (simp_all add: inDef_def outDef_def in6Def_def out6Def_def chainDefs_def)

lemmas ks_insert_in = ks_inv_insert [of _ _ inDef, simplified]
lemmas ks_insert_out = ks_inv_insert [of _ _ outDef, simplified]
lemmas ks_cons_out = ks_inv_insert [of _ _ outDef _ _ 0, simplified]
lemmas ks_insert_out6 = ks_inv_insert [of _ _ out6Def, simplified]
lemmas ks_remove_in = ks_inv_remove [of _ _ inDef, simplified]
lemmas ks_remove_out = ks_inv_remove [of _ _ outDef, simplified]

lemma removable [simp]:
  "[''-j'', chainExempt] \<notin> {estSpec, loSpec c, dropSpec}"
  "portSpec proto p \<notin> {estSpec, loSpec c, dropSpec}"
  by (simp_all add: estSpec_def loSpec_def dropSpec_def portSpec_def names)

context netfilter
begin

abbreviation KS :: "(string \<Rightarrow> spec set) \<Rightarrow> ('k, 'm) net_scheme \<Rightarrow> bool" where
  "KS A w \<equiv> ks_inv A (V (kern w))"

lemma keeps_new_exempt [intro]: "keeps (KS A) (runK (nNewChain N IPv4 tableFilter chainExempt))"
  by (rule keepsI, rule wp_new) (auto intro: ks_inv_exempt_update)

lemma keeps_append_exempt [intro]:
  "s \<in> A chainExempt \<Longrightarrow> keeps (KS A) (runK (nAppend N IPv4 tableFilter chainExempt s))"
  by (rule keepsI, rule wp_append) (simp_all add: ks_inv_exempt_append)

lemma keeps_clear_exempt [intro]: "keeps (KS A) (runK (nClearAndDeleteChain N IPv4 tableFilter chainExempt))"
  by (rule keepsI, rule wp_clear) (auto intro: ks_inv_exempt_update)

lemma keeps_insert [intro]:
  assumes "c \<in> set chainDefs" and "f = cdIpt c" and "chain = cdName c" and "s \<in> A (cdName c)" and "n \<le> 3"
  shows "keeps (KS A) (runK (nInsert N f tableFilter chain n s))"
  using assms by (intro keepsI, intro wp_insert) (simp_all add: ks_inv_insert)

lemma keeps_delete [intro]:
  assumes "c \<in> set chainDefs" and "f = cdIpt c" and "chain = cdName c" and "s \<notin> {estSpec, loSpec c, dropSpec}"
  shows "keeps (KS A) (runK (nDelete N f tableFilter chain s))"
  using assms by (intro keepsI, intro wp_delete) (simp_all add: ks_inv_remove)

lemma keeps_mangle [intro]:
  "keeps (KS A) (runK (nDelete N f tableMangle c s))" "keeps (KS A) (runK (nAppend N f tableMangle c s))"
  by (rule keepsI, rule wp_delete, auto simp: ks_inv_other_update names)
    (rule keepsI, rule wp_append, auto simp: ks_inv_other_update names)

lemma keeps_createExemptChain [intro]:
  assumes "[''-j'', chainExempt] \<in> A ChainOut"
  shows "keeps (KS A) (createExemptChain N)"
  unfolding createExemptChain_def
  by (intro keeps_bindP keeps_wrapErr keeps_ignoreP keeps_new_exempt keeps_insert [where c = outDef])
    (use assms in simp_all)

lemma keeps_AddExemption [intro]:
  assumes "[''-j'', chainExempt] \<in> A ChainOut" and "exemptSpec ip port proto \<in> A chainExempt"
  shows "keeps (KS A) (AddExemption N ip port proto comment)"
  using assms unfolding AddExemption_def by blast

lemma keeps_AddExemptions [intro]:
  assumes "[''-j'', chainExempt] \<in> A ChainOut"
    and "\<And>s. s \<in> set specs \<Longrightarrow> exemptSpec (exIP s) (exPort s) (exProto s) \<in> A chainExempt"
  shows "keeps (KS A) (AddExemptions N specs)"
  using assms unfolding AddExemptions_def by blast

lemma keeps_RemoveExemptions [intro]: "keeps (KS A) (RemoveExemptions N)"
  unfolding RemoveExemptions_def
  by (intro keeps_bindP keeps_ignoreP keeps_clear_exempt keeps_delete [where c = outDef])
    (simp_all del: insert_iff)

lemma keeps_insertBeforeDrop [intro]:
  assumes "c \<in> set chainDefs" and "s \<in> A (cdName c)" and "f = cdIpt c" and "chain = cdName c"
  shows "keeps (KS A) (insertBeforeDrop N f chain s)"
  using assms by (intro keepsI, intro wp_insertBeforeDrop) (simp_all add: ks_inv_insert_last)

lemma keeps_addVPN [intro]:
  assumes "fwmarkSpec \<in> A ChainOut" and "ifaceSpec \<in> A ChainOut" and "ipv6 \<Longrightarrow> ifaceSpec \<in> A chainOut6"
  shows "keeps (KS A) (addVPN N ipv6)"
proof -
  have "keeps (KS A) (runK (nInsert N IPv4 tableFilter ChainOut vpnInsertPos s))" if "s \<in> A ChainOut" for s
    using that by (intro keeps_insert [where c = outDef]) (simp_all add: vpnInsertPos_def)
  moreover have "keeps (KS A) (runK (nInsert N IPv6 tableFilter chainOut6 vpnInsertPos ifaceSpec))" if ipv6
    using assms(3) [OF that] by (intro keeps_insert [where c = out6Def]) (simp_all add: vpnInsertPos_def)
  ultimately show ?thesis using assms(1,2) unfolding addVPN_def
    by (auto intro!: keeps_bindP keeps_wrapErr)
qed

lemma keeps_RemoveForwardedPort [intro]: "keeps (KS A) (RemoveForwardedPort N)"
proof -
  have "keeps (KS A) (runK (nDelete N IPv4 tableFilter ChainIn (portSpec proto p)))" for proto p
    by (intro keeps_delete [where c = inDef]) (simp_all del: insert_iff)
  then show ?thesis unfolding RemoveForwardedPort_def by (auto intro!: keeps_bindP keeps_ignoreP)
qed

lemma keeps_AllowForwardedPort [intro]:
  assumes "portSpec ''tcp'' port \<in> A ChainIn" and "portSpec ''udp'' port \<in> A ChainIn"
  shows "keeps (KS A) (AllowForwardedPort N port)"
proof -
  have "keeps (KS A) (runK (nInsert N IPv4 tableFilter ChainIn portInsertPos s))" if "s \<in> A ChainIn" for s
    using that by (intro keeps_insert [where c = inDef]) (simp_all add: portInsertPos_def)
  moreover have "keeps (KS A) (modifyP (activePort_update (\<lambda>_. port)))"
    by (auto intro!: keepsI)
  ultimately show ?thesis using assms unfolding AllowForwardedPort_def
    by (intro keeps_bindP keeps_forP keeps_wrapErr keeps_RemoveForwardedPort) auto
qed

lemma keeps_setupMSSClamping [intro]: "keeps (KS A) (setupMSSClamping N ipv6)"
  unfolding setupMSSClamping_def cleanupMSSClamping_def
  by (auto intro!: keeps_bindP keeps_ignoreP keeps_forP)

lemma keeps_insertBypassRules [intro]:
  assumes "\<And>ip. ip \<in> set WANCheckIPs \<Longrightarrow> bypassSpec ip \<in> A ChainOut"
  shows "keeps (KS A) (insertBypassRules N)"
  unfolding insertBypassRules_def
  by (intro keeps_forP keeps_wrapErr keeps_insertBeforeDrop [where c = outDef]) (use assms in simp_all)

end

end
