(* ===== verification/GoNet.thy ===== *)
theory GoNet
  imports GoStrings
begin

text \<open>
  What the code uses of Go's package \<^verbatim>\<open>net\<close>: the syntax of addresses and of CIDR
  prefixes (\<^verbatim>\<open>net.ParseIP\<close>, \<^verbatim>\<open>net.ParseCIDR\<close>), the text form of an IPv4 address and
  \<^verbatim>\<open>net.JoinHostPort\<close>.
\<close>

section \<open>Addresses\<close>

text \<open>An octet: one to three digits, no leading zero, at most 255.\<close>

definition parseOctet :: "string \<Rightarrow> nat option" where
  "parseOctet s = (case AtoiN s of None \<Rightarrow> None
     | Some n \<Rightarrow> (if length s \<le> 3 \<and> n \<le> 255 \<and> (length s = 1 \<or> hd s \<noteq> CHR ''0'') then Some n else None))"

definition parseIPv4 :: "string \<Rightarrow> nat list option" where
  "parseIPv4 s = (let os = map parseOctet (Split CHR ''.'' s)
     in if length os = 4 \<and> None \<notin> set os then Some (map the os) else None)"

definition isHex :: "char \<Rightarrow> bool" where
  "isHex c = (isDigit c \<or> c \<in> set ''abcdefABCDEF'')"

text \<open>
  The loop of \<^verbatim>\<open>netip.parseIPv6\<close>: \<open>i\<close> bytes are filled, \<open>e\<close> tells whether an ellipsis was
  seen; the result is whether the rest completes an address.
\<close>

function validIPv6From :: "string \<Rightarrow> nat \<Rightarrow> bool \<Rightarrow> bool" where
  "validIPv6From s i e =
     (if 16 \<le> i then s = [] \<and> \<not> e
      else let h = takeWhile isHex s; r = drop (length h) s in
        if h = [] \<or> 4 < length h then False
        else (case r of
            [] \<Rightarrow> (if i + 2 < 16 then e else \<not> e)
          | c # t \<Rightarrow>
              (if c = CHR ''.'' then
                 (e \<or> i = 12) \<and> i + 4 \<le> 16 \<and> parseIPv4 s \<noteq> None \<and> (if i + 4 < 16 then e else \<not> e)
               else if c \<noteq> CHR '':'' then False
               else (case t of
                   [] \<Rightarrow> False
                 | d # t' \<Rightarrow>
                     (if d = CHR '':'' then
                        (if e then False else if t' = [] then i + 2 < 16 else validIPv6From t' (i + 2) True)
                      else validIPv6From t (i + 2) e)))))"
  by pat_completeness auto
termination
  by (relation "measure (\<lambda>(s, i, e). 16 - i)") auto

declare validIPv6From.simps [simp del]

definition validIPv6 :: "string \<Rightarrow> bool" where
  "validIPv6 s = (if take 2 s = ''::'' then (drop 2 s = [] \<or> validIPv6From (drop 2 s) 0 True)
     else validIPv6From s 0 False)"

text \<open>
  \<^verbatim>\<open>netip.ParseAddr\<close> without a zone: the first dot or colon tells the family. The result is
  the number of bits of the family. Every caller rejects an address with a zone.
\<close>

definition parseAddr :: "string \<Rightarrow> nat option" where
  "parseAddr s = (case filter (\<lambda>c. c \<in> set ''.:%'') s of
       [] \<Rightarrow> None
     | c # _ \<Rightarrow> (if c = CHR ''.'' then (if parseIPv4 s \<noteq> None then Some 32 else None)
               else if c = CHR '':'' then (if CHR ''%'' \<notin> set s \<and> validIPv6 s then Some 128 else None)
               else None))"

text \<open>\<^verbatim>\<open>net.ParseIP(s) != nil\<close>.\<close>

definition isIP :: "string \<Rightarrow> bool" where
  "isIP s = (parseAddr s \<noteq> None)"

text \<open>\<^verbatim>\<open>net.ParseCIDR\<close> as the code uses it: whether it succeeds.\<close>

definition validCIDR :: "string \<Rightarrow> bool" where
  "validCIDR s = (case SplitN2 CHR ''/'' s of
       [a, m] \<Rightarrow> (case parseAddr a of None \<Rightarrow> False
          | Some bits \<Rightarrow> (case AtoiN m of None \<Rightarrow> False | Some n \<Rightarrow> n \<le> bits))
     | _ \<Rightarrow> False)"

text \<open>\<^verbatim>\<open>net.IP.String()\<close> of four bytes.\<close>

definition ipv4String :: "nat list \<Rightarrow> string" where
  "ipv4String os = Join (map ItoaN os) ''.''"

text \<open>\<^verbatim>\<open>net.JoinHostPort\<close>: brackets around a host with a colon.\<close>

definition JoinHostPort :: "string \<Rightarrow> string \<Rightarrow> string" where
  "JoinHostPort host port =
     (if CHR '':'' \<in> set host then ''['' @ host @ '']:'' @ port else host @ '':'' @ port)"

section \<open>Facts\<close>

lemma parseIPv4_no_colon: "parseIPv4 s \<noteq> None \<Longrightarrow> CHR '':'' \<notin> set s"
proof
  assume v4: "parseIPv4 s \<noteq> None" and c: "CHR '':'' \<in> set s"
  have "\<exists>p \<in> set (Split CHR ''.'' s). CHR '':'' \<in> set p"
    using c by (induction s) (auto split: list.splits if_splits)
  then obtain p where p: "p \<in> set (Split CHR ''.'' s)" "CHR '':'' \<in> set p" by blast
  have "\<not> isDigit (CHR '':'')" by (simp add: isDigit_def)
  with p(2) have "\<not> list_all isDigit p" by (auto simp: list_all_iff)
  then have "AtoiN p = None" by (simp add: AtoiN_def)
  then have "parseOctet p = None" by (simp add: parseOctet_def)
  with p(1) have "None \<in> set (map parseOctet (Split CHR ''.'' s))" by (metis image_eqI set_map)
  with v4 show False by (simp add: parseIPv4_def Let_def del: set_map)
qed

text \<open>A valid CIDR is an IPv6 one exactly when it has a colon.\<close>

lemma parseAddr_family:
  assumes "parseAddr a = Some bits"
  shows "bits = (if CHR '':'' \<in> set a then 128 else 32)"
proof -
  let ?f = "filter (\<lambda>c. c \<in> set ''.:%'') a"
  from assms obtain c r where f: "?f = c # r" by (auto simp: parseAddr_def split: list.splits)
  have "set ?f \<subseteq> set a" by (rule filter_is_subset)
  then have ca: "c \<in> set a" unfolding f by simp
  from assms f consider "bits = 32" "parseIPv4 a \<noteq> None" | "bits = 128" "c = CHR '':''"
    by (auto simp: parseAddr_def split: if_splits)
  then show ?thesis
  proof cases
    case 1
    then show ?thesis using parseIPv4_no_colon by simp
  qed (use ca in simp)
qed

lemma SplitN2_pair: "SplitN2 c s = [a, m] \<Longrightarrow> s = a @ c # m"
  by (auto simp: SplitN2_def dropWhile_eq_Cons_conv split: if_splits)
    (metis (mono_tags, lifting) dropWhile_eq_Nil_conv hd_dropWhile list.collapse takeWhile_dropWhile_id)

lemma validCIDR_family:
  assumes "validCIDR s"
  obtains a m n where "SplitN2 CHR ''/'' s = [a, m]" "s = a @ CHR ''/'' # m" "AtoiN m = Some n"
    "parseAddr a = Some (if CHR '':'' \<in> set s then 128 else 32)"
    "n \<le> (if CHR '':'' \<in> set s then 128 else 32)"
proof -
  from assms obtain a m bits n where *: "SplitN2 CHR ''/'' s = [a, m]" "parseAddr a = Some bits"
    "AtoiN m = Some n" "n \<le> bits"
    by (auto simp: validCIDR_def split: list.splits option.splits)
  have s: "s = a @ CHR ''/'' # m" using *(1) by (rule SplitN2_pair)
  have "\<not> isDigit (CHR '':'')" by (simp add: isDigit_def)
  then have "CHR '':'' \<notin> set m"
    using *(3) by (auto simp: AtoiN_def list_all_iff split: if_splits)
  then have "CHR '':'' \<in> set s \<longleftrightarrow> CHR '':'' \<in> set a" using s by simp
  with * s parseAddr_family [OF *(2)] that show ?thesis by auto
qed

end
