(* ===== verification/RefKernel.thy ===== *)
theory RefKernel
  imports Netfilter
begin

text \<open>
  A reference kernel: chains and policy-routing rules as lists, the output of
  \<^verbatim>\<open>ip route show\<close> as a table, and a script of faults, one Boolean per command. It is
  executable, and it satisfies the laws of \<open>netfilter\<close> under every fault script and those of
  \<open>netfilter_host\<close> when the script is empty. Nothing of the program is defined here.
\<close>

record refk =
  rkChains :: "(chainid \<times> spec list) list"
  rkRules :: "family \<Rightarrow> (nat \<times> string list) list"
  rkShow :: "(string list \<times> string) list"
  rkFaults :: "bool list"

definition refV :: "refk \<Rightarrow> chains" where
  "refV k = map_of (rkChains k)"

definition refR :: "refk \<Rightarrow> iprules" where
  "refR k f = mset (rkRules k f)"

definition refH :: "refk \<Rightarrow> bool" where
  "refH k = (rkFaults k = [])"

definition setChain :: "chainid \<Rightarrow> spec list \<Rightarrow> refk \<Rightarrow> refk" where
  "setChain i rs k = k\<lparr>rkChains := AList.update i rs (rkChains k)\<rparr>"

text \<open>One command: a scripted fault, or the operation, which fails by \<open>None\<close>.\<close>

definition refCmd :: "(refk \<Rightarrow> refk option) \<Rightarrow> refk \<Rightarrow> err option \<times> refk" where
  "refCmd op k = (case rkFaults k of
       True # fs \<Rightarrow> (Some (Errorf ''exit status 4'' []), k\<lparr>rkFaults := fs\<rparr>)
     | fs \<Rightarrow> (case op (k\<lparr>rkFaults := tl fs\<rparr>) of
          None \<Rightarrow> (Some (Errorf ''exit status 1'' []), k\<lparr>rkFaults := tl fs\<rparr>)
        | Some k' \<Rightarrow> (None, k')))"

definition refNew :: "family \<Rightarrow> string \<Rightarrow> string \<Rightarrow> refk \<Rightarrow> refk option" where
  "refNew f t c k = (if refV k (f, t, c) = None then Some (setChain (f, t, c) [] k) else None)"

definition refAppend :: "family \<Rightarrow> string \<Rightarrow> string \<Rightarrow> spec \<Rightarrow> refk \<Rightarrow> refk option" where
  "refAppend f t c s k = map_option (\<lambda>rs. setChain (f, t, c) (rs @ [s]) k) (refV k (f, t, c))"

definition refInsert :: "family \<Rightarrow> string \<Rightarrow> string \<Rightarrow> nat \<Rightarrow> spec \<Rightarrow> refk \<Rightarrow> refk option" where
  "refInsert f t c n s k = (case refV k (f, t, c) of None \<Rightarrow> None | Some rs \<Rightarrow>
     (if 1 \<le> n \<and> n \<le> Suc (length rs)
      then Some (setChain (f, t, c) (take (n - 1) rs @ s # drop (n - 1) rs) k) else None))"

definition refDelete :: "family \<Rightarrow> string \<Rightarrow> string \<Rightarrow> spec \<Rightarrow> refk \<Rightarrow> refk option" where
  "refDelete f t c s k = (case refV k (f, t, c) of None \<Rightarrow> None | Some rs \<Rightarrow>
     (if s \<in> set rs then Some (setChain (f, t, c) (remove1 s rs) k) else None))"

definition refReferenced :: "family \<Rightarrow> string \<Rightarrow> string \<Rightarrow> refk \<Rightarrow> bool" where
  "refReferenced f t c k = list_ex (\<lambda>((f', t', c'), _). f' = f \<and> t' = t \<and>
     (case refV k (f', t', c') of None \<Rightarrow> False | Some rs \<Rightarrow> list_ex (\<lambda>s. target s = Some c) rs)) (rkChains k)"

definition refClear :: "family \<Rightarrow> string \<Rightarrow> string \<Rightarrow> refk \<Rightarrow> err option \<times> refk" where
  "refClear f t c k = (case rkFaults k of
       True # fs \<Rightarrow> (Some (Errorf ''exit status 4'' []), k\<lparr>rkFaults := fs\<rparr>)
     | fs \<Rightarrow> (if refV k (f, t, c) = None then (None, k\<lparr>rkFaults := tl fs\<rparr>)
         else if refReferenced f t c k
         then (Some (Errorf ''exit status 1'' []), setChain (f, t, c) [] (k\<lparr>rkFaults := tl fs\<rparr>))
         else (None, k\<lparr>rkFaults := tl fs, rkChains := AList.delete (f, t, c) (rkChains k)\<rparr>)))"

definition refLine :: "string \<Rightarrow> spec \<Rightarrow> string" where
  "refLine c s = ''-A '' @ c @ concat (map (\<lambda>x. '' '' @ x) s)"

definition refList :: "family \<Rightarrow> string \<Rightarrow> string \<Rightarrow> refk \<Rightarrow> (err + string list) \<times> refk" where
  "refList f t c k = (case rkFaults k of
       True # fs \<Rightarrow> (Inl (Errorf ''exit status 4'' []), k\<lparr>rkFaults := fs\<rparr>)
     | fs \<Rightarrow> ((case refV k (f, t, c) of
          None \<Rightarrow> Inl (Errorf ''exit status 1'' [])
        | Some rs \<Rightarrow> Inr (''-N chain'' # map (refLine c) rs)), k\<lparr>rkFaults := tl fs\<rparr>))"

definition setRules :: "family \<Rightarrow> (nat \<times> string list) list \<Rightarrow> refk \<Rightarrow> refk" where
  "setRules f rs k = k\<lparr>rkRules := (rkRules k)(f := rs)\<rparr>"

definition refRuleAdd :: "family \<Rightarrow> string list \<Rightarrow> string \<Rightarrow> refk \<Rightarrow> refk option" where
  "refRuleAdd f sel ps k = (case AtoiN ps of None \<Rightarrow> None | Some p \<Rightarrow>
     (if (p, sel) \<in> set (rkRules k f) then None else Some (setRules f (rkRules k f @ [(p, sel)]) k)))"

definition refRuleDel :: "family \<Rightarrow> string \<Rightarrow> refk \<Rightarrow> refk option" where
  "refRuleDel f ps k = (case AtoiN ps of None \<Rightarrow> None | Some p \<Rightarrow>
     (case find (\<lambda>r. fst r = p) (rkRules k f) of None \<Rightarrow> None
      | Some r \<Rightarrow> Some (setRules f (remove1 r (rkRules k f)) k)))"

definition refRuleDelSel :: "family \<Rightarrow> string list \<Rightarrow> string \<Rightarrow> refk \<Rightarrow> refk option" where
  "refRuleDelSel f sel ps k = (case AtoiN ps of None \<Rightarrow> None | Some p \<Rightarrow>
     (if (p, sel) \<in> set (rkRules k f) then Some (setRules f (remove1 (p, sel) (rkRules k f)) k) else None))"

text \<open>The arguments of \<^verbatim>\<open>ip rule\<close> after the family switch.\<close>

definition refRule :: "family \<Rightarrow> string list \<Rightarrow> refk \<Rightarrow> refk option" where
  "refRule f as k = (case as of
       r # op # rest \<Rightarrow>
         (if r \<noteq> ''rule'' \<or> length rest < 2 then None
          else if op = ''add'' then
            (if butlast (butlast rest) \<noteq> [] \<and> last (butlast rest) = ''priority''
             then refRuleAdd f (butlast (butlast rest)) (last rest) k else None)
          else if op \<in> {''del'', ''delete''} then
            (if butlast (butlast rest) = [] then
               (if hd rest \<in> {''priority'', ''prio''} then refRuleDel f (last rest) k else None)
             else if last (butlast rest) = ''priority''
             then refRuleDelSel f (butlast (butlast rest)) (last rest) k else None)
          else None)
     | _ \<Rightarrow> None)"

definition refRun :: "string list \<Rightarrow> refk \<Rightarrow> refk option" where
  "refRun as k = (case as of
       a # b # rest \<Rightarrow> (if a \<noteq> ''ip'' then Some k
          else if b = ''-6'' then refRule IPv6 rest k
          else if b = ''rule'' then refRule IPv4 (b # rest) k else Some k)
     | _ \<Rightarrow> None)"

definition refOutput :: "string list \<Rightarrow> refk \<Rightarrow> (err + string) \<times> refk" where
  "refOutput as k = (case rkFaults k of
       True # fs \<Rightarrow> (Inl (Errorf ''exit status 4'' []), k\<lparr>rkFaults := fs\<rparr>)
     | fs \<Rightarrow> ((case map_of (rkShow k) as of None \<Rightarrow> Inl (Errorf ''exit status 1'' []) | Some s \<Rightarrow> Inr s),
          k\<lparr>rkFaults := tl fs\<rparr>))"

definition refN :: "refk netops" where
  "refN = \<lparr>nNewChain = (\<lambda>f t c. refCmd (refNew f t c)),
     nAppend = (\<lambda>f t c s. refCmd (refAppend f t c s)),
     nInsert = (\<lambda>f t c n s. refCmd (refInsert f t c n s)),
     nDelete = (\<lambda>f t c s. refCmd (refDelete f t c s)),
     nClearAndDeleteChain = refClear,
     nList = refList,
     nRun = (\<lambda>as. refCmd (refRun as)),
     nOutput = refOutput\<rparr>"

section \<open>The laws hold of the reference kernel\<close>

lemma refV_setChain [simp]: "refV (setChain i rs k) = (refV k)(i \<mapsto> rs)"
  by (simp add: refV_def setChain_def update_conv')

lemma refR_setChain [simp]: "refR (setChain i rs k) = refR k"
  by (simp add: refR_def setChain_def fun_eq_iff)

lemma ref_faults_update [simp]:
  "refV (k\<lparr>rkFaults := fs\<rparr>) = refV k" "refR (k\<lparr>rkFaults := fs\<rparr>) = refR k"
  by (simp_all add: refV_def refR_def fun_eq_iff)

lemma ref_delete [simp]:
  "refV (k\<lparr>rkFaults := fs, rkChains := AList.delete i (rkChains k)\<rparr>) = (refV k)(i := None)"
  "refR (k\<lparr>rkFaults := fs, rkChains := cs\<rparr>) = refR k"
  by (simp_all add: refV_def refR_def delete_conv' fun_eq_iff)

lemma ref_setRules [simp]:
  "refV (setRules f rs k) = refV k" "refR (setRules f rs k) = (refR k)(f := mset rs)"
  by (simp_all add: refV_def refR_def setRules_def fun_eq_iff)

lemma faults_setChain [simp]:
  "rkFaults (setChain i rs k) = rkFaults k" "rkFaults (setRules f r k) = rkFaults k"
  by (simp_all add: setChain_def setRules_def)

lemma refCmd_None:
  "refCmd op k = (None, k') \<Longrightarrow> \<exists>fs. op (k\<lparr>rkFaults := fs\<rparr>) = Some k'"
  by (auto simp: refCmd_def split: list.splits bool.splits option.splits)

lemma refCmd_Some: "refCmd op k = (Some e, k') \<Longrightarrow> \<exists>fs. k' = k\<lparr>rkFaults := fs\<rparr>"
  by (auto simp: refCmd_def split: list.splits bool.splits option.splits)

lemma refCmd_healthy:
  assumes "refCmd op k = (x, k')" and "refH k"
    and "\<And>k''. op k = Some k'' \<Longrightarrow> rkFaults k'' = rkFaults k"
  shows "refH k' \<and> (op k \<noteq> None \<longrightarrow> x = None)"
proof (cases k)
  case (fields cs rs sh fs)
  with assms show ?thesis by (auto simp: refCmd_def refH_def split: option.splits)
qed

lemma refRun_add [simp]:
  "sel \<noteq> [] \<Longrightarrow> refRun ([''ip''] @ famArgs f @ [''rule'', ''add''] @ sel @ [''priority'', ItoaN p]) k =
     refRuleAdd f sel (ItoaN p) k"
  by (cases f) (simp_all add: refRun_def refRule_def butlast_append)

lemma refRun_del [simp]:
  "d \<in> {''del'', ''delete''} \<Longrightarrow> pw \<in> {''priority'', ''prio''} \<Longrightarrow>
   refRun ([''ip''] @ famArgs f @ [''rule'', d, pw, ItoaN p]) k = refRuleDel f (ItoaN p) k"
  by (cases f) (auto simp: refRun_def refRule_def)

lemma refRun_del_sel [simp]:
  "sel \<noteq> [] \<Longrightarrow> refRun ([''ip''] @ famArgs f @ [''rule'', ''del''] @ sel @ [''priority'', ItoaN p]) k =
     refRuleDelSel f sel (ItoaN p) k"
  by (cases f) (simp_all add: refRun_def refRule_def butlast_append)

text \<open>The same, as the operation of one command.\<close>

lemma refN_rule_add:
  "sel \<noteq> [] \<Longrightarrow> nRun refN ([''ip''] @ famArgs f @ [''rule'', ''add''] @ sel @ [''priority'', ItoaN p]) =
     refCmd (refRuleAdd f sel (ItoaN p))"
  by (simp only: refN_def netops.simps, rule arg_cong [where f = refCmd], rule ext, rule refRun_add)

lemma refN_rule_del:
  "d \<in> {''del'', ''delete''} \<Longrightarrow> pw \<in> {''priority'', ''prio''} \<Longrightarrow>
   nRun refN ([''ip''] @ famArgs f @ [''rule'', d, pw, ItoaN p]) = refCmd (refRuleDel f (ItoaN p))"
  by (simp only: refN_def netops.simps, rule arg_cong [where f = refCmd], rule ext, rule refRun_del)

lemma refN_rule_del_sel:
  "sel \<noteq> [] \<Longrightarrow> nRun refN ([''ip''] @ famArgs f @ [''rule'', ''del''] @ sel @ [''priority'', ItoaN p]) =
     refCmd (refRuleDelSel f sel (ItoaN p))"
  by (simp only: refN_def netops.simps, rule arg_cong [where f = refCmd], rule ext, rule refRun_del_sel)

lemma refLine_is_rule_line: "is_rule_line c s (refLine c s)"
proof -
  have "suffix ('' -j '' @ t) (refLine c s)" if "target s = Some t" for t
  proof -
    from that obtain m where "s = m @ [''-j'', t]"
      by (cases s rule: rev_cases; cases "butlast s" rule: rev_cases)
        (auto simp: target_def split: if_splits list.splits)
    then show ?thesis by (simp add: refLine_def suffix_def)
  qed
  then show ?thesis by (simp add: is_rule_line_def refLine_def)
qed

lemma find_SomeD: "find P xs = Some x \<Longrightarrow> x \<in> set xs \<and> P x"
  by (auto simp: find_Some_iff)

lemma refRuleDel_ok:
  "refRuleDel f (ItoaN p) k = Some k' \<Longrightarrow>
   \<exists>sel. (p, sel) \<in># refR k f \<and> refR k' = (refR k)(f := refR k f - {#(p, sel)#}) \<and> refV k' = refV k"
  by (auto simp: refRuleDel_def refR_def mset_remove1 split: option.splits dest!: find_SomeD)

lemma refRule_faults:
  "refRuleAdd f sel ps k = Some k' \<Longrightarrow> rkFaults k' = rkFaults k"
  "refRuleDel f ps k = Some k' \<Longrightarrow> rkFaults k' = rkFaults k"
  "refRuleDelSel f sel ps k = Some k' \<Longrightarrow> rkFaults k' = rkFaults k"
  by (auto simp: refRuleAdd_def refRuleDel_def refRuleDelSel_def split: option.splits if_splits)

lemma refV_fault_tl [simp]: "refV (k\<lparr>rkFaults := fs\<rparr>) i = refV k i"
  by simp

lemma refReferenced_iff:
  "refReferenced f t c k \<longleftrightarrow>
     (\<exists>c' rs s. refV k (f, t, c') = Some rs \<and> s \<in> set rs \<and> target s = Some c)"
proof
  assume "refReferenced f t c k"
  then show "\<exists>c' rs s. refV k (f, t, c') = Some rs \<and> s \<in> set rs \<and> target s = Some c"
    by (fastforce simp: refReferenced_def list_ex_iff split: option.splits)
next
  assume "\<exists>c' rs s. refV k (f, t, c') = Some rs \<and> s \<in> set rs \<and> target s = Some c"
  then obtain c' rs s where *: "refV k (f, t, c') = Some rs" "s \<in> set rs" "target s = Some c"
    by blast
  then have "((f, t, c'), rs) \<in> set (rkChains k)" by (auto simp: refV_def dest: map_of_SomeD)
  with * show "refReferenced f t c k"
    by (auto simp: refReferenced_def list_ex_iff intro!: bexI [of _ "((f, t, c'), rs)"])
qed

lemma refList_ok:
  "refList f t c k = (Inr ls, k') \<Longrightarrow>
     (\<exists>rs hdr lines. refV k (f, t, c) = Some rs \<and> ls = hdr # lines \<and>
        \<not> prefix ''-A '' hdr \<and> \<not> sublist ''-j '' hdr \<and> list_all2 (is_rule_line c) rs lines) \<and>
      refV k' = refV k \<and> refR k' = refR k"
proof -
  assume *: "refList f t c k = (Inr ls, k')"
  then obtain rs where "refV k (f, t, c) = Some rs" "ls = ''-N chain'' # map (refLine c) rs"
    and "refV k' = refV k \<and> refR k' = refR k"
    by (auto simp: refList_def split: list.splits bool.splits option.splits)
  moreover have "\<not> prefix ''-A '' ''-N chain''" "\<not> sublist ''-j '' ''-N chain''" by code_simp+
  moreover have "list_all2 (is_rule_line c) rs (map (refLine c) rs)"
    by (simp add: list_all2_map2 list_all2_refl refLine_is_rule_line)
  ultimately show ?thesis by auto
qed

lemmas refN_ops = refN_def refNew_def refAppend_def refInsert_def refDelete_def
lemmas ref_splits = list.splits bool.splits option.splits if_splits

interpretation refk: netfilter refN refV refR
proof
  fix f t c k k' rs n s sel p d pw e ls r x y z
  show "nNewChain refN f t c k = (None, k') \<Longrightarrow>
      refV k (f, t, c) = None \<and> refV k' = (refV k)((f, t, c) \<mapsto> []) \<and> refR k' = refR k"
    by (auto simp: refN_ops dest!: refCmd_None split: if_splits)
  show "nAppend refN f t c s k = (None, k') \<Longrightarrow>
      \<exists>rs. refV k (f, t, c) = Some rs \<and> refV k' = (refV k)((f, t, c) \<mapsto> rs @ [s]) \<and> refR k' = refR k"
    by (auto simp: refN_ops dest!: refCmd_None)
  show "nInsert refN f t c n s k = (None, k') \<Longrightarrow>
      \<exists>rs. refV k (f, t, c) = Some rs \<and> 1 \<le> n \<and> n \<le> Suc (length rs) \<and>
        refV k' = (refV k)((f, t, c) \<mapsto> take (n - 1) rs @ s # drop (n - 1) rs) \<and> refR k' = refR k"
    by (auto simp: refN_ops dest!: refCmd_None split: option.splits if_splits)
  show "nDelete refN f t c s k = (None, k') \<Longrightarrow>
      \<exists>rs. refV k (f, t, c) = Some rs \<and> s \<in> set rs \<and>
        refV k' = (refV k)((f, t, c) \<mapsto> remove1 s rs) \<and> refR k' = refR k"
    by (auto simp: refN_ops dest!: refCmd_None split: option.splits if_splits)
  show "nClearAndDeleteChain refN f t c k = (None, k') \<Longrightarrow>
      refV k' = (refV k)((f, t, c) := None) \<and> refR k' = refR k"
    by (auto simp: refN_def refClear_def fun_upd_idem split: ref_splits)
  show "nClearAndDeleteChain refN f t c k = (Some e, k') \<Longrightarrow>
      (refV k' = refV k \<or> (\<exists>rs. refV k (f, t, c) = Some rs \<and> refV k' = (refV k)((f, t, c) \<mapsto> []))) \<and>
      refR k' = refR k"
    by (auto simp: refN_def refClear_def split: ref_splits)
  show "nList refN f t c k = (Inr ls, k') \<Longrightarrow>
      (\<exists>rs hdr lines. refV k (f, t, c) = Some rs \<and> ls = hdr # lines \<and>
        \<not> prefix ''-A '' hdr \<and> \<not> sublist ''-j '' hdr \<and> list_all2 (is_rule_line c) rs lines) \<and>
      refV k' = refV k \<and> refR k' = refR k"
    by (rule refList_ok) (simp add: refN_def)
  show "nList refN f t c k = (Inl e, k') \<Longrightarrow> refV k' = refV k \<and> refR k' = refR k"
    by (auto simp: refN_def refList_def split: ref_splits)
  show "nOutput refN [''ip'', x, ''route'', ''show'', y, z] k = (r, k') \<Longrightarrow>
      refV k' = refV k \<and> refR k' = refR k"
    by (auto simp: refN_def refOutput_def split: ref_splits)
  show "nRun refN ([''ip''] @ famArgs f @ [''rule'', ''add''] @ sel @ [''priority'', ItoaN p]) k = (None, k') \<Longrightarrow>
      sel \<noteq> [] \<Longrightarrow> (p, sel) \<notin># refR k f \<and> refR k' = (refR k)(f := add_mset (p, sel) (refR k f)) \<and> refV k' = refV k"
    by (simp only: refN_rule_add not_False_eq_True, drule refCmd_None)
      (auto simp: refRuleAdd_def refR_def split: if_splits)
  show "nRun refN ([''ip''] @ famArgs f @ [''rule'', d, pw, ItoaN p]) k = (None, k') \<Longrightarrow>
      d \<in> {''del'', ''delete''} \<Longrightarrow> pw \<in> {''priority'', ''prio''} \<Longrightarrow>
      \<exists>sel. (p, sel) \<in># refR k f \<and> refR k' = (refR k)(f := refR k f - {#(p, sel)#}) \<and> refV k' = refV k"
    by (simp only: refN_rule_del, drule refCmd_None) (auto dest!: refRuleDel_ok)
  show "nRun refN ([''ip''] @ famArgs f @ [''rule'', ''del''] @ sel @ [''priority'', ItoaN p]) k = (None, k') \<Longrightarrow>
      sel \<noteq> [] \<Longrightarrow> (p, sel) \<in># refR k f \<and> refR k' = (refR k)(f := refR k f - {#(p, sel)#}) \<and> refV k' = refV k"
    by (simp only: refN_rule_del_sel not_False_eq_True, drule refCmd_None)
      (auto simp: refRuleDelSel_def refR_def mset_remove1 split: if_splits)
qed (auto simp: refN_def dest!: refCmd_Some)

lemma ref_unhealthy_faults [simp]: "refH (k\<lparr>rkFaults := []\<rparr>)"
  by (simp add: refH_def)

interpretation refk: netfilter_host refN refV refR refH
proof
  fix f t c k k' x y z n s sel p d pw a b
  assume H: "refH k"
  show "nNewChain refN f t c k = (x, k') \<Longrightarrow> refH k' \<and> (refV k (f, t, c) = None \<longrightarrow> x = None)"
    unfolding refN_def netops.simps
    by (drule refCmd_healthy [OF _ H]) (auto simp: refNew_def split: if_splits)
  show "nAppend refN f t c s k = (x, k') \<Longrightarrow> refH k' \<and> (refV k (f, t, c) \<noteq> None \<longrightarrow> x = None)"
    unfolding refN_def netops.simps
    by (drule refCmd_healthy [OF _ H]) (auto simp: refAppend_def)
  show "nInsert refN f t c n s k = (x, k') \<Longrightarrow>
      refH k' \<and> (\<forall>rs. refV k (f, t, c) = Some rs \<and> 1 \<le> n \<and> n \<le> Suc (length rs) \<longrightarrow> x = None)"
    unfolding refN_def netops.simps
    by (drule refCmd_healthy [OF _ H]) (auto simp: refInsert_def split: option.splits if_splits)
  show "nDelete refN f t c s k = (x, k') \<Longrightarrow>
      refH k' \<and> (\<forall>rs. refV k (f, t, c) = Some rs \<and> s \<in> set rs \<longrightarrow> x = None)"
    unfolding refN_def netops.simps
    by (drule refCmd_healthy [OF _ H]) (auto simp: refDelete_def split: option.splits if_splits)
  show "nClearAndDeleteChain refN f t c k = (x, k') \<Longrightarrow>
      refH k' \<and> ((\<forall>c' rs s. refV k (f, t, c') = Some rs \<longrightarrow> s \<in> set rs \<longrightarrow> target s \<noteq> Some c) \<longrightarrow> x = None)"
    using H by (auto simp: refN_def refClear_def refH_def refReferenced_iff split: if_splits)
  show "nList refN f t c k = (y, k') \<Longrightarrow> refH k' \<and> (refV k (f, t, c) \<noteq> None \<longrightarrow> (\<exists>ls. y = Inr ls))"
    using H by (auto simp: refN_def refList_def refH_def split: option.splits)
  show "nOutput refN [''ip'', a, ''route'', ''show'', b, c] k = (z, k') \<Longrightarrow> refH k'"
    using H by (auto simp: refN_def refOutput_def refH_def)
  show "nRun refN ([''ip''] @ famArgs f @ [''rule'', ''add''] @ sel @ [''priority'', ItoaN p]) k = (x, k') \<Longrightarrow>
      sel \<noteq> [] \<Longrightarrow> refH k' \<and> ((p, sel) \<notin># refR k f \<longrightarrow> x = None)"
    by (simp only: refN_rule_add not_False_eq_True, drule refCmd_healthy [OF _ H], erule refRule_faults)
      (auto simp: refRuleAdd_def refR_def)
  show "nRun refN ([''ip''] @ famArgs f @ [''rule'', d, pw, ItoaN p]) k = (x, k') \<Longrightarrow>
      d \<in> {''del'', ''delete''} \<Longrightarrow> pw \<in> {''priority'', ''prio''} \<Longrightarrow>
      refH k' \<and> ((\<exists>sel. (p, sel) \<in># refR k f) \<longrightarrow> x = None)"
    by (simp only: refN_rule_del, drule refCmd_healthy [OF _ H], erule refRule_faults)
      (auto simp: refRuleDel_def refR_def find_None_iff split: option.splits)
  show "nRun refN ([''ip''] @ famArgs f @ [''rule'', ''del''] @ sel @ [''priority'', ItoaN p]) k = (x, k') \<Longrightarrow>
      sel \<noteq> [] \<Longrightarrow> refH k' \<and> ((p, sel) \<in># refR k f \<longrightarrow> x = None)"
    by (simp only: refN_rule_del_sel not_False_eq_True, drule refCmd_healthy [OF _ H], erule refRule_faults)
      (auto simp: refRuleDelSel_def refR_def)
qed

end
