(* ===== verification/Routing.thy ===== *)
theory Routing
  imports Firewall GoNet RefKernel
begin

text \<open>
  The routing side of \<^verbatim>\<open>internal/firewall\<close>: the policy rules of the PIA resolvers and of the
  port-forward gateway (\<^verbatim>\<open>routing.go\<close>), the routes of the WAN-check bypass (\<^verbatim>\<open>bypass.go\<close>)
  and the local networks (\<^verbatim>\<open>localnetworks.go\<close>), with a specification of what the policy rules
  of a host decide for a destination.
\<close>

section \<open>Policy rules (routing.go)\<close>

definition priorityPIAGuard :: nat where "priorityPIAGuard = 76"
definition priorityPIA :: nat where "priorityPIA = 75"
definition priorityLocalNet :: nat where "priorityLocalNet = 100"
definition bypassPriority :: nat where "bypassPriority = 50"

lemmas priorities = priorityPIAGuard_def priorityPIA_def priorityLocalNet_def bypassPriority_def

text \<open>\<^verbatim>\<open>exec.Command("ip", args...).Run()\<close> with the arguments of \<^verbatim>\<open>ip rule add\<close>.\<close>

definition ipRuleAdd :: "'k netops \<Rightarrow> family \<Rightarrow> string list \<Rightarrow> nat \<Rightarrow> (('k, 'm) net_scheme, unit) prog" where
  "ipRuleAdd N f sel p = runK (nRun N ([''ip''] @ famArgs f @ [''rule'', ''add''] @ sel @ [''priority'', ItoaN p]))"

text \<open>The loop that runs a command until it fails. Whether it ends depends on the command.\<close>

partial_function (option) delLoop :: "'k netops \<Rightarrow> string list \<Rightarrow> ('k, 'm) net_scheme \<Rightarrow> ((err + unit) \<times> ('k, 'm) net_scheme) option" where
  "delLoop N args w = (case nRun N args (kern w) of
       (None, k) \<Rightarrow> delLoop N args (w\<lparr>kern := k\<rparr>)
     | (Some e, k) \<Rightarrow> Some (Inr (), w\<lparr>kern := k\<rparr>))"

declare delLoop.simps [code]

definition guardSel :: "string \<Rightarrow> string list" where
  "guardSel ip = [''to'', ip, ''unreachable'']"

definition lookupSel :: "string \<Rightarrow> string list" where
  "lookupSel ip = [''to'', ip, ''lookup'', ''51820'']"

definition RemovePIARoutes :: "'k netops \<Rightarrow> (('k, 'm) net_scheme, unit) prog" where
  "RemovePIARoutes N =
     bindP (delLoop N [''ip'', ''rule'', ''delete'', ''prio'', ItoaN priorityPIAGuard])
       (\<lambda>_. delLoop N [''ip'', ''rule'', ''delete'', ''prio'', ItoaN priorityPIA])"

definition addPIARoute :: "'k netops \<Rightarrow> string \<Rightarrow> (('k, 'm) net_scheme, unit) prog" where
  "addPIARoute N ip =
     bindP (wrapErr ''failed to add pia dns blackhole route'' (ipRuleAdd N IPv4 (guardSel ip) priorityPIAGuard))
       (\<lambda>_. wrapErr ''failed to add pia dns route'' (ipRuleAdd N IPv4 (lookupSel ip) priorityPIA))"

definition AddPIADNSRoutes :: "'k netops \<Rightarrow> string list \<Rightarrow> (('k, 'm) net_scheme, unit) prog" where
  "AddPIADNSRoutes N dns = bindP (RemovePIARoutes N) (\<lambda>_. forP dns (addPIARoute N))"

definition AddPFRoute :: "'k netops \<Rightarrow> string \<Rightarrow> (('k, 'm) net_scheme, unit) prog" where
  "AddPFRoute N pfGateway = ipRuleAdd N IPv4 (lookupSel pfGateway) priorityPIA"

definition RemovePFRoute :: "'k netops \<Rightarrow> string \<Rightarrow> (('k, 'm) net_scheme, unit) prog" where
  "RemovePFRoute N pfGateway =
     (if pfGateway = [] then ret ()
      else ignoreP (runK (nRun N ([''ip'', ''rule'', ''del''] @ lookupSel pfGateway @ [''priority'', ItoaN priorityPIA]))))"

section \<open>The bypass (bypass.go)\<close>

definition mainSel :: "string \<Rightarrow> string list" where
  "mainSel network = [''to'', network, ''table'', ''main'']"

definition cleanupBypassRoutes :: "'k netops \<Rightarrow> (('k, 'm) net_scheme, unit) prog" where
  "cleanupBypassRoutes N = delLoop N [''ip'', ''rule'', ''del'', ''priority'', ItoaN bypassPriority]"

definition setupBypassRoutes :: "'k netops \<Rightarrow> (('k, 'm) net_scheme, unit) prog" where
  "setupBypassRoutes N =
     bindP (cleanupBypassRoutes N) (\<lambda>_.
     forP WANCheckIPs (\<lambda>network. ipRuleAdd N IPv4 (mainSel network) bypassPriority))"

definition setupBypass :: "'k netops \<Rightarrow> (('k, 'm) net_scheme, unit) prog" where
  "setupBypass N =
     bindP (wrapErr ''failed to setup bypass routes'' (setupBypassRoutes N)) (\<lambda>_.
     wrapErr ''failed to insert bypass rules'' (insertBypassRules N))"

section \<open>Local networks (localnetworks.go)\<close>

text \<open>The first fields of the lines of \<^verbatim>\<open>ip route show\<close> that are subnets.\<close>

definition subnetFields :: "string \<Rightarrow> string list" where
  "subnetFields out = concat (map (\<lambda>line. case Fields line of
       [] \<Rightarrow> [] | fld # _ \<Rightarrow> (if Contains fld ''/'' then [fld] else []))
     (Split (CHR 0x0A) (TrimSpace out)))"

definition detectKernelSubnets :: "'k netops \<Rightarrow> (('k, 'm) net_scheme, string list \<times> string list) prog" where
  "detectKernelSubnets N =
     bindP (tryP (outK (nOutput N [''ip'', ''-4'', ''route'', ''show'', ''proto'', ''kernel'']))) (\<lambda>r4.
     bindP (tryP (outK (nOutput N [''ip'', ''-6'', ''route'', ''show'', ''proto'', ''kernel'']))) (\<lambda>r6.
     ret (case r4 of Inl _ \<Rightarrow> [] | Inr out \<Rightarrow> subnetFields out,
          case r6 of Inl _ \<Rightarrow> [] | Inr out \<Rightarrow> filter (\<lambda>fld. \<not> HasPrefix fld ''fe80'') (subnetFields out))))"

definition resolvePart :: "string list \<times> string list \<Rightarrow> string \<Rightarrow> string list \<times> string list" where
  "resolvePart acc raw = (let (ipv4, ipv6) = acc; part = TrimSpace raw in
     if part = [] then (ipv4, ipv6)
     else if part = ''all'' then (ipv4 @ [''10.0.0.0/8'', ''172.16.0.0/12'', ''192.168.0.0/16''], ipv6 @ [''fc00::/7''])
     else if \<not> validCIDR part then (ipv4, ipv6)
     else if Contains part '':'' then (ipv4, ipv6 @ [part])
     else (ipv4 @ [part], ipv6))"

definition resolveLocalNetworks :: "'k netops \<Rightarrow> string \<Rightarrow> (('k, 'm) net_scheme, string list \<times> string list) prog" where
  "resolveLocalNetworks N input =
     bindP (if \<not> Contains input ''all'' then detectKernelSubnets N else ret ([], []))
       (\<lambda>acc. ret (foldl resolvePart acc (Split CHR '','' input)))"

definition localDelArgs :: "family \<Rightarrow> string list" where
  "localDelArgs f = [''ip''] @ famArgs f @ [''rule'', ''del'', ''priority'', ItoaN priorityLocalNet]"

definition cleanupLocalRoutes :: "'k netops \<Rightarrow> (('k, 'm) net_scheme, unit) prog" where
  "cleanupLocalRoutes N = forP [IPv4, IPv6] (\<lambda>f. delLoop N (localDelArgs f))"

definition addLocalRoute :: "'k netops \<Rightarrow> family \<Rightarrow> string \<Rightarrow> (('k, 'm) net_scheme, unit) prog" where
  "addLocalRoute N f network =
     wrapErr (''add route '' @ network) (ipRuleAdd N f (mainSel network) priorityLocalNet)"

definition setupLocalRoutes :: "'k netops \<Rightarrow> string list \<Rightarrow> string list \<Rightarrow> (('k, 'm) net_scheme, unit) prog" where
  "setupLocalRoutes N lansV4 lansV6 =
     bindP (cleanupLocalRoutes N) (\<lambda>_.
     bindP (forP lansV4 (addLocalRoute N IPv4)) (\<lambda>_.
     forP lansV6 (addLocalRoute N IPv6)))"

definition lanInSpec :: "string \<Rightarrow> spec" where
  "lanInSpec network = [''-s'', network, ''-j'', ''ACCEPT'']"

definition lanOutSpec :: "string \<Rightarrow> spec" where
  "lanOutSpec network = [''-d'', network, ''-j'', ''ACCEPT'']"

definition setupLocalRules :: "'k netops \<Rightarrow> string list \<Rightarrow> string list \<Rightarrow> (('k, 'm) net_scheme, unit) prog" where
  "setupLocalRules N lansV4 lansV6 =
     bindP (forP lansV4 (\<lambda>network.
       bindP (wrapErr (ChainIn @ '' local network '' @ network) (insertBeforeDrop N IPv4 ChainIn (lanInSpec network)))
         (\<lambda>_. wrapErr (ChainOut @ '' local network '' @ network) (insertBeforeDrop N IPv4 ChainOut (lanOutSpec network))))) (\<lambda>_.
     forP lansV6 (\<lambda>network.
       bindP (wrapErr (chainIn6 @ '' local network '' @ network) (insertBeforeDrop N IPv6 chainIn6 (lanInSpec network)))
         (\<lambda>_. wrapErr (chainOut6 @ '' local network '' @ network) (insertBeforeDrop N IPv6 chainOut6 (lanOutSpec network)))))"

definition setupLocalNetworks :: "'k netops \<Rightarrow> string \<Rightarrow> (('k, 'm) net_scheme, string) prog" where
  "setupLocalNetworks N localNetworks =
     bindP (resolveLocalNetworks N localNetworks) (\<lambda>(lansV4, lansV6).
     bindP (wrapErr ''failed to setup routes'' (setupLocalRoutes N lansV4 lansV6)) (\<lambda>_.
     bindP (wrapErr ''failed to setup input chain'' (setupLocalRules N lansV4 lansV6)) (\<lambda>_.
     ret (formatNetworks lansV4 lansV6))))"

section \<open>What the operations do to the policy rules\<close>

abbreviation at_prio :: "nat \<Rightarrow> (nat \<times> string list) multiset \<Rightarrow> (nat \<times> string list) multiset" where
  "at_prio p rs \<equiv> filter_mset (\<lambda>r. fst r = p) rs"

text \<open>\<open>purged f p r r'\<close>: \<open>r'\<close> is \<open>r\<close> without some of the rules of family \<open>f\<close> and priority \<open>p\<close>.\<close>

definition purged :: "family \<Rightarrow> nat \<Rightarrow> iprules \<Rightarrow> iprules \<Rightarrow> bool" where
  "purged f p r r' \<longleftrightarrow> (\<exists>m. m \<subseteq># at_prio p (r f) \<and> r' = r(f := r f - m))"

lemma purged_refl: "purged f p r r"
  by (auto simp: purged_def intro: exI [of _ "{#}"])

lemma purged_step:
  assumes "(p, sel) \<in># r f" and "purged f p (r(f := r f - {#(p, sel)#})) r'"
  shows "purged f p r r'"
proof -
  from assms(2) obtain m where m: "m \<subseteq># at_prio p (r f - {#(p, sel)#})" "r' = r(f := r f - {#(p, sel)#} - m)"
    by (auto simp: purged_def)
  from assms(1) have "(p, sel) \<in># at_prio p (r f)" by simp
  with m(1) have "add_mset (p, sel) m \<subseteq># at_prio p (r f)"
    by (simp add: insert_subset_eq_iff)
  with m(2) show ?thesis unfolding purged_def by (intro exI [of _ "add_mset (p, sel) m"]) simp
qed

lemma purged_empty:
  assumes "purged f p r r'" and "at_prio p (r' f) = {#}"
  shows "r' = r(f := filter_mset (\<lambda>x. fst x \<noteq> p) (r f))"
proof -
  from assms(1) obtain m where m: "m \<subseteq># at_prio p (r f)" "r' = r(f := r f - m)"
    by (auto simp: purged_def)
  have "\<forall>x \<in># m. fst x = p" using m(1) mset_subset_eqD by fastforce
  then have "at_prio p m = m" by (simp add: filter_mset_eq_conv)
  with assms(2) m(2) have "at_prio p (r f) - m = {#}" by simp
  then have "m = at_prio p (r f)"
    using m(1) by (simp add: Diff_eq_empty_iff_mset subset_mset.antisym)
  moreover have "r f = at_prio p (r f) + filter_mset (\<lambda>x. fst x \<noteq> p) (r f)"
    by (rule multiset_partition)
  ultimately show ?thesis using m(2) by (metis add_diff_cancel_left')
qed

lemma delLoop_eq:
  "delLoop N args = bindP (tryP (runK (nRun N args))) (\<lambda>r. case r of Inl _ \<Rightarrow> ret () | Inr _ \<Rightarrow> delLoop N args)"
  by (rule ext, subst delLoop.simps) (simp add: bindP_def tryP_def runK_def ret_def split: prod.splits option.splits)

context netfilter
begin

text \<open>
  The loop ends: each command that succeeds removes one of finitely many rules. \<open>J\<close> is a
  property of the kernel that the command keeps.
\<close>

lemma wp_delLoop_inv:
  assumes d: "d \<in> {''del'', ''delete''}" and pw: "pw \<in> {''priority'', ''prio''}"
    and args: "args = [''ip''] @ famArgs f @ [''rule'', d, pw, ItoaN p]"
    and J: "\<And>k x k'. J k \<Longrightarrow> nRun N args k = (x, k') \<Longrightarrow> J k'"
    and "J (kern w)"
    and "\<And>k0 e k'. J k0 \<Longrightarrow> nRun N args k0 = (Some e, k') \<Longrightarrow> R k' = R k0 \<Longrightarrow> V k' = V (kern w) \<Longrightarrow>
      purged f p (R (kern w)) (R k') \<Longrightarrow> Q (Inr ()) (w\<lparr>kern := k'\<rparr>)"
  shows "wp (delLoop N args) Q w"
  using assms(5,6)
proof (induction "size (at_prio p (R (kern w) f))" arbitrary: w rule: less_induct)
  case less
  show ?case
  proof (subst delLoop_eq, simp, rule wp_runK, simp_all)
    fix k' assume run: "nRun N args (kern w) = (None, k')"
    from rule_del_ok [OF run [unfolded args] d pw] obtain sel where
      sel: "(p, sel) \<in># R (kern w) f" and R: "R k' = (R (kern w))(f := R (kern w) f - {#(p, sel)#})"
      and V: "V k' = V (kern w)" by blast
    have at: "(p, sel) \<in># at_prio p (R (kern w) f)" using sel by simp
    show "wp (delLoop N args) Q (w\<lparr>kern := k'\<rparr>)"
    proof (rule less.hyps)
      show "size (at_prio p (R (kern (w\<lparr>kern := k'\<rparr>)) f)) < size (at_prio p (R (kern w) f))"
        using R at by (simp add: size_Diff1_less)
      show "J (kern (w\<lparr>kern := k'\<rparr>))" using J [OF less.prems(1) run] by simp
    next
      fix k0 e k''
      assume *: "J k0" "nRun N args k0 = (Some e, k'')" "R k'' = R k0"
        "V k'' = V (kern (w\<lparr>kern := k'\<rparr>))" "purged f p (R (kern (w\<lparr>kern := k'\<rparr>))) (R k'')"
      have "purged f p (R (kern w)) (R k'')"
        using *(5) R by (intro purged_step [where sel = sel and r = "R (kern w)" and f = f, OF sel]) simp
      then show "Q (Inr ()) (w\<lparr>kern := k'\<rparr>\<lparr>kern := k''\<rparr>)"
        using less.prems(2) [OF *(1,2,3)] *(4) V by simp
    qed
  next
    fix e k' assume run: "nRun N args (kern w) = (Some e, k')"
    have "R k' = R (kern w)" "V k' = V (kern w)"
      using rule_del_err [OF run [unfolded args] d pw] by auto
    then show "Q (Inr ()) (w\<lparr>kern := k'\<rparr>)"
      using less.prems(2) [OF less.prems(1) run] by (simp add: purged_refl)
  qed
qed

lemma wp_delLoop:
  assumes "args = [''ip''] @ famArgs f @ [''rule'', d, pw, ItoaN p]"
    and "d \<in> {''del'', ''delete''}" and "pw \<in> {''priority'', ''prio''}"
    and "\<And>k'. V k' = V (kern w) \<Longrightarrow> purged f p (R (kern w)) (R k') \<Longrightarrow> Q (Inr ()) (w\<lparr>kern := k'\<rparr>)"
  shows "wp (delLoop N args) Q w"
  by (rule wp_delLoop_inv [where J = "\<lambda>_. True", OF assms(2,3,1)]) (auto intro: assms(4))

end

context netfilter_host
begin

text \<open>On a healthy host the loop removes every rule of its priority.\<close>

lemma wp_delLoop_host:
  assumes "args = [''ip''] @ famArgs f @ [''rule'', d, pw, ItoaN p]"
    and "d \<in> {''del'', ''delete''}" and "pw \<in> {''priority'', ''prio''}" and "H (kern w)"
    and "\<And>k'. H k' \<Longrightarrow> V k' = V (kern w) \<Longrightarrow>
      R k' = (R (kern w))(f := filter_mset (\<lambda>x. fst x \<noteq> p) (R (kern w) f)) \<Longrightarrow> Q (Inr ()) (w\<lparr>kern := k'\<rparr>)"
  shows "wp (delLoop N args) Q w"
proof (rule wp_delLoop_inv [where J = H, OF assms(2,3,1)])
  fix k x k' assume "H k" "nRun N args k = (x, k')"
  then show "H k'" using rule_del_succ assms(1-3) by metis
next
  fix k0 e k'
  assume *: "H k0" "nRun N args k0 = (Some e, k')" "R k' = R k0" "V k' = V (kern w)"
    "purged f p (R (kern w)) (R k')"
  have s: "H k' \<and> ((\<exists>sel. (p, sel) \<in># R k0 f) \<longrightarrow> Some e = None)"
    by (rule rule_del_succ [OF *(1) *(2) [unfolded assms(1)] assms(2,3)])
  then have "\<forall>sel. (p, sel) \<notin># R k' f" using *(3) by auto
  then have "\<And>x. x \<in># R k' f \<Longrightarrow> fst x \<noteq> p" by (metis prod.collapse)
  then have "at_prio p (R k' f) = {#}" by (auto simp: multiset_eq_iff not_in_iff) (metis not_in_iff)
  then show "Q (Inr ()) (w\<lparr>kern := k'\<rparr>)"
    using s purged_empty [OF *(5)] *(4) by (intro assms(5)) auto
qed (fact assms(4))

end

text \<open>
  What the operations leave alone: every iptables chain, and the policy rules of other
  priorities. \<open>same_but P r r'\<close>: the rule sets agree outside the priorities \<open>P\<close>.
\<close>

definition same_but :: "nat set \<Rightarrow> iprules \<Rightarrow> iprules \<Rightarrow> bool" where
  "same_but P r r' \<longleftrightarrow> (\<forall>f. filter_mset (\<lambda>x. fst x \<notin> P) (r' f) = filter_mset (\<lambda>x. fst x \<notin> P) (r f))"

lemma same_but_refl [simp]: "same_but P r r"
  by (simp add: same_but_def)

lemma same_but_trans [trans]: "same_but P r r' \<Longrightarrow> same_but P r' r'' \<Longrightarrow> same_but P r r''"
  by (simp add: same_but_def)

lemma purged_same_but:
  assumes "purged f p r r'" and "p \<in> P"
  shows "same_but P r r'"
proof -
  from assms(1) obtain m where m: "m \<subseteq># at_prio p (r f)" "r' = r(f := r f - m)"
    by (auto simp: purged_def)
  have "\<forall>x \<in># m. fst x = p" using m(1) mset_subset_eqD by fastforce
  then have "filter_mset (\<lambda>x. fst x \<notin> P) m = filter_mset (\<lambda>_. False) m"
    using assms(2) by (intro filter_mset_cong) auto
  then have "filter_mset (\<lambda>x. fst x \<notin> P) (r f - m) = filter_mset (\<lambda>x. fst x \<notin> P) (r f)"
    by (simp only: filter_diff_mset filter_mset_False diff_empty)
  with m(2) show ?thesis by (simp add: same_but_def)
qed

lemma add_same_but: "p \<in> P \<Longrightarrow> same_but P r (r(f := add_mset (p, sel) (r f)))"
  by (simp add: same_but_def)

lemma del_same_but: "p \<in> P \<Longrightarrow> same_but P r (r(f := r f - {#(p, sel)#}))"
  by (simp add: same_but_def)

definition routing_frame :: "('k \<Rightarrow> chains) \<Rightarrow> ('k \<Rightarrow> iprules) \<Rightarrow> nat set \<Rightarrow> 'k \<Rightarrow> ('k, 'm) net_scheme \<Rightarrow> bool" where
  "routing_frame v r P k0 w \<longleftrightarrow> v (kern w) = v k0 \<and> same_but P (r k0) (r (kern w))"

lemma sel_nonempty [simp]: "guardSel ip \<noteq> []" "lookupSel ip \<noteq> []" "mainSel ip \<noteq> []"
  by (simp_all add: guardSel_def lookupSel_def mainSel_def)

context netfilter
begin

abbreviation RF :: "nat set \<Rightarrow> 'k \<Rightarrow> ('k, 'm) net_scheme \<Rightarrow> bool" where
  "RF \<equiv> routing_frame V R"

lemma RF_refl [simp]: "RF P (kern w) w"
  by (simp add: routing_frame_def)

lemma keeps_rule_add [intro]: "p \<in> P \<Longrightarrow> sel \<noteq> [] \<Longrightarrow> keeps (RF P k0) (ipRuleAdd N f sel p)"
  unfolding ipRuleAdd_def
  by (rule keepsI, rule wp_rule_add)
    (auto simp: routing_frame_def intro: same_but_trans add_same_but)

lemma keeps_rule_del_sel [intro]:
  "p \<in> P \<Longrightarrow> sel \<noteq> [] \<Longrightarrow>
   keeps (RF P k0) (runK (nRun N ([''ip''] @ famArgs f @ [''rule'', ''del''] @ sel @ [''priority'', ItoaN p])))"
  by (rule keepsI, rule wp_rule_del_sel)
    (auto simp: routing_frame_def intro: same_but_trans del_same_but)

lemma keeps_delLoop:
  "args = [''ip''] @ famArgs f @ [''rule'', d, pw, ItoaN p] \<Longrightarrow> d \<in> {''del'', ''delete''} \<Longrightarrow>
   pw \<in> {''priority'', ''prio''} \<Longrightarrow> p \<in> P \<Longrightarrow> keeps (RF P k0) (delLoop N args)"
  by (rule keepsI, rule wp_delLoop)
    (auto simp: routing_frame_def intro: same_but_trans purged_same_but)

lemma keeps_RemovePIARoutes [intro]: "{75, 76} \<subseteq> P \<Longrightarrow> keeps (RF P k0) (RemovePIARoutes N)"
  unfolding RemovePIARoutes_def
  by (intro keeps_bindP keeps_delLoop [where f = IPv4]) (auto simp: priorities)

lemma keeps_AddPIADNSRoutes [intro]: "{75, 76} \<subseteq> P \<Longrightarrow> keeps (RF P k0) (AddPIADNSRoutes N dns)"
  unfolding AddPIADNSRoutes_def addPIARoute_def
  by (intro keeps_bindP keeps_forP keeps_wrapErr keeps_rule_add keeps_RemovePIARoutes)
    (auto simp: priorities)

lemma keeps_AddPFRoute [intro]: "75 \<in> P \<Longrightarrow> keeps (RF P k0) (AddPFRoute N gw)"
  unfolding AddPFRoute_def by (intro keeps_rule_add) (auto simp: priorities)

lemma keeps_RemovePFRoute [intro]: "75 \<in> P \<Longrightarrow> keeps (RF P k0) (RemovePFRoute N gw)"
  unfolding RemovePFRoute_def
  using keeps_rule_del_sel [of priorityPIA P "lookupSel gw" k0 IPv4] by (auto simp: priorities)

lemma keeps_cleanupBypassRoutes [intro]: "50 \<in> P \<Longrightarrow> keeps (RF P k0) (cleanupBypassRoutes N)"
  unfolding cleanupBypassRoutes_def by (intro keeps_delLoop [where f = IPv4]) (auto simp: priorities)

lemma keeps_setupBypassRoutes [intro]: "50 \<in> P \<Longrightarrow> keeps (RF P k0) (setupBypassRoutes N)"
  unfolding setupBypassRoutes_def
  by (intro keeps_bindP keeps_forP keeps_rule_add keeps_cleanupBypassRoutes) (auto simp: priorities)

lemma keeps_cleanupLocalRoutes [intro]: "100 \<in> P \<Longrightarrow> keeps (RF P k0) (cleanupLocalRoutes N)"
  unfolding cleanupLocalRoutes_def
  by (intro keeps_forP, rule keeps_delLoop [OF localDelArgs_def]) (auto simp: priorities)

lemma keeps_setupLocalRoutes [intro]: "100 \<in> P \<Longrightarrow> keeps (RF P k0) (setupLocalRoutes N v4 v6)"
  unfolding setupLocalRoutes_def addLocalRoute_def
  by (intro keeps_bindP keeps_forP keeps_wrapErr keeps_rule_add keeps_cleanupLocalRoutes)
    (auto simp: priorities)

lemma keeps_route_show [intro]: "keeps (RF P k0) (outK (nOutput N [''ip'', x, ''route'', ''show'', y, z]))"
  by (rule keepsI, rule wp_route_show) (auto simp: routing_frame_def)

lemma keeps_resolveLocalNetworks [intro]: "keeps (RF P k0) (resolveLocalNetworks N input)"
  unfolding resolveLocalNetworks_def detectKernelSubnets_def
  by (auto intro!: keeps_bindP)

text \<open>From the frame to a rule of the calculus.\<close>

lemma wp_RF:
  assumes "\<And>k0. keeps (RF P k0) m"
    and "\<And>r w'. V (kern w') = V (kern w) \<Longrightarrow> same_but P (R (kern w)) (R (kern w')) \<Longrightarrow> Q r w'"
  shows "wp m Q w"
  by (rule wp_keeps [OF assms(1) [of "kern w"] RF_refl]) (auto simp: routing_frame_def intro: assms(2))

end

subsection \<open>Loops that add rules\<close>

text \<open>\<open>added f rs r r'\<close>: each rule of \<open>rs\<close> was new when it was added, and nothing else changed.\<close>

definition added :: "family \<Rightarrow> (nat \<times> string list) list \<Rightarrow> iprules \<Rightarrow> iprules \<Rightarrow> bool" where
  "added f rs r r' \<longleftrightarrow> distinct rs \<and> (\<forall>x \<in> set rs. x \<notin># r f) \<and> r' = r(f := mset rs + r f)"

lemma added_Nil [simp]: "added f [] r r' \<longleftrightarrow> r' = r"
  by (simp add: added_def)

lemma added_one: "added f [x] r r' \<longleftrightarrow> x \<notin># r f \<and> r' = r(f := add_mset x (r f))"
  by (auto simp: added_def)

lemma added_trans: "added f xs r r1 \<Longrightarrow> added f ys r1 r2 \<Longrightarrow> added f (xs @ ys) r r2"
  by (auto simp: added_def)

lemma added_in: "added f rs r r' \<Longrightarrow> x \<in> set rs \<Longrightarrow> x \<in># r' f"
  by (auto simp: added_def)

context netfilter
begin

lemma wp_forP_added:
  assumes "\<And>x w. wp (b x) (\<lambda>r w'. r = Inr () \<longrightarrow> added f (rs x) (R (kern w)) (R (kern w'))) w"
  shows "wp (forP xs b) (\<lambda>r w'. r = Inr () \<longrightarrow> added f (concat (map rs xs)) (R (kern w)) (R (kern w'))) w"
proof (induction xs arbitrary: w)
  case Nil
  then show ?case by simp
next
  case (Cons x xs)
  show ?case
    by (simp, rule wp_conseq [OF assms])
      (auto split: sum.splits intro!: wp_conseq [OF Cons.IH] intro: added_trans)
qed

lemma wp_ipRuleAdd:
  assumes "sel \<noteq> []"
    and "\<And>k'. V k' = V (kern w) \<Longrightarrow> added f [(p, sel)] (R (kern w)) (R k') \<Longrightarrow> Q (Inr ()) (w\<lparr>kern := k'\<rparr>)"
    and "\<And>e k'. V k' = V (kern w) \<Longrightarrow> R k' = R (kern w) \<Longrightarrow> Q (Inl e) (w\<lparr>kern := k'\<rparr>)"
  shows "wp (ipRuleAdd N f sel p) Q w"
  using assms unfolding ipRuleAdd_def by (intro wp_rule_add) (auto simp: added_one)

end

context netfilter_host
begin

lemma wp_rule_add_host:
  assumes "sel \<noteq> []" and "H (kern w)" and "(p, sel) \<notin># R (kern w) f"
    and "\<And>k'. H k' \<Longrightarrow> V k' = V (kern w) \<Longrightarrow>
      R k' = (R (kern w))(f := add_mset (p, sel) (R (kern w) f)) \<Longrightarrow> Q (Inr ()) (w\<lparr>kern := k'\<rparr>)"
  shows "wp (ipRuleAdd N f sel p) Q w"
  unfolding ipRuleAdd_def
proof (rule wp_runK)
  fix k' assume run: "nRun N ([''ip''] @ famArgs f @ [''rule'', ''add''] @ sel @ [''priority'', ItoaN p]) (kern w) = (None, k')"
  show "Q (Inr ()) (w\<lparr>kern := k'\<rparr>)"
    using rule_add_ok [OF run assms(1)] rule_add_succ [OF assms(2) run assms(1)] by (intro assms(4)) auto
next
  fix e k' assume run: "nRun N ([''ip''] @ famArgs f @ [''rule'', ''add''] @ sel @ [''priority'', ItoaN p]) (kern w) = (Some e, k')"
  show "Q (Inl e) (w\<lparr>kern := k'\<rparr>)"
    using rule_add_succ [OF assms(2) run assms(1)] assms(3) by auto
qed

text \<open>The post-condition of a loop on a healthy host that adds the rules \<open>rs\<close>.\<close>

definition addedH :: "family \<Rightarrow> (nat \<times> string list) list \<Rightarrow> ('k, 'm) net_scheme \<Rightarrow> err + unit \<Rightarrow> ('k, 'm) net_scheme \<Rightarrow> bool" where
  "addedH f rs w r w' \<longleftrightarrow> r = Inr () \<and> H (kern w') \<and> V (kern w') = V (kern w) \<and>
     R (kern w') = (R (kern w))(f := mset rs + R (kern w) f)"

lemma wp_forP_addedH:
  assumes "\<And>x w. x \<in> set xs \<Longrightarrow> H (kern w) \<Longrightarrow> distinct (rs x) \<Longrightarrow> (\<forall>y \<in> set (rs x). y \<notin># R (kern w) f) \<Longrightarrow>
      wp (b x) (addedH f (rs x) w) w"
    and "H (kern w)" and "distinct (concat (map rs xs))"
    and "\<forall>y \<in> set (concat (map rs xs)). y \<notin># R (kern w) f"
  shows "wp (forP xs b) (addedH f (concat (map rs xs)) w) w"
  using assms
proof (induction xs arbitrary: w)
  case Nil
  then show ?case by (simp add: addedH_def)
next
  case (Cons x xs)
  have "wp (b x) (addedH f (rs x) w) w" using Cons.prems by (intro Cons.prems(1)) auto
  moreover have "wp (forP xs b) (addedH f (concat (map rs (x # xs))) w) w'" if "addedH f (rs x) w r w'" for r w'
    by (rule wp_conseq [OF Cons.IH]) (use Cons.prems that in \<open>auto simp: addedH_def ac_simps\<close>)
  ultimately show ?case
    by (auto elim!: wp_conseq split: sum.splits) (auto simp: addedH_def)
qed

end

section \<open>The PIA resolvers\<close>

definition piaRules :: "string \<Rightarrow> (nat \<times> string list) list" where
  "piaRules ip = [(priorityPIAGuard, guardSel ip), (priorityPIA, lookupSel ip)]"

definition lanRules :: "string \<Rightarrow> (nat \<times> string list) list" where
  "lanRules network = [(priorityLocalNet, mainSel network)]"

definition bypassRules :: "string \<Rightarrow> (nat \<times> string list) list" where
  "bypassRules network = [(bypassPriority, mainSel network)]"

lemmas rule_lists = piaRules_def lanRules_def bypassRules_def

text \<open>
  What the policy rules decide for a packet. \<open>hit sel\<close>: the selector of the rule matches the
  packet and its action settles the route (a lookup in a table without a route does not).
  Rules are tried in the order of their priorities.
\<close>

definition decides :: "(string list \<Rightarrow> bool) \<Rightarrow> (nat \<times> string list) multiset \<Rightarrow> nat \<times> string list \<Rightarrow> bool" where
  "decides hit rs r \<longleftrightarrow> r \<in># rs \<and> hit (snd r) \<and> (\<forall>q \<in># rs. hit (snd q) \<longrightarrow> fst r \<le> fst q)"

lemma decides_bound: "decides hit rs r \<Longrightarrow> q \<in># rs \<Longrightarrow> hit (snd q) \<Longrightarrow> fst r \<le> fst q"
  by (simp add: decides_def)

text \<open>
  What a single rule does with a packet: \<open>covers net\<close>, the destination is in the network of the
  rule; \<open>known t\<close>, the routing table \<open>t\<close> has a route for it. A rule that does not match, or that looks
  up a table without a route, settles nothing. Selectors the program does not write are read by \<open>other\<close>.
\<close>

datatype route = Via string | Unreachable

definition settles :: "(string \<Rightarrow> bool) \<Rightarrow> (string \<Rightarrow> bool) \<Rightarrow> (string list \<Rightarrow> route option) \<Rightarrow> string list \<Rightarrow> route option" where
  "settles covers known other sel = (case sel of
       [a, net, act] \<Rightarrow>
         if a = ''to'' \<and> act = ''unreachable'' then if covers net then Some Unreachable else None else other sel
     | [a, net, act, t] \<Rightarrow>
         if a = ''to'' \<and> (act = ''lookup'' \<or> act = ''table'') then if covers net \<and> known t then Some (Via t) else None
         else other sel
     | _ \<Rightarrow> other sel)"

lemma settles_sel [simp]:
  "settles covers known other (guardSel ip) = (if covers ip then Some Unreachable else None)"
  "settles covers known other (lookupSel ip) = (if covers ip \<and> known ''51820'' then Some (Via ''51820'') else None)"
  "settles covers known other (mainSel ip) = (if covers ip \<and> known ''main'' then Some (Via ''main'') else None)"
  by (simp_all add: settles_def guardSel_def lookupSel_def mainSel_def)

text \<open>A rule that matches leaves a rule that decides.\<close>

lemma decides_ex:
  assumes "q \<in># rs" and "hit (snd q)"
  shows "\<exists>r. decides hit rs r"
proof -
  obtain r where "r \<in># rs \<and> hit (snd r)" "\<forall>y. y \<in># rs \<and> hit (snd y) \<longrightarrow> fst r \<le> fst y"
    using ex_has_least_nat [of "\<lambda>r. r \<in># rs \<and> hit (snd r)" q fst] assms by blast
  then have "decides hit rs r" unfolding decides_def by blast
  then show ?thesis by blast
qed

lemma distinct_piaRules: "distinct (concat (map piaRules dns)) \<longleftrightarrow> distinct dns"
  by (induction dns) (auto simp: piaRules_def guardSel_def lookupSel_def priorities)

lemma distinct_lanRules: "distinct (concat (map lanRules ls)) \<longleftrightarrow> distinct ls"
  by (induction ls) (auto simp: lanRules_def mainSel_def)

context netfilter
begin

lemma wp_addPIARoute:
  "wp (addPIARoute N ip) (\<lambda>r w'. r = Inr () \<longrightarrow> added IPv4 (piaRules ip) (R (kern w)) (R (kern w'))) w"
  by (auto simp: addPIARoute_def added_def piaRules_def intro!: wp_ipRuleAdd)

text \<open>A property of the rules of the main family that holds of the added ones is kept.\<close>

lemma keeps_AddPIADNSRoutes_rules:
  assumes "\<And>ip q. q \<in> set (piaRules ip) \<Longrightarrow> G q"
  shows "keeps (\<lambda>w. \<forall>q \<in># R (kern w) IPv4. G q) (AddPIADNSRoutes N dns)"
proof -
  let ?I = "\<lambda>w. \<forall>q \<in># R (kern w) IPv4. G q"
  have del: "keeps ?I (delLoop N [''ip'', ''rule'', ''delete'', ''prio'', ItoaN p])" for p
    by (rule keepsI, rule wp_delLoop [where f = IPv4 and d = "''delete''" and pw = "''prio''"])
      (auto simp: purged_def split_paired_all dest!: in_diffD)
  have add: "keeps ?I (ipRuleAdd N IPv4 sel p)" if "sel \<noteq> []" "G (p, sel)" for sel p
    by (rule keepsI, rule wp_ipRuleAdd) (use that in \<open>auto simp: added_one\<close>)
  show ?thesis unfolding AddPIADNSRoutes_def RemovePIARoutes_def addPIARoute_def
    by (intro keeps_bindP keeps_forP keeps_wrapErr del add) (auto intro: assms simp: piaRules_def)
qed

lemma AddPIADNSRoutes_rules:
  "wp (AddPIADNSRoutes N dns) (\<lambda>r w'. r = Inr () \<longrightarrow>
     (\<forall>ip \<in> set dns. \<forall>x \<in> set (piaRules ip). x \<in># R (kern w') IPv4) \<and> distinct dns) w"
proof -
  have "wp (forP dns (addPIARoute N)) (\<lambda>r w'. r = Inr () \<longrightarrow>
     (\<forall>ip \<in> set dns. \<forall>x \<in> set (piaRules ip). x \<in># R (kern w') IPv4) \<and> distinct dns) w'"
    for w' :: "('k, 'b) net_scheme"
    by (rule wp_conseq [OF wp_forP_added [OF wp_addPIARoute]])
      (auto simp: added_def distinct_piaRules [symmetric])
  then show ?thesis unfolding AddPIADNSRoutes_def wp_bindP
    by (intro wp_RF [where P = "{75, 76}"]) (auto split: sum.splits)
qed

end

context netfilter_host
begin

lemma wp_RemovePIARoutes_host:
  assumes "H (kern w)"
    and "\<And>k'. H k' \<Longrightarrow> V k' = V (kern w) \<Longrightarrow> R k' =
      (R (kern w))(IPv4 := filter_mset (\<lambda>x. fst x \<noteq> 75 \<and> fst x \<noteq> 76) (R (kern w) IPv4)) \<Longrightarrow>
      Q (Inr ()) (w\<lparr>kern := k'\<rparr>)"
  shows "wp (RemovePIARoutes N) Q w"
  using assms(1) unfolding RemovePIARoutes_def wp_bindP
  by (intro wp_delLoop_host [where f = IPv4 and d = "''delete''" and pw = "''prio''"])
    (auto simp: priorities filter_filter_mset intro!: wp_delLoop_host [where f = IPv4 and d = "''delete''" and pw = "''prio''"]
      assms(2) arg_cong [where f = "fun_upd _ IPv4"] filter_mset_cong)

lemma addPIARoute_host:
  assumes "H (kern w)" and "\<forall>y \<in> set (piaRules ip). y \<notin># R (kern w) IPv4"
  shows "wp (addPIARoute N ip) (addedH IPv4 (piaRules ip) w) w"
  using assms
  by (auto simp: addPIARoute_def addedH_def piaRules_def guardSel_def lookupSel_def priorities add_mset_commute
      intro!: wp_rule_add_host)

text \<open>On a healthy host the routes are added exactly when no resolver is named twice.\<close>

lemma AddPIADNSRoutes_host:
  assumes "H (kern w)" and "distinct dns"
  shows "wp (AddPIADNSRoutes N dns) (\<lambda>r w'. r = Inr () \<and> H (kern w') \<and> V (kern w') = V (kern w) \<and>
     R (kern w') = (R (kern w))(IPv4 := mset (concat (map piaRules dns)) +
       filter_mset (\<lambda>x. fst x \<noteq> 75 \<and> fst x \<noteq> 76) (R (kern w) IPv4))) w"
  unfolding AddPIADNSRoutes_def wp_bindP
proof (rule wp_RemovePIARoutes_host [OF assms(1)], unfold sum.case)
  fix k'
  assume k': "H k'" "V k' = V (kern w)" "R k' =
      (R (kern w))(IPv4 := filter_mset (\<lambda>x. fst x \<noteq> 75 \<and> fst x \<noteq> 76) (R (kern w) IPv4))"
  show "wp (forP dns (addPIARoute N)) (\<lambda>r w'. r = Inr () \<and> H (kern w') \<and> V (kern w') = V (kern w) \<and>
     R (kern w') = (R (kern w))(IPv4 := mset (concat (map piaRules dns)) +
       filter_mset (\<lambda>x. fst x \<noteq> 75 \<and> fst x \<noteq> 76) (R (kern w) IPv4))) (w\<lparr>kern := k'\<rparr>)"
    by (rule wp_conseq [OF wp_forP_addedH [where rs = piaRules and f = IPv4]])
      (use k' assms(2) distinct_piaRules [of dns] in \<open>auto intro!: addPIARoute_host simp: addedH_def\<close>,
       auto simp: piaRules_def priorities)
qed

end

section \<open>Local networks and bypass routes\<close>

context netfilter
begin

lemma wp_addLocalRoute:
  "wp (addLocalRoute N f network)
     (\<lambda>r w'. r = Inr () \<longrightarrow> added f (lanRules network) (R (kern w)) (R (kern w'))) w"
  by (auto simp: lanRules_def addLocalRoute_def intro!: wp_ipRuleAdd)

lemma wp_addLocalRoutes:
  "wp (forP ls (addLocalRoute N f)) (\<lambda>r w'. r = Inr () \<longrightarrow> distinct ls \<and>
     (\<forall>n \<in> set ls. (100, mainSel n) \<in># R (kern w') f) \<and> (\<forall>g. g \<noteq> f \<longrightarrow> R (kern w') g = R (kern w) g)) w"
  by (rule wp_conseq [OF wp_forP_added [OF wp_addLocalRoute]])
    (auto simp: added_def distinct_lanRules [symmetric], auto simp: lanRules_def priorities)

text \<open>A network named twice is refused: the second rule exists already.\<close>

lemma setupLocalRoutes_distinct:
  "wp (setupLocalRoutes N v4 v6) (\<lambda>r w'. r = Inr () \<longrightarrow> distinct v4 \<and> distinct v6 \<and>
     (\<forall>n \<in> set v4. (100, mainSel n) \<in># R (kern w') IPv4) \<and>
     (\<forall>n \<in> set v6. (100, mainSel n) \<in># R (kern w') IPv6)) w"
  unfolding setupLocalRoutes_def wp_bindP
  by (rule wp_RF [where P = "{100}"], blast)
    (auto split: sum.splits intro!: wp_conseq [OF wp_addLocalRoutes])

end

context netfilter_host
begin

lemma wp_cleanupLocalRoutes_host:
  assumes "H (kern w)"
    and "\<And>k'. H k' \<Longrightarrow> V k' = V (kern w) \<Longrightarrow>
      R k' = (\<lambda>f. filter_mset (\<lambda>x. fst x \<noteq> 100) (R (kern w) f)) \<Longrightarrow> Q (Inr ()) (w\<lparr>kern := k'\<rparr>)"
  shows "wp (cleanupLocalRoutes N) Q w"
proof -
  have r: "(r(IPv4 := g (r IPv4)))(IPv6 := g (r IPv6)) = (\<lambda>f. g (r f))"
    for r :: iprules and g :: "(nat \<times> string list) multiset \<Rightarrow> (nat \<times> string list) multiset"
    by (rule ext, case_tac f) simp_all
  have l: "wp (delLoop N (localDelArgs f)) Q' w'"
    if "H (kern w')" "\<And>k'. H k' \<Longrightarrow> V k' = V (kern w') \<Longrightarrow>
      R k' = (R (kern w'))(f := filter_mset (\<lambda>x. fst x \<noteq> 100) (R (kern w') f)) \<Longrightarrow> Q' (Inr ()) (w'\<lparr>kern := k'\<rparr>)"
    for f Q' and w' :: "('k, 'b) net_scheme"
    by (rule wp_delLoop_host [OF localDelArgs_def _ _ that(1)]) (auto simp: priorities intro: that(2))
  show ?thesis unfolding cleanupLocalRoutes_def forP.simps wp_bindP wp_ret
  proof (rule l [OF assms(1)], unfold sum.case wp_bindP, rule l)
    fix k1 k2
    assume 1: "V k1 = V (kern w)" "R k1 = (R (kern w))(IPv4 := filter_mset (\<lambda>x. fst x \<noteq> 100) (R (kern w) IPv4))"
      and 2: "H k2" "V k2 = V (kern (w\<lparr>kern := k1\<rparr>))"
        "R k2 = (R (kern (w\<lparr>kern := k1\<rparr>)))(IPv6 := filter_mset (\<lambda>x. fst x \<noteq> 100) (R (kern (w\<lparr>kern := k1\<rparr>)) IPv6))"
    have "R k2 = (\<lambda>f. filter_mset (\<lambda>x. fst x \<noteq> 100) (R (kern w) f))"
      using r [of "R (kern w)" "filter_mset (\<lambda>x. fst x \<noteq> 100)"] by (simp only: 2) (simp add: 1)
    then show "case Inr () of Inl e \<Rightarrow> Q (Inl e) (w\<lparr>kern := k1\<rparr>\<lparr>kern := k2\<rparr>) | Inr a \<Rightarrow> Q (Inr ()) (w\<lparr>kern := k1\<rparr>\<lparr>kern := k2\<rparr>)"
      using 1 2 by (simp add: assms(2))
  qed simp
qed

lemma wp_cleanupBypassRoutes_host:
  assumes "H (kern w)"
    and "\<And>k'. H k' \<Longrightarrow> V k' = V (kern w) \<Longrightarrow>
      R k' = (R (kern w))(IPv4 := filter_mset (\<lambda>x. fst x \<noteq> 50) (R (kern w) IPv4)) \<Longrightarrow> Q (Inr ()) (w\<lparr>kern := k'\<rparr>)"
  shows "wp (cleanupBypassRoutes N) Q w"
  unfolding cleanupBypassRoutes_def
  by (rule wp_delLoop_host [where f = IPv4 and d = "''del''" and pw = "''priority''"])
    (auto simp: priorities intro!: assms)

lemma addMain_host:
  assumes "H (kern w)" and "\<forall>y \<in> set [(p, mainSel n)]. y \<notin># R (kern w) f"
  shows "wp (ipRuleAdd N f (mainSel n) p) (addedH f [(p, mainSel n)] w) w"
  using assms by (intro wp_rule_add_host) (auto simp: addedH_def)

lemma addLocalRoute_host:
  assumes "H (kern w)" and "\<forall>y \<in> set (lanRules n). y \<notin># R (kern w) f"
  shows "wp (addLocalRoute N f n) (addedH f (lanRules n) w) w"
  using assms unfolding addLocalRoute_def wp_wrapErr lanRules_def
  by (intro wp_conseq [OF addMain_host]) (auto simp: addedH_def)

lemma addLocalRoutes_host:
  assumes "H (kern w)" and "distinct ls" and "\<And>x. (100, x) \<notin># R (kern w) f"
  shows "wp (forP ls (addLocalRoute N f)) (addedH f (map (\<lambda>n. (100, mainSel n)) ls) w) w"
proof -
  have "concat (map lanRules ls) = map (\<lambda>n. (100, mainSel n)) ls"
    by (induction ls) (auto simp: lanRules_def priorities)
  moreover have "wp (forP ls (addLocalRoute N f)) (addedH f (concat (map lanRules ls)) w) w"
    using assms distinct_lanRules [of ls]
    by (intro wp_forP_addedH addLocalRoute_host) (auto simp: lanRules_def priorities)
  ultimately show ?thesis by simp
qed

lemma setupLocalRoutes_host:
  fixes w :: "('k, 'z) net_scheme"
  assumes "H (kern w)" and "distinct v4" and "distinct v6"
  shows "wp (setupLocalRoutes N v4 v6) (\<lambda>r w'. r = Inr () \<and> H (kern w') \<and> V (kern w') = V (kern w) \<and>
     R (kern w') = (\<lambda>f. mset (map (\<lambda>n. (100, mainSel n)) (case f of IPv4 \<Rightarrow> v4 | IPv6 \<Rightarrow> v6)) +
       filter_mset (\<lambda>x. fst x \<noteq> 100) (R (kern w) f))) w"
  unfolding setupLocalRoutes_def wp_bindP
proof (rule wp_cleanupLocalRoutes_host [OF assms(1)], unfold sum.case wp_bindP)
  fix k1
  assume 1: "H k1" "V k1 = V (kern w)"
    "R k1 = (\<lambda>f. filter_mset (\<lambda>x. fst x \<noteq> 100) (R (kern w) f))"
  show "wp (forP v4 (addLocalRoute N IPv4)) (\<lambda>r w'. case r of
      Inl e \<Rightarrow> Inl e = Inr () \<and> H (kern w') \<and> V (kern w') = V (kern w) \<and>
        R (kern w') = (\<lambda>f. mset (map (\<lambda>n. (100, mainSel n)) (case f of IPv4 \<Rightarrow> v4 | IPv6 \<Rightarrow> v6)) +
          filter_mset (\<lambda>x. fst x \<noteq> 100) (R (kern w) f))
    | Inr a \<Rightarrow> wp (forP v6 (addLocalRoute N IPv6)) (\<lambda>r w'. r = Inr () \<and> H (kern w') \<and> V (kern w') = V (kern w) \<and>
        R (kern w') = (\<lambda>f. mset (map (\<lambda>n. (100, mainSel n)) (case f of IPv4 \<Rightarrow> v4 | IPv6 \<Rightarrow> v6)) +
          filter_mset (\<lambda>x. fst x \<noteq> 100) (R (kern w) f))) w') (w\<lparr>kern := k1\<rparr>)"
  proof (rule wp_conseq [OF addLocalRoutes_host])
    fix r and w2 :: "('k, 'z) net_scheme"
    assume "addedH IPv4 (map (\<lambda>n. (100, mainSel n)) v4) (w\<lparr>kern := k1\<rparr>) r w2"
    then show "case r of
      Inl e \<Rightarrow> Inl e = Inr () \<and> H (kern w2) \<and> V (kern w2) = V (kern w) \<and>
        R (kern w2) = (\<lambda>f. mset (map (\<lambda>n. (100, mainSel n)) (case f of IPv4 \<Rightarrow> v4 | IPv6 \<Rightarrow> v6)) +
          filter_mset (\<lambda>x. fst x \<noteq> 100) (R (kern w) f))
    | Inr a \<Rightarrow> wp (forP v6 (addLocalRoute N IPv6)) (\<lambda>r w'. r = Inr () \<and> H (kern w') \<and> V (kern w') = V (kern w) \<and>
        R (kern w') = (\<lambda>f. mset (map (\<lambda>n. (100, mainSel n)) (case f of IPv4 \<Rightarrow> v4 | IPv6 \<Rightarrow> v6)) +
          filter_mset (\<lambda>x. fst x \<noteq> 100) (R (kern w) f))) w2"
      using 1 assms(3) by (auto simp: addedH_def fun_eq_iff split: family.splits intro!: wp_conseq [OF addLocalRoutes_host])
  qed (use 1 assms(2) in auto)
qed

lemma setupBypassRoutes_host:
  assumes "H (kern w)"
  shows "wp (setupBypassRoutes N) (\<lambda>r w'. r = Inr () \<and> H (kern w') \<and> V (kern w') = V (kern w) \<and>
     R (kern w') = (R (kern w))(IPv4 := mset (map (\<lambda>n. (50, mainSel n)) WANCheckIPs) +
       filter_mset (\<lambda>x. fst x \<noteq> 50) (R (kern w) IPv4))) w"
  unfolding setupBypassRoutes_def wp_bindP
  by (rule wp_cleanupBypassRoutes_host [OF assms])
    (auto simp: WANCheckIPs_def mainSel_def priorities add_mset_commute intro!: wp_rule_add_host)

end

section \<open>The resolution of the local networks\<close>

text \<open>The number of bits of the family of a prefix.\<close>

definition cidrBits :: "string \<Rightarrow> nat option" where
  "cidrBits n = parseAddr (takeWhile (\<lambda>c. c \<noteq> CHR ''/'') n)"

lemma validCIDR_bits: "validCIDR n \<Longrightarrow> cidrBits n = Some (if CHR '':'' \<in> set n then 128 else 32)"
proof -
  assume "validCIDR n"
  then show ?thesis
    by (rule validCIDR_family) (auto simp: cidrBits_def SplitN2_def split: if_splits)
qed

lemma Contains_char: "Contains s [c] \<longleftrightarrow> c \<in> set s"
  by (auto simp: Contains_def sublist_def in_set_conv_decomp)

text \<open>What one entry of \<^verbatim>\<open>LOCAL_NETWORKS\<close> stands for, by family.\<close>

definition entry :: "nat \<Rightarrow> string \<Rightarrow> string set" where
  "entry b raw = (let part = TrimSpace raw in
     if part = ''all'' then (if b = 32 then {''10.0.0.0/8'', ''172.16.0.0/12'', ''192.168.0.0/16''} else {''fc00::/7''})
     else if validCIDR part \<and> cidrBits part = Some b then {part} else {})"

lemma invalid_words: "\<not> validCIDR []" "\<not> validCIDR ''all''"
  by (simp_all add: validCIDR_def SplitN2_def)

lemma resolvePart_entry:
  "set (fst (resolvePart acc p)) = set (fst acc) \<union> entry 32 p"
  "set (snd (resolvePart acc p)) = set (snd acc) \<union> entry 128 p"
  using validCIDR_bits [of "TrimSpace p"] invalid_words
  by (auto simp: resolvePart_def entry_def Let_def Contains_char split: prod.splits)

section \<open>Properties\<close>

text \<open>
  C11. The PIA resolvers are never routed as local networks. Once \<^verbatim>\<open>AddPIADNSRoutes\<close> has
  reported success, a packet to one of the resolvers is always decided, and by a rule of priority at
  most 76, so never by the rules of the local networks at priority 100: while the tunnel's table has
  a route for it, it is sent by that table, and otherwise it is unreachable. Before the call, the
  rules up to priority 76 that settle the packet may only be those of earlier resolvers or gateways.
\<close>

theorem pia_dns_never_lan:
  assumes "netfilter N V R" and "AddPIADNSRoutes N dns w = Some (Inr (), w1)" and "ip \<in> set dns" and "covers ip"
    and "\<forall>q \<in># R (kern w) IPv4. fst q \<le> priorityPIAGuard \<longrightarrow>
      settles covers known other (snd q) = None \<or> (\<exists>ip'. q \<in> set (piaRules ip'))"
  shows "(\<exists>r. decides (\<lambda>s. settles covers known other s \<noteq> None) (R (kern w1) IPv4) r) \<and>
    (\<forall>r. decides (\<lambda>s. settles covers known other s \<noteq> None) (R (kern w1) IPv4) r \<longrightarrow>
      fst r \<le> priorityPIAGuard \<and> fst r < priorityLocalNet \<and>
      settles covers known other (snd r) = Some (if known ''51820'' then Via ''51820'' else Unreachable))"
proof -
  let ?hit = "\<lambda>s. settles covers known other s \<noteq> None"
  have "\<forall>x \<in> set (piaRules ip). x \<in># R (kern w1) IPv4"
    using wpD [OF netfilter.AddPIADNSRoutes_rules [OF assms(1)] assms(2)] assms(3) by auto
  then have in1: "(priorityPIAGuard, guardSel ip) \<in># R (kern w1) IPv4" "(priorityPIA, lookupSel ip) \<in># R (kern w1) IPv4"
    by (simp_all add: piaRules_def)
  have "keeps (\<lambda>w. \<forall>q \<in># R (kern w) IPv4. fst q \<le> priorityPIAGuard \<longrightarrow> \<not> ?hit (snd q) \<or> (\<exists>ip'. q \<in> set (piaRules ip')))
    (AddPIADNSRoutes N dns)" by (rule netfilter.keeps_AddPIADNSRoutes_rules [OF assms(1)]) blast
  from wpD [OF keepsD [OF this] assms(2)] assms(5)
  have low: "q \<in># R (kern w1) IPv4 \<Longrightarrow> fst q \<le> priorityPIAGuard \<Longrightarrow> ?hit (snd q) \<Longrightarrow> \<exists>ip'. q \<in> set (piaRules ip')" for q
    by auto
  have "fst r \<le> priorityPIAGuard \<and> fst r < priorityLocalNet \<and>
      settles covers known other (snd r) = Some (if known ''51820'' then Via ''51820'' else Unreachable)"
    if r: "decides ?hit (R (kern w1) IPv4) r" for r
  proof -
    have b: "fst r \<le> priorityPIAGuard" "known ''51820'' \<Longrightarrow> fst r \<le> priorityPIA"
      using decides_bound [OF r in1(1)] decides_bound [OF r in1(2)] assms(4) by simp_all
    moreover have "r \<in># R (kern w1) IPv4" "?hit (snd r)" using r by (simp_all add: decides_def)
    ultimately obtain ip' where "r \<in> set (piaRules ip')" using low by blast
    then show ?thesis using b \<open>?hit (snd r)\<close> by (auto simp: piaRules_def priorities split: if_splits)
  qed
  moreover have "\<exists>r. decides ?hit (R (kern w1) IPv4) r" by (rule decides_ex [OF in1(1)]) (simp add: assms(4))
  ultimately show ?thesis by blast
qed

text \<open>A small host: one rule of a local network that covers the resolver.\<close>

definition routeHost :: "refk net" where
  "routeHost = \<lparr>kern = \<lparr>rkChains = [], rkRules = (\<lambda>f. if f = IPv4 then [(100, mainSel ''10.0.0.0/8'')] else []),
     rkShow = [], rkFaults = []\<rparr>\<rparr>"

definition routeUp :: "refk net" where
  "routeUp = \<lparr>kern = (kern routeHost)\<lparr>rkRules := (\<lambda>f. if f = IPv4 then
     [(100, mainSel ''10.0.0.0/8''), (76, guardSel ''10.0.0.243''), (75, lookupSel ''10.0.0.243'')] else [])\<rparr>\<rparr>"

text \<open>The main table has a route to everything; the tunnel's table has one while the tunnel is \<open>up\<close>.\<close>

theorem pia_dns_never_lan_witness:
  "\<forall>up. let settled = settles (\<lambda>net. net \<in> {''10.0.0.0/8'', ''10.0.0.243''}) (\<lambda>t. t = ''main'' \<or> up \<and> t = ''51820'') (\<lambda>_. None) in
     \<exists>r. decides (\<lambda>s. settled s \<noteq> None) (refR (kern routeUp) IPv4) r \<and> fst r < 100 \<and>
       settled (snd r) = Some (if up then Via ''51820'' else Unreachable)"
proof -
  have up: "AddPIADNSRoutes refN [''10.0.0.243''] routeHost = Some (Inr (), routeUp)" by code_simp
  have before: "\<forall>q \<in># refR (kern routeHost) IPv4. fst q \<le> priorityPIAGuard \<longrightarrow>
    settles c k e (snd q) = None \<or> (\<exists>ip'. q \<in> set (piaRules ip'))" for c k e
    by (simp add: refR_def routeHost_def priorities)
  show ?thesis
  proof (rule allI, unfold Let_def)
    fix up
    let ?s = "settles (\<lambda>net. net \<in> {''10.0.0.0/8'', ''10.0.0.243''}) (\<lambda>t. t = ''main'' \<or> up \<and> t = ''51820'') (\<lambda>_. None)"
    have *: "(\<exists>r. decides (\<lambda>s. ?s s \<noteq> None) (refR (kern routeUp) IPv4) r) \<and>
      (\<forall>r. decides (\<lambda>s. ?s s \<noteq> None) (refR (kern routeUp) IPv4) r \<longrightarrow> fst r \<le> priorityPIAGuard \<and> fst r < priorityLocalNet \<and>
        ?s (snd r) = Some (if ''51820'' = ''main'' \<or> up \<and> ''51820'' = ''51820'' then Via ''51820'' else Unreachable))"
      by (rule pia_dns_never_lan [OF refk.netfilter_axioms up _ _ before, where ip = "''10.0.0.243''"]) simp_all
    from conjunct1 [OF *] obtain r where r: "decides (\<lambda>s. ?s s \<noteq> None) (refR (kern routeUp) IPv4) r" ..
    note r = r mp [OF spec [OF conjunct2 [OF *], of r] r, THEN conjunct2]
    have "?s (snd r) = Some (if up then Via ''51820'' else Unreachable)" using conjunct2 [OF r(2)] by (cases up) simp_all
    then show "\<exists>r. decides (\<lambda>s. ?s s \<noteq> None) (refR (kern routeUp) IPv4) r \<and> fst r < 100 \<and>
       ?s (snd r) = Some (if up then Via ''51820'' else Unreachable)"
      using r(1) conjunct1 [OF r(2)] unfolding priorities by (intro exI [of _ r] conjI) assumption+
  qed
qed

text \<open>
  The routes of the PIA resolvers on a healthy host: they are added exactly when no
  resolver is listed twice, and then every earlier rule at their two priorities has been
  replaced by theirs.
\<close>

lemma pia_dns_routes_exact:
  assumes "netfilter_host N V R H" and "H (kern w)"
  shows "\<exists>r w1. AddPIADNSRoutes N dns w = Some (r, w1) \<and> (r = Inr () \<longleftrightarrow> distinct dns) \<and>
    V (kern w1) = V (kern w) \<and> (distinct dns \<longrightarrow> R (kern w1) = (R (kern w))(IPv4 := mset (concat (map piaRules dns)) +
       filter_mset (\<lambda>x. fst x \<noteq> 75 \<and> fst x \<noteq> 76) (R (kern w) IPv4)))"
proof -
  from assms(1) have nf: "netfilter N V R" by (rule netfilter_host.axioms)
  obtain r w1 where run: "AddPIADNSRoutes N dns w = Some (r, w1)" "V (kern w1) = V (kern w)"
    using keeps_run [OF netfilter.keeps_AddPIADNSRoutes [OF nf, of "{75, 76}" "kern w" dns], of w]
    by (auto simp: routing_frame_def)
  have "r = Inr () \<Longrightarrow> distinct dns"
    using wpD [OF netfilter.AddPIADNSRoutes_rules [OF nf] run(1)] by simp
  moreover have "distinct dns \<Longrightarrow> r = Inr () \<and> R (kern w1) = (R (kern w))(IPv4 := mset (concat (map piaRules dns)) +
       filter_mset (\<lambda>x. fst x \<noteq> 75 \<and> fst x \<noteq> 76) (R (kern w) IPv4))"
    using wpD [OF netfilter_host.AddPIADNSRoutes_host [OF assms] run(1)] by simp
  ultimately show ?thesis using run by blast
qed

lemma pia_dns_routes_exact_witness:
  "\<exists>r w1. AddPIADNSRoutes refN [''10.0.0.243'', ''10.0.0.243''] routeHost = Some (r, w1) \<and> r \<noteq> Inr ()"
proof -
  have "refH (kern routeHost)" by (simp add: refH_def routeHost_def)
  from pia_dns_routes_exact [OF refk.netfilter_host_axioms this, of "[''10.0.0.243'', ''10.0.0.243'']"]
  show ?thesis by fastforce
qed

text \<open>
  The deletion loops end. Whatever the commands answer, removing the rules of the PIA
  priorities, of the bypass or of the local networks returns, touches no chain of iptables
  and no rule of another priority.
\<close>

lemma removal_loops_return:
  assumes "netfilter N V R"
  shows "(\<exists>r w1. RemovePIARoutes N w = Some (r, w1) \<and> V (kern w1) = V (kern w) \<and> same_but {75, 76} (R (kern w)) (R (kern w1))) \<and>
    (\<exists>r w1. cleanupBypassRoutes N w = Some (r, w1) \<and> V (kern w1) = V (kern w) \<and> same_but {50} (R (kern w)) (R (kern w1))) \<and>
    (\<exists>r w1. cleanupLocalRoutes N w = Some (r, w1) \<and> V (kern w1) = V (kern w) \<and> same_but {100} (R (kern w)) (R (kern w1)))"
proof -
  have run: "\<exists>r w1. m w = Some (r, w1) \<and> V (kern w1) = V (kern w) \<and> same_but P (R (kern w)) (R (kern w1))"
    if "keeps (routing_frame V R P (kern w)) m" for P and m :: "(('a, 'b) net_scheme, unit) prog"
    using keeps_run [OF that, of w] by (auto simp: routing_frame_def)
  show ?thesis
    using netfilter.keeps_RemovePIARoutes [OF assms] netfilter.keeps_cleanupBypassRoutes [OF assms]
      netfilter.keeps_cleanupLocalRoutes [OF assms]
    by (intro conjI run) blast+
qed

lemma removal_loops_return_witness:
  "\<exists>r w1. cleanupLocalRoutes refN routeHost = Some (r, w1) \<and> same_but {100} (refR (kern routeHost)) (refR (kern w1))"
  using removal_loops_return [OF refk.netfilter_axioms, of routeHost] by blast

text \<open>
  What \<^verbatim>\<open>LOCAL_NETWORKS\<close> opens. The IPv4 (IPv6) networks that a setup works with are
  those found in the kernel, the private ranges of that family if an entry is \<^verbatim>\<open>all\<close>, and the
  entries that are valid prefixes of that family; anything else is skipped.
\<close>

lemma local_networks_resolved:
  assumes "resolveLocalNetworks N input w = Some (Inr (v4, v6), w1)"
  shows "\<exists>k4 k6 w'. (if Contains input ''all'' then k4 = [] \<and> k6 = [] \<and> w' = w
      else detectKernelSubnets N w = Some (Inr (k4, k6), w')) \<and>
    set v4 = set k4 \<union> (\<Union>p \<in> set (Split CHR '','' input). entry 32 p) \<and>
    set v6 = set k6 \<union> (\<Union>p \<in> set (Split CHR '','' input). entry 128 p)"
proof -
  have f: "set (fst (foldl resolvePart acc ps)) = set (fst acc) \<union> (\<Union>p \<in> set ps. entry 32 p)"
    "set (snd (foldl resolvePart acc ps)) = set (snd acc) \<union> (\<Union>p \<in> set ps. entry 128 p)" for acc ps
    by (induction ps arbitrary: acc) (auto simp: resolvePart_entry)
  from assms obtain k w' where "(if Contains input ''all'' then k = ([], []) \<and> w' = w
      else detectKernelSubnets N w = Some (Inr k, w'))" and "(v4, v6) = foldl resolvePart k (Split CHR '','' input)"
    by (auto simp: resolveLocalNetworks_def bindP_def ret_def split: if_splits option.splits sum.splits prod.splits)
  then show ?thesis using f [of k "Split CHR '','' input"]
    by (cases k) (metis fst_conv snd_conv prod.inject)
qed

lemma local_networks_resolved_witness:
  "resolveLocalNetworks refN '' all,1.2.3.4,fd00::/8'' routeHost =
     Some (Inr ([''10.0.0.0/8'', ''172.16.0.0/12'', ''192.168.0.0/16''], [''fc00::/7'', ''fd00::/8'']), routeHost) \<and>
   ''fd00::/8'' \<in> (\<Union>p \<in> set (Split CHR '','' '' all,1.2.3.4,fd00::/8''). entry 128 p)"
proof -
  have r: "resolveLocalNetworks refN '' all,1.2.3.4,fd00::/8'' routeHost =
     Some (Inr ([''10.0.0.0/8'', ''172.16.0.0/12'', ''192.168.0.0/16''], [''fc00::/7'', ''fd00::/8'']), routeHost)"
    by code_simp
  have "Contains '' all,1.2.3.4,fd00::/8'' ''all''" by code_simp
  then show ?thesis using local_networks_resolved [OF r] r by auto
qed

end
