(* ===== verification/Killswitch.thy ===== *)
theory Killswitch
  imports Routing RefKernel
begin

text \<open>
  The killswitch as a whole (\<^verbatim>\<open>internal/firewall/killswitch.go\<close>): \<^verbatim>\<open>Setup\<close>, \<^verbatim>\<open>Cleanup\<close> and
  \<^verbatim>\<open>IsActive\<close>; a packet semantics of the chains; and what the killswitch promises: which chains
  stand after a setup, that no packet leaves that no rule of the code accepts, and that every
  later operation keeps that promise whatever fails.
\<close>

section \<open>Setup and Cleanup\<close>

record killswitchConfig =
  kcLANs :: string
  kcIPv6Enabled :: bool

definition icmp6Spec :: spec where
  "icmp6Spec = [''-p'', ''ipv6-icmp'', ''-j'', ''ACCEPT'']"

text \<open>\<^verbatim>\<open>Setup\<close> after the local networks, and the whole of it.\<close>

definition setupTail :: "'k netops \<Rightarrow> bool \<Rightarrow> (('k, 'm) fw_scheme, unit) prog" where
  "setupTail N ipv6Enabled =
     bindP (wrapErr ''failed to add VPN rules'' (addVPN N ipv6Enabled)) (\<lambda>_.
     bindP (wrapErr ''failed to set up wan-check bypass'' (setupBypass N)) (\<lambda>_.
     bindP (if ipv6Enabled
            then bindP (wrapErr ''VPN_IN6 ICMPv6'' (insertBeforeDrop N IPv6 chainIn6 icmp6Spec))
              (\<lambda>_. wrapErr ''VPN_OUT6 ICMPv6'' (insertBeforeDrop N IPv6 chainOut6 icmp6Spec))
            else ret ()) (\<lambda>_.
     bindP (setupMSSClamping N ipv6Enabled) (\<lambda>_.
     bindP (verifyKillswitch N) (\<lambda>_.
     modifyP (active_update (\<lambda>_. True)))))))"

definition Setup :: "'k netops \<Rightarrow> killswitchConfig \<Rightarrow> (('k, 'm) fw_scheme, unit) prog" where
  "Setup N cfg =
     bindP (setupBaselineChains N) (\<lambda>_.
     bindP (if \<not> Contains (kcLANs cfg) ''none''
            then bindP (wrapErr ''failed to setup local networks'' (setupLocalNetworks N (kcLANs cfg))) (\<lambda>_. ret ())
            else ret ()) (\<lambda>_.
     setupTail N (kcIPv6Enabled cfg)))"

definition Cleanup :: "'k netops \<Rightarrow> (('k, 'm) fw_scheme, unit) prog" where
  "Cleanup N =
     bindP (modifyP (active_update (\<lambda>_. False))) (\<lambda>_.
     bindP (RemovePIARoutes N) (\<lambda>_.
     bindP (cleanupLocalRoutes N) (\<lambda>_.
     bindP (cleanupMSSClamping N) (\<lambda>_.
     bindP (cleanupBypassRoutes N) (\<lambda>_.
     bindP (RemoveExemptions N) (\<lambda>_.
     cleanupChains N))))))"

definition IsActive :: "('k, 'm) fw_scheme \<Rightarrow> bool" where
  "IsActive w = active w"

section \<open>What the chains do to a packet\<close>

text \<open>
  A packet is what the match extensions of iptables say of it: \<open>m\<close> tells which list of match
  arguments it satisfies. A rule is its matches and its target; a chain is walked from its
  first rule; a jump to a chain without a verdict returns; \<open>None\<close> is a packet that no rule
  decided. The fuel bounds the depth of jumps, which the chains of the code never exceed.
\<close>

datatype verdict = Accept | Drop

definition matches :: "(string list \<Rightarrow> bool) \<Rightarrow> spec \<Rightarrow> bool" where
  "matches m r = m (butlast (butlast r))"

fun walk :: "nat \<Rightarrow> chains \<Rightarrow> (string list \<Rightarrow> bool) \<Rightarrow> family \<Rightarrow> spec list \<Rightarrow> verdict option" where
  "walk n v m f [] = None"
| "walk n v m f (r # rs) =
     (if \<not> matches m r then walk n v m f rs
      else case target r of
          None \<Rightarrow> walk n v m f rs
        | Some t \<Rightarrow>
            (if t = ''ACCEPT'' then Some Accept
             else if t = ''DROP'' then Some Drop
             else case n of
                 0 \<Rightarrow> walk n v m f rs
               | Suc n' \<Rightarrow> (case v (f, tableFilter, t) of
                     None \<Rightarrow> walk n v m f rs
                   | Some rs' \<Rightarrow> (case walk n' v m f rs' of
                         Some x \<Rightarrow> Some x
                       | None \<Rightarrow> walk n v m f rs))))"

text \<open>The verdict of a built-in chain: its policy when no rule decides.\<close>

definition verdict :: "chains \<Rightarrow> (string list \<Rightarrow> bool) \<Rightarrow> family \<Rightarrow> string \<Rightarrow> verdict \<Rightarrow> verdict" where
  "verdict v m f c policy = (case v (f, tableFilter, c) of
       None \<Rightarrow> policy
     | Some rs \<Rightarrow> (case walk 3 v m f rs of None \<Rightarrow> policy | Some x \<Rightarrow> x))"

lemma walk_append:
  "walk n v m f (xs @ ys) = (case walk n v m f xs of Some x \<Rightarrow> Some x | None \<Rightarrow> walk n v m f ys)"
  by (induction xs) (auto split: option.splits nat.splits)

lemma matches_drop [simp]: "matches m dropSpec = m []"
  by (simp add: matches_def dropSpec_def)

lemma target_drop [simp]: "target dropSpec = Some ''DROP''"
  by (simp add: dropSpec_def target_def)

text \<open>
  A rule that cannot accept a packet by itself: its matches fail, or it is DROP, or it jumps
  to a chain that does not accept either.
\<close>

definition harmless :: "nat \<Rightarrow> chains \<Rightarrow> (string list \<Rightarrow> bool) \<Rightarrow> family \<Rightarrow> spec \<Rightarrow> bool" where
  "harmless n v m f r \<longleftrightarrow> walk n v m f [r] \<noteq> Some Accept"

lemma walk_harmless:
  assumes "\<forall>r \<in> set rs. harmless n v m f r"
  shows "walk n v m f rs \<noteq> Some Accept"
  using assms
proof (induction rs)
  case (Cons r rs)
  have "walk n v m f (r # rs) = (case walk n v m f [r] of Some x \<Rightarrow> Some x | None \<Rightarrow> walk n v m f rs)"
    using walk_append [of n v m f "[r]" rs] by simp
  then show ?case using Cons by (auto simp: harmless_def split: option.splits)
qed simp

lemma unmatched_harmless: "\<not> matches m r \<Longrightarrow> harmless n v m f r"
  by (simp add: harmless_def)

text \<open>A chain that ends with DROP and whose other rules are harmless drops the packet.\<close>

lemma walk_drop:
  assumes "\<forall>r \<in> set rs. harmless n v m f r" and "m []"
  shows "walk n v m f (rs @ [dropSpec]) = Some Drop"
proof -
  have "walk n v m f rs \<noteq> Some Accept" by (rule walk_harmless [OF assms(1)])
  then show ?thesis
    using assms(2) by (cases "walk n v m f rs"; cases "the (walk n v m f rs)") (auto simp: walk_append)
qed

lemma guarded_drops:
  assumes "guarded A v c" and "c \<in> set chainDefs" and "m []"
    and "\<forall>r \<in> A \<union> {estSpec, loSpec c}. harmless 2 v m (cdIpt c) r"
  shows "verdict v m (cdIpt c) (cdParent c) policy = Drop"
proof -
  from assms(1) obtain rs ps where rs: "v (cdIpt c, tableFilter, cdName c) = Some (rs @ [dropSpec])"
    "set rs \<subseteq> A \<union> {estSpec, loSpec c}" and ps: "v (cdIpt c, tableFilter, cdParent c) = Some ([''-j'', cdName c] # ps)"
    by (auto simp: guarded_def)
  have "walk 2 v m (cdIpt c) (rs @ [dropSpec]) = Some Drop"
    using rs(2) assms(3,4) by (intro walk_drop) auto
  moreover have "cdName c \<noteq> ''ACCEPT''" "cdName c \<noteq> ''DROP''"
    using assms(2) by (auto simp: chainDefs_def names)
  ultimately show ?thesis
    using rs(1) ps assms(3) by (simp add: verdict_def matches_def target_def eval_nat_numeral)
qed

section \<open>Which chains stand\<close>

text \<open>
  \<open>laid v B\<close>: each chain consists of the rules \<open>B\<close> gives for its name and a final DROP, and its
  parent hands it all traffic first.
\<close>

definition laid :: "chains \<Rightarrow> (string \<Rightarrow> spec list) \<Rightarrow> bool" where
  "laid v B \<longleftrightarrow> (\<forall>c \<in> set chainDefs.
     v (cdIpt c, tableFilter, cdName c) = Some (B (cdName c) @ [dropSpec]) \<and>
     (\<exists>ps. v (cdIpt c, tableFilter, cdParent c) = Some ([''-j'', cdName c] # ps)))"

definition baseBody :: "string \<Rightarrow> spec list" where
  "baseBody n = [estSpec, [if n \<in> {ChainIn, chainIn6} then ''-i'' else ''-o'', ''lo'', ''-j'', ''ACCEPT'']]"

text \<open>The chains of a killswitch for the local networks \<open>v4\<close> and \<open>v6\<close>.\<close>

definition expectedBody :: "string list \<Rightarrow> string list \<Rightarrow> bool \<Rightarrow> string \<Rightarrow> spec list" where
  "expectedBody v4 v6 ipv6 n = baseBody n @
     (if n = ChainIn then map lanInSpec v4
      else if n = ChainOut then [ifaceSpec, fwmarkSpec] @ map lanOutSpec v4 @ map bypassSpec WANCheckIPs
      else if n = chainIn6 then map lanInSpec v6 @ (if ipv6 then [icmp6Spec] else [])
      else (if ipv6 then [ifaceSpec] else []) @ map lanOutSpec v6 @ (if ipv6 then [icmp6Spec] else []))"

lemma laidD: "laid v B \<Longrightarrow> c \<in> set chainDefs \<Longrightarrow> v (cdIpt c, tableFilter, cdName c) = Some (B (cdName c) @ [dropSpec])"
  by (simp add: laid_def)

lemma laid_update:
  assumes "laid v B" and "c \<in> set chainDefs"
  shows "laid (v((cdIpt c, tableFilter, cdName c) \<mapsto> xs @ [dropSpec])) (B(cdName c := xs))"
  unfolding laid_def
proof
  fix d assume d: "d \<in> set chainDefs"
  have "cdParent d \<noteq> cdName c" using names_neq(4) [OF assms(2) d] by (rule not_sym)
  then show "(v((cdIpt c, tableFilter, cdName c) \<mapsto> xs @ [dropSpec])) (cdIpt d, tableFilter, cdName d) =
      Some ((B(cdName c := xs)) (cdName d) @ [dropSpec]) \<and>
    (\<exists>ps. (v((cdIpt c, tableFilter, cdName c) \<mapsto> xs @ [dropSpec])) (cdIpt d, tableFilter, cdParent d) =
      Some ([''-j'', cdName d] # ps))"
    using assms d names_neq(5) [of c d] by (cases "d = c") (auto simp: laid_def)
qed

lemma laid_other: "laid v B \<Longrightarrow> t \<noteq> tableFilter \<Longrightarrow> laid (v((f, t, c) := x)) B"
  by (auto simp: laid_def)

lemma laid_baseline:
  assumes "\<forall>c \<in> set chainDefs. baseline v c"
  shows "laid v baseBody"
  using assms by (auto simp: laid_def baseline_def baseBody_def chainDefs_def names)

context netfilter
begin

abbreviation LD :: "(string \<Rightarrow> spec list) \<Rightarrow> ('k, 'm) net_scheme \<Rightarrow> bool" where
  "LD B w \<equiv> laid (V (kern w)) B"

lemma wpS_insertBeforeDrop:
  assumes "LD B w" and "c \<in> set chainDefs"
  shows "wpS (insertBeforeDrop N (cdIpt c) (cdName c) s) (\<lambda>_. LD (B(cdName c := B (cdName c) @ [s]))) w"
proof (rule wpSI, rule wp_insertBeforeDrop; simp)
  fix k' rs r
  assume *: "V (kern w) (cdIpt c, tableFilter, cdName c) = Some (rs @ [r])"
    and k': "V k' = (V (kern w))((cdIpt c, tableFilter, cdName c) \<mapsto> rs @ [s, r])"
  have "rs = B (cdName c)" "r = dropSpec" using laidD [OF assms] * by auto
  then show "laid ((V (kern w))((cdIpt c, tableFilter, cdName c) \<mapsto> rs @ [s, r])) (B(cdName c := B (cdName c) @ [s]))"
    using laid_update [OF assms, of "B (cdName c) @ [s]"] by simp
qed

lemma wpS_insert_laid:
  assumes "LD B w" and "c \<in> set chainDefs" and "n \<le> Suc (length (B (cdName c)))"
  shows "wpS (runK (nInsert N (cdIpt c) tableFilter (cdName c) n s))
    (\<lambda>_. LD (B(cdName c := take (n - 1) (B (cdName c)) @ s # drop (n - 1) (B (cdName c))))) w"
proof (rule wpSI, rule wp_insert; simp)
  fix k' rs
  assume *: "V (kern w) (cdIpt c, tableFilter, cdName c) = Some rs"
    and k': "V k' = (V (kern w))((cdIpt c, tableFilter, cdName c) \<mapsto> take (n - Suc 0) rs @ s # drop (n - Suc 0) rs)"
  have "rs = B (cdName c) @ [dropSpec]" using laidD [OF assms(1,2)] * by simp
  then show "laid ((V (kern w))((cdIpt c, tableFilter, cdName c) \<mapsto> take (n - Suc 0) rs @ s # drop (n - Suc 0) rs))
      (B(cdName c := take (n - Suc 0) (B (cdName c)) @ s # drop (n - Suc 0) (B (cdName c))))"
    using laid_update [OF assms(1,2), of "take (n - 1) (B (cdName c)) @ s # drop (n - 1) (B (cdName c))"] assms(3)
    by (simp add: diff_le_mono)
qed

lemmas wpS_before_in = wpS_insertBeforeDrop [of _ _ inDef, simplified]
lemmas wpS_before_out = wpS_insertBeforeDrop [of _ _ outDef, simplified]
lemmas wpS_insert_out = wpS_insert_laid [of _ _ outDef, simplified]
lemmas wpS_insert_out6 = wpS_insert_laid [of _ _ out6Def, simplified]

text \<open>Programs that leave every chain of the filter table alone.\<close>

lemma laid_RF: "(\<And>k0. keeps (RF P k0) m) \<Longrightarrow> keeps (LD B) m"
  by (rule keepsI, rule wp_RF) auto

lemma keeps_laid_mangle [intro]:
  "keeps (LD B) (runK (nDelete N f tableMangle c s))" "keeps (LD B) (runK (nAppend N f tableMangle c s))"
  by (rule keepsI, rule wp_delete, auto simp: laid_other names)
    (rule keepsI, rule wp_append, auto simp: laid_other names)

lemma keeps_laid_mss [intro]: "keeps (LD B) (setupMSSClamping N ipv6)"
  unfolding setupMSSClamping_def cleanupMSSClamping_def
  by (auto intro!: keeps_bindP keeps_ignoreP keeps_forP)

lemma keeps_laid_list [intro]: "keeps (LD B) (outK (nList N f t c))"
  by (rule keepsI, rule wp_list) auto

lemma keeps_laid_verify [intro]: "keeps (LD B) (verifyKillswitch N)"
proof -
  have "keeps (LD B) (chainHasDrop N f c)" "keeps (LD B) (chainIsInParent N f c d)" for f c d
    unfolding chainHasDrop_def chainIsInParent_def
    by (auto intro!: keeps_bindP keeps_tryP split: sum.splits)
  then have "keeps (LD B) (checkChainsPresent N)"
    unfolding checkChainsPresent_def by (intro keeps_andP)
  then have "keeps (LD B) (verifyAttempts N n)" for n
    by (induction n) (auto intro!: keeps_bindP)
  then show ?thesis by (simp add: verifyKillswitch_def)
qed

end

subsection \<open>The steps of Setup\<close>

text \<open>The local networks extend the chains of their family, in order.\<close>

definition withLans :: "(string \<Rightarrow> spec list) \<Rightarrow> string list \<Rightarrow> string list \<Rightarrow> string \<Rightarrow> spec list" where
  "withLans B v4 v6 n = B n @
     (if n = ChainIn then map lanInSpec v4 else if n = ChainOut then map lanOutSpec v4
      else if n = chainIn6 then map lanInSpec v6 else if n = chainOut6 then map lanOutSpec v6 else [])"

lemma bodies:
  "length (baseBody n) = 2" "take (Suc (Suc 0)) (baseBody n @ xs) = baseBody n" "drop (Suc (Suc 0)) (baseBody n @ xs) = xs"
  by (simp_all add: baseBody_def)

context netfilter
begin

lemma wpS_baseline: "wpS (setupBaselineChains N) (\<lambda>_. LD baseBody) w"
  by (rule wpSI, rule wp_setupBaselineChains) (auto intro: laid_baseline)

lemma wpS_setupLocalRules:
  fixes w :: "('k, 'z) net_scheme"
  assumes "LD B w"
  shows "wpS (setupLocalRules N v4 v6) (\<lambda>_. LD (withLans B v4 v6)) w"
proof -
  let ?g4 = "\<lambda>B n. B(ChainIn := B ChainIn @ [lanInSpec n], ChainOut := B ChainOut @ [lanOutSpec n])"
  let ?g6 = "\<lambda>B n. B(chainIn6 := B chainIn6 @ [lanInSpec n], chainOut6 := B chainOut6 @ [lanOutSpec n])"
  have f4: "foldl ?g4 B ls = withLans B ls []" for B ls
    by (induction ls arbitrary: B) (auto simp: withLans_def names fun_eq_iff)
  have f6: "foldl ?g6 (withLans B ls []) ls' = withLans B ls ls'" for B ls ls'
  proof -
    have "foldl ?g6 B ls' = withLans B [] ls'" for B
      by (induction ls' arbitrary: B) (auto simp: withLans_def names fun_eq_iff)
    then show ?thesis by (auto simp: withLans_def names fun_eq_iff)
  qed
  have in6: "wpS (insertBeforeDrop N IPv6 chainIn6 s) (\<lambda>_. LD (B(chainIn6 := B chainIn6 @ [s]))) w"
    if "LD B w" for B s and w :: "('k, 'z) net_scheme"
    using wpS_insertBeforeDrop [OF that, of "chainDefs ! 2" s] by (simp add: chainDefs_def)
  have out6: "wpS (insertBeforeDrop N IPv6 chainOut6 s) (\<lambda>_. LD (B(chainOut6 := B chainOut6 @ [s]))) w"
    if "LD B w" for B s and w :: "('k, 'z) net_scheme"
    using wpS_insertBeforeDrop [OF that, of out6Def s] by simp
  have neq: "ChainOut \<noteq> ChainIn" "chainOut6 \<noteq> chainIn6" by (simp_all add: names)
  have b4: "wpS (bindP (wrapErr m (insertBeforeDrop N IPv4 ChainIn s)) (\<lambda>_. wrapErr m' (insertBeforeDrop N IPv4 ChainOut s')))
      (\<lambda>_. LD (B(ChainIn := B ChainIn @ [s], ChainOut := B ChainOut @ [s']))) w"
    if "LD B w" for B s s' m m' and w :: "('k, 'z) net_scheme"
    unfolding wpS_bindP wpS_wrapErr
    by (rule wpS_conseq [OF wpS_before_in [OF that]], drule wpS_before_out [of _ _ s']) (simp add: neq)
  have b6: "wpS (bindP (wrapErr m (insertBeforeDrop N IPv6 chainIn6 s)) (\<lambda>_. wrapErr m' (insertBeforeDrop N IPv6 chainOut6 s')))
      (\<lambda>_. LD (B(chainIn6 := B chainIn6 @ [s], chainOut6 := B chainOut6 @ [s']))) w"
    if "LD B w" for B s s' m m' and w :: "('k, 'z) net_scheme"
    unfolding wpS_bindP wpS_wrapErr
    by (rule wpS_conseq [OF in6 [OF that]], drule out6 [of _ _ s']) (simp add: neq)
  show ?thesis unfolding setupLocalRules_def wpS_bindP
  proof (rule wpS_conseq [OF wpS_forP_foldl [where J = LD and g = ?g4, OF b4 assms]])
    fix u and w' :: "('k, 'z) net_scheme" assume "LD (foldl ?g4 B v4) w'"
    then have w': "LD (withLans B v4 []) w'" by (simp only: f4)
    show "wpS (forP v6 (\<lambda>network. bindP (wrapErr (chainIn6 @ '' local network '' @ network) (insertBeforeDrop N IPv6 chainIn6 (lanInSpec network)))
         (\<lambda>_. wrapErr (chainOut6 @ '' local network '' @ network) (insertBeforeDrop N IPv6 chainOut6 (lanOutSpec network)))))
       (\<lambda>_. LD (withLans B v4 v6)) w'"
      by (subst f6 [symmetric], rule wpS_forP_foldl [where J = LD and g = ?g6, OF b6 w'])
  qed
qed

end

text \<open>The local networks a setup from \<open>w\<close> works with: none, or those resolved after the baseline.\<close>

definition plannedLans :: "'k netops \<Rightarrow> killswitchConfig \<Rightarrow> (('k, 'm) fw_scheme, string list \<times> string list) prog" where
  "plannedLans N cfg = bindP (setupBaselineChains N) (\<lambda>_.
     if Contains (kcLANs cfg) ''none'' then ret ([], []) else resolveLocalNetworks N (kcLANs cfg))"

text \<open>The bodies after the VPN rules and the bypass rules.\<close>

definition withVPN :: "bool \<Rightarrow> (string \<Rightarrow> spec list) \<Rightarrow> string \<Rightarrow> spec list" where
  "withVPN ipv6 B n =
     (if n = ChainOut then take 2 (B n) @ [ifaceSpec, fwmarkSpec] @ drop 2 (B n)
      else if n = chainOut6 \<and> ipv6 then take 2 (B n) @ [ifaceSpec] @ drop 2 (B n)
      else B n)"

definition withBypass :: "(string \<Rightarrow> spec list) \<Rightarrow> string \<Rightarrow> spec list" where
  "withBypass B = B(ChainOut := B ChainOut @ map bypassSpec WANCheckIPs)"

definition withICMP6 :: "bool \<Rightarrow> (string \<Rightarrow> spec list) \<Rightarrow> string \<Rightarrow> spec list" where
  "withICMP6 ipv6 B n = B n @ (if ipv6 \<and> n \<in> {chainIn6, chainOut6} then [icmp6Spec] else [])"

lemma with_all:
  "c \<in> set chainDefs \<Longrightarrow>
     withICMP6 ipv6 (withBypass (withVPN ipv6 (withLans baseBody v4 v6))) (cdName c) = expectedBody v4 v6 ipv6 (cdName c)"
  by (auto simp: withICMP6_def withBypass_def withVPN_def withLans_def expectedBody_def baseBody_def chainDefs_def names
      eval_nat_numeral)

lemma laid_cong: "laid v B \<Longrightarrow> (\<And>c. c \<in> set chainDefs \<Longrightarrow> B (cdName c) = B' (cdName c)) \<Longrightarrow> laid v B'"
  by (auto simp: laid_def)

lemma withLans_length: "2 \<le> length (withLans baseBody v4 v6 n)"
  by (simp add: withLans_def baseBody_def)

context netfilter
begin

lemma wpS_addVPN:
  fixes w :: "('k, 'z) net_scheme"
  assumes "LD B w" and "2 \<le> length (B ChainOut)" and "2 \<le> length (B chainOut6)"
  shows "wpS (addVPN N ipv6) (\<lambda>_. LD (withVPN ipv6 B)) w"
proof -
  have n: "chainOut6 \<noteq> ChainOut" by (simp add: names)
  have i: "wpS (runK (nInsert N IPv4 tableFilter ChainOut 3 s)) (\<lambda>_. LD (B(ChainOut := take 2 (B ChainOut) @ s # drop 2 (B ChainOut)))) w"
    if "LD B w" "2 \<le> length (B ChainOut)" for B s and w :: "('k, 'z) net_scheme"
    using wpS_insert_out [OF that(1), of 3 s] that(2) by simp
  have i6: "wpS (runK (nInsert N IPv6 tableFilter chainOut6 3 s)) (\<lambda>_. LD (B(chainOut6 := take 2 (B chainOut6) @ s # drop 2 (B chainOut6)))) w"
    if "LD B w" "2 \<le> length (B chainOut6)" for B s and w :: "('k, 'z) net_scheme"
    using wpS_insert_out6 [OF that(1), of 3 s] that(2) by simp
  have e: "(B(ChainOut := take 2 (B ChainOut) @ ifaceSpec # fwmarkSpec # drop 2 (B ChainOut)))
      (chainOut6 := take 2 (B chainOut6) @ ifaceSpec # drop 2 (B chainOut6)) = withVPN True B"
    "B(ChainOut := take 2 (B ChainOut) @ ifaceSpec # fwmarkSpec # drop 2 (B ChainOut)) = withVPN False B"
    using n by (auto simp: withVPN_def fun_eq_iff)
  show ?thesis unfolding addVPN_def wpS_bindP wpS_wrapErr vpnInsertPos_def
  proof (rule wpS_conseq [OF i [OF assms(1,2)]], rule wpS_conseq [OF i])
    fix w1 :: "('k, 'z) net_scheme" assume "LD (B(ChainOut := take 2 (B ChainOut) @ fwmarkSpec # drop 2 (B ChainOut))) w1"
    then show "LD (B(ChainOut := take 2 (B ChainOut) @ fwmarkSpec # drop 2 (B ChainOut))) w1" .
  next
    fix w2 :: "('k, 'z) net_scheme"
    let ?B1 = "B(ChainOut := take 2 (B ChainOut) @ fwmarkSpec # drop 2 (B ChainOut))"
    assume "LD (?B1(ChainOut := take 2 (?B1 ChainOut) @ ifaceSpec # drop 2 (?B1 ChainOut))) w2"
    then have *: "LD (withVPN False B) w2" using assms(2) by (simp add: e(2) [symmetric])
    show "wpS (if ipv6 then wrapErr ''insert IPv6 VPN interface rule'' (runK (nInsert N IPv6 tableFilter chainOut6 3 ifaceSpec)) else ret ())
      (\<lambda>_. LD (withVPN ipv6 B)) w2"
      using * i6 [OF *, of ifaceSpec] assms(3) n e by (cases ipv6) (simp_all add: withVPN_def)
  qed (use assms(2) in simp)
qed

lemma wpS_insertBypassRules:
  assumes "LD B w"
  shows "wpS (insertBypassRules N) (\<lambda>_. LD (withBypass B)) w"
proof -
  have e: "foldl (\<lambda>B n. B(ChainOut := B ChainOut @ [bypassSpec n])) B ls = B(ChainOut := B ChainOut @ map bypassSpec ls)" for B ls
    by (induction ls arbitrary: B) (auto simp: fun_eq_iff)
  show ?thesis unfolding insertBypassRules_def withBypass_def e [symmetric]
    by (rule wpS_forP_foldl [where J = LD, OF _ assms]) (simp add: wpS_before_out)
qed

lemma wpS_icmp6:
  assumes "LD B w"
  shows "wpS (if ipv6 then bindP (wrapErr ''VPN_IN6 ICMPv6'' (insertBeforeDrop N IPv6 chainIn6 icmp6Spec))
              (\<lambda>_. wrapErr ''VPN_OUT6 ICMPv6'' (insertBeforeDrop N IPv6 chainOut6 icmp6Spec))
            else ret ()) (\<lambda>_. LD (withICMP6 ipv6 B)) w"
proof (cases ipv6)
  case True
  have n: "chainIn6 \<noteq> chainOut6" by (simp add: names)
  then have e: "withICMP6 True B = B(chainIn6 := B chainIn6 @ [icmp6Spec], chainOut6 := B chainOut6 @ [icmp6Spec])"
    by (auto simp: withICMP6_def fun_eq_iff)
  have "wpS (insertBeforeDrop N IPv6 chainIn6 icmp6Spec) (\<lambda>_. LD (B(chainIn6 := B chainIn6 @ [icmp6Spec]))) w"
    using wpS_insertBeforeDrop [OF assms, of "chainDefs ! 2"] by (simp add: chainDefs_def)
  with True show ?thesis
    by (simp del: wpS_def, elim wpS_conseq)
      (use n in \<open>auto simp: e dest: wpS_insertBeforeDrop [of _ _ out6Def icmp6Spec]\<close>)
next
  case False
  have "withICMP6 False B = B" by (simp add: withICMP6_def fun_eq_iff)
  with False assms show ?thesis by simp
qed

end

context netfilter
begin

lemma wpS_setupLocalNetworks:
  fixes w :: "('k, 'z) net_scheme"
  assumes "LD B w"
  shows "wpS (setupLocalNetworks N input)
    (\<lambda>_ w'. \<exists>v4 v6 w1. resolveLocalNetworks N input w = Some (Inr (v4, v6), w1) \<and>
      distinct v4 \<and> distinct v6 \<and> LD (withLans B v4 v6) w') w"
proof -
  have res: "keeps (LD B) (resolveLocalNetworks N input)"
    by (rule laid_RF [where P = "{}"]) (rule keeps_resolveLocalNetworks)
  have rt: "wpS (setupLocalRoutes N v4 v6) (\<lambda>_ w'. distinct v4 \<and> distinct v6 \<and> LD B w') w'"
    if "LD B w'" for v4 v6 and w' :: "('k, 'z) net_scheme"
  proof -
    have "wpS (setupLocalRoutes N v4 v6) (\<lambda>_ w'. distinct v4 \<and> distinct v6) w'"
      by (rule wpSI, rule wp_conseq [OF setupLocalRoutes_distinct]) (auto split: sum.splits)
    moreover have "wpS (setupLocalRoutes N v4 v6) (\<lambda>_. LD B) w'"
      by (rule keeps_wpS [OF laid_RF that], rule keeps_setupLocalRoutes [where P = "{100}"]) simp
    ultimately have "wpS (setupLocalRoutes N v4 v6) (\<lambda>x w'. (distinct v4 \<and> distinct v6) \<and> LD B w') w'"
      by (rule wpS_conj)
    then show ?thesis by (rule wpS_conseq) auto
  qed
  have "wpS (setupLocalRoutes N v4 v6) (\<lambda>x. wpS (bindP (wrapErr m (setupLocalRules N v4 v6)) (\<lambda>_. ret y))
      (\<lambda>_ w'. distinct v4 \<and> distinct v6 \<and> LD (withLans B v4 v6) w')) w1"
    if "LD B w1" for v4 v6 m y and w1 :: "('k, 'z) net_scheme"
    by (rule wpS_conseq [OF rt [OF that]], elim conjE, simp, rule wpS_setupLocalRules)
  then show ?thesis unfolding setupLocalNetworks_def
    by (simp, intro wpS_conseq [OF wpS_eq [OF keeps_wpS [OF res assms]]], clarsimp)
qed

lemma wpS_setupBypass:
  assumes "LD B w"
  shows "wpS (setupBypass N) (\<lambda>_. LD (withBypass B)) w"
proof -
  have "wpS (setupBypassRoutes N) (\<lambda>_. LD B) w"
    by (rule keeps_wpS [OF laid_RF assms], rule keeps_setupBypassRoutes [where P = "{50}"]) simp
  then show ?thesis by (auto simp: setupBypass_def elim!: wpS_conseq intro: wpS_insertBypassRules)
qed

lemma wpS_setupTail:
  assumes "LD (withLans baseBody v4 v6) w"
  shows "wpS (setupTail N ipv6) (\<lambda>_ w'. LD (expectedBody v4 v6 ipv6) w' \<and> active w') w"
  unfolding setupTail_def wpS_bindP wpS_wrapErr wpS_modifyP
  apply (rule wpS_conseq [OF wpS_addVPN [OF assms withLans_length withLans_length]])
  apply (drule wpS_setupBypass, erule wpS_conseq)
  apply (drule wpS_icmp6 [of _ _ ipv6], erule wpS_conseq)
  apply (drule keeps_wpS [OF keeps_laid_mss [of _ ipv6]], erule wpS_conseq)
  apply (drule keeps_wpS [OF keeps_laid_verify], erule wpS_conseq)
  by (auto elim!: laid_cong dest: with_all)

lemma wpS_Setup:
  fixes w :: "('k, 'z) fw_scheme"
  shows "wpS (Setup N cfg) (\<lambda>_ w'. \<exists>v4 v6 w1. plannedLans N cfg w = Some (Inr (v4, v6), w1) \<and>
     distinct v4 \<and> distinct v6 \<and> LD (expectedBody v4 v6 (kcIPv6Enabled cfg)) w' \<and> active w') w"
proof -
  let ?P = "\<lambda>B w'. \<exists>v4 v6 w1. plannedLans N cfg w = Some (Inr (v4, v6), w1) \<and> distinct v4 \<and> distinct v6 \<and>
      B = withLans baseBody v4 v6 \<and> LD B w'"
  have lans: "wpS (if \<not> Contains (kcLANs cfg) ''none''
            then bindP (wrapErr ''failed to setup local networks'' (setupLocalNetworks N (kcLANs cfg))) (\<lambda>_. ret ())
            else ret ()) (\<lambda>_ w'. \<exists>B. ?P B w') w0"
    if w0: "LD baseBody w0" "setupBaselineChains N w = Some (Inr (), w0)" for w0 :: "('k, 'z) fw_scheme"
  proof (cases "Contains (kcLANs cfg) ''none''")
    case True
    have "withLans baseBody [] [] = baseBody" by (simp add: withLans_def fun_eq_iff)
    with True w0 show ?thesis by (simp add: plannedLans_def bindP_def ret_def)
  next
    case False
    with w0 show ?thesis
      by (auto simp: plannedLans_def bindP_def elim!: wpS_conseq intro!: wpS_conseq [OF wpS_setupLocalNetworks [OF w0(1)]])
  qed
  show ?thesis unfolding Setup_def
  proof (subst wpS_bindP, rule wpS_conseq [OF wpS_eq [OF wpS_baseline]], subst wpS_bindP, elim conjE)
    fix u :: unit and w0 :: "('k, 'z) fw_scheme"
    assume "LD baseBody w0" "setupBaselineChains N w = Some (Inr u, w0)"
    then have "LD baseBody w0" "setupBaselineChains N w = Some (Inr (), w0)" by simp_all
    note lans [OF this]
    then show "wpS (if \<not> Contains (kcLANs cfg) ''none''
            then bindP (wrapErr ''failed to setup local networks'' (setupLocalNetworks N (kcLANs cfg))) (\<lambda>_. ret ())
            else ret ()) (\<lambda>x. wpS (setupTail N (kcIPv6Enabled cfg))
      (\<lambda>_ w'. \<exists>v4 v6 w1. plannedLans N cfg w = Some (Inr (v4, v6), w1) \<and>
         distinct v4 \<and> distinct v6 \<and> LD (expectedBody v4 v6 (kcIPv6Enabled cfg)) w' \<and> active w')) w0"
      by (rule wpS_conseq, elim exE conjE, intro wpS_conseq [OF wpS_setupTail]) blast+
  qed
qed

end

section \<open>Operations while the killswitch is up\<close>

text \<open>What the other components call on the firewall between a setup and a cleanup.\<close>

datatype fwOp =
    OpAddExemption string string string string
  | OpAddExemptions "exemption list"
  | OpRemoveExemptions
  | OpAllowForwardedPort int
  | OpRemoveForwardedPort
  | OpAddPIADNSRoutes "string list"
  | OpRemovePIARoutes
  | OpAddPFRoute string
  | OpRemovePFRoute string

fun runOp :: "'k netops \<Rightarrow> fwOp \<Rightarrow> (('k, 'm) fw_scheme, unit) prog" where
  "runOp N (OpAddExemption ip port proto comment) = AddExemption N ip port proto comment"
| "runOp N (OpAddExemptions specs) = AddExemptions N specs"
| "runOp N OpRemoveExemptions = RemoveExemptions N"
| "runOp N (OpAllowForwardedPort port) = AllowForwardedPort N port"
| "runOp N OpRemoveForwardedPort = RemoveForwardedPort N"
| "runOp N (OpAddPIADNSRoutes dns) = AddPIADNSRoutes N dns"
| "runOp N OpRemovePIARoutes = RemovePIARoutes N"
| "runOp N (OpAddPFRoute gw) = AddPFRoute N gw"
| "runOp N (OpRemovePFRoute gw) = RemovePFRoute N gw"

text \<open>Any sequence of them, each of which may fail at any of its steps.\<close>

definition runOps :: "'k netops \<Rightarrow> fwOp list \<Rightarrow> (('k, 'm) fw_scheme, unit) prog" where
  "runOps N ops = forP ops (\<lambda>op. ignoreP (runOp N op))"

text \<open>The rules the operations ask for, by chain.\<close>

fun asksFor :: "fwOp \<Rightarrow> string \<Rightarrow> spec list" where
  "asksFor (OpAddExemption ip port proto comment) c = (if c = chainExempt then [exemptSpec ip port proto] else [])"
| "asksFor (OpAddExemptions specs) c =
     (if c = chainExempt then map (\<lambda>s. exemptSpec (exIP s) (exPort s) (exProto s)) specs else [])"
| "asksFor (OpAllowForwardedPort port) c =
     (if c = ChainIn then [portSpec ''tcp'' port, portSpec ''udp'' port] else [])"
| "asksFor _ c = []"

text \<open>
  The rules that may accept a packet in a chain: those of the setup and those asked for; the
  exemptions count for \<^verbatim>\<open>VPN_OUT\<close>, which jumps to their chain.
\<close>

definition accepting :: "string list \<Rightarrow> string list \<Rightarrow> bool \<Rightarrow> fwOp list \<Rightarrow> string \<Rightarrow> spec list" where
  "accepting v4 v6 ipv6 ops c = expectedBody v4 v6 ipv6 c @ concat (map (\<lambda>op. asksFor op c) ops) @
     (if c = ChainOut then concat (map (\<lambda>op. asksFor op chainExempt) ops) else [])"

definition allowedIn :: "string list \<Rightarrow> string list \<Rightarrow> bool \<Rightarrow> fwOp list \<Rightarrow> string \<Rightarrow> spec set" where
  "allowedIn v4 v6 ipv6 ops c = (if c = chainExempt then {} else set (expectedBody v4 v6 ipv6 c)) \<union>
     set (concat (map (\<lambda>op. asksFor op c) ops)) \<union> (if c = ChainOut then {[''-j'', chainExempt]} else {})"

lemma laid_ks_inv:
  assumes "laid v B" and "\<And>c. c \<in> set chainDefs \<Longrightarrow> set (B (cdName c)) \<subseteq> A (cdName c)"
    and "\<And>c. c \<in> set chainDefs \<Longrightarrow> estSpec \<in> set (B (cdName c)) \<and> loSpec c \<in> set (B (cdName c))"
    and "v (IPv4, tableFilter, chainExempt) = None"
  shows "ks_inv A v"
  unfolding ks_inv_def
proof (intro conjI ballI)
  fix c assume c: "c \<in> set chainDefs"
  show "guarded (A (cdName c)) v c"
    unfolding guarded_def using assms(1) [unfolded laid_def] c assms(2,3) [OF c] by auto
qed (use assms(4) in simp)

lemma expected_base:
  "c \<in> set chainDefs \<Longrightarrow> estSpec \<in> set (expectedBody v4 v6 b (cdName c)) \<and> loSpec c \<in> set (expectedBody v4 v6 b (cdName c))"
  by (auto simp: expectedBody_def baseBody_def chainDefs_def loSpec_def names)

context netfilter
begin

lemma keeps_KS_RF: "(\<And>k0. keeps (RF P k0) m) \<Longrightarrow> keeps (KS A) m"
  by (rule keepsI, rule wp_RF) auto

lemma keeps_runOp:
  assumes "[''-j'', chainExempt] \<in> A ChainOut" and "\<And>c. set (asksFor op c) \<subseteq> A c"
  shows "keeps (KS A) (runOp N op)"
proof (cases op)
  case (OpAddExemption ip port proto comment)
  with assms(1) assms(2) [of chainExempt] show ?thesis by auto
next
  case (OpAddExemptions specs)
  have "exemptSpec (exIP s) (exPort s) (exProto s) \<in> A chainExempt" if "s \<in> set specs" for s
    using assms(2) [of chainExempt] that OpAddExemptions by auto
  with assms(1) OpAddExemptions show ?thesis by auto
next
  case (OpAllowForwardedPort port)
  with assms(2) [of ChainIn] show ?thesis by auto
next
  case (OpAddPIADNSRoutes dns)
  then show ?thesis by (auto intro: keeps_KS_RF [where P = "{75, 76}"])
next
  case OpRemovePIARoutes
  then show ?thesis by (auto intro: keeps_KS_RF [where P = "{75, 76}"])
next
  case (OpAddPFRoute gw)
  then show ?thesis by (auto intro: keeps_KS_RF [where P = "{75, 76}"])
next
  case (OpRemovePFRoute gw)
  then show ?thesis by (auto intro: keeps_KS_RF [where P = "{75, 76}"])
qed auto

lemma keeps_runOps:
  assumes "[''-j'', chainExempt] \<in> A ChainOut" and "\<And>op c. op \<in> set ops \<Longrightarrow> set (asksFor op c) \<subseteq> A c"
  shows "keeps (KS A) (runOps N ops)"
  unfolding runOps_def using assms by (auto intro!: keeps_forP keeps_ignoreP keeps_runOp)

text \<open>The chain of exemptions is not touched by a setup.\<close>

abbreviation XC :: "spec list option \<Rightarrow> ('k, 'm) net_scheme \<Rightarrow> bool" where
  "XC x w \<equiv> (V (kern w) (IPv4, tableFilter, chainExempt) = x)"

lemma keeps_XC:
  assumes "(f, t, c) \<noteq> (IPv4, tableFilter, chainExempt)"
  shows "keeps (XC x) (runK (nNewChain N f t c))" "keeps (XC x) (runK (nAppend N f t c s))"
    "keeps (XC x) (runK (nInsert N f t c n s))" "keeps (XC x) (runK (nDelete N f t c s))"
    "keeps (XC x) (runK (nClearAndDeleteChain N f t c))"
  using assms
  by (auto intro!: keepsI wp_intros)

lemma keeps_XC_list: "keeps (XC x) (outK (nList N f t c))"
  by (rule keepsI, rule wp_list) auto

lemma keeps_XC_RF: "(\<And>k0. keeps (RF P k0) m) \<Longrightarrow> keeps (XC x) m"
  by (rule keepsI, rule wp_RF) auto

lemma keeps_XC_insertBeforeDrop: "c \<noteq> chainExempt \<Longrightarrow> keeps (XC x) (insertBeforeDrop N f c s)"
  unfolding insertBeforeDrop_def ruleCount_def Let_def
  by (auto intro!: keeps_bindP keeps_wrapErr keeps_XC keeps_XC_list)

lemma keeps_XC_Setup: "keeps (XC x) (Setup N cfg)"
proof -
  have b: "keeps (XC x) (setupBaselineChains N)"
    unfolding setupBaselineChains_def cleanupChains_def cleanupChain_def setupBaselineChain_def
    by (intro keeps_bindP keeps_forP keeps_wrapErr keeps_ignoreP keeps_XC) (auto dest: names_neq(2,3))
  have n: "ChainIn \<noteq> chainExempt" "ChainOut \<noteq> chainExempt" "chainIn6 \<noteq> chainExempt" "chainOut6 \<noteq> chainExempt"
    by (simp_all add: names)
  have ru: "keeps (XC x) (setupLocalRules N v4 v6)" for v4 v6
    unfolding setupLocalRules_def by (intro keeps_bindP keeps_forP keeps_wrapErr keeps_XC_insertBeforeDrop n)
  have ro: "keeps (XC x) (setupLocalRoutes N v4 v6)" for v4 v6
    by (rule keeps_XC_RF [where P = "{100}"]) blast
  have re: "keeps (XC x) (resolveLocalNetworks N i)" for i
    by (rule keeps_XC_RF [where P = "{}"]) blast
  have l: "keeps (XC x) (setupLocalNetworks N i)" for i
    unfolding setupLocalNetworks_def using ru ro re by (auto intro!: keeps_bindP keeps_wrapErr split: prod.splits)
  have v: "keeps (XC x) (addVPN N i)" for i
    unfolding addVPN_def using n by (auto intro!: keeps_bindP keeps_wrapErr keeps_XC)
  have y: "keeps (XC x) (setupBypass N)"
    unfolding setupBypass_def insertBypassRules_def
    by (intro keeps_bindP keeps_forP keeps_wrapErr keeps_XC_insertBeforeDrop keeps_XC_RF [where P = "{50}"])
      (auto simp: n)
  have i: "keeps (XC x) (insertBeforeDrop N IPv6 chainIn6 s)" "keeps (XC x) (insertBeforeDrop N IPv6 chainOut6 s)" for s
    by (intro keeps_XC_insertBeforeDrop n)+
  have "tableMangle \<noteq> tableFilter" by (simp add: names)
  then have m: "keeps (XC x) (setupMSSClamping N i)" for i
    unfolding setupMSSClamping_def cleanupMSSClamping_def
    by (auto intro!: keeps_bindP keeps_forP keeps_ignoreP keeps_XC)
  have "keeps (XC x) (chainHasDrop N f c)" "keeps (XC x) (chainIsInParent N f c d)" for f c d
    unfolding chainHasDrop_def chainIsInParent_def
    by (auto intro!: keeps_bindP keeps_tryP keeps_XC_list split: sum.splits)
  then have "keeps (XC x) (checkChainsPresent N)" unfolding checkChainsPresent_def by (intro keeps_andP)
  then have "keeps (XC x) (verifyAttempts N n)" for n by (induction n) (auto intro!: keeps_bindP)
  moreover have "keeps (XC x) (modifyP (active_update (\<lambda>_. True)))" by (auto intro!: keepsI)
  ultimately show ?thesis unfolding Setup_def setupTail_def verifyKillswitch_def
    using b l v y i m by (auto intro!: keeps_bindP keeps_wrapErr)
qed

end

section \<open>The promise of the killswitch\<close>

lemma exempt_jump_harmless:
  assumes "\<And>es. v (IPv4, tableFilter, chainExempt) = Some es \<Longrightarrow> \<forall>s \<in> set es. \<not> matches m s"
  shows "harmless 2 v m IPv4 [''-j'', chainExempt]"
proof (cases "v (IPv4, tableFilter, chainExempt)")
  case None
  then show ?thesis by (simp add: harmless_def target_def names eval_nat_numeral)
next
  case (Some es)
  have "walk 1 v m IPv4 es \<noteq> Some Accept"
    using assms [OF Some] by (intro walk_harmless) (auto intro: unmatched_harmless)
  with Some show ?thesis
    by (auto simp: harmless_def target_def names eval_nat_numeral split: option.splits)
qed

lemma ks_inv_drops:
  assumes inv: "ks_inv (allowedIn v4 v6 ipv6 ops) v" and c: "c \<in> set chainDefs" and m: "m []"
    and no: "\<forall>s \<in> set (accepting v4 v6 ipv6 ops (cdName c)). \<not> matches m s"
  shows "verdict v m (cdIpt c) (cdParent c) policy = Drop"
proof (rule guarded_drops [OF _ c, of "allowedIn v4 v6 ipv6 ops (cdName c)"])
  show "guarded (allowedIn v4 v6 ipv6 ops (cdName c)) v c"
    using inv c by (simp add: ks_inv_def)
  show "\<forall>r \<in> allowedIn v4 v6 ipv6 ops (cdName c) \<union> {estSpec, loSpec c}. harmless 2 v m (cdIpt c) r"
  proof
    fix r assume r: "r \<in> allowedIn v4 v6 ipv6 ops (cdName c) \<union> {estSpec, loSpec c}"
    show "harmless 2 v m (cdIpt c) r"
    proof (cases "r \<in> set (accepting v4 v6 ipv6 ops (cdName c))")
      case True
      then show ?thesis using no by (auto intro: unmatched_harmless)
    next
      case False
      have "estSpec \<in> set (accepting v4 v6 ipv6 ops (cdName c))" "loSpec c \<in> set (accepting v4 v6 ipv6 ops (cdName c))"
        using expected_base [OF c] by (auto simp: accepting_def)
      with r False c have out: "cdName c = ChainOut" and rj: "r = [''-j'', chainExempt]"
        by (auto simp: allowedIn_def accepting_def split: if_splits)
      from out c have f: "cdIpt c = IPv4" by (auto simp: chainDefs_def names)
      have "harmless 2 v m IPv4 [''-j'', chainExempt]"
      proof (rule exempt_jump_harmless)
        fix es assume "v (IPv4, tableFilter, chainExempt) = Some es"
        with inv have "set es \<subseteq> allowedIn v4 v6 ipv6 ops chainExempt" by (simp add: ks_inv_def)
        moreover have "allowedIn v4 v6 ipv6 ops chainExempt \<subseteq> set (accepting v4 v6 ipv6 ops (cdName c))"
          using out by (auto simp: allowedIn_def accepting_def names)
        ultimately show "\<forall>s \<in> set es. \<not> matches m s" using no by auto
      qed
      with f rj show ?thesis by simp
    qed
  qed
qed (fact m)

text \<open>A packet that only the rules of a setup see is accepted exactly when one of them matches.\<close>

lemma walk_accepting:
  assumes "\<forall>s \<in> set rs. target s = Some ''ACCEPT''" and "m []"
  shows "walk n v m f (rs @ [dropSpec]) = Some (if \<exists>s \<in> set rs. matches m s then Accept else Drop)"
  using assms by (induction rs) auto

lemma expected_targets: "s \<in> set (expectedBody v4 v6 b n) \<Longrightarrow> target s = Some ''ACCEPT''"
  by (auto simp: expectedBody_def baseBody_def target_def estSpec_def lanInSpec_def lanOutSpec_def ifaceSpec_def
      fwmarkSpec_def bypassSpec_def icmp6Spec_def split: if_splits)

lemma laid_verdict:
  assumes "laid v (expectedBody v4 v6 b)" and "c \<in> set chainDefs" and "m []"
  shows "verdict v m (cdIpt c) (cdParent c) policy =
    (if \<exists>s \<in> set (expectedBody v4 v6 b (cdName c)). matches m s then Accept else Drop)"
proof -
  from assms(1,2) obtain ps where "v (cdIpt c, tableFilter, cdName c) = Some (expectedBody v4 v6 b (cdName c) @ [dropSpec])"
    "v (cdIpt c, tableFilter, cdParent c) = Some ([''-j'', cdName c] # ps)" by (auto simp: laid_def)
  moreover have "cdName c \<noteq> ''ACCEPT''" "cdName c \<noteq> ''DROP''"
    using assms(2) by (auto simp: chainDefs_def names)
  ultimately show ?thesis
    using walk_accepting [of "expectedBody v4 v6 b (cdName c)" m 2 v "cdIpt c"] expected_targets assms(3)
    by (simp add: verdict_def matches_def target_def eval_nat_numeral)
qed

context netfilter
begin

lemma setup_laid:
  assumes "Setup N cfg w = Some (Inr (), w')"
  obtains v4 v6 w1 where "plannedLans N cfg w = Some (Inr (v4, v6), w1)" "distinct v4" "distinct v6"
    "LD (expectedBody v4 v6 (kcIPv6Enabled cfg)) w'" "active w'"
  using wpSD [OF wpS_Setup assms] by blast

text \<open>Every operation returns.\<close>

lemma total_runK [intro]: "keeps (\<lambda>_. True) (runK c)"
  by (rule keepsI, rule wp_runK) auto

lemma total_RF: "(\<And>k0. keeps (RF P k0) m) \<Longrightarrow> keeps (\<lambda>_. True) m"
  by (rule keepsI, rule wp_RF) auto

lemma total_runOp: "keeps (\<lambda>_. True) (runOp N op)"
proof (cases op)
  case (OpAddPIADNSRoutes dns)
  then show ?thesis by (auto intro: total_RF [where P = "{75, 76}"])
next
  case OpRemovePIARoutes
  then show ?thesis by (auto intro: total_RF [where P = "{75, 76}"])
next
  case (OpAddPFRoute gw)
  then show ?thesis by (auto intro: total_RF [where P = "{75, 76}"])
next
  case (OpRemovePFRoute gw)
  then show ?thesis by (auto intro: total_RF [where P = "{75, 76}"])
next
  case OpRemoveForwardedPort
  then show ?thesis by (auto simp: RemoveForwardedPort_def intro!: keeps_bindP keeps_ignoreP)
next
  case (OpAllowForwardedPort port)
  then show ?thesis
    by (auto simp: AllowForwardedPort_def RemoveForwardedPort_def intro!: keeps_bindP keeps_ignoreP keeps_forP keeps_wrapErr
        intro: keepsI)
qed (auto simp: AddExemption_def AddExemptions_def RemoveExemptions_def createExemptChain_def
    intro!: keeps_bindP keeps_ignoreP keeps_forP keeps_wrapErr)

lemma runOps_returns: "\<exists>r w'. runOps N ops w = Some (r, w')"
proof -
  have "keeps (\<lambda>_. True) (runOps N ops)"
    unfolding runOps_def by (intro keeps_forP keeps_ignoreP total_runOp)
  from keeps_run [OF this] show ?thesis by simp
qed

lemma no_leak:
  assumes "Setup N cfg w = Some (Inr (), w1)" and "plannedLans N cfg w = Some (Inr (v4, v6), w0)"
    and "V (kern w) (IPv4, tableFilter, chainExempt) = None"
    and "runOps N ops w1 = Some (r, w2)" and "c \<in> set chainDefs" and "m []"
    and "\<forall>s \<in> set (accepting v4 v6 (kcIPv6Enabled cfg) ops (cdName c)). \<not> matches m s"
  shows "verdict (V (kern w2)) m (cdIpt c) (cdParent c) policy = Drop"
proof (rule ks_inv_drops [OF _ assms(5,6,7)])
  let ?A = "allowedIn v4 v6 (kcIPv6Enabled cfg) ops"
  from setup_laid [OF assms(1)] assms(2) have laid: "LD (expectedBody v4 v6 (kcIPv6Enabled cfg)) w1"
    by auto
  have ex: "V (kern w1) (IPv4, tableFilter, chainExempt) = None"
    using keeps_run [OF keeps_XC_Setup [of None cfg] assms(3)] assms(1) by auto
  have "KS ?A w1"
    by (rule laid_ks_inv [OF laid])
      (auto simp: allowedIn_def expected_base ex dest: names_neq(2))
  moreover have "keeps (KS ?A) (runOps N ops)"
    by (rule keeps_runOps) (auto simp: allowedIn_def)
  ultimately show "KS ?A w2" using keeps_run assms(4) by fastforce
qed

end

section \<open>A reference host\<close>

text \<open>A host on the reference kernel, a configuration, and the host after a setup.\<close>

definition demoKernel :: refk where
  "demoKernel = \<lparr>rkChains = [((IPv4, ''filter'', ''INPUT''), []), ((IPv4, ''filter'', ''OUTPUT''), []),
     ((IPv6, ''filter'', ''INPUT''), []), ((IPv6, ''filter'', ''OUTPUT''), [])], rkRules = (\<lambda>_. []),
     rkShow = [([''ip'', ''-4'', ''route'', ''show'', ''proto'', ''kernel''], ''172.17.0.0/16 dev eth0'')],
     rkFaults = []\<rparr>"

definition demoHost :: "refk fw" where
  "demoHost = \<lparr>kern = demoKernel, ipt4Cmd = ''iptables-nft'', ipt6Cmd = ''ip6tables-nft'', active = False, activePort = 0\<rparr>"

definition demoCfg :: killswitchConfig where
  "demoCfg = \<lparr>kcLANs = ''10.1.0.0/16'', kcIPv6Enabled = False\<rparr>"

definition demoLans :: "string list" where
  "demoLans = [''172.17.0.0/16'', ''10.1.0.0/16'']"

definition demoUp :: "refk fw" where
  "demoUp = demoHost\<lparr>active := True, kern := demoKernel\<lparr>
     rkChains := [((IPv4, ''filter'', ''INPUT''), [[''-j'', ''VPN_IN'']]),
       ((IPv4, ''filter'', ''OUTPUT''), [[''-j'', ''VPN_OUT'']]),
       ((IPv6, ''filter'', ''INPUT''), [[''-j'', ''VPN_IN6'']]),
       ((IPv6, ''filter'', ''OUTPUT''), [[''-j'', ''VPN_OUT6'']]),
       ((IPv4, ''filter'', ChainIn), expectedBody demoLans [] False ChainIn @ [dropSpec]),
       ((IPv4, ''filter'', ChainOut), expectedBody demoLans [] False ChainOut @ [dropSpec]),
       ((IPv6, ''filter'', chainIn6), expectedBody demoLans [] False chainIn6 @ [dropSpec]),
       ((IPv6, ''filter'', chainOut6), expectedBody demoLans [] False chainOut6 @ [dropSpec])],
     rkRules := (\<lambda>f. case f of IPv4 \<Rightarrow>
         map (\<lambda>n. (100, mainSel n)) demoLans @ map (\<lambda>n. (50, mainSel n)) WANCheckIPs | IPv6 \<Rightarrow> [])\<rparr>\<rparr>"

definition demoPlanned :: "refk fw" where
  "demoPlanned = snd (the (plannedLans refN demoCfg demoHost))"

lemma demo_setup: "Setup refN demoCfg demoHost = Some (Inr (), demoUp)"
  by code_simp

lemma demo_planned: "plannedLans refN demoCfg demoHost = Some (Inr (demoLans, []), demoPlanned)"
  by code_simp

section \<open>Properties\<close>

text \<open>
  C2. No leak. After a successful setup, whatever other components ask of the firewall
  afterwards and whichever of their commands fail, each of the four directions drops every
  packet that matches none of: established connections, loopback, the rules of the setup (the
  tunnel, the WireGuard mark, the local networks, the WAN check, ICMPv6 when IPv6 is on) and
  the exemptions and forwarded ports that were asked for.
\<close>

theorem killswitch_no_leak:
  assumes "netfilter N V R"
    and "Setup N cfg w = Some (Inr (), w1)" and "plannedLans N cfg w = Some (Inr (v4, v6), w0)"
    and "V (kern w) (IPv4, tableFilter, chainExempt) = None"
    and "c \<in> set chainDefs" and "m []"
    and "\<forall>s \<in> set (accepting v4 v6 (kcIPv6Enabled cfg) ops (cdName c)). \<not> matches m s"
  shows "\<exists>r w2. runOps N ops w1 = Some (r, w2) \<and>
    verdict (V (kern w2)) m (cdIpt c) (cdParent c) policy = Drop"
proof -
  obtain r w2 where "runOps N ops w1 = Some (r, w2)"
    using netfilter.runOps_returns [OF assms(1)] by blast
  then show ?thesis using netfilter.no_leak [OF assms(1-4) _ assms(5-7)] by blast
qed

theorem killswitch_no_leak_witness:
  "\<exists>r w2. runOps refN [OpAddExemption ''1.2.3.4'' ''443'' ''tcp'' ''x'', OpAllowForwardedPort 4000] demoUp = Some (r, w2) \<and>
    verdict (refV (kern w2)) (\<lambda>a. a \<in> {[], [''-o'', ''eth0'']}) IPv4 ''OUTPUT'' Accept = Drop"
proof -
  have v: "refV (kern demoHost) (IPv4, tableFilter, chainExempt) = None" by code_simp
  have a: "\<forall>s \<in> set (accepting demoLans [] (kcIPv6Enabled demoCfg)
      [OpAddExemption ''1.2.3.4'' ''443'' ''tcp'' ''x'', OpAllowForwardedPort 4000] (cdName outDef)).
      \<not> matches (\<lambda>a. a \<in> {[], [''-o'', ''eth0'']}) s" by code_simp
  show ?thesis
    using killswitch_no_leak [OF refk.netfilter_axioms demo_setup demo_planned v _ _ a, of Accept] by simp
qed

text \<open>
  C5. The setup is exact. A setup that reports success has laid the four chains out as
  written, each fed first by its parent and ended by DROP, and has marked the killswitch
  active; a packet is then accepted if one of the rules of its chain matches, and dropped
  otherwise, whatever the policy of the built-in chain.
\<close>

theorem setup_exact:
  assumes "netfilter N V R" and "Setup N cfg w = Some (Inr (), w1)"
  shows "active w1 \<and> (\<exists>v4 v6 w0. plannedLans N cfg w = Some (Inr (v4, v6), w0) \<and> distinct v4 \<and> distinct v6 \<and>
    laid (V (kern w1)) (expectedBody v4 v6 (kcIPv6Enabled cfg)) \<and>
    (\<forall>c m policy. c \<in> set chainDefs \<and> m [] \<longrightarrow> verdict (V (kern w1)) m (cdIpt c) (cdParent c) policy =
      (if \<exists>s \<in> set (expectedBody v4 v6 (kcIPv6Enabled cfg) (cdName c)). matches m s then Accept else Drop)))"
proof (rule netfilter.setup_laid [OF assms])
  fix v4 v6 w0
  assume *: "plannedLans N cfg w = Some (Inr (v4, v6), w0)" "distinct v4" "distinct v6"
    "laid (V (kern w1)) (expectedBody v4 v6 (kcIPv6Enabled cfg))" "active w1"
  then show ?thesis using laid_verdict [OF *(4)] by blast
qed

theorem setup_exact_witness:
  "active demoUp \<and> verdict (refV (kern demoUp)) (\<lambda>a. a \<in> {[], [''-o'', ''pia0'']}) IPv4 ''OUTPUT'' Drop = Accept"
proof -
  have m: "\<exists>s \<in> set (expectedBody demoLans [] (kcIPv6Enabled demoCfg) (cdName outDef)).
      matches (\<lambda>a. a \<in> {[], [''-o'', ''pia0'']}) s" by code_simp
  from setup_exact [OF refk.netfilter_axioms demo_setup] demo_planned have "active demoUp"
    and *: "\<And>c m policy. c \<in> set chainDefs \<and> m [] \<Longrightarrow> verdict (refV (kern demoUp)) m (cdIpt c) (cdParent c) policy =
      (if \<exists>s \<in> set (expectedBody demoLans [] (kcIPv6Enabled demoCfg) (cdName c)). matches m s
       then Accept else Drop)" by (auto simp del: split_paired_Ex)
  moreover have "verdict (refV (kern demoUp)) (\<lambda>a. a \<in> {[], [''-o'', ''pia0'']}) (cdIpt outDef) (cdParent outDef) Drop = Accept"
    by (subst *) (use m in simp_all)
  ultimately show ?thesis by simp
qed

end
