(* ===== verification/HostKillswitch.thy ===== *)
theory HostKillswitch
  imports Killswitch
begin

text \<open>
  The firewall on a healthy host, where a command fails only for a documented reason: when a
  setup succeeds (also after a crash that left chains behind), what a cleanup leaves, that
  temporary exemptions are taken back exactly, and how forwarded ports replace each other.
\<close>

section \<open>A host a setup can start from\<close>

text \<open>
  The built-in chains exist, and nothing refers to the chains of the killswitch but at most one
  jump from their own parents. This holds of a clean host and after a killed run.
\<close>

definition onlyParent :: "chains \<Rightarrow> chainDef \<Rightarrow> bool" where
  "onlyParent v c \<longleftrightarrow> (\<exists>ps. v (cdIpt c, tableFilter, cdParent c) = Some ps \<and> count_list ps [''-j'', cdName c] \<le> 1) \<and>
     (\<forall>ch rs s. v (cdIpt c, tableFilter, ch) = Some rs \<longrightarrow> s \<in> set rs \<longrightarrow> target s = Some (cdName c) \<longrightarrow>
        ch = cdParent c \<and> s = [''-j'', cdName c])"

definition ready :: "chains \<Rightarrow> bool" where
  "ready v \<longleftrightarrow> (\<forall>c \<in> set chainDefs. onlyParent v c)"

text \<open>After the cleanup: no chain of the killswitch is left, and nothing refers to one.\<close>

definition unreferenced :: "chains \<Rightarrow> chainDef \<Rightarrow> bool" where
  "unreferenced v c \<longleftrightarrow> v (cdIpt c, tableFilter, cdName c) = None \<and>
     (\<exists>ps. v (cdIpt c, tableFilter, cdParent c) = Some ps) \<and>
     (\<forall>ch rs s. v (cdIpt c, tableFilter, ch) = Some rs \<longrightarrow> s \<in> set rs \<longrightarrow> target s \<noteq> Some (cdName c))"

definition cleanedChain :: "chains \<Rightarrow> chainDef \<Rightarrow> chains" where
  "cleanedChain v c = v((cdIpt c, tableFilter, cdParent c) :=
       map_option (remove1 [''-j'', cdName c]) (v (cdIpt c, tableFilter, cdParent c)),
     (cdIpt c, tableFilter, cdName c) := None)"

lemma target_jump [simp]: "target [''-j'', t] = Some t"
  by (simp add: target_def)

lemma count_list_remove1: "count_list xs x \<le> 1 \<Longrightarrow> x \<notin> set (remove1 x xs)"
  by (induction xs) (auto simp: count_list_0_iff split: if_splits)

lemma target_remove1: "s \<in> set (remove1 x xs) \<Longrightarrow> s \<in> set xs"
  by (meson notin_set_remove1)

lemma cleaned_unreferenced:
  assumes "onlyParent v c" and np: "cdName c \<noteq> cdParent c"
  shows "unreferenced (cleanedChain v c) c"
proof -
  from assms(1) obtain ps where ps: "v (cdIpt c, tableFilter, cdParent c) = Some ps"
    "count_list ps [''-j'', cdName c] \<le> 1" by (auto simp: onlyParent_def)
  have "target s \<noteq> Some (cdName c)"
    if "cleanedChain v c (cdIpt c, tableFilter, ch) = Some rs" "s \<in> set rs" for ch rs s
  proof
    assume t: "target s = Some (cdName c)"
    show False
    proof (cases "ch = cdParent c")
      case True
      with that ps(1) np have s: "s \<in> set (remove1 [''-j'', cdName c] ps)" by (simp add: cleanedChain_def)
      then have "s \<in> set ps" by (rule target_remove1)
      with t ps(1) assms(1) have "s = [''-j'', cdName c]" by (auto simp: onlyParent_def)
      with s count_list_remove1 [OF ps(2)] show False by simp
    next
      case False
      with that have "v (cdIpt c, tableFilter, ch) = Some rs" by (auto simp: cleanedChain_def split: if_splits)
      with that(2) t assms(1) False show False by (auto simp: onlyParent_def)
    qed
  qed
  with ps(1) np show ?thesis unfolding unreferenced_def by (auto simp: cleanedChain_def)
qed

lemma chainDefs_parent_inj:
  "c \<in> set chainDefs \<Longrightarrow> d \<in> set chainDefs \<Longrightarrow> c \<noteq> d \<Longrightarrow>
     (cdIpt c, cdParent c) \<noteq> (cdIpt d, cdParent d) \<and> cdName c \<noteq> cdName d \<and> cdName c \<noteq> cdParent d"
  by (auto simp: chainDefs_def names)

lemma cleaned_other:
  assumes "c \<in> set chainDefs" "d \<in> set chainDefs" "c \<noteq> d"
  shows "cleanedChain v c (cdIpt d, tableFilter, cdParent d) = v (cdIpt d, tableFilter, cdParent d)"
    "cleanedChain v c (cdIpt d, tableFilter, cdName d) = v (cdIpt d, tableFilter, cdName d)"
  using chainDefs_parent_inj [OF assms] names_neq(4) [OF assms(2,1)]
  by (auto simp: cleanedChain_def)

lemma cleaned_subset:
  assumes "cleanedChain v c (f, t, ch) = Some rs'"
  obtains rs where "v (f, t, ch) = Some rs" "set rs' \<subseteq> set rs"
  using assms that set_remove1_subset by (fastforce simp: cleanedChain_def split: if_splits)

lemma cleaned_onlyParent:
  assumes "onlyParent v d" and "c \<in> set chainDefs" "d \<in> set chainDefs" "c \<noteq> d"
  shows "onlyParent (cleanedChain v c) d"
  unfolding onlyParent_def
proof (intro conjI allI impI)
  show "\<exists>ps. cleanedChain v c (cdIpt d, tableFilter, cdParent d) = Some ps \<and> count_list ps [''-j'', cdName d] \<le> 1"
    using assms by (simp add: cleaned_other onlyParent_def)
next
  fix ch rs s
  assume *: "cleanedChain v c (cdIpt d, tableFilter, ch) = Some rs" "s \<in> set rs" "target s = Some (cdName d)"
  obtain rs0 where "v (cdIpt d, tableFilter, ch) = Some rs0" "set rs \<subseteq> set rs0"
    using *(1) by (rule cleaned_subset)
  with * assms(1) show "ch = cdParent d" "s = [''-j'', cdName d]" by (auto simp: onlyParent_def)
qed

lemma cleaned_keeps_unreferenced:
  assumes "unreferenced v d" and "c \<in> set chainDefs" "d \<in> set chainDefs" "c \<noteq> d"
  shows "unreferenced (cleanedChain v c) d"
  unfolding unreferenced_def
proof (intro conjI allI impI)
  fix ch rs s
  assume *: "cleanedChain v c (cdIpt d, tableFilter, ch) = Some rs" "s \<in> set rs"
  obtain rs0 where "v (cdIpt d, tableFilter, ch) = Some rs0" "set rs \<subseteq> set rs0"
    using *(1) by (rule cleaned_subset)
  with * assms(1) show "target s \<noteq> Some (cdName d)" by (auto simp: unreferenced_def)
qed (use assms in \<open>auto simp: cleaned_other unreferenced_def\<close>)

context netfilter_host
begin

lemma wp_cleanupChain_host:
  assumes "H (kern w)" and "onlyParent (V (kern w)) c" and "cdName c \<noteq> cdParent c"
    and "\<And>k'. H k' \<Longrightarrow> V k' = cleanedChain (V (kern w)) c \<Longrightarrow> R k' = R (kern w) \<Longrightarrow> Q (Inr ()) (w\<lparr>kern := k'\<rparr>)"
  shows "wp (cleanupChain N c) Q w"
proof -
  from assms(2) obtain ps where ps: "V (kern w) (cdIpt c, tableFilter, cdParent c) = Some ps"
    by (auto simp: onlyParent_def)
  have un: "target s \<noteq> Some (cdName c)"
    if "v = cleanedChain (V (kern w)) c" "v (cdIpt c, tableFilter, ch) = Some rs" "s \<in> set rs" for v ch rs s
    using cleaned_unreferenced [OF assms(2,3)] that unfolding unreferenced_def by blast
  have "V k' = cleanedChain (V (kern w)) c"
    if "V k' = (V k1)((cdIpt c, tableFilter, cdName c) := None)"
      "V k1 = (V (kern w))((cdIpt c, tableFilter, cdParent c) \<mapsto> remove1 [''-j'', cdName c] ps)" for k' k1
    using that ps by (simp add: cleanedChain_def)
  moreover have "target s \<noteq> Some (cdName c)"
    if k1: "V k1 = (V (kern w))((cdIpt c, tableFilter, cdParent c) \<mapsto> remove1 [''-j'', cdName c] ps)"
      "V k1 (cdIpt c, tableFilter, ch) = Some rs" "s \<in> set rs" for k1 ch rs s
  proof (cases "ch = cdName c")
    case True
    then have "V (kern w) (cdIpt c, tableFilter, ch) = Some rs" using k1 assms(3) by auto
    with True assms(2) k1(3) assms(3) show ?thesis by (auto simp: onlyParent_def)
  next
    case False
    then have "cleanedChain (V (kern w)) c (cdIpt c, tableFilter, ch) = Some rs"
      using k1 ps by (auto simp: cleanedChain_def split: if_splits)
    then show ?thesis using un k1(3) by blast
  qed
  ultimately show ?thesis unfolding cleanupChain_def wp_bindP wp_ignoreP
    by (intro wp_delete_host [OF assms(1) ps], unfold sum.case wp_ignoreP, intro wp_clear_host) (auto intro!: assms(4))
qed

end

lemma foldl_cleaned:
  assumes "distinct cs" and "set cs \<subseteq> set chainDefs" and "d \<in> set chainDefs"
    and "if d \<in> set cs then onlyParent v d else unreferenced v d"
  shows "unreferenced (foldl cleanedChain v cs) d"
  using assms
proof (induction cs arbitrary: v)
  case (Cons c cs)
  have "if d \<in> set cs then onlyParent (cleanedChain v c) d else unreferenced (cleanedChain v c) d"
  proof (cases "d = c")
    case True
    with Cons.prems show ?thesis by (auto intro: cleaned_unreferenced)
  next
    case False
    with Cons.prems show ?thesis
      by (auto intro: cleaned_onlyParent cleaned_keeps_unreferenced split: if_splits)
  qed
  then show ?case using Cons.prems by (auto intro!: Cons.IH)
qed (simp split: if_splits)

lemma distinct_chainDefs [simp]: "distinct chainDefs"
  by (simp add: chainDefs_def names)

lemma ready_cleaned: "ready v \<Longrightarrow> c \<in> set chainDefs \<Longrightarrow> unreferenced (foldl cleanedChain v chainDefs) c"
  by (rule foldl_cleaned) (simp_all add: ready_def)

text \<open>The baseline chains on a host whose chains are gone.\<close>

definition withChain :: "chains \<Rightarrow> chainDef \<Rightarrow> chains" where
  "withChain v c = v((cdIpt c, tableFilter, cdName c) \<mapsto> [estSpec, loSpec c, dropSpec],
     (cdIpt c, tableFilter, cdParent c) := map_option ((#) [''-j'', cdName c]) (v (cdIpt c, tableFilter, cdParent c)))"

context netfilter_host
begin

lemma cleanupChains_list_host:
  assumes "distinct cs" and "set cs \<subseteq> set chainDefs" and "\<forall>c \<in> set cs. onlyParent (V (kern w)) c" and "H (kern w)"
    and "\<And>k'. H k' \<Longrightarrow> V k' = foldl cleanedChain (V (kern w)) cs \<Longrightarrow> R k' = R (kern w) \<Longrightarrow> Q (Inr ()) (w\<lparr>kern := k'\<rparr>)"
  shows "wp (forP cs (cleanupChain N)) Q w"
  using assms
proof (induction cs arbitrary: w)
  case Nil
  then show ?case using Nil.prems(5) [of "kern w"] by simp
next
  case (Cons c cs)
  have "wp (cleanupChain N c) (\<lambda>r w'. r = Inr () \<and> wp (forP cs (cleanupChain N)) Q w') w"
  proof (rule wp_cleanupChain_host)
    fix k' assume k': "H k'" "V k' = cleanedChain (V (kern w)) c" "R k' = R (kern w)"
    have "wp (forP cs (cleanupChain N)) Q (w\<lparr>kern := k'\<rparr>)"
      using Cons.prems k' cleaned_onlyParent [of "V (kern w)" _ c]
      by (intro Cons.IH) (auto simp: subset_iff)
    then show "Inr () = Inr () \<and> wp (forP cs (cleanupChain N)) Q (w\<lparr>kern := k'\<rparr>)" by simp
  qed (use Cons.prems in auto)
  then show ?case by (auto elim!: wp_conseq)
qed

lemma wp_cleanupChains_host:
  assumes "ready (V (kern w))" and "H (kern w)"
    and "\<And>k'. H k' \<Longrightarrow> V k' = foldl cleanedChain (V (kern w)) chainDefs \<Longrightarrow> R k' = R (kern w) \<Longrightarrow>
      Q (Inr ()) (w\<lparr>kern := k'\<rparr>)"
  shows "wp (cleanupChains N) Q w"
  unfolding cleanupChains_def using assms by (intro cleanupChains_list_host) (auto simp: ready_def)

lemma wp_setupBaselineChain_host:
  assumes "H (kern w)" and "V (kern w) (cdIpt c, tableFilter, cdName c) = None"
    and "V (kern w) (cdIpt c, tableFilter, cdParent c) = Some ps" and "c \<in> set chainDefs"
    and "\<And>k'. H k' \<Longrightarrow> V k' = withChain (V (kern w)) c \<Longrightarrow> R k' = R (kern w) \<Longrightarrow> Q (Inr ()) (w\<lparr>kern := k'\<rparr>)"
  shows "wp (setupBaselineChain N c) Q w"
  using assms(1-4) unfolding setupBaselineChain_def
  by (auto simp: names_neq(1) loSpec_def withChain_def intro!: wp_new_host wp_append_host' wp_insert_host' assms(5))

lemma setupBaselineChains_list_host:
  assumes "distinct cs" and "set cs \<subseteq> set chainDefs" and "H (kern w)"
    and "\<forall>c \<in> set cs. V (kern w) (cdIpt c, tableFilter, cdName c) = None \<and>
      V (kern w) (cdIpt c, tableFilter, cdParent c) \<noteq> None"
    and "\<And>k'. H k' \<Longrightarrow> V k' = foldl withChain (V (kern w)) cs \<Longrightarrow> R k' = R (kern w) \<Longrightarrow> Q (Inr ()) (w\<lparr>kern := k'\<rparr>)"
  shows "wp (forP cs (setupBaselineChain N)) Q w"
  using assms
proof (induction cs arbitrary: w)
  case Nil
  then show ?case using Nil.prems(5) [of "kern w"] by simp
next
  case (Cons c cs)
  from Cons.prems(4) obtain ps where ps: "V (kern w) (cdIpt c, tableFilter, cdParent c) = Some ps" by auto
  have "wp (setupBaselineChain N c) (\<lambda>r w'. r = Inr () \<and> wp (forP cs (setupBaselineChain N)) Q w') w"
  proof (rule wp_setupBaselineChain_host [OF _ _ ps])
    fix k' assume k': "H k'" "V k' = withChain (V (kern w)) c" "R k' = R (kern w)"
    have "V k' (cdIpt d, tableFilter, cdName d) = None \<and> V k' (cdIpt d, tableFilter, cdParent d) \<noteq> None"
      if "d \<in> set cs" for d
    proof -
      from that Cons.prems(1,2) have d: "d \<in> set chainDefs" "c \<in> set chainDefs" "c \<noteq> d" by auto
      have "V (kern w) (cdIpt d, tableFilter, cdName d) = None" "V (kern w) (cdIpt d, tableFilter, cdParent d) \<noteq> None"
        using Cons.prems(4) that by auto
      then show ?thesis
        using chainDefs_parent_inj [OF d(2,1,3)] names_neq(4) [OF d(1,2)] k'(2)
        by (auto simp: withChain_def)
    qed
    with Cons.prems k' have "wp (forP cs (setupBaselineChain N)) Q (w\<lparr>kern := k'\<rparr>)"
      by (intro Cons.IH) auto
    then show "Inr () = Inr () \<and> wp (forP cs (setupBaselineChain N)) Q (w\<lparr>kern := k'\<rparr>)" by simp
  qed (use Cons.prems in auto)
  then show ?case by (auto elim!: wp_conseq)
qed

text \<open>From a ready host the baseline stands after the two loops.\<close>

lemma setupBaselineChains_host:
  assumes "ready (V (kern w))" and "H (kern w)"
  shows "wp (setupBaselineChains N) (\<lambda>r w'. r = Inr () \<and> H (kern w') \<and> R (kern w') = R (kern w) \<and>
    V (kern w') = foldl withChain (foldl cleanedChain (V (kern w)) chainDefs) chainDefs) w"
  unfolding setupBaselineChains_def wp_bindP
  by (rule wp_cleanupChains_host [OF assms], unfold sum.case, rule setupBaselineChains_list_host)
    (use ready_cleaned [OF assms(1)] in \<open>auto simp: unreferenced_def\<close>)

end

section \<open>The later steps of a setup on a healthy host\<close>

lemma wp_andP_true:
  assumes "wp a (\<lambda>r w'. r = Inr True \<and> I w') w" and "\<And>w. I w \<Longrightarrow> wp b (\<lambda>r w'. r = Inr True \<and> I w') w"
  shows "wp (andP a b) (\<lambda>r w'. r = Inr True \<and> I w') w"
  unfolding andP_def wp_bindP by (rule wp_conseq [OF assms(1)]) (auto intro: assms(2))

context netfilter_host
begin

definition HB :: "(string \<Rightarrow> spec list) \<Rightarrow> ('k, 'm) net_scheme \<Rightarrow> bool" where
  "HB B w \<longleftrightarrow> H (kern w) \<and> LD B w \<and> (\<forall>c \<in> set chainDefs. 2 \<le> length (B (cdName c)))"

definition HU :: "('k, 'm) net_scheme \<Rightarrow> bool" where
  "HU w \<longleftrightarrow> (\<exists>B. HB B w)"

lemma HB_frame: "HB B w \<Longrightarrow> H (kern w') \<Longrightarrow> V (kern w') = V (kern w) \<Longrightarrow> HB B w'"
  by (simp add: HB_def)

lemma HU_frame: "HU w \<Longrightarrow> H (kern w') \<Longrightarrow> V (kern w') = V (kern w) \<Longrightarrow> HU w'"
  unfolding HU_def by (blast intro: HB_frame)

lemma HU_upd:
  assumes "HB B w" and "c \<in> set chainDefs" and "H k'"
    and "V k' = (V (kern w))((cdIpt c, tableFilter, cdName c) \<mapsto> xs @ [dropSpec])" and "2 \<le> length xs"
  shows "HU (w\<lparr>kern := k'\<rparr>)"
  using assms laid_update [of "V (kern w)" B c xs]
  unfolding HU_def HB_def by (intro exI [of _ "B(cdName c := xs)"]) auto

lemma succeeds_insert:
  assumes "c \<in> set chainDefs" and "1 \<le> n" and "n \<le> 3"
  shows "succeeds HU (runK (nInsert N (cdIpt c) tableFilter (cdName c) n s))"
proof (rule succeedsI)
  fix w :: "('k, 'b) net_scheme" assume "HU w"
  then obtain B where B: "HB B w" by (auto simp: HU_def)
  then have v: "V (kern w) (cdIpt c, tableFilter, cdName c) = Some (B (cdName c) @ [dropSpec])"
    and l: "2 \<le> length (B (cdName c))"
    using assms(1) by (auto simp: HB_def laid_def)
  have e: "take (n - 1) (B (cdName c) @ [dropSpec]) @ s # drop (n - 1) (B (cdName c) @ [dropSpec]) =
      (take (n - 1) (B (cdName c)) @ s # drop (n - 1) (B (cdName c))) @ [dropSpec]"
    using l assms(3) by simp
  show "wp (runK (nInsert N (cdIpt c) tableFilter (cdName c) n s)) (\<lambda>r w'. (\<exists>x. r = Inr x) \<and> HU w') w"
    by (rule wp_insert_host [OF _ v assms(2)])
      (use B l assms e in \<open>auto simp: HB_def intro!: HU_upd [OF B assms(1)]\<close>)
qed

lemma succeeds_insertBeforeDrop:
  assumes "c \<in> set chainDefs"
  shows "succeeds HU (insertBeforeDrop N (cdIpt c) (cdName c) s)"
proof (rule succeedsI)
  fix w :: "('k, 'b) net_scheme" assume "HU w"
  then obtain B where B: "HB B w" by (auto simp: HU_def)
  then have v: "V (kern w) (cdIpt c, tableFilter, cdName c) = Some (B (cdName c) @ [dropSpec])"
    and l: "2 \<le> length (B (cdName c))" and H: "H (kern w)"
    using assms(1) by (auto simp: HB_def laid_def)
  have "wp (runK (nInsert N (cdIpt c) tableFilter (cdName c) (Suc (length (B (cdName c)))) s))
      (\<lambda>r w'. (\<exists>x. r = Inr x) \<and> HU w') (w\<lparr>kern := k'\<rparr>)"
    if "H k'" "V k' = V (kern w)" for k'
    by (rule wp_insert_host [of _ "cdIpt c" tableFilter "cdName c" "B (cdName c) @ [dropSpec]"])
      (use that v l in \<open>auto intro!: HU_upd [OF B assms(1), of _ "B (cdName c) @ [s]"]\<close>)
  then show "wp (insertBeforeDrop N (cdIpt c) (cdName c) s) (\<lambda>r w'. (\<exists>x. r = Inr x) \<and> HU w') w"
    unfolding insertBeforeDrop_def ruleCount_def Let_def wp_bindP wp_wrapErr
    by (intro wp_list_host [OF H v])
      (auto simp: HasPrefix_def [of _ "''-A ''"] count_rule_lines [unfolded HasPrefix_def]
        list_all2_lengthD [symmetric])
qed

lemma succeeds_in: "succeeds HU (insertBeforeDrop N IPv4 ChainIn s)"
  using succeeds_insertBeforeDrop [of inDef s] by simp

lemma succeeds_out: "succeeds HU (insertBeforeDrop N IPv4 ChainOut s)"
  using succeeds_insertBeforeDrop [of outDef s] by simp

lemma succeeds_in6: "succeeds HU (insertBeforeDrop N IPv6 chainIn6 s)"
  using succeeds_insertBeforeDrop [of "chainDefs ! 2" s] by (simp add: chainDefs_def)

lemma succeeds_out6: "succeeds HU (insertBeforeDrop N IPv6 chainOut6 s)"
  using succeeds_insertBeforeDrop [of out6Def s] by simp

lemma succeeds_setupLocalRules: "succeeds HU (setupLocalRules N v4 v6)"
  unfolding setupLocalRules_def
  by (intro succeeds_bindP succeeds_forP succeeds_wrapErr succeeds_in succeeds_out succeeds_in6 succeeds_out6)

lemma succeeds_setupLocalRoutes: "distinct v4 \<Longrightarrow> distinct v6 \<Longrightarrow> succeeds HU (setupLocalRoutes N v4 v6)"
proof (rule succeedsI)
  fix w :: "('k, 'b) net_scheme" assume d: "distinct v4" "distinct v6" and w: "HU w"
  from w have "H (kern w)" by (auto simp: HU_def HB_def)
  then show "wp (setupLocalRoutes N v4 v6) (\<lambda>r w'. (\<exists>x. r = Inr x) \<and> HU w') w"
    by (rule wp_conseq [OF setupLocalRoutes_host]) (use d w in \<open>auto intro: HU_frame\<close>)
qed

lemma succeeds_setupBypass: "succeeds HU (setupBypass N)"
proof -
  have "succeeds HU (setupBypassRoutes N)"
  proof (rule succeedsI)
    fix w :: "('k, 'b) net_scheme" assume w: "HU w"
    then have "H (kern w)" by (auto simp: HU_def HB_def)
    then show "wp (setupBypassRoutes N) (\<lambda>r w'. (\<exists>x. r = Inr x) \<and> HU w') w"
      by (rule wp_conseq [OF setupBypassRoutes_host]) (use w in \<open>auto intro: HU_frame\<close>)
  qed
  then show ?thesis unfolding setupBypass_def insertBypassRules_def
    by (intro succeeds_bindP succeeds_forP succeeds_wrapErr succeeds_out)
qed

lemma succeeds_addVPN: "succeeds HU (addVPN N ipv6)"
proof -
  have "succeeds HU (runK (nInsert N IPv4 tableFilter ChainOut vpnInsertPos s))"
    "succeeds HU (runK (nInsert N IPv6 tableFilter chainOut6 vpnInsertPos s))" for s
    using succeeds_insert [of outDef 3 s] succeeds_insert [of out6Def 3 s] by (simp_all add: vpnInsertPos_def)
  then show ?thesis unfolding addVPN_def by (auto intro!: succeeds_bindP succeeds_wrapErr)
qed

lemma keeps_HU:
  fixes m :: "(('k, 'z) net_scheme, 'a) prog"
  assumes "\<And>B. keeps (LD B) m" and "keeps (\<lambda>w. H (kern w)) m"
  shows "keeps HU m"
proof (rule keepsI)
  fix w :: "('k, 'z) net_scheme" assume "HU w"
  then obtain B where B: "H (kern w)" "LD B w" "\<forall>c \<in> set chainDefs. 2 \<le> length (B (cdName c))"
    by (auto simp: HU_def HB_def)
  from keepsD [OF assms(1) B(2)] keepsD [OF assms(2) B(1)] B(3)
  show "wp m (\<lambda>_. HU) w" by (auto simp: wp_iff HU_def HB_def)
qed

lemma keeps_HU_mangle:
  "keeps HU (runK (nDelete N f tableMangle c s))" "keeps HU (runK (nAppend N f tableMangle c s))"
  by (rule keeps_HU, rule keeps_laid_mangle, rule keepsI, rule wp_any_host; simp)+

lemma succeeds_mss: "succeeds HU (setupMSSClamping N ipv6)"
  unfolding setupMSSClamping_def cleanupMSSClamping_def
  by (auto intro!: succeeds_bindP succeeds_ignoreP succeeds_forP keeps_HU_mangle)

text \<open>Resolving the local networks cannot fail.\<close>

lemma succeeds_resolve: "succeeds HU (resolveLocalNetworks N input)"
proof -
  have "keeps HU (outK (nOutput N [''ip'', x, ''route'', ''show'', y, z]))" for x y z
    by (rule keepsI, rule wp_show_host) (auto simp: HU_def HB_def)
  then show ?thesis unfolding resolveLocalNetworks_def detectKernelSubnets_def
    by (auto intro!: succeeds_bindP succeeds_tryP)
qed

subsection \<open>Verification\<close>

lemma line_target:
  assumes "list_all2 (is_rule_line c) rs lines" and "s \<in> set rs" and "target s = Some t"
  shows "\<exists>l \<in> set lines. suffix ('' -j '' @ t) l"
  using assms by (force simp: list_all2_conv_all_nth in_set_conv_nth is_rule_line_def)

lemma checkChainsPresent_host:
  fixes w :: "('k, 'z) net_scheme"
  assumes "HU w"
  shows "wp (checkChainsPresent N) (\<lambda>r w'. r = Inr True \<and> HU w') w"
proof -
  have drop: "wp (chainHasDrop N (cdIpt c) (cdName c)) (\<lambda>r w'. r = Inr True \<and> HU w') w"
    if "HU w" "c \<in> set chainDefs" for c and w :: "('k, 'z) net_scheme"
  proof -
    from that obtain B where B: "H (kern w)" "V (kern w) (cdIpt c, tableFilter, cdName c) = Some (B (cdName c) @ [dropSpec])"
      by (auto simp: HU_def HB_def laid_def)
    show ?thesis unfolding chainHasDrop_def wp_bindP wp_tryP
    proof (rule wp_list_host [OF B], simp)
      fix k' hdr lines
      assume l: "list_all2 (is_rule_line (cdName c)) (B (cdName c) @ [dropSpec]) lines" and k': "H k'" "V k' = V (kern w)"
      obtain x where "x \<in> set lines" "suffix '' -j DROP'' x"
        using line_target [OF l, of dropSpec "''DROP''"] by auto
      then have "list_ex (\<lambda>rule. HasSuffix rule ''-j DROP'') (hdr # lines)"
        by (auto simp: list_ex_iff HasSuffix_def dest: suffix_ConsD)
      then show "(HasSuffix hdr ''-j DROP'' \<or> list_ex (\<lambda>rule. HasSuffix rule ''-j DROP'') lines) \<and> HU (w\<lparr>kern := k'\<rparr>)"
        using k' that(1) by (auto intro: HU_frame)
    qed
  qed
  have parent: "wp (chainIsInParent N (cdIpt c) (cdParent c) (cdName c)) (\<lambda>r w'. r = Inr True \<and> HU w') w"
    if "HU w" "c \<in> set chainDefs" for c and w :: "('k, 'z) net_scheme"
  proof -
    from that obtain ps where B: "H (kern w)" "V (kern w) (cdIpt c, tableFilter, cdParent c) = Some ([''-j'', cdName c] # ps)"
      by (auto simp: HU_def HB_def laid_def)
    show ?thesis unfolding chainIsInParent_def wp_bindP wp_tryP
    proof (rule wp_list_host [OF B], simp only: sum.case wp_ret)
      fix k' hdr lines
      assume l: "list_all2 (is_rule_line (cdParent c)) ([''-j'', cdName c] # ps) lines" and k': "H k'" "V k' = V (kern w)"
      obtain x where "x \<in> set lines" "suffix ('' -j '' @ cdName c) x"
        using line_target [OF l, of "[''-j'', cdName c]" "cdName c"] by auto
      then have "list_ex (\<lambda>rule. Contains rule (''-j '' @ cdName c)) (hdr # lines)"
        using suffix_ConsD [of "CHR '' ''" "''-j '' @ cdName c" x]
        by (auto simp: list_ex_iff Contains_def dest!: suffix_imp_sublist)
      then have "list_ex (\<lambda>rule. Contains rule (''-j '' @ cdName c)) (hdr # lines) = True" by simp
      moreover have "HU (w\<lparr>kern := k'\<rparr>)" using k' that(1) by (auto intro: HU_frame)
      ultimately show "Inr (list_ex (\<lambda>rule. Contains rule (''-j '' @ cdName c)) (hdr # lines)) = Inr True \<and> HU (w\<lparr>kern := k'\<rparr>)"
        by (simp only: simp_thms)
    qed
  qed
  show ?thesis unfolding checkChainsPresent_def
    by (intro wp_andP_true drop [of _ inDef, simplified] parent [of _ inDef, simplified]
        drop [of _ outDef, simplified] parent [of _ outDef, simplified]
        drop [of _ in6Def, simplified] parent [of _ in6Def, simplified]
        drop [of _ out6Def, simplified] parent [of _ out6Def, simplified] assms)
qed

lemma succeeds_verify: "succeeds HU (verifyKillswitch N)"
  by (rule succeedsI, rule wp_conseq [of _ "\<lambda>r w'. r = Inr () \<and> HU w'"])
    (auto simp: verifyKillswitch_def eval_nat_numeral intro!: wp_conseq [OF checkChainsPresent_host])

text \<open>
  On a ready host a setup succeeds exactly when the local networks are not to be opened or no
  network is listed twice.
\<close>

lemma succeeds_setupTail: "succeeds HU (setupTail N ipv6)"
proof -
  have "succeeds HU (modifyP (active_update (\<lambda>_. True)))"
    by (rule succeedsI) (auto simp: HU_def HB_def)
  then show ?thesis unfolding setupTail_def
    by (auto intro!: succeeds_bindP succeeds_wrapErr succeeds_addVPN succeeds_setupBypass succeeds_in6 succeeds_out6
      succeeds_mss succeeds_verify)
qed

text \<open>
  On a ready host a setup fails for one reason: a local network is listed twice.
\<close>

lemma Setup_host:
  fixes w :: "('k, 'z) fw_scheme"
  assumes "ready (V (kern w))" and "H (kern w)" and "plannedLans N cfg w = Some (Inr (v4, v6), w0)"
  shows "wp (Setup N cfg) (\<lambda>r w'. (r = Inr () \<longleftrightarrow> distinct v4 \<and> distinct v6)) w"
proof -
  from setupBaselineChains_host [OF assms(1,2)] obtain w1 where
    w1: "setupBaselineChains N w = Some (Inr (), w1)" "H (kern w1)" by (auto simp: wp_iff)
  have "LD baseBody w1" using wpSD [OF wpS_baseline w1(1)] .
  then have hu: "HU w1" using w1(2) by (auto simp: HU_def HB_def baseBody_def)
  let ?lans = "if \<not> Contains (kcLANs cfg) ''none''
     then bindP (wrapErr ''failed to setup local networks'' (setupLocalNetworks N (kcLANs cfg))) (\<lambda>_. ret ())
     else ret ()"
  have run: "wp (Setup N cfg) Q w = wp (bindP ?lans (\<lambda>_. setupTail N (kcIPv6Enabled cfg))) Q w1" for Q
    using w1(1) by (simp add: Setup_def wp_def bindP_def)
  have dist: "r = Inr () \<Longrightarrow> distinct v4 \<and> distinct v6" if "Setup N cfg w = Some (r, w')" for r w'
    using wpSD [OF wpS_Setup, of cfg w "()" w'] that assms(3) by auto
  have ok: "wp (Setup N cfg) (\<lambda>r w'. (distinct v4 \<and> distinct v6 \<longrightarrow> r = Inr ())) w"
  proof (cases "distinct v4 \<and> distinct v6")
    case True
    have "wp ?lans (\<lambda>r w'. r = Inr () \<and> HU w') w1"
    proof (cases "Contains (kcLANs cfg) ''none''")
      case True
      then show ?thesis using hu by simp
    next
      case False
      then have res: "resolveLocalNetworks N (kcLANs cfg) w1 = Some (Inr (v4, v6), w0)"
        using assms(3) w1(1) by (simp add: plannedLans_def bindP_def)
      have "HU w0" using succeedsD [OF succeeds_resolve [of "kcLANs cfg"] hu] res by auto
      have "wp (setupLocalNetworks N (kcLANs cfg)) Q w1 =
          wp (bindP (wrapErr ''failed to setup routes'' (setupLocalRoutes N v4 v6)) (\<lambda>_.
            bindP (wrapErr ''failed to setup input chain'' (setupLocalRules N v4 v6)) (\<lambda>_.
            ret (formatNetworks v4 v6)))) Q w0" for Q
        using res by (simp add: setupLocalNetworks_def wp_def bindP_def)
      with False show ?thesis
        by (simp del: wp_bindP, simp)
          (use True \<open>HU w0\<close> in \<open>auto intro!: wp_succeeds [OF succeeds_setupLocalRoutes] wp_succeeds [OF succeeds_setupLocalRules]\<close>)
    qed
    then show ?thesis unfolding run wp_bindP
      by (rule wp_conseq) (auto intro: wp_succeeds [OF succeeds_setupTail])
  next
    case False
    have "\<exists>r w'. Setup N cfg w = Some (r, w')" by (rule wpS_returns [OF wpS_Setup])
    with False show ?thesis by (auto simp: wp_iff)
  qed
  then show ?thesis using dist by (auto simp: wp_iff)
qed

end

section \<open>Cleanup\<close>

text \<open>The chain of exemptions is cleaned up like the four others, its parent being \<^verbatim>\<open>VPN_OUT\<close>.\<close>

definition exemptDef :: chainDef where
  "exemptDef = \<lparr>cdName = chainExempt, cdParent = ChainOut, cdIpt = IPv4, cdLoFlag = ''-o''\<rparr>"

lemma exemptDef_sels [simp]:
  "cdName exemptDef = chainExempt" "cdParent exemptDef = ChainOut" "cdIpt exemptDef = IPv4"
  by (simp_all add: exemptDef_def)

lemma RemoveExemptions_cleanup: "RemoveExemptions N = cleanupChain N exemptDef"
  by (simp add: RemoveExemptions_def cleanupChain_def)

lemma cleaned_exempt_onlyParent:
  assumes "onlyParent v d" and "d \<in> set chainDefs"
  shows "onlyParent (cleanedChain v exemptDef) d"
  unfolding onlyParent_def
proof (intro conjI allI impI)
  have "cdParent d \<noteq> ChainOut" "cdParent d \<noteq> chainExempt" using assms(2) by (auto simp: chainDefs_def names)
  then show "\<exists>ps. cleanedChain v exemptDef (cdIpt d, tableFilter, cdParent d) = Some ps \<and> count_list ps [''-j'', cdName d] \<le> 1"
    using assms(1) by (simp add: cleanedChain_def onlyParent_def)
next
  fix ch rs s
  assume *: "cleanedChain v exemptDef (cdIpt d, tableFilter, ch) = Some rs" "s \<in> set rs" "target s = Some (cdName d)"
  obtain rs0 where "v (cdIpt d, tableFilter, ch) = Some rs0" "set rs \<subseteq> set rs0"
    using *(1) by (rule cleaned_subset)
  with * assms(1) show "ch = cdParent d" "s = [''-j'', cdName d]" by (auto simp: onlyParent_def)
qed

lemma onlyParent_filter:
  "(\<And>f c. v' (f, tableFilter, c) = v (f, tableFilter, c)) \<Longrightarrow> onlyParent v c \<Longrightarrow> onlyParent v' c"
  by (simp add: onlyParent_def)

lemma foldl_cleaned_other:
  "(\<And>c. c \<in> set cs \<Longrightarrow> (f, t, ch) \<noteq> (cdIpt c, tableFilter, cdName c) \<and> (f, t, ch) \<noteq> (cdIpt c, tableFilter, cdParent c)) \<Longrightarrow>
     foldl cleanedChain v cs (f, t, ch) = v (f, t, ch)"
proof (induction cs arbitrary: v)
  case (Cons c cs)
  then show ?case using Cons.prems [of c] by (auto simp: cleanedChain_def)
qed simp

context netfilter_host
begin

lemma wp_cleanupMSS_host:
  assumes "H (kern w)"
    and "\<And>k'. H k' \<Longrightarrow> (\<And>f c. V k' (f, tableFilter, c) = V (kern w) (f, tableFilter, c)) \<Longrightarrow> R k' = R (kern w) \<Longrightarrow>
      Q (Inr ()) (w\<lparr>kern := k'\<rparr>)"
  shows "wp (cleanupMSSClamping N) Q w"
proof -
  let ?I = "\<lambda>w'. \<exists>k'. w' = w\<lparr>kern := k'\<rparr> \<and> H k' \<and> (\<forall>f c. V k' (f, tableFilter, c) = V (kern w) (f, tableFilter, c)) \<and> R k' = R (kern w)"
  have "keeps ?I (runK (nDelete N f tableMangle c s))" for f c s
  proof (rule keepsI)
    fix w1 assume "?I w1"
    then obtain k1 where 1: "w1 = w\<lparr>kern := k1\<rparr>" "H k1" "\<forall>f c. V k1 (f, tableFilter, c) = V (kern w) (f, tableFilter, c)"
      "R k1 = R (kern w)" by blast
    have "H k'" if "nDelete N f tableMangle c s k1 = (x, k')" for x k'
      using delete_succ [OF 1(2) that] by simp
    then show "wp (runK (nDelete N f tableMangle c s)) (\<lambda>_. ?I) w1"
      using 1 by (intro wp_runK) (auto dest!: delete_ok delete_err simp: names)
  qed
  then have "succeeds ?I (cleanupMSSClamping N)"
    unfolding cleanupMSSClamping_def by (intro succeeds_forP, clarify) (rule succeeds_ignoreP)
  then show ?thesis
    by (rule wp_succeeds) (use assms in \<open>auto intro!: exI [of _ "kern w"]\<close>)
qed

text \<open>
  A cleanup on a healthy host: the killswitch is inactive, its five chains are gone, nothing
  refers to them, and every policy rule of its priorities is gone while the others stay.
\<close>

lemma Cleanup_host:
  fixes w :: "('k, 'z) fw_scheme"
  assumes "ready (V (kern w))" and "onlyParent (V (kern w)) exemptDef" and "H (kern w)"
  shows "wp (Cleanup N) (\<lambda>r w'. r = Inr () \<and> \<not> active w' \<and> H (kern w') \<and>
    (\<forall>c \<in> set chainDefs. unreferenced (V (kern w')) c) \<and>
    V (kern w') (IPv4, tableFilter, chainExempt) = None \<and>
    R (kern w') = (\<lambda>f. filter_mset (\<lambda>x. fst x \<notin> (case f of IPv4 \<Rightarrow> {50, 75, 76, 100} | IPv6 \<Rightarrow> {100})) (R (kern w) f))) w"
proof -
  let ?R = "\<lambda>f. filter_mset (\<lambda>x. fst x \<notin> (case f of IPv4 \<Rightarrow> {50, 75, 76, 100} | IPv6 \<Rightarrow> {100})) (R (kern w) f)"
  have last: "wp (cleanupChains N) (\<lambda>r w'. r = Inr () \<and> \<not> active w' \<and> H (kern w') \<and>
      (\<forall>c \<in> set chainDefs. unreferenced (V (kern w')) c) \<and> V (kern w') (IPv4, tableFilter, chainExempt) = None \<and> R (kern w') = ?R) w1"
    if w1: "\<not> active w1" "H (kern w1)" "V (kern w1) = cleanedChain v exemptDef" "R (kern w1) = ?R"
      and v: "\<And>f c. v (f, tableFilter, c) = V (kern w) (f, tableFilter, c)" for v and w1 :: "('k, 'z) fw_scheme"
  proof (rule wp_cleanupChains_host)
    have r: "onlyParent v c" if "c \<in> set chainDefs" for c
      using assms(1) that v by (auto simp: ready_def intro: onlyParent_filter)
    then show rd: "ready (V (kern w1))"
      unfolding w1(3) ready_def by (blast intro: cleaned_exempt_onlyParent)
    fix k' assume k': "H k'" "V k' = foldl cleanedChain (V (kern w1)) chainDefs" "R k' = R (kern w1)"
    have "V k' (IPv4, tableFilter, chainExempt) = V (kern w1) (IPv4, tableFilter, chainExempt)"
      unfolding k'(2) by (rule foldl_cleaned_other) (auto simp: chainDefs_def names)
    then have "V k' (IPv4, tableFilter, chainExempt) = None"
      by (simp add: w1(3) cleanedChain_def)
    then show "Inr () = Inr () \<and> \<not> active (w1\<lparr>kern := k'\<rparr>) \<and> H (kern (w1\<lparr>kern := k'\<rparr>)) \<and>
        (\<forall>c \<in> set chainDefs. unreferenced (V (kern (w1\<lparr>kern := k'\<rparr>))) c) \<and>
        V (kern (w1\<lparr>kern := k'\<rparr>)) (IPv4, tableFilter, chainExempt) = None \<and> R (kern (w1\<lparr>kern := k'\<rparr>)) = ?R"
      using k' w1 ready_cleaned [OF rd] by simp
  qed (use w1 in simp)
  have mss: "wp (cleanupBypassRoutes N) (\<lambda>r w1. r = Inr () \<and> wp (RemoveExemptions N) (\<lambda>r w1. r = Inr () \<and> wp (cleanupChains N)
      (\<lambda>r w'. r = Inr () \<and> \<not> active w' \<and> H (kern w') \<and>
      (\<forall>c \<in> set chainDefs. unreferenced (V (kern w')) c) \<and> V (kern w') (IPv4, tableFilter, chainExempt) = None \<and> R (kern w') = ?R) w1) w1) w1"
    if w1: "\<not> active w1" "H (kern w1)" "R (kern w1) = (\<lambda>f. filter_mset (\<lambda>x. fst x \<noteq> 100) (((R (kern w))(IPv4 :=
        filter_mset (\<lambda>x. fst x \<noteq> 75 \<and> fst x \<noteq> 76) (R (kern w) IPv4))) f))"
      and v: "\<And>f c. V (kern w1) (f, tableFilter, c) = V (kern w) (f, tableFilter, c)" for w1 :: "('k, 'z) fw_scheme"
  proof (rule wp_cleanupBypassRoutes_host [OF w1(2)], rule conjI [OF refl], unfold RemoveExemptions_cleanup,
      rule wp_cleanupChain_host, simp, simp add: onlyParent_filter [OF v assms(2)], simp add: names, rule conjI [OF refl])
    fix k1 k2
    assume k1: "R k1 = (R (kern w1))(IPv4 := filter_mset (\<lambda>x. fst x \<noteq> 50) (R (kern w1) IPv4))" "V k1 = V (kern w1)"
      and k2: "H k2" "V k2 = cleanedChain (V (kern (w1\<lparr>kern := k1\<rparr>))) exemptDef" "R k2 = R (kern (w1\<lparr>kern := k1\<rparr>))"
    have "R k2 = ?R"
      using k1(1) k2(3) w1(3) by (auto simp: fun_eq_iff filter_filter_mset conj_commute split: family.splits intro!: filter_mset_cong)
    moreover have c: "V (kern (w1\<lparr>kern := k1\<rparr>\<lparr>kern := k2\<rparr>)) = cleanedChain (V (kern w1)) exemptDef"
      using k1(2) k2(2) by simp
    ultimately show "wp (cleanupChains N) (\<lambda>r w'. r = Inr () \<and> \<not> active w' \<and> H (kern w') \<and>
      (\<forall>c \<in> set chainDefs. unreferenced (V (kern w')) c) \<and> V (kern w') (IPv4, tableFilter, chainExempt) = None \<and> R (kern w') = ?R)
      (w1\<lparr>kern := k1\<rparr>\<lparr>kern := k2\<rparr>)"
      by (intro last [OF _ _ c]) (use w1 k2 v in simp_all)
  qed
  show ?thesis unfolding Cleanup_def wp_bindP wp_modifyP sum.case
    apply (rule wp_RemovePIARoutes_host, simp add: assms(3))
    apply (unfold sum.case wp_bindP, rule wp_cleanupLocalRoutes_host, simp)
    apply (unfold sum.case wp_bindP, rule wp_cleanupMSS_host, simp)
    apply (unfold sum.case wp_bindP, rule wp_conseq [OF mss])
    by (auto elim!: wp_conseq)
qed

end

section \<open>Exemptions and forwarded ports\<close>

text \<open>\<open>unused v t\<close>: no rule of the IPv4 filter table jumps to \<open>t\<close>.\<close>

definition unused :: "chains \<Rightarrow> string \<Rightarrow> bool" where
  "unused v t \<longleftrightarrow> (\<forall>ch rs s. v (IPv4, tableFilter, ch) = Some rs \<longrightarrow> s \<in> set rs \<longrightarrow> target s \<noteq> Some t)"

abbreviation specOf :: "exemption \<Rightarrow> spec" where
  "specOf s \<equiv> exemptSpec (exIP s) (exPort s) (exProto s)"

lemma target_exemptSpec [simp]: "target (exemptSpec ip port proto) = Some ''ACCEPT''"
  by (simp add: exemptSpec_def target_def)

text \<open>A forwarded port replaces the one before it.\<close>

definition withoutPort :: "int \<Rightarrow> spec list \<Rightarrow> spec list" where
  "withoutPort p rs = (if p = 0 then rs else remove1 (portSpec ''udp'' p) (remove1 (portSpec ''tcp'' p) rs))"

definition withExempt :: "chains \<Rightarrow> spec list \<Rightarrow> spec list \<Rightarrow> chains" where
  "withExempt v rs es = v((IPv4, tableFilter, chainExempt) \<mapsto> es, (IPv4, tableFilter, ChainOut) \<mapsto> [''-j'', chainExempt] # rs)"

context netfilter
begin

text \<open>While a chain of exemptions exists no exemption can be added.\<close>

lemma exemptions_blocked:
  assumes "V (kern w) (IPv4, tableFilter, chainExempt) \<noteq> None"
  shows "wp (AddExemption N ip port proto comment) (\<lambda>r w'. r \<noteq> Inr () \<and> V (kern w') = V (kern w)) w"
    and "wp (AddExemptions N specs) (\<lambda>r w'. r \<noteq> Inr () \<and> V (kern w') = V (kern w)) w"
  unfolding AddExemption_def AddExemptions_def createExemptChain_def wp_bindP wp_wrapErr
  by (rule wp_new; use assms in simp)+

end

context netfilter_host
begin

lemma exempt_appends_host:
  assumes "H (kern w)" and "V (kern w) = withExempt v rs es"
    and "\<And>k'. H k' \<Longrightarrow> V k' = withExempt v rs (es @ map specOf specs) \<Longrightarrow> R k' = R (kern w) \<Longrightarrow> Q (Inr ()) (w\<lparr>kern := k'\<rparr>)"
  shows "wp (forP specs (\<lambda>s. ignoreP (runK (nAppend N IPv4 tableFilter chainExempt (specOf s))))) Q w"
  using assms
proof (induction specs arbitrary: w es)
  case Nil
  then show ?case using Nil.prems(3) [of "kern w"] by simp
next
  case (Cons s specs)
  have n: "chainExempt \<noteq> ChainOut" by (simp add: names)
  show ?case
  proof (simp, rule wp_append_host [OF Cons.prems(1)], simp add: Cons.prems(2) withExempt_def n)
    fix k' assume k': "H k'" "V k' = (V (kern w))((IPv4, tableFilter, chainExempt) \<mapsto> es @ [specOf s])" "R k' = R (kern w)"
    show "wp (forP specs (\<lambda>s. ignoreP (runK (nAppend N IPv4 tableFilter chainExempt (specOf s))))) Q (w\<lparr>kern := k'\<rparr>)"
    proof (rule Cons.IH)
      show "V (kern (w\<lparr>kern := k'\<rparr>)) = withExempt v rs (es @ [specOf s])"
        using k' Cons.prems(2) n by (auto simp: withExempt_def fun_eq_iff)
    qed (use k' Cons.prems(3) in auto)
  qed
qed

lemma AddExemptions_host:
  assumes "H (kern w)" and "V (kern w) (IPv4, tableFilter, chainExempt) = None"
    and "V (kern w) (IPv4, tableFilter, ChainOut) = Some rs"
    and "\<And>k'. H k' \<Longrightarrow> V k' = withExempt (V (kern w)) rs (map specOf specs) \<Longrightarrow> R k' = R (kern w) \<Longrightarrow> Q (Inr ()) (w\<lparr>kern := k'\<rparr>)"
  shows "wp (AddExemptions N specs) Q w"
proof -
  have n: "chainExempt \<noteq> ChainOut" by (simp add: names)
  have "wp (createExemptChain N) (\<lambda>r w1. r = Inr () \<and> wp (forP specs (\<lambda>s. ignoreP
       (runK (nAppend N IPv4 tableFilter chainExempt (specOf s))))) Q w1) w"
    unfolding createExemptChain_def wp_bindP wp_wrapErr
  proof (rule wp_new_host [OF assms(1,2)], unfold sum.case wp_ignoreP, rule wp_insert_host)
    fix k1 k2
    assume 1: "V k1 = (V (kern w))((IPv4, tableFilter, chainExempt) \<mapsto> [])" "R k1 = R (kern w)"
      and 2: "H k2" "V k2 = (V (kern (w\<lparr>kern := k1\<rparr>)))((IPv4, tableFilter, ChainOut) \<mapsto> take (1 - 1) rs @ [''-j'', chainExempt] # drop (1 - 1) rs)"
        "R k2 = R (kern (w\<lparr>kern := k1\<rparr>))"
    show "Inr () = Inr () \<and> wp (forP specs (\<lambda>s. ignoreP (runK (nAppend N IPv4 tableFilter chainExempt (specOf s))))) Q (w\<lparr>kern := k1\<rparr>\<lparr>kern := k2\<rparr>)"
      by (rule conjI [OF refl], rule exempt_appends_host [where v = "V (kern w)" and rs = rs and es = "[]"])
        (use 1 2 in \<open>auto simp: withExempt_def intro: assms(4)\<close>)
  qed (use assms(3) n in auto)
  then show ?thesis unfolding AddExemptions_def wp_bindP by (rule wp_conseq) auto
qed

lemma RemoveExemptions_host:
  assumes "H (kern w)" and "V (kern w) = withExempt v rs es"
    and "v (IPv4, tableFilter, chainExempt) = None" and "v (IPv4, tableFilter, ChainOut) = Some rs"
    and "unused v chainExempt" and "\<forall>s \<in> set es. target s \<noteq> Some chainExempt"
    and "\<And>k'. H k' \<Longrightarrow> V k' = v \<Longrightarrow> R k' = R (kern w) \<Longrightarrow> Q (Inr ()) (w\<lparr>kern := k'\<rparr>)"
  shows "wp (RemoveExemptions N) Q w"
proof -
  have n: "chainExempt \<noteq> ChainOut" by (simp add: names)
  have vo: "V (kern w) (IPv4, tableFilter, ChainOut) = Some ([''-j'', chainExempt] # rs)"
    by (simp add: assms(2) withExempt_def)
  have k1: "V k1 = v((IPv4, tableFilter, chainExempt) \<mapsto> es)"
    if "V k1 = (V (kern w))((IPv4, tableFilter, ChainOut) \<mapsto> remove1 [''-j'', chainExempt] ([''-j'', chainExempt] # rs))" for k1
    using that assms(2,4) n by (auto simp: withExempt_def fun_eq_iff)
  show ?thesis unfolding RemoveExemptions_def wp_bindP wp_ignoreP
  proof (rule wp_delete_host [OF assms(1) vo], unfold sum.case wp_ignoreP, rule wp_clear_host)
    fix k1 ch rs' s
    assume "V k1 = (V (kern w))((IPv4, tableFilter, ChainOut) \<mapsto> remove1 [''-j'', chainExempt] ([''-j'', chainExempt] # rs))"
      and "V (kern (w\<lparr>kern := k1\<rparr>)) (IPv4, tableFilter, ch) = Some rs'" "s \<in> set rs'"
    with k1 [OF this(1)] assms(5,6) show "target s \<noteq> Some chainExempt"
      by (auto simp: unused_def split: if_splits)
  next
    fix k1 k2
    assume 1: "V k1 = (V (kern w))((IPv4, tableFilter, ChainOut) \<mapsto> remove1 [''-j'', chainExempt] ([''-j'', chainExempt] # rs))" "R k1 = R (kern w)"
      and 2: "H k2" "V k2 = (V (kern (w\<lparr>kern := k1\<rparr>)))((IPv4, tableFilter, chainExempt) := None)" "R k2 = R (kern (w\<lparr>kern := k1\<rparr>))"
    have "V k2 = v" using 2(2) k1 [OF 1(1)] assms(3) by (simp add: fun_upd_idem)
    then show "Q (Inr ()) (w\<lparr>kern := k1\<rparr>\<lparr>kern := k2\<rparr>)" using 1 2 by (simp add: assms(7))
  qed simp_all
qed

lemma wp_RemoveForwardedPort_host:
  assumes "H (kern w)" and "V (kern w) (IPv4, tableFilter, ChainIn) = Some rs"
    and "\<And>k'. H k' \<Longrightarrow> V k' = (V (kern w))((IPv4, tableFilter, ChainIn) \<mapsto> withoutPort (activePort w) rs) \<Longrightarrow>
      R k' = R (kern w) \<Longrightarrow> Q (Inr ()) (w\<lparr>kern := k'\<rparr>)"
  shows "wp (RemoveForwardedPort N) Q w"
proof (cases "activePort w = 0")
  case True
  then show ?thesis using assms(1,2) assms(3) [of "kern w"]
    by (simp add: RemoveForwardedPort_def withoutPort_def fun_upd_idem)
next
  case False
  then show ?thesis unfolding RemoveForwardedPort_def
    by (simp, intro wp_delete_host [OF assms(1,2)])
      (simp, rule wp_delete_host, simp, simp, simp add: assms(3) withoutPort_def)
qed

lemma AllowForwardedPort_host:
  assumes "H (kern w)" and "V (kern w) (IPv4, tableFilter, ChainIn) = Some (estSpec # loSpec inDef # rs)"
    and "\<And>k'. H k' \<Longrightarrow> V k' = (V (kern w))((IPv4, tableFilter, ChainIn) \<mapsto>
        [estSpec, loSpec inDef, portSpec ''udp'' port, portSpec ''tcp'' port] @ withoutPort (activePort w) rs) \<Longrightarrow>
      R k' = R (kern w) \<Longrightarrow> Q (Inr ()) (w\<lparr>kern := k', activePort := port\<rparr>)"
  shows "wp (AllowForwardedPort N port) Q w"
proof -
  have p: "withoutPort p (estSpec # loSpec inDef # rs) = estSpec # loSpec inDef # withoutPort p rs" for p
    by (simp add: withoutPort_def portSpec_def estSpec_def loSpec_def)
  show ?thesis unfolding AllowForwardedPort_def wp_bindP
    by (rule wp_RemoveForwardedPort_host [OF assms(1,2)])
      (auto simp: p portInsertPos_def eval_nat_numeral intro!: wp_insert_host' assms(3))
qed

end

section \<open>Properties\<close>

text \<open>A check of the chains of the reference kernel, for the witnesses.\<close>

lemma ref_all:
  assumes "list_all (\<lambda>((f', t', ch), rs). f' = f \<and> t' = t \<longrightarrow> list_all (P ch) rs) (rkChains k)"
    and "refV k (f, t, ch) = Some rs" and "s \<in> set rs"
  shows "P ch s"
  using assms by (force simp: refV_def list_all_iff dest: map_of_SomeD)

lemma ref_onlyParent:
  assumes "list_all (\<lambda>((f', t', ch), rs). f' = cdIpt c \<and> t' = tableFilter \<longrightarrow>
      list_all (\<lambda>s. target s = Some (cdName c) \<longrightarrow> ch = cdParent c \<and> s = [''-j'', cdName c]) rs) (rkChains k)"
    and "case refV k (cdIpt c, tableFilter, cdParent c) of None \<Rightarrow> False | Some ps \<Rightarrow> count_list ps [''-j'', cdName c] \<le> 1"
  shows "onlyParent (refV k) c"
  unfolding onlyParent_def
proof (intro conjI allI impI)
  show "\<exists>ps. refV k (cdIpt c, tableFilter, cdParent c) = Some ps \<and> count_list ps [''-j'', cdName c] \<le> 1"
    using assms(2) by (auto split: option.splits)
next
  fix ch rs s assume *: "refV k (cdIpt c, tableFilter, ch) = Some rs" "s \<in> set rs" "target s = Some (cdName c)"
  with ref_all [OF assms(1) *(1,2)] show "ch = cdParent c" "s = [''-j'', cdName c]" by auto
qed

lemma demo_ready: "ready (refV (kern demoHost))"
proof -
  have "list_all (\<lambda>c. list_all (\<lambda>((f', t', ch), rs). f' = cdIpt c \<and> t' = tableFilter \<longrightarrow>
      list_all (\<lambda>s. target s = Some (cdName c) \<longrightarrow> ch = cdParent c \<and> s = [''-j'', cdName c]) rs) (rkChains (kern demoHost)) \<and>
    (case refV (kern demoHost) (cdIpt c, tableFilter, cdParent c) of None \<Rightarrow> False | Some ps \<Rightarrow> count_list ps [''-j'', cdName c] \<le> 1)) chainDefs"
    by code_simp
  then show ?thesis by (auto simp: ready_def list_all_iff intro!: ref_onlyParent)
qed

lemma demo_up_ready: "ready (refV (kern demoUp))" "onlyParent (refV (kern demoUp)) exemptDef"
proof -
  have "list_all (\<lambda>c. list_all (\<lambda>((f', t', ch), rs). f' = cdIpt c \<and> t' = tableFilter \<longrightarrow>
      list_all (\<lambda>s. target s = Some (cdName c) \<longrightarrow> ch = cdParent c \<and> s = [''-j'', cdName c]) rs) (rkChains (kern demoUp)) \<and>
    (case refV (kern demoUp) (cdIpt c, tableFilter, cdParent c) of None \<Rightarrow> False | Some ps \<Rightarrow> count_list ps [''-j'', cdName c] \<le> 1))
    (exemptDef # chainDefs)"
    by code_simp
  then show "ready (refV (kern demoUp))" "onlyParent (refV (kern demoUp)) exemptDef"
    by (auto simp: ready_def list_all_iff intro!: ref_onlyParent)
qed

text \<open>
  C25. When a setup succeeds. On a healthy host whose built-in chains exist and where at most
  the jumps of a previous run still refer to the chains of the killswitch, a setup returns, and
  it succeeds exactly when no local network is listed twice, counting the subnets of the
  kernel.
\<close>

theorem setup_succeeds_iff:
  assumes "netfilter_host N V R H" and "ready (V (kern w))" and "H (kern w)"
    and "plannedLans N cfg w = Some (Inr (v4, v6), w0)"
  shows "\<exists>r w1. Setup N cfg w = Some (r, w1) \<and> (r = Inr () \<longleftrightarrow> distinct v4 \<and> distinct v6)"
  using netfilter_host.Setup_host [OF assms] by (simp add: wp_iff)

definition dupCfg :: killswitchConfig where
  "dupCfg = \<lparr>kcLANs = ''172.17.0.0/16'', kcIPv6Enabled = False\<rparr>"

theorem setup_succeeds_iff_witness:
  "\<exists>r w1. Setup refN dupCfg demoHost = Some (r, w1) \<and> r \<noteq> Inr ()"
proof -
  have "plannedLans refN dupCfg demoHost =
      Some (Inr ([''172.17.0.0/16'', ''172.17.0.0/16''], []), snd (the (plannedLans refN dupCfg demoHost)))"
    by code_simp
  then show ?thesis
    using setup_succeeds_iff [OF refk.netfilter_host_axioms demo_ready, of dupCfg "[''172.17.0.0/16'', ''172.17.0.0/16'']"]
    by (force simp: refH_def demoHost_def demoKernel_def)
qed

text \<open>
  C9. Cleanup. On a healthy host where nothing else jumps to the chains of the killswitch, a
  cleanup leaves the killswitch inactive, none of its five chains and no jump to them, and
  none of the policy rules at its priorities; the other policy rules stay.
\<close>

theorem cleanup_removes_all:
  assumes "netfilter_host N V R H" and "ready (V (kern w))" and "onlyParent (V (kern w)) exemptDef" and "H (kern w)"
  shows "\<exists>w'. Cleanup N w = Some (Inr (), w') \<and> \<not> active w' \<and>
    (\<forall>c \<in> set chainDefs. unreferenced (V (kern w')) c) \<and> V (kern w') (IPv4, tableFilter, chainExempt) = None \<and>
    R (kern w') = (\<lambda>f. filter_mset (\<lambda>x. fst x \<notin> (case f of IPv4 \<Rightarrow> {50, 75, 76, 100} | IPv6 \<Rightarrow> {100})) (R (kern w) f))"
  using netfilter_host.Cleanup_host [OF assms] by (auto simp: wp_iff)

theorem cleanup_removes_all_witness:
  "\<exists>w'. Cleanup refN demoUp = Some (Inr (), w') \<and> \<not> active w' \<and>
    refV (kern w') (IPv4, tableFilter, ChainOut) = None \<and> refR (kern w') IPv4 = {#}"
proof -
  have h: "refH (kern demoUp)" by code_simp
  have r: "filter_mset (\<lambda>x. fst x \<notin> {50, 75, 76, 100}) (refR (kern demoUp) IPv4) = {#}"
  proof -
    have "list_all (\<lambda>x. fst x \<in> {50, 75, 76, 100}) (rkRules (kern demoUp) IPv4)" by code_simp
    then show ?thesis by (auto simp: refR_def list_all_iff filter_empty_conv simp flip: mset_filter)
  qed
  obtain w' where w': "Cleanup refN demoUp = Some (Inr (), w')" "\<not> active w'"
    "\<forall>c \<in> set chainDefs. unreferenced (refV (kern w')) c"
    "refR (kern w') = (\<lambda>f. filter_mset (\<lambda>x. fst x \<notin> (case f of IPv4 \<Rightarrow> {50, 75, 76, 100} | IPv6 \<Rightarrow> {100})) (refR (kern demoUp) f))"
    using cleanup_removes_all [OF refk.netfilter_host_axioms demo_up_ready h] by blast
  have "unreferenced (refV (kern w')) outDef" using w'(3) by simp
  then have "refV (kern w') (IPv4, tableFilter, ChainOut) = None" by (simp add: unreferenced_def)
  with w' r show ?thesis by auto
qed

text \<open>
  C24. Exemptions are taken back exactly. On a healthy host without exemptions, adding a batch
  of them opens one chain with exactly their rules at the head of the output chain, and
  removing them restores every chain.
\<close>

theorem exemptions_roundtrip:
  assumes "netfilter_host N V R H" and "H (kern w)"
    and "V (kern w) (IPv4, tableFilter, chainExempt) = None"
    and "V (kern w) (IPv4, tableFilter, ChainOut) = Some rs" and "unused (V (kern w)) chainExempt"
  shows "\<exists>w1 w2. AddExemptions N specs w = Some (Inr (), w1) \<and> RemoveExemptions N w1 = Some (Inr (), w2) \<and>
    V (kern w1) (IPv4, tableFilter, chainExempt) = Some (map specOf specs) \<and>
    V (kern w1) (IPv4, tableFilter, ChainOut) = Some ([''-j'', chainExempt] # rs) \<and> V (kern w2) = V (kern w)"
proof -
  have n: "chainExempt \<noteq> ChainOut" by (simp add: names)
  have "wp (AddExemptions N specs) (\<lambda>r w1. r = Inr () \<and> H (kern w1) \<and>
      V (kern w1) = withExempt (V (kern w)) rs (map specOf specs)) w"
    by (rule netfilter_host.AddExemptions_host [OF assms(1-4)]) simp_all
  then obtain w1 where w1: "AddExemptions N specs w = Some (Inr (), w1)" "H (kern w1)"
    "V (kern w1) = withExempt (V (kern w)) rs (map specOf specs)" by (auto simp: wp_iff)
  have "wp (RemoveExemptions N) (\<lambda>r w2. r = Inr () \<and> V (kern w2) = V (kern w)) w1"
    by (rule netfilter_host.RemoveExemptions_host [OF assms(1) w1(2,3) assms(3-5)])
      (auto simp: names)
  then show ?thesis using w1 n by (auto simp: wp_iff withExempt_def)
qed

theorem exemptions_roundtrip_witness:
  "\<exists>w1 w2. AddExemptions refN [\<lparr>exIP = ''1.2.3.4'', exPort = ''443'', exProto = ''tcp'', exComment = ''x''\<rparr>] demoUp = Some (Inr (), w1) \<and>
    RemoveExemptions refN w1 = Some (Inr (), w2) \<and> refV (kern w2) = refV (kern demoUp)"
proof -
  have h: "refH (kern demoUp)" by code_simp
  have x: "refV (kern demoUp) (IPv4, tableFilter, chainExempt) = None" by code_simp
  have o: "refV (kern demoUp) (IPv4, tableFilter, ChainOut) = Some (the (refV (kern demoUp) (IPv4, tableFilter, ChainOut)))"
    by code_simp
  have "list_all (\<lambda>((f', t', ch), rs). f' = IPv4 \<and> t' = tableFilter \<longrightarrow>
      list_all (\<lambda>s. target s \<noteq> Some chainExempt) rs) (rkChains (kern demoUp))" by code_simp
  then have "unused (refV (kern demoUp)) chainExempt"
    using ref_all [of IPv4 tableFilter "\<lambda>_ s. target s \<noteq> Some chainExempt" "kern demoUp"] by (auto simp: unused_def)
  from exemptions_roundtrip [OF refk.netfilter_host_axioms h x o this] show ?thesis by blast
qed

text \<open>
  A chain of exemptions left behind blocks the next ones. While it exists, adding an
  exemption or a batch of them fails and changes no chain; the witness reaches this state by a
  failure of the last command of an addition, after which the callers do not remove the
  exemptions.
\<close>

lemma exemption_wedge:
  assumes "netfilter N V R" and "V (kern w) (IPv4, tableFilter, chainExempt) \<noteq> None"
  shows "(\<exists>e w'. AddExemption N ip port proto comment w = Some (Inl e, w') \<and> V (kern w') = V (kern w)) \<and>
    (\<exists>e w'. AddExemptions N specs w = Some (Inl e, w') \<and> V (kern w') = V (kern w))"
proof -
  have r: "r \<noteq> Inr () \<Longrightarrow> \<exists>e. r = Inl e" for r :: "err + unit" by (cases r) auto
  show ?thesis using netfilter.exemptions_blocked [OF assms] r by (fastforce simp: wp_iff)
qed

definition faultyUp :: "refk fw" where
  "faultyUp = demoUp\<lparr>kern := (kern demoUp)\<lparr>rkFaults := [False, False, True]\<rparr>\<rparr>"

lemma exemption_wedge_witness:
  "\<exists>e w1. AddExemption refN ''1.2.3.4'' ''443'' ''tcp'' ''x'' faultyUp = Some (Inl e, w1) \<and> refH (kern w1) \<and>
    (\<exists>e' w2. AddExemption refN ''5.6.7.8'' ''443'' ''tcp'' ''y'' w1 = Some (Inl e', w2))"
proof -
  let ?r = "AddExemption refN ''1.2.3.4'' ''443'' ''tcp'' ''x'' faultyUp"
  have "?r = Some (Inl (projl (fst (the ?r))), snd (the ?r))" "refH (kern (snd (the ?r)))"
    "refV (kern (snd (the ?r))) (IPv4, tableFilter, chainExempt) \<noteq> None" by code_simp+
  with exemption_wedge [OF refk.netfilter_axioms this(3), of "''5.6.7.8''" "''443''" "''tcp''" "''y''"]
  show ?thesis by blast
qed

text \<open>
  C26. A forwarded port replaces the one before it. On a healthy host, allowing a port leaves
  the input chain with the TCP and UDP rules of that port behind the baseline, without the
  rules of the port allowed before, and everything else in place.
\<close>

theorem forwarded_port_replaced:
  assumes "netfilter_host N V R H" and "H (kern w)"
    and "V (kern w) (IPv4, tableFilter, ChainIn) = Some (estSpec # loSpec inDef # rs)"
  shows "\<exists>w1. AllowForwardedPort N port w = Some (Inr (), w1) \<and> activePort w1 = port \<and> R (kern w1) = R (kern w) \<and>
    V (kern w1) = (V (kern w))((IPv4, tableFilter, ChainIn) \<mapsto>
      [estSpec, loSpec inDef, portSpec ''udp'' port, portSpec ''tcp'' port] @ withoutPort (activePort w) rs)"
proof -
  have "wp (AllowForwardedPort N port) (\<lambda>r w1. r = Inr () \<and> activePort w1 = port \<and> R (kern w1) = R (kern w) \<and>
    V (kern w1) = (V (kern w))((IPv4, tableFilter, ChainIn) \<mapsto>
      [estSpec, loSpec inDef, portSpec ''udp'' port, portSpec ''tcp'' port] @ withoutPort (activePort w) rs)) w"
    by (rule netfilter_host.AllowForwardedPort_host [OF assms]) simp_all
  then show ?thesis by (auto simp: wp_iff)
qed

theorem forwarded_port_replaced_witness:
  "\<exists>w1. AllowForwardedPort refN 5000 demoUp = Some (Inr (), w1) \<and> activePort w1 = 5000"
proof -
  have h: "refH (kern demoUp)" by code_simp
  have "refV (kern demoUp) (IPv4, tableFilter, ChainIn) = Some (estSpec # loSpec inDef #
      drop 2 (the (refV (kern demoUp) (IPv4, tableFilter, ChainIn))))" by code_simp
  from forwarded_port_replaced [OF refk.netfilter_host_axioms h this, of 5000] show ?thesis by blast
qed

end
