(* ===== verification/Backend.thy ===== *)
theory Backend
  imports Firewall "HOL-Library.Word"
begin

text \<open>
  The construction of the firewall and its counters (\<^verbatim>\<open>internal/firewall/firewall.go\<close>): the
  capabilities of the process, the choice of the iptables backend, and the statistics of the
  DROP rules. The commands that are run and the files that are read are parameters: their
  results. Go's \<^verbatim>\<open>int64\<close> and \<^verbatim>\<open>uint64\<close> are words of 64 bits.
\<close>

unbundle bit_operations_syntax

section \<open>Capabilities\<close>

definition capNetAdmin :: "64 word" where "capNetAdmin = push_bit 12 1"
definition capNetRaw :: "64 word" where "capNetRaw = push_bit 13 1"

text \<open>\<^verbatim>\<open>strconv.ParseUint(s, 16, 64)\<close>: hexadecimal digits, no sign, no underscore, at most 64 bits.\<close>

definition hexVal :: "char \<Rightarrow> int option" where
  "hexVal c = (let n = (of_char c :: int) in
     if 48 \<le> n \<and> n \<le> 57 then Some (n - 48)
     else if 97 \<le> n \<and> n \<le> 102 then Some (n - 87)
     else if 65 \<le> n \<and> n \<le> 70 then Some (n - 55) else None)"

fun hexDigits :: "int \<Rightarrow> string \<Rightarrow> int option" where
  "hexDigits acc [] = Some acc"
| "hexDigits acc (c # cs) = (case hexVal c of None \<Rightarrow> None | Some d \<Rightarrow> hexDigits (16 * acc + d) cs)"

definition ParseUint16 :: "string \<Rightarrow> (64 word) option" where
  "ParseUint16 s = (if s = [] then None else case hexDigits 0 s of
       None \<Rightarrow> None | Some n \<Rightarrow> (if n < 2 ^ 64 then Some (of_int n) else None))"

text \<open>The loop over the lines of \<^verbatim>\<open>/proc/self/status\<close>: the first \<^verbatim>\<open>CapEff:\<close> line decides.\<close>

fun scanCaps :: "bool \<Rightarrow> string list \<Rightarrow> err + bool" where
  "scanCaps legacy [] = Inl (Errorf ''CapEff not found in /proc/self/status'' [])"
| "scanCaps legacy (line # rest) =
     (if HasPrefix line ''CapEff:'' then
        (case ParseUint16 (TrimSpace (TrimPrefix line ''CapEff:'')) of
           None \<Rightarrow> Inl (Errorf ''cannot parse CapEff'' [])
         | Some capEff \<Rightarrow>
             (if capEff AND capNetAdmin = 0 then Inl (Errorf ''firewall requires CAP_NET_ADMIN'' [])
              else if legacy \<and> capEff AND capNetRaw = 0 then Inl (Errorf ''iptables-legacy requires CAP_NET_RAW'' [])
              else Inr (capEff AND capNetRaw \<noteq> 0)))
      else scanCaps legacy rest)"

definition checkCaps :: "bool \<Rightarrow> err + string \<Rightarrow> err + bool" where
  "checkCaps legacy status = (case status of
       Inl e \<Rightarrow> Inl (Errorf ''cannot read /proc/self/status'' [e])
     | Inr d \<Rightarrow> scanCaps legacy (Split (CHR 0x0A) d))"

section \<open>The backend\<close>

text \<open>
  What \<^verbatim>\<open>iptables-nft -L -n\<close> answers (error and combined output), and the error of
  \<^verbatim>\<open>iptables-legacy -L -n\<close>.
\<close>

record probes =
  nftErr :: "err option"
  nftOutput :: string
  legacyErr :: "err option"

definition detectBackend :: "probes \<Rightarrow> string \<Rightarrow> bool \<Rightarrow> err + string" where
  "detectBackend p backend netRaw =
     (if backend = ''nft'' then
        (case nftErr p of Some e \<Rightarrow> Inl (Errorf ''iptables-nft not available'' [e]) | None \<Rightarrow> Inr ''nft'')
      else if backend = ''legacy'' then
        (case legacyErr p of Some e \<Rightarrow> Inl (Errorf ''iptables-legacy not available'' [e]) | None \<Rightarrow> Inr ''legacy'')
      else case nftErr p of
          Some e \<Rightarrow>
            (case legacyErr p of
               Some _ \<Rightarrow> Inl (Errorf ''neither iptables backend available'' [e])
             | None \<Rightarrow> (if \<not> netRaw then Inl (Errorf ''no iptables-nft available and iptables-legacy requires CAP_NET_RAW'' [])
                       else Inr ''legacy''))
        | None \<Rightarrow> (if Contains (toLower (nftOutput p)) ''iptables-legacy''
                   then (if netRaw then Inr ''legacy'' else Inr ''nft'')
                   else Inr ''nft''))"

text \<open>\<open>newIpt\<close> is the constructor of the package \<^verbatim>\<open>go-iptables\<close>; \<open>k\<close> the kernel it drives.\<close>

definition NewFirewall :: "(family \<Rightarrow> string \<Rightarrow> err option) \<Rightarrow> err + string \<Rightarrow> probes \<Rightarrow> 'k \<Rightarrow> string \<Rightarrow> err + 'k fw" where
  "NewFirewall newIpt status p k backend =
     (case checkCaps (backend = ''legacy'') status of
        Inl e \<Rightarrow> Inl e
      | Inr netRaw \<Rightarrow> (case detectBackend p backend netRaw of
          Inl e \<Rightarrow> Inl e
        | Inr b \<Rightarrow> (let c4 = ''iptables-'' @ b; c6 = ''ip6tables-'' @ b in
            case newIpt IPv4 c4 of
              Some e \<Rightarrow> Inl (Errorf (''init iptables IPv4 ('' @ c4 @ '')'') [e])
            | None \<Rightarrow> (case newIpt IPv6 c6 of
                Some e \<Rightarrow> Inl (Errorf (''init iptables IPv6 ('' @ c6 @ '')'') [e])
              | None \<Rightarrow> Inr \<lparr>kern = k, ipt4Cmd = c4, ipt6Cmd = c6, active = False, activePort = 0\<rparr>))))"

definition Backend :: "'k fw \<Rightarrow> string" where
  "Backend w = ipt4Cmd w"

section \<open>Statistics\<close>

text \<open>
  One chain: \<open>out\<close> is the output of \<^verbatim>\<open>iptables -L chain -v -n -x\<close>, or the error of the command.
  Packets and bytes are added up in \<^verbatim>\<open>int64\<close>.
\<close>

definition addLine :: "64 word \<times> 64 word \<Rightarrow> string \<Rightarrow> 64 word \<times> 64 word" where
  "addLine acc line = (let fields = Fields line; (packets, bytes) = acc in
     if 3 \<le> length fields \<and> fields ! 2 = ''DROP'' then
       (case ParseInt (fields ! 0) of Some p \<Rightarrow> packets + of_int p | None \<Rightarrow> packets,
        case ParseInt (fields ! 1) of Some b \<Rightarrow> bytes + of_int b | None \<Rightarrow> bytes)
     else acc)"

definition parseChain :: "err + string \<Rightarrow> 64 word \<times> 64 word" where
  "parseChain out = (case out of
       Inl _ \<Rightarrow> (0, 0)
     | Inr txt \<Rightarrow> foldl addLine (0, 0) (Split (CHR 0x0A) txt))"

text \<open>\<open>query\<close> runs the command of a family on a chain.\<close>

definition GetDropStats :: "(string \<Rightarrow> string \<Rightarrow> err + string) \<Rightarrow> 'k fw \<Rightarrow> (64 word \<times> 64 word) \<times> (64 word \<times> 64 word)" where
  "GetDropStats query w = (let
       (packetsIn, bytesIn) = parseChain (query (ipt4Cmd w) ''VPN_IN'');
       (packetsOut, bytesOut) = parseChain (query (ipt4Cmd w) ''VPN_OUT'');
       (p, b) = parseChain (query (ipt6Cmd w) ''VPN_IN6'');
       (p', b') = parseChain (query (ipt6Cmd w) ''VPN_OUT6'')
     in ((packetsIn + p, bytesIn + b), (packetsOut + p', bytesOut + b')))"

section \<open>Properties\<close>

lemma scanCaps_sound:
  assumes "scanCaps legacy ls = Inr netRaw"
  obtains capEff where "bit capEff 12" "netRaw \<longleftrightarrow> bit capEff 13" "legacy \<longrightarrow> netRaw"
    "\<exists>l \<in> set ls. HasPrefix l ''CapEff:'' \<and> ParseUint16 (TrimSpace (TrimPrefix l ''CapEff:'')) = Some capEff"
  using assms
proof (induction ls arbitrary: thesis)
  case (Cons l ls)
  have b: "w AND capNetAdmin = 0 \<longleftrightarrow> \<not> bit w 12" "w AND capNetRaw = 0 \<longleftrightarrow> \<not> bit w 13" for w :: "64 word"
    unfolding capNetAdmin_def capNetRaw_def push_bit_of_1 and_exp_eq_0_iff_not_bit by (rule refl)+
  show ?case
  proof (cases "HasPrefix l ''CapEff:''")
    case True
    with Cons.prems(2) obtain c where "ParseUint16 (TrimSpace (TrimPrefix l ''CapEff:'')) = Some c"
      "bit c 12" "netRaw \<longleftrightarrow> bit c 13" "legacy \<longrightarrow> netRaw"
      by (auto simp: b split: option.splits if_splits)
    with True show ?thesis by (intro Cons.prems(1)) auto
  next
    case False
    with Cons.prems(2) have "scanCaps legacy ls = Inr netRaw" by simp
    then show ?thesis by (rule Cons.IH [rotated]) (rule Cons.prems(1), auto)
  qed
qed simp

lemma detectBackend_sound:
  assumes "detectBackend p backend netRaw = Inr b" and "backend = ''legacy'' \<longrightarrow> netRaw"
  shows "(b = ''nft'' \<and> nftErr p = None) \<or> (b = ''legacy'' \<and> netRaw \<and> (legacyErr p = None \<or> nftErr p = None))"
  using assms by (auto simp: detectBackend_def split: if_splits option.splits)

text \<open>
  The firewall is only built where it can work. When the construction succeeds the process
  holds CAP_NET_ADMIN, both families use the same backend, a backend named by the user is
  the one used, iptables-nft is used only if it answers, and iptables-legacy only if the
  process holds CAP_NET_RAW; the killswitch starts inactive.
\<close>

lemma new_firewall_sound:
  assumes "NewFirewall newIpt status p k backend = Inr w"
  shows "\<exists>b capEff d. status = Inr d \<and> bit capEff 12 \<and>
    (\<exists>l \<in> set (Split (CHR 0x0A) d). ParseUint16 (TrimSpace (TrimPrefix l ''CapEff:'')) = Some capEff) \<and>
    Backend w = ''iptables-'' @ b \<and> ipt6Cmd w = ''ip6tables-'' @ b \<and> \<not> active w \<and>
    (backend \<in> {''nft'', ''legacy''} \<longrightarrow> b = backend) \<and>
    (b = ''nft'' \<and> nftErr p = None \<or> b = ''legacy'' \<and> bit capEff 13)"
proof -
  from assms obtain netRaw b where caps: "checkCaps (backend = ''legacy'') status = Inr netRaw"
    and det: "detectBackend p backend netRaw = Inr b"
    and w: "w = \<lparr>kern = k, ipt4Cmd = ''iptables-'' @ b, ipt6Cmd = ''ip6tables-'' @ b, active = False, activePort = 0\<rparr>"
    by (auto simp: NewFirewall_def Let_def split: sum.splits option.splits)
  from caps obtain d where d: "status = Inr d" "scanCaps (backend = ''legacy'') (Split (CHR 0x0A) d) = Inr netRaw"
    by (auto simp: checkCaps_def split: sum.splits)
  obtain capEff where c: "bit capEff 12" "netRaw \<longleftrightarrow> bit capEff 13" "backend = ''legacy'' \<longrightarrow> netRaw"
    "\<exists>l \<in> set (Split (CHR 0x0A) d). HasPrefix l ''CapEff:'' \<and> ParseUint16 (TrimSpace (TrimPrefix l ''CapEff:'')) = Some capEff"
    by (rule scanCaps_sound [OF d(2)])
  have "b = ''nft'' \<and> nftErr p = None \<or> b = ''legacy'' \<and> bit capEff 13"
    using detectBackend_sound [OF det c(3)] c(2) by blast
  moreover have "backend \<in> {''nft'', ''legacy''} \<longrightarrow> b = backend"
    using det by (auto simp: detectBackend_def split: option.splits)
  moreover have "\<exists>l \<in> set (Split (CHR 0x0A) d). ParseUint16 (TrimSpace (TrimPrefix l ''CapEff:'')) = Some capEff"
    using c(4) by blast
  moreover have "Backend w = ''iptables-'' @ b" "ipt6Cmd w = ''ip6tables-'' @ b" "\<not> active w"
    by (simp_all only: w Backend_def fw.select_convs not_False_eq_True)
  ultimately show ?thesis using d(1) c(1)
    by - (rule exI [of _ b], rule exI [of _ capEff], rule exI [of _ d], intro conjI; assumption)
qed

lemma new_firewall_sound_witness:
  "NewFirewall (\<lambda>_ _. None) (Inr ''CapEff: 0000000000003000'') \<lparr>nftErr = None, nftOutput = '''', legacyErr = None\<rparr> () ''legacy'' =
     Inr \<lparr>kern = (), ipt4Cmd = ''iptables-legacy'', ipt6Cmd = ''ip6tables-legacy'', active = False, activePort = 0\<rparr> \<and>
   (\<exists>capEff :: 64 word. bit capEff 12 \<and> bit capEff 13)"
proof -
  have n: "NewFirewall (\<lambda>_ _. None) (Inr ''CapEff: 0000000000003000'') \<lparr>nftErr = None, nftOutput = '''', legacyErr = None\<rparr> () ''legacy'' =
     Inr \<lparr>kern = (), ipt4Cmd = ''iptables-legacy'', ipt6Cmd = ''ip6tables-legacy'', active = False, activePort = 0\<rparr>"
    by code_simp
  obtain capEff :: "64 word" where "bit capEff 12" "''legacy'' = ''nft'' \<and> (None :: err option) = None \<or> bit capEff 13"
    using new_firewall_sound [OF n] by (elim exE conjE) (auto simp: Backend_def)
  with n show ?thesis by auto
qed

text \<open>
  A line of \<^verbatim>\<open>iptables -L -v -n -x\<close> as the command prints it: padding, the two counters, the
  target and the rest, each followed by a blank.
\<close>

definition statLine :: "string \<Rightarrow> nat \<times> nat \<times> string \<Rightarrow> string \<Rightarrow> string" where
  "statLine pad r rest = (case r of (p, b, t) \<Rightarrow> pad @ ItoaN p @ '' '' @ ItoaN b @ '' '' @ t @ '' '' @ rest)"

lemma ParseInt_ItoaN: "n < 2 ^ 63 \<Longrightarrow> ParseInt (ItoaN n) = Some (int n)"
  using ParseInt_Itoa [of "int n"] by (simp add: Itoa_def inInt64_def)

lemma addLine_statLine:
  assumes "list_all isSpace pad" and "t \<noteq> []" and "list_all (\<lambda>c. \<not> isSpace c) t" and "p < 2 ^ 63" and "b < 2 ^ 63"
  shows "addLine (x, y) (statLine pad (p, b, t) rest) =
    (if t = ''DROP'' then (x + of_nat p, y + of_nat b) else (x, y))"
proof -
  have d: "list_all (\<lambda>c. \<not> isSpace c) (ItoaN n)" for n
  proof -
    have "\<not> isSpace c" if "isDigit c" for c using that by (auto simp: isDigit_def isSpace_def)
    then show ?thesis using ItoaN_chars by (auto simp: list_all_iff)
  qed
  have s: "isSpace (CHR '' '')" by (simp add: isSpace_def)
  have "Fields (statLine pad (p, b, t) rest) = ItoaN p # ItoaN b # t # FieldsFunc isSpace rest"
    using assms(1-3) d s by (simp add: Fields_def statLine_def FieldsFunc_sep FieldsFunc_word_sep)
  then show ?thesis using assms(4,5) by (simp add: addLine_def Let_def ParseInt_ItoaN numeral_2_eq_2)
qed

text \<open>
  The table that iptables prints for a chain: two heading lines, then one line per rule, with its
  packets, its bytes and its target.
\<close>

type_synonym row = "string \<times> (nat \<times> nat \<times> string) \<times> string"

definition printedRow :: "row \<Rightarrow> bool" where
  "printedRow = (\<lambda>(pad, (p, b, t), rest). list_all isSpace pad \<and> CHR 0x0A \<notin> set pad \<and> t \<noteq> [] \<and>
     list_all (\<lambda>c. \<not> isSpace c) t \<and> p < 2 ^ 63 \<and> b < 2 ^ 63 \<and> CHR 0x0A \<notin> set rest)"

definition chainTable :: "string \<Rightarrow> row list \<Rightarrow> string" where
  "chainTable c rows = Join ((''Chain '' @ c @ '' (1 references)'') # ''    pkts      bytes target     prot opt in     out'' #
     map (\<lambda>(pad, r, rest). statLine pad r rest) rows) [CHR 0x0A]"

text \<open>The reference: what the DROP rules of a chain have counted; nothing if the command failed.\<close>

definition droppedBy :: "err + row list \<Rightarrow> 64 word \<times> 64 word" where
  "droppedBy t = (case t of Inl _ \<Rightarrow> (0, 0) | Inr rows \<Rightarrow>
     (\<Sum>(pad, (p, b, t), rest) \<leftarrow> rows. if t = ''DROP'' then of_nat p else 0,
      \<Sum>(pad, (p, b, t), rest) \<leftarrow> rows. if t = ''DROP'' then of_nat b else 0))"

definition statChains :: "string list" where
  "statChains = [''VPN_IN'', ''VPN_OUT'', ''VPN_IN6'', ''VPN_OUT6'']"

lemma parseChain_table:
  assumes "c \<in> set statChains" and "\<forall>r \<in> set rows. printedRow r"
  shows "parseChain (Inr (chainTable c rows)) = droppedBy (Inr rows)"
proof -
  let ?h = "''Chain '' @ c @ '' (1 references)''" and ?h' = "''    pkts      bytes target     prot opt in     out''"
  have nl: "CHR 0x0A \<notin> set (ItoaN n)" for n
    using ItoaN_chars [of "CHR 0x0A" n] by (auto simp: isDigit_def)
  have lines: "CHR 0x0A \<notin> set x" if "x \<in> set (?h # ?h' # map (\<lambda>(pad, r, rest). statLine pad r rest) rows)" for x
  proof -
    from that consider "x = ?h" | "x = ?h'" | pad p b t rest where "(pad, (p, b, t), rest) \<in> set rows" "x = statLine pad (p, b, t) rest"
      by auto
    then show ?thesis
    proof cases
      case 3
      with assms(2) have "CHR 0x0A \<notin> set pad" "list_all (\<lambda>c. \<not> isSpace c) t" "CHR 0x0A \<notin> set rest" by (auto simp: printedRow_def)
      moreover from this(2) have "CHR 0x0A \<notin> set t" by (auto simp: list_all_iff isSpace_def)
      ultimately show ?thesis using 3(2) nl by (auto simp: statLine_def)
    qed (use assms(1) in \<open>auto simp: statChains_def\<close>)
  qed
  have heads: "addLine acc ?h = acc" "addLine acc ?h' = acc" for acc
    using assms(1) by (auto simp: statChains_def addLine_def Let_def Fields_def isSpace_def eval_nat_numeral split: prod.splits)
  have "foldl addLine (x, y) (map (\<lambda>(pad, r, rest). statLine pad r rest) rows) =
    (x + fst (droppedBy (Inr rows)), y + snd (droppedBy (Inr rows)))" for x y
    using assms(2)
  proof (induction rows arbitrary: x y)
    case (Cons r rows)
    obtain pad p b t rest where r: "r = (pad, (p, b, t), rest)" by (metis prod.exhaust)
    with Cons.prems have "addLine (x, y) (statLine pad (p, b, t) rest) =
        (if t = ''DROP'' then (x + of_nat p, y + of_nat b) else (x, y))" by (intro addLine_statLine) (auto simp: printedRow_def)
    with Cons r show ?case by (simp add: droppedBy_def add.assoc)
  qed (simp add: droppedBy_def)
  moreover have "Split (CHR 0x0A) (chainTable c rows) = ?h # ?h' # map (\<lambda>(pad, r, rest). statLine pad r rest) rows"
    unfolding chainTable_def by (rule Split_Join) (simp, erule lines)
  ultimately show ?thesis using heads by (simp add: parseChain_def)
qed


definition demoTables :: "string \<Rightarrow> err + row list" where
  "demoTables c = (if c = ''VPN_IN'' then Inr [(''  '', (12, 3400, ''ACCEPT''), ''all''), (''  '', (7, 560, ''DROP''), ''all'')]
     else if c = ''VPN_IN6'' then Inr [(''  '', (2, 80, ''DROP''), ''all'')]
     else if c = ''VPN_OUT'' then Inr [] else Inl (Errorf ''exit status 1'' []))"


end
