(* ===== verification/PiaClient.thy ===== *)
theory PiaClient
  imports Netfilter
begin

text \<open>
  The client of PIA's web interface (\<^verbatim>\<open>internal/pia\<close>): its types, the requests it builds, how it
  classifies the answers, the flattening of the server list and the search for the end of its
  JSON text. The network and \<^verbatim>\<open>encoding/json\<close> are parameters: an exchange that takes a request
  and answers with an error or with a status and a body, which may fail to be read, and one
  decoder per type of answer.
\<close>

section \<open>Types (types.go)\<close>

record server =
  CN :: string
  IP :: string
  Region :: string
  RegionName :: string
  PF :: bool

record region =
  regID :: string
  regName :: string
  regPortForward :: bool
  regServers :: "string \<rightharpoonup> server list"

record dipInfo =
  dipCN :: string
  dipIP :: string
  dipRegion :: string

record addKeyResponse =
  akStatus :: string
  akServerKey :: string
  akServerPort :: int
  akPeerIP :: string
  akServerVIP :: string
  akDNSServers :: "string list"

section \<open>Requests\<close>

text \<open>
  A request, with the address the client dials instead of the host of the URL, and the
  certificate name it expects.
\<close>

record request =
  rqMethod :: string
  rqURL :: string
  rqHeaders :: "(string \<times> string) list"
  rqBody :: string
  rqDialIP :: string
  rqServerName :: string
  rqPIACert :: bool
  rqBasicAuth :: "(string \<times> string) option"

type_synonym response = "int \<times> (err + string)"

record tokenBody =
  tbToken :: string
  tbMessage :: string

record dipBody =
  dbStatus :: string
  dbIP :: string
  dbCN :: string
  dbID :: string

record 'k api =
  aDo :: "request \<Rightarrow> 'k \<Rightarrow> (err + response) \<times> 'k"
  decToken :: "string \<Rightarrow> err + tokenBody"
  decRegions :: "string \<Rightarrow> err + region list"
  decAddKey :: "string \<Rightarrow> err + addKeyResponse"
  decDIP :: "string \<Rightarrow> err + dipBody list"
  encDIP :: "string list \<Rightarrow> err + string"
  aCertPool :: "'k \<Rightarrow> (err + unit) \<times> 'k"

definition AuthHostname :: string where "AuthHostname = ''www.privateinternetaccess.com''"
definition ServerlistHostname :: string where "ServerlistHostname = ''serverlist.piaservers.net''"
definition authPath :: string where "authPath = ''/api/client/v2/token''"
definition serverListPath :: string where "serverListPath = ''/vpninfo/servers/v6''"
definition addKeyPort :: string where "addKeyPort = ''1337''"

text \<open>\<^verbatim>\<open>url.QueryEscape\<close> and \<^verbatim>\<open>url.Values.Encode\<close> of keys given in order.\<close>

definition hexChar :: "nat \<Rightarrow> char" where
  "hexChar n = (if n < 10 then char_of (48 + n) else char_of (55 + n))"

definition unreserved :: "char \<Rightarrow> bool" where
  "unreserved c = (let n = (of_char c :: nat) in
     (48 \<le> n \<and> n \<le> 57) \<or> (65 \<le> n \<and> n \<le> 90) \<or> (97 \<le> n \<and> n \<le> 122) \<or> c \<in> set ''-_.~'')"

definition QueryEscape :: "string \<Rightarrow> string" where
  "QueryEscape s = concat (map (\<lambda>c. if unreserved c then [c] else if c = CHR '' '' then ''+''
     else [CHR ''%'', hexChar (of_char c div 16), hexChar (of_char c mod 16)]) s)"

definition Encode :: "(string \<times> string) list \<Rightarrow> string" where
  "Encode ps = Join (map (\<lambda>(k, v). QueryEscape k @ ''='' @ QueryEscape v) ps) ''&''"

definition hostMapped :: "string \<Rightarrow> string \<Rightarrow> request \<Rightarrow> request" where
  "hostMapped hostname ip r = r\<lparr>rqDialIP := ip, rqServerName := hostname, rqPIACert := False\<rparr>"

definition baseReq :: "string \<Rightarrow> string \<Rightarrow> request" where
  "baseReq m u = \<lparr>rqMethod = m, rqURL = u, rqHeaders = [], rqBody = [], rqDialIP = [], rqServerName = [],
     rqPIACert = False, rqBasicAuth = None\<rparr>"

definition tokenReq :: "string \<Rightarrow> string \<Rightarrow> string \<Rightarrow> request" where
  "tokenReq ip user pass = hostMapped AuthHostname ip
     ((baseReq ''POST'' (''https://'' @ AuthHostname @ authPath))
        \<lparr>rqHeaders := [(''Content-Type'', ''application/x-www-form-urlencoded'')],
         rqBody := Encode [(''password'', pass), (''username'', user)]\<rparr>)"

section \<open>Answers\<close>

definition GenerateToken :: "'k api \<Rightarrow> string \<Rightarrow> string \<Rightarrow> string \<Rightarrow> (('k, 'm) net_scheme, string) prog" where
  "GenerateToken A ip user pass =
     bindP (wrapErr ''request failed'' (outK (aDo A (tokenReq ip user pass)))) (\<lambda>(status, rbody).
     case rbody of
       Inl e \<Rightarrow> throw (Errorf ''read response'' [e])
     | Inr body \<Rightarrow>
         (if status = 401 \<or> status = 403 then
            throw (Errorf (''invalid credentials (HTTP '' @ Itoa status @ '')'') [Sentinel ErrFatal])
          else if status = 429 then throw (Errorf (''(HTTP '' @ Itoa status @ '')'') [Sentinel ErrRateLimited])
          else if status \<noteq> 200 then throw (Errorf (''HTTP '' @ Itoa status) [])
          else case decToken A body of
              Inl e \<Rightarrow> throw (Errorf ''parse response'' [e])
            | Inr result \<Rightarrow>
                (if tbMessage result = ''authentication failed''
                 then throw (Errorf (''invalid credentials ('' @ tbMessage result @ '')'') [Sentinel ErrFatal])
                 else if tbToken result = [] then throw (Errorf ''empty token in response'' [])
                 else ret (tbToken result))))"

text \<open>\<^verbatim>\<open>findJSONEnd\<close>: the loop over the bytes, with the position, the depth and the two flags.\<close>

fun jsonEnd :: "int \<Rightarrow> int \<Rightarrow> bool \<Rightarrow> bool \<Rightarrow> string \<Rightarrow> int" where
  "jsonEnd i depth inString escaped [] = -1"
| "jsonEnd i depth inString escaped (b # data) =
     (if escaped then jsonEnd (i + 1) depth inString False data
      else if b = CHR 0x5C \<and> inString then jsonEnd (i + 1) depth inString True data
      else if b = CHR 0x22 then jsonEnd (i + 1) depth (\<not> inString) False data
      else if inString then jsonEnd (i + 1) depth inString False data
      else if b = CHR ''{'' then jsonEnd (i + 1) (depth + 1) inString False data
      else if b = CHR ''}'' then
        (if depth - 1 = 0 then i + 1 else jsonEnd (i + 1) (depth - 1) inString False data)
      else jsonEnd (i + 1) depth inString False data)"

definition findJSONEnd :: "string \<Rightarrow> int" where
  "findJSONEnd data = jsonEnd 0 0 False False data"

definition flattenRegions :: "region list \<Rightarrow> server list" where
  "flattenRegions regions = concat (map (\<lambda>r.
     map (\<lambda>srv. \<lparr>CN = CN srv, IP = IP srv, Region = regID r, RegionName = regName r, PF = regPortForward r\<rparr>)
       (case regServers r ''wg'' of None \<Rightarrow> [] | Some l \<Rightarrow> l)) regions)"

definition listReq :: "string \<Rightarrow> request" where
  "listReq ip = hostMapped ServerlistHostname ip (baseReq ''GET'' (''https://'' @ ServerlistHostname @ serverListPath))"

definition FetchServerList :: "'k api \<Rightarrow> string \<Rightarrow> (('k, 'm) net_scheme, server list) prog" where
  "FetchServerList A ip =
     bindP (wrapErr ''request failed'' (outK (aDo A (listReq ip)))) (\<lambda>(status, rbody).
     if status \<noteq> 200 then throw (Errorf (''HTTP '' @ Itoa status) [])
     else case rbody of
         Inl e \<Rightarrow> throw (Errorf ''read response'' [e])
       | Inr body \<Rightarrow>
           (let fin = findJSONEnd body; body = (if 0 < fin then take (nat fin) body else body)
            in case decRegions A body of
                 Inl e \<Rightarrow> throw (Errorf ''parse response'' [e])
               | Inr regions \<Rightarrow> ret (flattenRegions regions)))"

definition addKeyReq :: "string \<Rightarrow> string \<Rightarrow> (string \<times> string) list \<Rightarrow> (string \<times> string) option \<Rightarrow> request" where
  "addKeyReq serverIP cn ps auth = (baseReq ''GET'' (''https://'' @ cn @ '':'' @ addKeyPort @ ''/addKey?'' @ Encode ps))
     \<lparr>rqBasicAuth := auth, rqDialIP := serverIP, rqServerName := cn, rqPIACert := True\<rparr>"

text \<open>
  What \<^verbatim>\<open>AddKey\<close> and \<^verbatim>\<open>AddKeyDIP\<close> do once the request is built; the messages of the second start
  with \<open>pre\<close>.
\<close>

definition addKeyExchange :: "'k api \<Rightarrow> string \<Rightarrow> request \<Rightarrow> (('k, 'm) net_scheme, addKeyResponse) prog" where
  "addKeyExchange A pre req =
     bindP (wrapErr ''request failed'' (outK (aDo A req))) (\<lambda>(status, rbody).
     if status \<noteq> 200 then
       (if status = 401 \<or> status = 403
        then throw (Errorf (pre @ ''(HTTP '' @ Itoa status @ '')'') [Sentinel ErrTokenRejected])
        else throw (Errorf (''HTTP '' @ Itoa status) []))
     else case rbody of
         Inl e \<Rightarrow> throw (Errorf ''read response'' [e])
       | Inr body \<Rightarrow> (case decAddKey A body of
             Inl e \<Rightarrow> throw (Errorf ''parse response'' [e])
           | Inr result \<Rightarrow>
               (if akStatus result \<noteq> ''OK''
                then throw (Errorf (pre @ ''(status: '' @ akStatus result @ '')'') [Sentinel ErrTokenRejected])
                else ret result)))"

definition AddKey :: "'k api \<Rightarrow> string \<Rightarrow> string \<Rightarrow> string \<Rightarrow> string \<Rightarrow> (('k, 'm) net_scheme, addKeyResponse) prog" where
  "AddKey A serverIP cn token pubkey =
     bindP (wrapErr ''create addkey client'' (outK (aCertPool A))) (\<lambda>_.
     addKeyExchange A [] (addKeyReq serverIP cn [(''pt'', token), (''pubkey'', pubkey)] None))"

definition AddKeyDIP :: "'k api \<Rightarrow> string \<Rightarrow> string \<Rightarrow> string \<Rightarrow> string \<Rightarrow> (('k, 'm) net_scheme, addKeyResponse) prog" where
  "AddKeyDIP A serverIP cn dipToken pubkey =
     bindP (wrapErr ''create addkey client'' (outK (aCertPool A))) (\<lambda>_.
     addKeyExchange A ''DIP '' (addKeyReq serverIP cn [(''pubkey'', pubkey)]
       (Some (''dedicated_ip_'' @ dipToken, serverIP))))"

definition dipReq :: "string \<Rightarrow> string \<Rightarrow> string \<Rightarrow> request" where
  "dipReq authIP authToken body = hostMapped AuthHostname authIP
     ((baseReq ''POST'' (''https://'' @ AuthHostname @ ''/api/client/v2/dedicated_ip''))
        \<lparr>rqHeaders := [(''Content-Type'', ''application/json''), (''Authorization'', ''Token '' @ authToken)], rqBody := body\<rparr>)"

definition ResolveDIP :: "'k api \<Rightarrow> string \<Rightarrow> string \<Rightarrow> string \<Rightarrow> (('k, 'm) net_scheme, dipInfo) prog" where
  "ResolveDIP A authIP authToken dipToken =
     (case encDIP A [dipToken] of
        Inl e \<Rightarrow> throw (Errorf ''marshal request'' [e])
      | Inr body \<Rightarrow>
          bindP (wrapErr ''request failed'' (outK (aDo A (dipReq authIP authToken body)))) (\<lambda>(status, rbody).
          case rbody of
            Inl e \<Rightarrow> throw (Errorf ''read response'' [e])
          | Inr respBody \<Rightarrow>
              (if status = 401 \<or> status = 403
               then throw (Errorf (''DIP auth failed (HTTP '' @ Itoa status @ ''): '' @ respBody) [Sentinel ErrFatal])
               else if status \<noteq> 200 then throw (Errorf (''HTTP '' @ Itoa status @ '': '' @ respBody) [])
               else case decDIP A respBody of
                   Inl e \<Rightarrow> throw (Errorf ''parse response'' [e])
                 | Inr [] \<Rightarrow> throw (Errorf ''empty response'' [])
                 | Inr (d # _) \<Rightarrow>
                     (if dbStatus d \<noteq> ''active''
                      then throw (Errorf (''DIP token not active (status: '' @ dbStatus d @ '')'') [Sentinel ErrFatal])
                      else ret \<lparr>dipCN = dbCN d, dipIP = dbIP d, dipRegion = dbID d\<rparr>))))"

text \<open>The exchanges touch the network only, and a token they return is not empty.\<close>

lemma wp_GenerateToken [wp_intros]:
  assumes "\<And>tok k. tok \<noteq> [] \<Longrightarrow> Q (Inr tok) (w\<lparr>kern := k\<rparr>)" and "\<And>e k. Q (Inl e) (w\<lparr>kern := k\<rparr>)"
  shows "wp (GenerateToken A ip user pass) Q w"
  by (auto simp: GenerateToken_def split: sum.splits intro!: wp_outK assms)

lemma wp_FetchServerList [wp_intros]:
  assumes "\<And>r k. Q r (w\<lparr>kern := k\<rparr>)"
  shows "wp (FetchServerList A ip) Q w"
  by (auto simp: FetchServerList_def Let_def split: sum.splits intro!: wp_outK assms)

lemma wp_AddKey [wp_intros]:
  assumes "\<And>r k. Q r (w\<lparr>kern := k\<rparr>)"
  shows "wp (AddKey A ip cn token key) Q w"
  by (auto simp: AddKey_def addKeyExchange_def split: sum.splits intro!: wp_outK) (auto intro: assms)

lemma wp_AddKeyDIP [wp_intros]:
  assumes "\<And>r k. Q r (w\<lparr>kern := k\<rparr>)"
  shows "wp (AddKeyDIP A ip cn token key) Q w"
  by (auto simp: AddKeyDIP_def addKeyExchange_def split: sum.splits intro!: wp_outK) (auto intro: assms)

lemma wp_ResolveDIP [wp_intros]:
  assumes "\<And>r k. Q r (w\<lparr>kern := k\<rparr>)"
  shows "wp (ResolveDIP A ip token dipToken) Q w"
  using assms [of _ "kern w"] by (auto simp: ResolveDIP_def split: sum.splits list.splits intro!: wp_outK assms)

section \<open>The end of a JSON text\<close>

text \<open>JSON values and their text, as an encoder writes it; a number or literal is its own text.\<close>

datatype json = JWord string | JStr string | JArr "json list" | JObj "(string \<times> json) list"

definition escaped :: "char \<Rightarrow> string" where
  "escaped c = (if c = CHR 0x22 \<or> c = CHR 0x5C then [CHR 0x5C, c] else [c])"

definition quote :: "string \<Rightarrow> string" where
  "quote s = CHR 0x22 # concat (map escaped s) @ [CHR 0x22]"

fun renderJ :: "json \<Rightarrow> string" where
  "renderJ (JWord w) = w"
| "renderJ (JStr s) = quote s"
| "renderJ (JArr vs) = ''['' @ Join (map renderJ vs) '','' @ '']''"
| "renderJ (JObj kvs) = ''{'' @ Join (map (\<lambda>(k, v). quote k @ '':'' @ renderJ v) kvs) '','' @ ''}''"

text \<open>A word has none of the bytes the scan reacts to.\<close>

fun plainJ :: "json \<Rightarrow> bool" where
  "plainJ (JWord w) = (CHR 0x22 \<notin> set w \<and> CHR ''{'' \<notin> set w \<and> CHR ''}'' \<notin> set w)"
| "plainJ (JStr s) = True"
| "plainJ (JArr vs) = (\<forall>v \<in> set vs. plainJ v)"
| "plainJ (JObj kvs) = (\<forall>kv \<in> set kvs. plainJ (snd kv))"

lemma scan_word:
  "CHR 0x22 \<notin> set w \<Longrightarrow> CHR ''{'' \<notin> set w \<Longrightarrow> CHR ''}'' \<notin> set w \<Longrightarrow>
   jsonEnd i d False False (w @ t) = jsonEnd (i + int (length w)) d False False t"
  by (induction w arbitrary: i) (auto simp: algebra_simps)

lemma scan_quoted:
  "jsonEnd i d True False (concat (map escaped s) @ t) =
   jsonEnd (i + int (length (concat (map escaped s)))) d True False t"
  by (induction s arbitrary: i) (auto simp: algebra_simps escaped_def)

lemma scan_quote: "jsonEnd i d False False (quote s @ t) = jsonEnd (i + int (length (quote s))) d False False t"
  by (simp add: quote_def scan_quoted algebra_simps)

lemma scan_Join:
  assumes "\<And>x i t. x \<in> set xs \<Longrightarrow> jsonEnd i d False False (x @ t) = jsonEnd (i + int (length x)) d False False t"
  shows "jsonEnd i d False False (Join xs '','' @ t) = jsonEnd (i + int (length (Join xs '',''))) d False False t"
  using assms
proof (induction xs "'',''" arbitrary: i rule: Join.induct)
  case (3 s s' ss)
  have "jsonEnd i d False False (s @ '','' @ (Join (s' # ss) '','' @ t)) =
      jsonEnd (i + int (length s)) d False False ('','' @ (Join (s' # ss) '','' @ t))"
    using 3 by simp
  also have "\<dots> = jsonEnd (i + int (length s) + 1) d False False (Join (s' # ss) '','' @ t)" by simp
  also have "\<dots> = jsonEnd (i + int (length s) + 1 + int (length (Join (s' # ss) '',''))) d False False t"
    using 3 by (intro 3) auto
  finally show ?case by (simp add: algebra_simps)
qed simp_all

text \<open>Inside an object the scan passes over a value and keeps its depth.\<close>

lemma scan_value:
  "0 < d \<Longrightarrow> plainJ v \<Longrightarrow> jsonEnd i d False False (renderJ v @ t) = jsonEnd (i + int (length (renderJ v))) d False False t"
proof (induction v arbitrary: i d t)
  case (JWord w)
  then show ?case by (simp add: scan_word)
next
  case (JStr s)
  then show ?case by (simp add: scan_quote)
next
  case (JArr vs)
  have "jsonEnd (i + 1) d False False (Join (map renderJ vs) '','' @ CHR '']'' # t) =
      jsonEnd (i + 1 + int (length (Join (map renderJ vs) '',''))) d False False (CHR '']'' # t)"
    using JArr by (intro scan_Join) auto
  then show ?case by (simp add: algebra_simps)
next
  case (JObj kvs)
  have kv: "jsonEnd j (d + 1) False False (quote k @ CHR '':'' # renderJ v @ t') =
      jsonEnd (j + int (length (quote k @ CHR '':'' # renderJ v))) (d + 1) False False t'"
    if kv: "(k, v) \<in> set kvs" for j k v t'
  proof -
    have "jsonEnd (j + int (length (quote k)) + 1) (d + 1) False False (renderJ v @ t') =
        jsonEnd (j + int (length (quote k)) + 1 + int (length (renderJ v))) (d + 1) False False t'"
      using JObj.prems kv by (intro JObj.IH [OF kv]) (auto dest: bspec)
    then show ?thesis by (simp add: scan_quote algebra_simps)
  qed
  have "jsonEnd (i + 1) (d + 1) False False (Join (map (\<lambda>(k, v). quote k @ '':'' @ renderJ v) kvs) '','' @ CHR ''}'' # t) =
      jsonEnd (i + 1 + int (length (Join (map (\<lambda>(k, v). quote k @ '':'' @ renderJ v) kvs) '',''))) (d + 1) False False (CHR ''}'' # t)"
    using kv by (intro scan_Join) auto
  then show ?case using JObj.prems(1) by (simp add: algebra_simps)
qed

lemma findJSONEnd_object:
  assumes "plainJ (JObj kvs)"
  shows "findJSONEnd (renderJ (JObj kvs) @ sig) = int (length (renderJ (JObj kvs)))"
proof -
  have kv: "jsonEnd j 1 False False (quote k @ CHR '':'' # renderJ v @ t') =
      jsonEnd (j + int (length (quote k @ CHR '':'' # renderJ v))) 1 False False t'"
    if "(k, v) \<in> set kvs" for j k v t'
    using scan_value [of 1 v "j + int (length (quote k)) + 1" t'] that assms by (auto simp: scan_quote algebra_simps)
  have "jsonEnd 1 1 False False (Join (map (\<lambda>(k, v). quote k @ '':'' @ renderJ v) kvs) '','' @ CHR ''}'' # sig) =
      jsonEnd (1 + int (length (Join (map (\<lambda>(k, v). quote k @ '':'' @ renderJ v) kvs) '',''))) 1 False False (CHR ''}'' # sig)"
    using kv by (intro scan_Join) auto
  then show ?thesis by (simp add: findJSONEnd_def)
qed

section \<open>Properties\<close>

text \<open>
  C39. The signature after the server list is cut off. If PIA answers with status 200 and the
  text of a JSON object followed by any signature, then exactly the text of the object is
  decoded, and the result lists the WireGuard servers of the regions in order, each with the
  region it belongs to.
\<close>

theorem fetch_trims_signature:
  assumes "aDo A (listReq ip) (kern w) = (Inr (200, Inr (renderJ (JObj kvs) @ sig)), k)" and "plainJ (JObj kvs)"
    and "decRegions A (renderJ (JObj kvs)) = Inr regions"
  shows "FetchServerList A ip w = Some (Inr (flattenRegions regions), w\<lparr>kern := k\<rparr>)"
proof -
  have l: "0 < int (length (renderJ (JObj kvs)))" by simp
  show ?thesis
    using assms(1,3) findJSONEnd_object [OF assms(2), of sig] l
    by (simp add: FetchServerList_def bindP_def wrapErr_def outK_def ret_def Let_def del: renderJ.simps)
qed

definition demoObject :: "(string \<times> json) list" where
  "demoObject = [(''regions'', JArr [JObj []]), (''a}b'', JStr [CHR 0x22, CHR ''}''])]"

definition demoRegion :: region where
  "demoRegion = \<lparr>regID = ''us'', regName = ''US'', regPortForward = True,
     regServers = [''wg'' \<mapsto> [\<lparr>CN = ''c'', IP = ''1.2.3.4'', Region = [], RegionName = [], PF = False\<rparr>]]\<rparr>"

definition demoApi :: "nat api" where
  "demoApi = \<lparr>aDo = (\<lambda>_ n. (Inr (200, Inr (renderJ (JObj demoObject) @ ''}SIG'')), n)),
     decToken = (\<lambda>_. Inr \<lparr>tbToken = ''t'', tbMessage = []\<rparr>),
     decRegions = (\<lambda>b. if b = renderJ (JObj demoObject) then Inr [demoRegion] else Inl (Errorf [] [])),
     decAddKey = (\<lambda>_. Inl (Errorf [] [])), decDIP = (\<lambda>_. Inr []), encDIP = (\<lambda>_. Inr []), aCertPool = Pair (Inr ())\<rparr>"

theorem fetch_trims_signature_witness:
  "FetchServerList demoApi ''5.6.7.8'' \<lparr>kern = 0\<rparr> =
     Some (Inr [\<lparr>CN = ''c'', IP = ''1.2.3.4'', Region = ''us'', RegionName = ''US'', PF = True\<rparr>], \<lparr>kern = 0\<rparr>)"
proof -
  have "flattenRegions [demoRegion] = [\<lparr>CN = ''c'', IP = ''1.2.3.4'', Region = ''us'', RegionName = ''US'', PF = True\<rparr>]"
    by code_simp
  moreover have "plainJ (JObj demoObject)" by code_simp
  ultimately show ?thesis
    using fetch_trims_signature [of demoApi "''5.6.7.8''" "\<lparr>kern = 0\<rparr>" demoObject "''}SIG''" 0 "[demoRegion]"]
    by (simp add: demoApi_def)
qed

end
