(* ===== verification/Cacher.thy ===== *)
theory Cacher
  imports PiaClient Firewall
begin

text \<open>
  The cache of PIA data (\<^verbatim>\<open>internal/cacher/cacher.go\<close>): the login token with its file, the
  addresses of PIA's web hosts and the server list, and the task that refreshes them. Time is a
  count of nanoseconds since the epoch, read from the world; the token file is a part of the
  world; DNS lookups of the system are a parameter. Locks are not modelled.
\<close>

section \<open>State\<close>

definition maxCachedIPs :: nat where "maxCachedIPs = 5"
definition second :: int where "second = 1000000000"
definition maxTokenAge :: int where "maxTokenAge = 23 * 3600 * second"

text \<open>The zero \<^verbatim>\<open>time.Time\<close>: year 1.\<close>

definition zeroTime :: int where "zeroTime = - 62135596800 * second"

text \<open>
  \<open>tokenFile\<close> is what reading \<^verbatim>\<open>/run/pia-tun/token\<close> gives, \<open>writable\<close> whether its directory can be
  written; \<open>now\<close> is the clock; \<open>ctxErr\<close> is \<^verbatim>\<open>ctx.Err()\<close>.
\<close>

record 'k cw = "'k fw" +
  Token :: string
  TokenTime :: int
  AuthIPs :: "string list"
  ServerListIPs :: "string list"
  Servers :: "server list"
  tokenFile :: "err + string"
  writable :: bool
  now :: int
  ctxErr :: "err option"

text \<open>\<^verbatim>\<open>time.Since\<close>: the difference, saturated to the range of \<^verbatim>\<open>time.Duration\<close>.\<close>

definition Since :: "int \<Rightarrow> int \<Rightarrow> int" where
  "Since t n = (let d = n - t in if d > 2 ^ 63 - 1 then 2 ^ 63 - 1 else if d < - (2 ^ 63) then - (2 ^ 63) else d)"

section \<open>Merging\<close>

text \<open>The loops of \<^verbatim>\<open>mergeIPs\<close>: \<open>seen\<close> is the set of addresses taken.\<close>

fun takeNew :: "string set \<Rightarrow> string list \<Rightarrow> string list \<Rightarrow> string set \<times> string list" where
  "takeNew seen merged [] = (seen, merged)"
| "takeNew seen merged (ip # ips) =
     (if ip \<notin> seen then takeNew (insert ip seen) (merged @ [ip]) ips else takeNew seen merged ips)"

definition mergeIPs :: "string list \<Rightarrow> string list \<Rightarrow> nat \<Rightarrow> string list" where
  "mergeIPs existing newIPs mx =
     (let (seen, merged) = takeNew {} [] newIPs;
          (seen', merged') = takeNew seen merged existing
      in if length merged' > mx then take mx merged' else merged')"

definition MergeAuthIPs :: "string list \<Rightarrow> (('k, 'm) cw_scheme, unit) prog" where
  "MergeAuthIPs newIPs = modifyP (\<lambda>c. c\<lparr>AuthIPs := mergeIPs (AuthIPs c) newIPs maxCachedIPs\<rparr>)"

definition MergeServerListIPs :: "string list \<Rightarrow> (('k, 'm) cw_scheme, unit) prog" where
  "MergeServerListIPs newIPs = modifyP (\<lambda>c. c\<lparr>ServerListIPs := mergeIPs (ServerListIPs c) newIPs maxCachedIPs\<rparr>)"

text \<open>The index by common name, and one round of the loop over the new servers.\<close>

fun indexCN :: "nat \<Rightarrow> (string \<rightharpoonup> nat) \<Rightarrow> server list \<Rightarrow> (string \<rightharpoonup> nat)" where
  "indexCN i byCN [] = byCN"
| "indexCN i byCN (s # ss) = indexCN (Suc i) (byCN(CN s \<mapsto> i)) ss"

definition mergeOne :: "(string \<rightharpoonup> nat) \<times> server list \<Rightarrow> server \<Rightarrow> (string \<rightharpoonup> nat) \<times> server list" where
  "mergeOne acc srv = (let (byCN, servers) = acc in
     case byCN (CN srv) of
       Some idx \<Rightarrow> (byCN, servers[idx := srv])
     | None \<Rightarrow> (byCN(CN srv \<mapsto> length servers), servers @ [srv]))"

definition mergeServers :: "server list \<Rightarrow> server list \<Rightarrow> server list" where
  "mergeServers servers newServers = snd (foldl mergeOne (indexCN 0 Map.empty servers, servers) newServers)"

definition MergeServers :: "server list \<Rightarrow> (('k, 'm) cw_scheme, unit) prog" where
  "MergeServers newServers = modifyP (\<lambda>c. c\<lparr>Servers := mergeServers (Servers c) newServers\<rparr>)"

section \<open>The token\<close>

definition GetToken :: "(('k, 'm) cw_scheme, string) prog" where
  "GetToken = getsP Token"

definition TokenFresh :: "(('k, 'm) cw_scheme, bool \<times> int) prog" where
  "TokenFresh = getsP (\<lambda>c. let age = Since (TokenTime c) (now c) in (Token c \<noteq> [] \<and> age < maxTokenAge, age))"

definition SetToken :: "string \<Rightarrow> (('k, 'm) cw_scheme, unit) prog" where
  "SetToken token = modifyP (\<lambda>c. let content = token @ [CHR 0x0A] @ Itoa (now c div second) @ [CHR 0x0A] in
     c\<lparr>tokenFile := (if writable c then Inr content else tokenFile c), Token := token, TokenTime := now c\<rparr>)"

definition removeToken :: "('k, 'm) cw_scheme \<Rightarrow> ('k, 'm) cw_scheme" where
  "removeToken c = (if writable c then c\<lparr>tokenFile := Inl (Sentinel ErrNotExist)\<rparr> else c)"

definition ClearToken :: "(('k, 'm) cw_scheme, unit) prog" where
  "ClearToken = modifyP (\<lambda>c. (removeToken c)\<lparr>Token := [], TokenTime := zeroTime\<rparr>)"

definition ClearServerListIPs :: "(('k, 'm) cw_scheme, unit) prog" where
  "ClearServerListIPs = modifyP (\<lambda>c. c\<lparr>ServerListIPs := []\<rparr>)"

definition readTokenFile :: "('k, 'm) cw_scheme \<Rightarrow> err + (string \<times> int)" where
  "readTokenFile c = (case tokenFile c of
       Inl e \<Rightarrow> Inl e
     | Inr content \<Rightarrow> (case SplitN2 (CHR 0x0A) (TrimSpace content) of
           [l0, l1] \<Rightarrow> (case ParseInt l1 of
               None \<Rightarrow> Inl (Errorf ''invalid timestamp'' [])
             | Some unixSec \<Rightarrow> Inr (l0, unixSec * second))
         | _ \<Rightarrow> Inl (Errorf ''malformed token file'' [])))"

text \<open>\<^verbatim>\<open>New\<close>: the cache starts empty but for a persisted token that is not too old.\<close>

definition emptyCache :: "('k, 'm) cw_scheme \<Rightarrow> ('k, 'm) cw_scheme" where
  "emptyCache c = c\<lparr>Token := [], TokenTime := zeroTime, AuthIPs := [], ServerListIPs := [], Servers := []\<rparr>"

definition NewCache :: "(('k, 'm) cw_scheme, unit) prog" where
  "NewCache = modifyP (\<lambda>c. case readTokenFile c of
       Inl _ \<Rightarrow> emptyCache c
     | Inr (token, timestamp) \<Rightarrow>
         (if Since timestamp (now c) > maxTokenAge then emptyCache (removeToken c)
          else (emptyCache c)\<lparr>Token := token, TokenTime := timestamp\<rparr>))"

section \<open>Refreshing\<close>

text \<open>
  \<open>lookup\<close> stands for the system resolver: the IPv4 addresses of a host. The context is checked
  before each of the two parts; the last error is the result.
\<close>

definition checkCtx :: "(('k, 'm) cw_scheme, unit) prog" where
  "checkCtx = bindP (getsP ctxErr) (\<lambda>e. case e of None \<Rightarrow> ret () | Some e \<Rightarrow> throw e)"

definition refreshToken :: "'k api \<Rightarrow> (string \<Rightarrow> 'k \<Rightarrow> (err + string list) \<times> 'k) \<Rightarrow> string \<Rightarrow> string \<Rightarrow>
    (('k, 'm) cw_scheme, err option) prog" where
  "refreshToken A lookup user pass =
     bindP (tryP (outK (lookup AuthHostname))) (\<lambda>r. case r of
       Inl e \<Rightarrow> ret (Some e)
     | Inr authIPs \<Rightarrow>
         bindP (MergeAuthIPs authIPs) (\<lambda>_.
         bindP (tryP (GenerateToken A AuthHostname user pass)) (\<lambda>r. case r of
             Inl e \<Rightarrow> ret (Some e)
           | Inr token \<Rightarrow> bindP (SetToken token) (\<lambda>_. ret None))))"

definition refreshServers :: "'k api \<Rightarrow> (string \<Rightarrow> 'k \<Rightarrow> (err + string list) \<times> 'k) \<Rightarrow> (('k, 'm) cw_scheme, err option) prog" where
  "refreshServers A lookup =
     bindP (tryP (outK (lookup ServerlistHostname))) (\<lambda>r. case r of
       Inl e \<Rightarrow> ret (Some e)
     | Inr slIPs \<Rightarrow>
         bindP (MergeServerListIPs slIPs) (\<lambda>_.
         bindP (tryP (FetchServerList A ServerlistHostname)) (\<lambda>r. case r of
             Inl e \<Rightarrow> ret (Some e)
           | Inr servers \<Rightarrow> bindP (MergeServers servers) (\<lambda>_. ret None))))"

definition refreshAll :: "'k api \<Rightarrow> (string \<Rightarrow> 'k \<Rightarrow> (err + string list) \<times> 'k) \<Rightarrow> string \<Rightarrow> string \<Rightarrow>
    (('k, 'm) cw_scheme, unit) prog" where
  "refreshAll A lookup user pass =
     bindP checkCtx (\<lambda>_.
     bindP (refreshToken A lookup user pass) (\<lambda>e1.
     bindP checkCtx (\<lambda>_.
     bindP (refreshServers A lookup) (\<lambda>e2.
     case (case e2 of Some e \<Rightarrow> Some e | None \<Rightarrow> e1) of None \<Rightarrow> ret () | Some e \<Rightarrow> throw e))))"

text \<open>The attempts of one scheduled refresh in \<^verbatim>\<open>Run\<close>; an error ends it only when the context is done.\<close>

fun refreshAttempts :: "nat \<Rightarrow> 'k api \<Rightarrow> (string \<Rightarrow> 'k \<Rightarrow> (err + string list) \<times> 'k) \<Rightarrow> string \<Rightarrow> string \<Rightarrow>
    (('k, 'm) cw_scheme, unit) prog" where
  "refreshAttempts 0 A lookup user pass = ret ()"
| "refreshAttempts (Suc n) A lookup user pass =
     bindP (tryP (refreshAll A lookup user pass)) (\<lambda>r. case r of
       Inr _ \<Rightarrow> ret ()
     | Inl _ \<Rightarrow> bindP checkCtx (\<lambda>_. refreshAttempts n A lookup user pass))"

definition scheduledRefresh :: "'k api \<Rightarrow> (string \<Rightarrow> 'k \<Rightarrow> (err + string list) \<times> 'k) \<Rightarrow> string \<Rightarrow> string \<Rightarrow>
    (('k, 'm) cw_scheme, unit) prog" where
  "scheduledRefresh = refreshAttempts 3"

section \<open>Merging, against its specification\<close>

abbreviation firsts :: "string list \<Rightarrow> string list" where
  "firsts \<equiv> firstsBy (\<lambda>x. x)"

lemma takeNew_eq: "takeNew seen m xs = (seen \<union> set xs, m @ filter (\<lambda>x. x \<notin> seen) (firsts xs))"
proof (induction xs arbitrary: seen m)
  case (Cons x xs)
  have "filter (\<lambda>y. y \<notin> insert x seen) (firsts xs) = filter (\<lambda>y. y \<noteq> x \<and> y \<notin> seen) (firsts xs)"
    by (rule filter_cong) auto
  moreover have "filter (\<lambda>y. y \<noteq> x \<and> y \<notin> seen) (firsts xs) = filter (\<lambda>y. y \<notin> seen) (firsts xs)" if "x \<in> seen"
    using that by (intro filter_cong) auto
  ultimately show ?case using Cons by (auto simp: conj_commute)
qed simp

lemma mergeIPs_eq: "mergeIPs existing newIPs mx = take mx (firsts (newIPs @ existing))"
  by (simp add: mergeIPs_def takeNew_eq firstsBy_append Let_def)

lemma mergeIPs_bounds:
  "length (mergeIPs existing newIPs mx) \<le> mx" "distinct (mergeIPs existing newIPs mx)"
  using firstsBy_distinct [of "\<lambda>x. x" "newIPs @ existing"] by (simp_all add: mergeIPs_eq distinct_take)

text \<open>The list of servers as a map from common names.\<close>

definition byName :: "server list \<Rightarrow> string \<rightharpoonup> server" where
  "byName ss = map_of (map (\<lambda>s. (CN s, s)) ss)"

definition putName :: "(string \<rightharpoonup> server) \<Rightarrow> server \<Rightarrow> string \<rightharpoonup> server" where
  "putName m s = m(CN s \<mapsto> s)"

text \<open>The index agrees with the list.\<close>

definition indexed :: "(string \<rightharpoonup> nat) \<Rightarrow> server list \<Rightarrow> bool" where
  "indexed byCN ss \<longleftrightarrow> dom byCN = CN ` set ss \<and>
     (\<forall>cn i. byCN cn = Some i \<longrightarrow> i < length ss \<and> CN (ss ! i) = cn)"

lemma indexCN_Some:
  "indexCN i m ss cn = Some j \<Longrightarrow> (\<exists>k < length ss. j = i + k \<and> CN (ss ! k) = cn) \<or> m cn = Some j \<and> cn \<notin> CN ` set ss"
proof (induction ss arbitrary: i m)
  case (Cons s ss)
  from Cons.IH [OF Cons.prems [unfolded indexCN.simps]] show ?case
  proof
    assume "\<exists>k < length ss. j = Suc i + k \<and> CN (ss ! k) = cn"
    then obtain k where "k < length ss" "j = Suc i + k" "CN (ss ! k) = cn" by blast
    then show ?thesis by (intro disjI1 exI [of _ "Suc k"]) simp
  qed (auto split: if_splits)
qed simp

lemma indexCN_dom: "dom (indexCN i m ss) = dom m \<union> CN ` set ss"
  by (induction ss arbitrary: i m) auto

lemma indexed_indexCN: "indexed (indexCN 0 Map.empty ss) ss"
  by (auto simp: indexed_def indexCN_dom dest: indexCN_Some)

lemma update_same_name: "i < length ss \<Longrightarrow> CN (ss ! i) = CN srv \<Longrightarrow> map CN (ss[i := srv]) = map CN ss"
  by (rule nth_equalityI) (auto simp: nth_list_update)

lemma indexed_update:
  assumes "indexed m ss" and "m (CN srv) = Some i"
  shows "indexed m (ss[i := srv])"
proof -
  have i: "i < length ss" "CN (ss ! i) = CN srv" using assms by (auto simp: indexed_def)
  have "CN ` set (ss[i := srv]) = CN ` set ss"
    using arg_cong [OF update_same_name [OF i], of set] by simp
  moreover have "j < length ss \<and> CN (ss[i := srv] ! j) = cn" if "m cn = Some j" for cn j
    using assms(1) that i by (cases "i = j") (auto simp: indexed_def)
  ultimately show ?thesis using assms(1) by (simp add: indexed_def)
qed

lemma indexed_append:
  assumes "indexed m ss"
  shows "indexed (m(CN srv \<mapsto> length ss)) (ss @ [srv])"
proof -
  have "j < Suc (length ss) \<and> CN ((ss @ [srv]) ! j) = cn" if "(m(CN srv \<mapsto> length ss)) cn = Some j" for cn j
    using assms that by (cases "cn = CN srv") (auto simp: indexed_def nth_append less_Suc_eq)
  then show ?thesis using assms by (simp add: indexed_def)
qed

lemma byName_append: "CN srv \<notin> CN ` set ss \<Longrightarrow> byName (ss @ [srv]) = putName (byName ss) srv"
  unfolding byName_def putName_def by (rule map_of_key_append)

text \<open>One round: either the entry of that name is replaced, or the server is appended.\<close>

lemma mergeOne_cases:
  assumes "indexed m ss"
  obtains i where "CN srv \<in> CN ` set ss" "m (CN srv) = Some i" "i < length ss" "CN (ss ! i) = CN srv"
      "mergeOne (m, ss) srv = (m, ss[i := srv])"
  | "CN srv \<notin> CN ` set ss" "mergeOne (m, ss) srv = (m(CN srv \<mapsto> length ss), ss @ [srv])"
proof (cases "m (CN srv)")
  case None
  then have "CN srv \<notin> dom m" by blast
  then have "CN srv \<notin> CN ` set ss" using assms by (simp add: indexed_def)
  then show ?thesis using None that(2) by (simp add: mergeOne_def)
next
  case (Some i)
  then have "CN srv \<in> dom m" by blast
  then have "CN srv \<in> CN ` set ss" "i < length ss" "CN (ss ! i) = CN srv"
    using assms Some by (auto simp: indexed_def)
  then show ?thesis using Some that(1) by (simp add: mergeOne_def)
qed

lemma mergeOne_step:
  assumes "indexed m ss" and "mergeOne (m, ss) srv = (m', ss')"
  shows "indexed m' ss' \<and> map CN ss' = map CN ss @ (if CN srv \<in> CN ` set ss then [] else [CN srv]) \<and>
    (distinct (map CN ss) \<longrightarrow> byName ss' = putName (byName ss) srv)"
  using assms(1)
proof (cases rule: mergeOne_cases [where srv = srv])
  case (1 i)
  then show ?thesis
    using assms indexed_update [OF assms(1), of srv i] update_same_name [of i ss srv] map_of_update [of i ss CN srv]
    by (simp add: byName_def putName_def)
next
  case 2
  then show ?thesis
    using assms indexed_append [OF assms(1), of srv] byName_append [of srv ss] by simp
qed

lemma foldl_mergeOne:
  assumes "indexed byCN ss" and "foldl mergeOne (byCN, ss) new = (byCN', ss')"
  shows "map CN ss' = map CN ss @ filter (\<lambda>cn. cn \<notin> CN ` set ss) (firsts (map CN new))"
    and "distinct (map CN ss) \<Longrightarrow> byName ss' = foldl putName (byName ss) new"
proof -
  have "map CN ss' = map CN ss @ filter (\<lambda>cn. cn \<notin> CN ` set ss) (firsts (map CN new)) \<and>
      (distinct (map CN ss) \<longrightarrow> byName ss' = foldl putName (byName ss) new)"
    using assms
  proof (induction new arbitrary: byCN ss)
    case (Cons srv new)
    obtain b1 s1 where m: "mergeOne (byCN, ss) srv = (b1, s1)" by fastforce
    have step: "indexed b1 s1" "map CN s1 = map CN ss @ (if CN srv \<in> CN ` set ss then [] else [CN srv])"
        "distinct (map CN ss) \<Longrightarrow> byName s1 = putName (byName ss) srv"
      using mergeOne_step [OF Cons.prems(1) m] by blast+
    have img: "CN ` set s1 = insert (CN srv) (CN ` set ss)"
      using arg_cong [OF step(2), of set] by (simp add: insert_absorb split: if_splits)
    have dist: "distinct (map CN ss) \<Longrightarrow> distinct (map CN s1)"
      unfolding step(2) by simp
    have filt: "filter (\<lambda>cn. cn \<notin> CN ` set s1) xs = filter (\<lambda>cn. cn \<notin> CN ` set ss) (filter (\<lambda>y. y \<noteq> CN srv) xs)" for xs
      by (simp add: img conj_commute)
    have "map CN ss' = map CN s1 @ filter (\<lambda>cn. cn \<notin> CN ` set s1) (firsts (map CN new)) \<and>
        (distinct (map CN s1) \<longrightarrow> byName ss' = foldl putName (byName s1) new)"
      using Cons.prems(2) m by (intro Cons.IH [OF step(1)]) simp
    then show ?case
      unfolding filt using step(2,3) dist by (simp split: if_splits)
  qed (auto simp: indexed_def)
  then show "map CN ss' = map CN ss @ filter (\<lambda>cn. cn \<notin> CN ` set ss) (firsts (map CN new))"
    and "distinct (map CN ss) \<Longrightarrow> byName ss' = foldl putName (byName ss) new" by blast+
qed

lemma mergeServers_names:
  "map CN (mergeServers old new) = map CN old @ filter (\<lambda>cn. cn \<notin> CN ` set old) (firsts (map CN new))"
  unfolding mergeServers_def
  using foldl_mergeOne(1) [OF indexed_indexCN, of old new] by (metis prod.collapse)

lemma mergeServers_lookup:
  "distinct (map CN old) \<Longrightarrow> byName (mergeServers old new) = byName old ++ byName (rev new)"
proof -
  assume d: "distinct (map CN old)"
  obtain b s where m: "foldl mergeOne (indexCN 0 Map.empty old, old) new = (b, s)" by fastforce
  have "putName = (\<lambda>m s. m(CN s \<mapsto> s))" by (intro ext) (simp add: putName_def)
  then show ?thesis
    using foldl_mergeOne(2) [OF indexed_indexCN m d] m foldl_map_upd [of CN "byName old" new]
    by (simp add: mergeServers_def byName_def)
qed

lemma mergeServers_distinct: "distinct (map CN old) \<Longrightarrow> distinct (map CN (mergeServers old new))"
  using firstsBy_distinct [of "\<lambda>x. x" "map CN new"] by (simp add: mergeServers_names) auto

section \<open>What every operation keeps\<close>

definition cacheOK :: "('k, 'm) cw_scheme \<Rightarrow> bool" where
  "cacheOK c \<longleftrightarrow> distinct (AuthIPs c) \<and> length (AuthIPs c) \<le> maxCachedIPs \<and>
     distinct (ServerListIPs c) \<and> length (ServerListIPs c) \<le> maxCachedIPs \<and> distinct (map CN (Servers c))"

text \<open>
  \<open>grown c0 c\<close>: since \<open>c0\<close> no server was lost or moved, and the token is the old one or a
  non-empty one set now.
\<close>

definition grown :: "('k, 'm) cw_scheme \<Rightarrow> ('k, 'm) cw_scheme \<Rightarrow> bool" where
  "grown c0 c \<longleftrightarrow> prefix (map CN (Servers c0)) (map CN (Servers c)) \<and> now c = now c0 \<and>
     (Token c = Token c0 \<and> TokenTime c = TokenTime c0 \<or> Token c \<noteq> [] \<and> TokenTime c = now c0)"

lemma cacheOK_kern [simp]: "cacheOK (c\<lparr>kern := k\<rparr>) = cacheOK c"
  by (simp add: cacheOK_def)

lemma grown_kern [simp]: "grown c0 (c\<lparr>kern := k\<rparr>) = grown c0 c"
  by (simp add: grown_def)

lemma grown_refl [simp]: "grown c c"
  by (simp add: grown_def)

abbreviation kept :: "('k, 'm) cw_scheme \<Rightarrow> ('k, 'm) cw_scheme \<Rightarrow> bool" where
  "kept c0 c \<equiv> cacheOK c \<and> grown c0 c"

lemma keeps_checkCtx [intro]: "keeps I checkCtx"
  by (rule keepsI) (simp add: checkCtx_def split: option.splits)

lemma keeps_outK [intro]: "keeps (kept c0) (outK f)"
  by (rule keepsI) (auto intro: wp_outK)

lemma keeps_MergeAuthIPs [intro]: "keeps (kept c0) (MergeAuthIPs ips)"
  by (rule keepsI) (simp add: MergeAuthIPs_def cacheOK_def grown_def mergeIPs_bounds)

lemma keeps_MergeServerListIPs [intro]: "keeps (kept c0) (MergeServerListIPs ips)"
  by (rule keepsI) (simp add: MergeServerListIPs_def cacheOK_def grown_def mergeIPs_bounds)

lemma mergeServers_prefix: "prefix xs (map CN old) \<Longrightarrow> prefix xs (map CN (mergeServers old new))"
  by (simp add: mergeServers_names prefix_prefix)

lemma keeps_MergeServers [intro]: "keeps (kept c0) (MergeServers ss)"
  by (rule keepsI) (simp add: MergeServers_def cacheOK_def grown_def mergeServers_distinct mergeServers_prefix)

lemma keeps_FetchServerList [intro]: "keeps (kept c0) (FetchServerList A ip)"
  by (rule keepsI) (auto intro: wp_FetchServerList)

lemma keeps_SetToken [intro]: "tok \<noteq> [] \<Longrightarrow> keeps (kept c0) (SetToken tok)"
  by (rule keepsI) (simp add: SetToken_def Let_def cacheOK_def grown_def)

lemma keeps_new_token [intro]:
  "keeps (kept c0) (bindP (tryP (GenerateToken A ip user pass)) (\<lambda>r. case r of
     Inl e \<Rightarrow> ret (Some e) | Inr token \<Rightarrow> bindP (SetToken token) (\<lambda>_. ret None)))"
  by (rule keepsI) (auto intro!: wp_GenerateToken wp_keeps [OF keeps_SetToken [of _ c0]] split: sum.splits)

lemma keeps_refreshToken [intro]: "keeps (kept c0) (refreshToken A lookup user pass)"
  unfolding refreshToken_def by (rule keeps_bindP) (auto split: sum.split)

lemma keeps_refreshServers [intro]: "keeps (kept c0) (refreshServers A lookup)"
  unfolding refreshServers_def
  by (rule keeps_bindP) (auto split: sum.split intro!: keeps_bindP)

lemma keeps_refreshAll [intro]: "keeps (kept c0) (refreshAll A lookup user pass)"
  unfolding refreshAll_def by (intro keeps_bindP keeps_checkCtx keeps_refreshToken keeps_refreshServers)
    (simp split: option.splits)

lemma keeps_refreshAttempts: "keeps (kept c0) (refreshAttempts n A lookup user pass)"
proof (induction n)
  case (Suc n)
  show ?case
    unfolding refreshAttempts.simps
    by (intro keeps_bindP keeps_tryP keeps_refreshAll) (auto split: sum.split intro!: keeps_bindP Suc)
qed simp

section \<open>Properties\<close>

text \<open>
  C19. A refresh never spoils the cache. Whatever PIA, the resolver and the context answer, a
  scheduled refresh returns; afterwards both address lists are still free of duplicates and
  have at most five entries, no two servers share a common name, every server known before is
  still known at its old position, and the token is the old one or a new one just set.
\<close>

theorem refresh_keeps_cache:
  assumes "cacheOK c"
  shows "\<exists>r c'. scheduledRefresh A lookup user pass c = Some (r, c') \<and> cacheOK c' \<and>
    prefix (map CN (Servers c)) (map CN (Servers c')) \<and>
    (Token c' = Token c \<and> TokenTime c' = TokenTime c \<or> Token c' \<noteq> [] \<and> TokenTime c' = now c)"
  using keeps_run [OF keeps_refreshAttempts [of c 3 A lookup user pass], of c] assms
  unfolding scheduledRefresh_def by (auto simp: grown_def)

definition demoServer :: "string \<Rightarrow> string \<Rightarrow> server" where
  "demoServer cn ip = \<lparr>CN = cn, IP = ip, Region = ''us'', RegionName = ''US'', PF = True\<rparr>"

definition demoCache :: "nat cw" where
  "demoCache = \<lparr>kern = 0, ipt4Cmd = [], ipt6Cmd = [], active = True, activePort = 0,
     Token = ''old'', TokenTime = 5, AuthIPs = [''1.1.1.1''], ServerListIPs = [],
     Servers = [demoServer ''a'' ''1'', demoServer ''b'' ''2''],
     tokenFile = Inl (Sentinel ErrNotExist), writable = True, now = 1700000000 * second + 7, ctxErr = None\<rparr>"

lemma demoCache_ok: "cacheOK demoCache"
  by (simp add: cacheOK_def demoCache_def maxCachedIPs_def demoServer_def)

theorem refresh_keeps_cache_witness:
  "\<exists>r c'. scheduledRefresh demoApi (\<lambda>h k. (Inr [''9.9.9.9''], Suc k)) ''u'' ''p'' demoCache = Some (r, c') \<and>
    cacheOK c' \<and> prefix (map CN (Servers demoCache)) (map CN (Servers c')) \<and>
    (Token c' = Token demoCache \<and> TokenTime c' = TokenTime demoCache \<or>
     Token c' \<noteq> [] \<and> TokenTime c' = now demoCache)"
  by (rule refresh_keeps_cache [OF demoCache_ok])

text \<open>
  Merging addresses. The cached addresses of a host become the first five different ones
  of the new addresses followed by the old ones, in that order.
\<close>

lemma merge_addresses:
  "MergeAuthIPs newIPs c = Some (Inr (), c\<lparr>AuthIPs := take 5 (firstsBy (\<lambda>x. x) (newIPs @ AuthIPs c))\<rparr>) \<and>
   MergeServerListIPs newIPs c =
     Some (Inr (), c\<lparr>ServerListIPs := take 5 (firstsBy (\<lambda>x. x) (newIPs @ ServerListIPs c))\<rparr>)"
  by (simp add: MergeAuthIPs_def MergeServerListIPs_def modifyP_def mergeIPs_eq maxCachedIPs_def)

text \<open>
  C22. Merging servers refines the update of a map from common names: the merged list holds for
  every name the last new server of that name, or the old one if there is none; old servers
  keep their positions and new names are appended in the order they come in.
\<close>

theorem merge_servers_refines:
  assumes "distinct (map CN (Servers c))"
  shows "\<exists>ss. MergeServers new c = Some (Inr (), c\<lparr>Servers := ss\<rparr>) \<and>
    byName ss = byName (Servers c) ++ byName (rev new) \<and> distinct (map CN ss) \<and>
    map CN ss = map CN (Servers c) @ filter (\<lambda>cn. cn \<notin> CN ` set (Servers c)) (firstsBy (\<lambda>x. x) (map CN new))"
proof (intro exI [of _ "mergeServers (Servers c) new"] conjI)
  show "MergeServers new c = Some (Inr (), c\<lparr>Servers := mergeServers (Servers c) new\<rparr>)"
    by (simp add: MergeServers_def modifyP_def)
qed (fact mergeServers_lookup [OF assms] mergeServers_distinct [OF assms] mergeServers_names)+

theorem merge_servers_refines_witness:
  "\<exists>ss. MergeServers [demoServer ''b'' ''3'', demoServer ''c'' ''4'', demoServer ''b'' ''5''] demoCache =
      Some (Inr (), demoCache\<lparr>Servers := ss\<rparr>) \<and>
    byName ss ''b'' = Some (demoServer ''b'' ''5'') \<and> map CN ss = [''a'', ''b'', ''c'']"
proof -
  have d: "distinct (map CN (Servers demoCache))" using demoCache_ok by (simp add: cacheOK_def)
  show ?thesis
    using merge_servers_refines [OF d, of "[demoServer ''b'' ''3'', demoServer ''c'' ''4'', demoServer ''b'' ''5'']"]
    by (auto simp: demoCache_def demoServer_def byName_def)
qed

text \<open>
  The token survives a restart. If the directory can be written and the token is one line
  without white space at its ends, then a cache built later holds the token that was set, with
  its age counted from the second it was set in, unless more than 23 hours have passed: then
  the cache is empty and the file is gone.
\<close>

lemma token_survives_restart:
  assumes "writable c" and "token \<noteq> []" and "CHR 0x0A \<notin> set token"
    and "\<not> isSpace (hd token)" and "inInt64 (now c div second)"
  shows "\<exists>c'. bindP (SetToken token) (\<lambda>_. bindP (modifyP (\<lambda>c. c\<lparr>now := t\<rparr>)) (\<lambda>_. NewCache)) c = Some (Inr (), c') \<and>
    (let start = now c div second * second in
     if Since start t \<le> 23 * 60 * 60 * 1000000000 then Token c' = token \<and> TokenTime c' = start
     else Token c' = [] \<and> TokenTime c' = zeroTime \<and> tokenFile c' = Inl (Sentinel ErrNotExist))"
proof -
  let ?u = "Itoa (now c div second)"
  have dig: "isDigit x \<Longrightarrow> \<not> isSpace x" for x by (auto simp: isDigit_def isSpace_def)
  have "\<forall>x \<in> set ?u. \<not> isSpace x" using Itoa_chars dig by (fastforce simp: isSpace_def)
  moreover have ne: "?u \<noteq> []" by (simp add: Itoa_def)
  ultimately have "\<not> isSpace (last (token @ CHR 0x0A # ?u))" by (metis last_appendR last_ConsR last_in_set list.distinct(1))
  then have "TrimSpace (token @ CHR 0x0A # ?u @ [CHR 0x0A]) = token @ CHR 0x0A # ?u"
    using assms(2,4) TrimSpace_snoc [of "CHR 0x0A" "token @ CHR 0x0A # ?u"] TrimSpace_id [of "token @ CHR 0x0A # ?u"]
    by (simp add: isSpace_def)
  then have "readTokenFile (c\<lparr>tokenFile := Inr (token @ CHR 0x0A # ?u @ [CHR 0x0A]), Token := token, TokenTime := now c, now := t\<rparr>) =
      Inr (token, now c div second * second)"
    using assms(3,5) by (simp add: readTokenFile_def SplitN2_append ParseInt_Itoa)
  then show ?thesis
    using assms(1) by (simp add: bindP_def SetToken_def modifyP_def NewCache_def Let_def emptyCache_def
        removeToken_def maxTokenAge_def second_def)
qed

lemma token_survives_restart_witness:
  "\<exists>c'. bindP (SetToken ''tok'') (\<lambda>_. bindP (modifyP (\<lambda>c. c\<lparr>now := 1700000060 * second\<rparr>)) (\<lambda>_. NewCache)) demoCache =
     Some (Inr (), c') \<and> Token c' = ''tok'' \<and> TokenTime c' = 1700000000 * second"
proof -
  have n: "now demoCache div second = 1700000000" by (simp add: demoCache_def second_def)
  have "writable demoCache" by (simp add: demoCache_def)
  moreover have "inInt64 (now demoCache div second)" unfolding n by (simp add: inInt64_def)
  ultimately show ?thesis
    using token_survives_restart [of demoCache "''tok''" "1700000060 * second"]
    unfolding n by (simp add: isSpace_def Since_def second_def Let_def)
qed

end
