(* ===== verification/World.thy ===== *)
theory World
  imports Routing
begin

text \<open>
  What pia-tun uses of its host besides iptables and \<^verbatim>\<open>ip rule\<close>: commands with an input, files,
  DNS lookups, TCP connections and timers. As the iptables operations they are parameters on
  the opaque state of the host. The locale \<open>host_world\<close> says what the code relies on: none of
  them touches the chains or the policy rules, and waiting for a deadline ends.
\<close>

section \<open>The interface\<close>

text \<open>The answer to one lookup: addresses, \<^verbatim>\<open>IsNotFound\<close>, or another error.\<close>

datatype lookup = Found "string list" | NotFound | LookupErr err

text \<open>What a \<^verbatim>\<open>select\<close> over a deadline, a context and an interval picked.\<close>

datatype wait = Deadline | CtxDone err | Tick

text \<open>What the loop of \<^verbatim>\<open>raceServers\<close> receives: a latency, or the firing of a timer.\<close>

datatype raceEvent = Result nat int | AllDone | MinTimer | MaxTimer | RaceCtxDone

text \<open>
  \<open>sRunIn\<close> and \<open>sOutIn\<close> run a command with an input (the first gives its error and what it wrote
  to stderr); \<open>sLookups server hosts\<close> are the parallel lookups of one query, in the order their
  answers arrive; \<open>sRace addresses\<close> is what the loop over the parallel connections receives;
  \<open>sBefore\<close> tells whether the deadline is still ahead; \<open>sSleep\<close> waits for an interval or for the
  context, whose error it gives; \<open>sFetchIPs\<close> are the answers of several web services (an error,
  or a status and a body, with the address asked), in the order they arrive.
\<close>

record 'k sysops =
  sRunIn :: "string list \<Rightarrow> string \<Rightarrow> 'k \<Rightarrow> (err option \<times> string) \<times> 'k"
  sOutIn :: "string list \<Rightarrow> string \<Rightarrow> 'k \<Rightarrow> (err + string) \<times> 'k"
  sStart :: "string list \<Rightarrow> 'k \<Rightarrow> err option \<times> 'k"
  sOutputOf :: "string list \<Rightarrow> 'k \<Rightarrow> string \<times> 'k"
  sStat :: "string \<Rightarrow> 'k \<Rightarrow> err option \<times> 'k"
  sMkdirAll :: "string \<Rightarrow> 'k \<Rightarrow> err option \<times> 'k"
  sChmod :: "string \<Rightarrow> nat \<Rightarrow> 'k \<Rightarrow> err option \<times> 'k"
  sRemove :: "string \<Rightarrow> 'k \<Rightarrow> err option \<times> 'k"
  sWait :: "'k \<Rightarrow> wait \<times> 'k"
  sLookups :: "string \<Rightarrow> string list \<Rightarrow> 'k \<Rightarrow> (string \<times> lookup) list \<times> 'k"
  sRace :: "string list \<Rightarrow> 'k \<Rightarrow> raceEvent list \<times> 'k"
  sBefore :: "'k \<Rightarrow> bool \<times> 'k"
  sSleep :: "'k \<Rightarrow> err option \<times> 'k"
  sFetchIPs :: "string list \<Rightarrow> 'k \<Rightarrow> (string \<times> (err + (int \<times> (err + string)))) list \<times> 'k"

text \<open>A step of the host that cannot fail.\<close>

definition askK :: "('k \<Rightarrow> 'a \<times> 'k) \<Rightarrow> (('k, 'm) net_scheme, 'a) prog" where
  "askK c w = (case c (kern w) of (a, k) \<Rightarrow> Some (Inr a, w\<lparr>kern := k\<rparr>))"

lemma wp_askK:
  assumes "\<And>a k'. c (kern w) = (a, k') \<Longrightarrow> Q (Inr a) (w\<lparr>kern := k'\<rparr>)"
  shows "wp (askK c) Q w"
  using assms by (auto simp: wp_def askK_def split: prod.splits)

text \<open>A program that works on the host only leaves the rest of the state as it was.\<close>

definition hostOnly :: "('k, 'm) net_scheme \<Rightarrow> ('k, 'm) net_scheme \<Rightarrow> bool" where
  "hostOnly w0 w \<longleftrightarrow> w = w0\<lparr>kern := kern w\<rparr>"

lemma hostOnly_refl [simp]: "hostOnly w w"
  by (simp add: hostOnly_def)

lemma hostOnly_kern: "hostOnly w0 w \<Longrightarrow> hostOnly w0 (w\<lparr>kern := k\<rparr>)"
  unfolding hostOnly_def by (metis (no_types, lifting) net.select_convs(1) net.surjective net.update_convs(1))

lemma hostOnly_prims [simp, intro]:
  "keeps (hostOnly w0) (runK c)" "keeps (hostOnly w0) (outK d)" "keeps (hostOnly w0) (askK g)"
  by (rule keepsI; auto intro!: wp_runK wp_outK wp_askK hostOnly_kern)+

lemma hostOnly_exempt [simp, intro]:
  "keeps (hostOnly w0) (AddExemption N ip port proto comment)" "keeps (hostOnly w0) (AddExemptions N specs)"
  "keeps (hostOnly w0) (RemoveExemptions N)"
  unfolding AddExemption_def AddExemptions_def RemoveExemptions_def createExemptChain_def by blast+

section \<open>What the code relies on\<close>

text \<open>\<open>quiet rel f\<close>: the step \<open>f\<close> leads from a state to one that \<open>rel\<close> relates to it.\<close>

definition quiet :: "('k \<Rightarrow> 'k \<Rightarrow> bool) \<Rightarrow> ('k \<Rightarrow> 'a \<times> 'k) \<Rightarrow> bool" where
  "quiet rel f \<longleftrightarrow> (\<forall>k. rel k (snd (f k)))"

lemma quietD: "quiet rel f \<Longrightarrow> f k = (a, k') \<Longrightarrow> rel k k'"
  by (auto simp: quiet_def dest: spec [of _ k])

lemma quietI: "(\<And>k a k'. f k = (a, k') \<Longrightarrow> rel k k') \<Longrightarrow> quiet rel f"
  by (auto simp: quiet_def) (metis prod.collapse)

text \<open>Quiet steps keep a world related to where it started.\<close>

lemma keeps_quiet:
  assumes "quiet rel f" and "transp rel"
  shows "keeps (\<lambda>w. rel k0 (kern w)) (askK f)"
  by (rule keepsI) (auto intro!: wp_askK dest!: quietD [OF assms(1)] intro: transpD [OF assms(2)])

lemma keeps_runK_quiet:
  assumes "quiet rel f" and "transp rel"
  shows "keeps (\<lambda>w. rel k0 (kern w)) (runK f)"
  by (rule keepsI) (auto intro!: wp_runK dest!: quietD [OF assms(1)] intro: transpD [OF assms(2)])

lemma keeps_outK_quiet:
  assumes "quiet rel f" and "transp rel"
  shows "keeps (\<lambda>w. rel k0 (kern w)) (outK f)"
  by (rule keepsI) (auto intro!: wp_outK dest!: quietD [OF assms(1)] intro: transpD [OF assms(2)])

definition sys_quiet :: "('k \<Rightarrow> 'k \<Rightarrow> bool) \<Rightarrow> 'k sysops \<Rightarrow> bool" where
  "sys_quiet rel S \<longleftrightarrow> (\<forall>a i. quiet rel (sRunIn S a i)) \<and> (\<forall>a i. quiet rel (sOutIn S a i)) \<and>
     (\<forall>a. quiet rel (sStart S a)) \<and> (\<forall>a. quiet rel (sOutputOf S a)) \<and> (\<forall>p. quiet rel (sStat S p)) \<and>
     (\<forall>p. quiet rel (sMkdirAll S p)) \<and> (\<forall>p m. quiet rel (sChmod S p m)) \<and> (\<forall>p. quiet rel (sRemove S p)) \<and>
     quiet rel (sWait S) \<and> (\<forall>s hs. quiet rel (sLookups S s hs)) \<and> (\<forall>ips. quiet rel (sRace S ips)) \<and>
     quiet rel (sBefore S) \<and> quiet rel (sSleep S) \<and> (\<forall>us. quiet rel (sFetchIPs S us))"

text \<open>A command that is not about policy rules.\<close>

definition plainCmd :: "string list \<Rightarrow> bool" where
  "plainCmd args \<longleftrightarrow> 2 \<le> length args \<and> (hd args = ''ip'' \<longrightarrow> args ! 1 \<in> {''link'', ''address'', ''route''})"

text \<open>The chains and the policy rules are the same, and a healthy host stays healthy.\<close>

definition undisturbed :: "('k \<Rightarrow> chains) \<Rightarrow> ('k \<Rightarrow> iprules) \<Rightarrow> ('k \<Rightarrow> bool) \<Rightarrow> 'k \<Rightarrow> 'k \<Rightarrow> bool" where
  "undisturbed v r h k k' \<longleftrightarrow> v k' = v k \<and> r k' = r k \<and> (h k \<longrightarrow> h k')"

lemma undisturbed_refl [simp]: "undisturbed v r h k k"
  by (simp add: undisturbed_def)

lemma undisturbed_trans: "transp (undisturbed v r h)"
  by (rule transpI) (auto simp: undisturbed_def)

locale host_world = netfilter_host N V R H
  for N :: "'k netops" and V :: "'k \<Rightarrow> chains" and R :: "'k \<Rightarrow> iprules" and H :: "'k \<Rightarrow> bool" +
  fixes S :: "'k sysops" and ticks :: "'k \<Rightarrow> nat"
  assumes sys: "sys_quiet (undisturbed V R H) S"
    and cmd_quiet: "plainCmd args \<Longrightarrow> quiet (undisturbed V R H) (nRun N args)"
    and out_quiet: "quiet (undisturbed V R H) (nOutput N args)"
    and tick: "sWait S k = (Tick, k') \<Longrightarrow> ticks k' < ticks k"
    and sleep_ticks: "sSleep S k = (None, k') \<Longrightarrow> ticks k' < ticks k"
    and stat_ticks: "quiet (\<lambda>k k'. ticks k' \<le> ticks k) (sStat S p)"
    and before_ticks: "quiet (\<lambda>k k'. ticks k' \<le> ticks k) (sBefore S)"
    and out_ticks: "quiet (\<lambda>k k'. ticks k' \<le> ticks k) (nOutput N args)"
begin

abbreviation still :: "'k \<Rightarrow> ('k, 'm) net_scheme \<Rightarrow> bool" where
  "still k0 w \<equiv> undisturbed V R H k0 (kern w)"

lemmas sysD = sys [unfolded sys_quiet_def]

lemma keeps_cmd [intro]: "plainCmd args \<Longrightarrow> keeps (still k0) (runK (nRun N args))"
  by (intro keeps_runK_quiet cmd_quiet undisturbed_trans)

lemma keeps_output [intro]: "keeps (still k0) (outK (nOutput N args))"
  by (intro keeps_outK_quiet out_quiet undisturbed_trans)

lemma keeps_sys [intro]:
  "keeps (still k0) (askK (sRunIn S a i))" "keeps (still k0) (outK (sOutIn S a i))"
  "keeps (still k0) (runK (sStart S a))" "keeps (still k0) (askK (sOutputOf S a))" "keeps (still k0) (runK (sStat S p))"
  "keeps (still k0) (runK (sMkdirAll S p))" "keeps (still k0) (runK (sChmod S p m))" "keeps (still k0) (runK (sRemove S p))"
  "keeps (still k0) (askK (sWait S))" "keeps (still k0) (askK (sLookups S s hs))" "keeps (still k0) (askK (sRace S ips))"
  "keeps (still k0) (askK (sBefore S))" "keeps (still k0) (runK (sSleep S))" "keeps (still k0) (askK (sFetchIPs S us))"
  using sysD by (blast intro: keeps_quiet keeps_runK_quiet keeps_outK_quiet undisturbed_trans)+

end

section \<open>The reference host\<close>

text \<open>
  The reference kernel with a network behind its firewall: a lookup or a connection is answered
  only while the exemption it needs is in place, from the tables of the kernel.
\<close>

definition refOpen :: "string \<Rightarrow> string \<Rightarrow> string \<Rightarrow> refk \<Rightarrow> bool" where
  "refOpen ip port proto k = (case refV k (IPv4, tableFilter, chainExempt) of
       None \<Rightarrow> False | Some rs \<Rightarrow> exemptSpec ip port proto \<in> set rs)"

definition refLookup :: "string \<Rightarrow> refk \<Rightarrow> string \<Rightarrow> lookup" where
  "refLookup srv k host =
     (if \<not> refOpen srv ''53'' ''udp'' k then LookupErr (Errorf ''i/o timeout'' [])
      else case map_of (rkShow k) [''dns'', host] of None \<Rightarrow> NotFound | Some s \<Rightarrow> Found (Split (CHR '','') s))"

definition refRace :: "string list \<Rightarrow> refk \<Rightarrow> raceEvent list" where
  "refRace ips k = map (\<lambda>i. Result i (if refOpen (ips ! i) ''1337'' ''tcp'' k then 100 - int i else 0)) [0..<length ips] @ [AllDone]"

definition refS :: "refk sysops" where
  "refS = \<lparr>sRunIn = (\<lambda>_ _. Pair (None, [])), sOutIn = (\<lambda>_ i. Pair (Inr (''pub-'' @ i))), sStart = (\<lambda>_. Pair None),
     sOutputOf = (\<lambda>_. Pair []), sStat = (\<lambda>_. Pair None), sMkdirAll = (\<lambda>_. Pair None), sChmod = (\<lambda>_ _. Pair None),
     sRemove = (\<lambda>_. Pair None), sWait = Pair Deadline,
     sLookups = (\<lambda>srv hosts k. (map (\<lambda>h. (h, refLookup srv k h)) hosts, k)),
     sRace = (\<lambda>ips k. (refRace ips k, k)), sBefore = Pair True, sSleep = Pair (Some (Sentinel ErrDeadlineExceeded)),
     sFetchIPs = (\<lambda>us. Pair [(us ! 1, Inr (503, Inr [])), (us ! 0, Inr (200, Inr (''203.0.113.7'' @ [CHR 0x0A])))])\<rparr>"

lemma refRun_plain: "plainCmd args \<Longrightarrow> refRun args k = Some k"
  by (cases args rule: remdups_adj.cases) (auto simp: plainCmd_def refRun_def)

lemma undisturbed_faults [simp]: "undisturbed refV refR refH k (k\<lparr>rkFaults := tl fs\<rparr>) = (refH k \<longrightarrow> tl fs = [])"
  by (simp add: undisturbed_def) (simp add: refH_def)

interpretation refw: host_world refN refV refR refH refS "\<lambda>_. 0"
proof unfold_locales
  show "sys_quiet (undisturbed refV refR refH) refS"
    by (simp add: sys_quiet_def quiet_def refS_def)
  show "quiet (undisturbed refV refR refH) (nRun refN args)" if "plainCmd args" for args
    using refRun_plain [OF that]
    by (auto simp: quiet_def refN_def refCmd_def refH_def undisturbed_def split: list.splits bool.splits)
  show "quiet (undisturbed refV refR refH) (nOutput refN args)" for args
    by (auto simp: quiet_def refN_def refOutput_def refH_def undisturbed_def split: list.splits bool.splits)
qed (auto simp: refS_def quiet_def)

end
