(* ===== verification/Resolver.thy ===== *)
theory Resolver
  imports World HostKillswitch
begin

text \<open>
  The resolver that works through the killswitch (\<^verbatim>\<open>internal/dns/resolver.go\<close>): it opens an
  exemption for one DNS server, looks the hosts up in parallel, and closes the exemption again.
  The lookups themselves are the host's: \<open>sLookups\<close> gives their answers in the order they
  arrive.
\<close>

section \<open>State and operations\<close>

definition defaultServers :: "string list" where
  "defaultServers = [''149.112.112.9'', ''149.112.112.11'']"

record hostResult =
  hrIPs :: "string list"
  hrNXDomain :: bool

record resolver =
  dnsServers :: "string list"

definition NewExemptResolver :: "string list \<Rightarrow> resolver" where
  "NewExemptResolver dns = \<lparr>dnsServers = (if length dns > 0 then dns else defaultServers)\<rparr>"

text \<open>The loop over the answers: the map from hosts to results as a list of pairs.\<close>

definition collectAnswer :: "(string \<times> hostResult) list \<Rightarrow> string \<times> lookup \<Rightarrow> (string \<times> hostResult) list" where
  "collectAnswer m item = (case snd item of
       NotFound \<Rightarrow> AList.update (fst item) \<lparr>hrIPs = [], hrNXDomain = True\<rparr> m
     | Found ips \<Rightarrow> AList.update (fst item) \<lparr>hrIPs = ips, hrNXDomain = False\<rparr> m
     | LookupErr _ \<Rightarrow> m)"

definition dnsExemptions :: "string \<Rightarrow> exemption list" where
  "dnsExemptions srv =
     [\<lparr>exIP = srv, exPort = ''53'', exProto = ''udp'', exComment = ''dns_resolve''\<rparr>,
      \<lparr>exIP = srv, exPort = ''53'', exProto = ''tcp'', exComment = ''dns_resolve''\<rparr>]"

definition query :: "'k netops \<Rightarrow> 'k sysops \<Rightarrow> string list \<Rightarrow> string \<Rightarrow> (('k, 'm) net_scheme, (string \<times> hostResult) list) prog" where
  "query N S hostnames srv =
     bindP (wrapErr (''add exemption for '' @ srv) (AddExemptions N (dnsExemptions srv))) (\<lambda>_.
     deferP (RemoveExemptions N)
       (bindP (askK (sLookups S srv hostnames)) (\<lambda>items. ret (foldl collectAnswer [] items))))"

fun resolveLoop :: "'k netops \<Rightarrow> 'k sysops \<Rightarrow> string \<Rightarrow> string list \<Rightarrow> (('k, 'm) net_scheme, string list) prog" where
  "resolveLoop N S hostname [] = throw (Errorf (''failed to resolve '' @ hostname) [])"
| "resolveLoop N S hostname (srv # srvs) =
     bindP (tryP (query N S [hostname] srv)) (\<lambda>r. case r of
       Inl _ \<Rightarrow> resolveLoop N S hostname srvs
     | Inr m \<Rightarrow> (case map_of m hostname of
           Some res \<Rightarrow> (if \<not> hrNXDomain res then ret (hrIPs res) else resolveLoop N S hostname srvs)
         | None \<Rightarrow> resolveLoop N S hostname srvs))"

definition Resolve :: "'k netops \<Rightarrow> 'k sysops \<Rightarrow> resolver \<Rightarrow> string \<Rightarrow> (('k, 'm) net_scheme, string list) prog" where
  "Resolve N S r hostname = resolveLoop N S hostname (dnsServers r)"

fun resolveAllLoop :: "'k netops \<Rightarrow> 'k sysops \<Rightarrow> string list \<Rightarrow> string list \<Rightarrow> (('k, 'm) net_scheme, (string \<times> hostResult) list) prog" where
  "resolveAllLoop N S hostnames [] = throw (Errorf (''failed to resolve '' @ Join hostnames '', '') [])"
| "resolveAllLoop N S hostnames (srv # srvs) =
     bindP (tryP (query N S hostnames srv)) (\<lambda>r. case r of
       Inl _ \<Rightarrow> resolveAllLoop N S hostnames srvs
     | Inr m \<Rightarrow> (if length m > 0 then ret m else resolveAllLoop N S hostnames srvs))"

definition ResolveAll :: "'k netops \<Rightarrow> 'k sysops \<Rightarrow> resolver \<Rightarrow> string list \<Rightarrow> (('k, 'm) net_scheme, (string \<times> hostResult) list) prog" where
  "ResolveAll N S r hostnames = resolveAllLoop N S hostnames (dnsServers r)"

definition isBootstrapIP :: "resolver \<Rightarrow> string \<Rightarrow> bool" where
  "isBootstrapIP r ip = list_ex (\<lambda>srv. ip = srv) (dnsServers r)"

definition ValidateDNS :: "resolver \<Rightarrow> string list \<Rightarrow> string \<Rightarrow> err + unit" where
  "ValidateDNS r dns dnsMode =
     (if dnsMode = ''system'' \<or> dnsMode = ''do53'' then
        (if list_ex (isBootstrapIP r) dns
         then Inl (Errorf ''cannot continue with BOOTSTRAP_DNS and DNS overlap'' []) else Inr ())
      else Inr ())"

section \<open>Exemptions as an interface\<close>

text \<open>
  \<open>closed v r h k0 w\<close>: the host is healthy, with the chains and rules of \<open>k0\<close>, where no chain of
  exemptions exists or is referred to and the output chain does. \<open>opened v r h k0 es w\<close>: the same
  with a chain that holds the rules \<open>es\<close> of exemptions.
\<close>

definition shut :: "chains \<Rightarrow> bool" where
  "shut v \<longleftrightarrow> v (IPv4, tableFilter, chainExempt) = None \<and> v (IPv4, tableFilter, ChainOut) \<noteq> None \<and> unused v chainExempt"

definition closed :: "('k \<Rightarrow> chains) \<Rightarrow> ('k \<Rightarrow> iprules) \<Rightarrow> ('k \<Rightarrow> bool) \<Rightarrow> 'k \<Rightarrow> ('k, 'm) net_scheme \<Rightarrow> bool" where
  "closed v r h k0 w \<longleftrightarrow> shut (v k0) \<and> h (kern w) \<and> v (kern w) = v k0 \<and> r (kern w) = r k0"

definition opened :: "('k \<Rightarrow> chains) \<Rightarrow> ('k \<Rightarrow> iprules) \<Rightarrow> ('k \<Rightarrow> bool) \<Rightarrow> spec list \<Rightarrow> 'k \<Rightarrow> ('k, 'm) net_scheme \<Rightarrow> bool" where
  "opened v r h es k0 w \<longleftrightarrow> shut (v k0) \<and> h (kern w) \<and> (\<forall>s \<in> set es. target s = Some ''ACCEPT'') \<and>
     v (kern w) = withExempt (v k0) (the (v k0 (IPv4, tableFilter, ChainOut))) es \<and> r (kern w) = r k0"

text \<open>
  The contract between those who open an exemption and those who work while it is open: the
  opening succeeds, the work leaves the firewall alone, the closing restores it.
\<close>

locale exemptor =
  fixes open1 :: "'e \<Rightarrow> ('w, unit) prog" and close :: "('w, unit) prog"
    and Closed :: "'s \<Rightarrow> 'w \<Rightarrow> bool" and Open :: "'e \<Rightarrow> 's \<Rightarrow> 'w \<Rightarrow> bool"
  assumes opens: "Closed s w \<Longrightarrow> wp (open1 e) (\<lambda>r w'. r = Inr () \<and> Open e s w') w"
    and closes: "Open e s w \<Longrightarrow> wp close (\<lambda>r w'. r = Inr () \<and> Closed s w') w"
begin

text \<open>Work between opening and closing, in the ways the code writes it.\<close>

lemma keeps_deferred:
  assumes "keeps (Open e s) m"
  shows "keeps (Closed s) (bindP (wrapErr msg (open1 e)) (\<lambda>_. deferP close m))"
proof (rule keepsI)
  fix w assume "Closed s w"
  have inner: "wp (deferP close m) (\<lambda>_. Closed s) w'" if "Open e s w'" for w'
    unfolding wp_deferP
    by (rule wp_conseq [OF keepsD [OF assms that]], drule closes, erule wp_conseq) simp
  show "wp (bindP (wrapErr msg (open1 e)) (\<lambda>_. deferP close m)) (\<lambda>_. Closed s) w"
    unfolding wp_bindP wp_wrapErr by (rule wp_conseq [OF opens [OF \<open>Closed s w\<close>, of e]]) (use inner in auto)
qed

lemma keeps_after:
  assumes "keeps (Open e s) m" and "\<And>x. keeps (Closed s) (f x)"
  shows "Open e s w \<Longrightarrow> wp (bindP (tryP m) (\<lambda>x. bindP close (\<lambda>_. f x))) (\<lambda>_. Closed s) w"
  unfolding wp_bindP wp_tryP
  by (erule wp_conseq [OF keepsD [OF assms(1)]], simp, drule closes, erule wp_conseq)
    (auto dest: keepsD [OF assms(2)])

lemma keeps_sequence:
  assumes "keeps (Open e s) m" and "\<And>x. keeps (Closed s) (f x)"
  shows "keeps (Closed s) (bindP (wrapErr msg (open1 e)) (\<lambda>_. bindP (tryP m) (\<lambda>x. bindP close (\<lambda>_. f x))))"
  by (rule keepsI, unfold wp_bindP [of "wrapErr msg (open1 e)"] wp_wrapErr, rule wp_conseq, erule opens [where e = e])
    (use keeps_after [OF assms] in auto)

lemma keeps_tried:
  assumes "keeps (Open e s) m" and "\<And>x. keeps (Closed s) (f x)" and "\<And>err. keeps (Closed s) (g err)"
  shows "keeps (Closed s) (bindP (tryP (open1 e)) (\<lambda>r. case r of
    Inl err \<Rightarrow> g err | Inr _ \<Rightarrow> bindP (tryP m) (\<lambda>x. bindP close (\<lambda>_. f x))))"
  by (rule keepsI, unfold wp_bindP [of "tryP (open1 e)"] wp_tryP [of "open1 e"], rule wp_conseq, erule opens [where e = e])
    (use keeps_after [OF assms(1,2)] in auto)

end

text \<open>The firewall of the model provides it, for a batch and for one exemption.\<close>

lemma shut_sels:
  "shut v \<Longrightarrow> v (IPv4, tableFilter, chainExempt) = None" "shut v \<Longrightarrow> unused v chainExempt"
  "shut v \<Longrightarrow> v (IPv4, tableFilter, ChainOut) = Some (the (v (IPv4, tableFilter, ChainOut)))"
  by (auto simp: shut_def)

context netfilter_host
begin

lemma exempt_closes: "opened V R H es k0 w \<Longrightarrow> wp (RemoveExemptions N) (\<lambda>r w'. r = Inr () \<and> closed V R H k0 w') w"
  by (rule RemoveExemptions_host [where v = "V k0" and rs = "the (V k0 (IPv4, tableFilter, ChainOut))" and es = es])
    (auto simp: opened_def closed_def names dest: shut_sels)

lemma exempt_opens:
  "closed V R H k0 w \<Longrightarrow> wp (AddExemptions N specs) (\<lambda>r w'. r = Inr () \<and> opened V R H (map specOf specs) k0 w') w"
  by (rule AddExemptions_host [where rs = "the (V k0 (IPv4, tableFilter, ChainOut))"])
    (auto simp: opened_def closed_def dest: shut_sels)

lemma exempt_opens1:
  assumes "closed V R H k0 w"
  shows "wp (AddExemption N ip port proto comment)
    (\<lambda>r w'. r = Inr () \<and> opened V R H [exemptSpec ip port proto] k0 w') w"
proof -
  have "wp (createExemptChain N) (\<lambda>r w'. r = Inr () \<and> opened V R H [] k0 w') w"
  proof -
    have "wp (createExemptChain N) (\<lambda>r w'. case r of Inl e \<Rightarrow> False | Inr _ \<Rightarrow> opened V R H [] k0 w') w"
      using exempt_opens [OF assms, of "[]"] by (simp add: AddExemptions_def) (erule wp_conseq, auto split: sum.splits)
    then show ?thesis by (rule wp_conseq) (auto split: sum.splits)
  qed
  moreover have app: "wp (runK (nAppend N IPv4 tableFilter chainExempt (exemptSpec ip port proto)))
      (\<lambda>r w'. r = Inr () \<and> opened V R H [exemptSpec ip port proto] k0 w') w'" if "opened V R H [] k0 w'" for w'
    by (rule wp_append_host [where rs = "[]"]) (use that in \<open>auto simp: opened_def withExempt_def names\<close>)
  ultimately show ?thesis
    unfolding AddExemption_def wp_bindP wp_wrapErr 
    by (elim wp_conseq) (auto intro!: wp_conseq [OF app])
qed

end

sublocale netfilter_host \<subseteq> batch: exemptor "AddExemptions N" "RemoveExemptions N" "closed V R H" "\<lambda>specs. opened V R H (map specOf specs)"
  by unfold_locales (rule exempt_opens exempt_closes; assumption)+

sublocale netfilter_host \<subseteq> single: exemptor "\<lambda>(ip, port, proto, comment). AddExemption N ip port proto comment"
  "RemoveExemptions N" "closed V R H" "\<lambda>(ip, port, proto, comment). opened V R H [exemptSpec ip port proto]"
  by unfold_locales (auto intro: exempt_opens1 exempt_closes)

text \<open>Quiet steps keep the firewall open, and closed.\<close>

lemma opened_undisturbed: "opened v r h es k0 w \<Longrightarrow> undisturbed v r h (kern w) (kern w') \<Longrightarrow> opened v r h es k0 w'"
  by (simp add: opened_def undisturbed_def)

lemma closed_undisturbed: "closed v r h k0 w \<Longrightarrow> undisturbed v r h (kern w) (kern w') \<Longrightarrow> closed v r h k0 w'"
  by (simp add: closed_def undisturbed_def)

lemma keeps_opened:
  assumes "\<And>k. keeps (\<lambda>w. undisturbed v r h k (kern w)) m"
  shows "keeps (opened v r h es k0) m"
  by (rule keepsI, rule wp_keeps [OF assms undisturbed_refl]) (rule opened_undisturbed)

lemma keeps_closed:
  assumes "\<And>k. keeps (\<lambda>w. undisturbed v r h k (kern w)) m"
  shows "keeps (closed v r h k0) m"
  by (rule keepsI, rule wp_keeps [OF assms undisturbed_refl]) (rule closed_undisturbed)

lemma keeps_closed_modify:
  "(\<And>w. kern (f w) = kern w) \<Longrightarrow> keeps (closed v r h k0) (modifyP f)"
  by (rule keepsI) (simp add: closed_def)

context host_world
begin

lemma keeps_query [intro]: "keeps (closed V R H k0) (query N S hosts srv)"
  unfolding query_def
  by (intro batch.keeps_deferred keeps_bindP keeps_ret keeps_opened keeps_sys)

lemma keeps_resolveLoop: "keeps (closed V R H k0) (resolveLoop N S host srvs)"
  by (induction srvs) (auto intro!: keeps_bindP keeps_tryP split: sum.split option.split)

lemma keeps_Resolve [intro]: "keeps (closed V R H k0) (Resolve N S r host)"
  unfolding Resolve_def by (rule keeps_resolveLoop)

lemma keeps_resolveAllLoop: "keeps (closed V R H k0) (resolveAllLoop N S hosts srvs)"
  by (induction srvs) (auto intro!: keeps_bindP keeps_tryP split: sum.split)

lemma keeps_ResolveAll [intro]: "keeps (closed V R H k0) (ResolveAll N S r hosts)"
  unfolding ResolveAll_def by (rule keeps_resolveAllLoop)

end

interpretation refx: exemptor "AddExemptions refN" "RemoveExemptions refN" "closed refV refR refH"
  "\<lambda>specs. opened refV refR refH (map specOf specs)"
  by unfold_locales (rule refk.exempt_opens refk.exempt_closes; assumption)+

section \<open>What a resolution returns\<close>

text \<open>A result comes from an answer of the server asked.\<close>

lemma collect_source:
  "map_of (foldl collectAnswer m items) h = Some res \<Longrightarrow>
   map_of m h = Some res \<or> (h, NotFound) \<in> set items \<and> hrNXDomain res \<or> (h, Found (hrIPs res)) \<in> set items \<and> \<not> hrNXDomain res"
proof (induction items arbitrary: m)
  case (Cons it items)
  from Cons.IH [of "collectAnswer m it"] Cons.prems show ?case
    by (cases it; cases "snd it") (auto simp: collectAnswer_def update_conv' split: if_splits)
qed simp

definition answered :: "'k sysops \<Rightarrow> string \<Rightarrow> string \<Rightarrow> string list \<Rightarrow> bool" where
  "answered S srv host ips \<longleftrightarrow> (\<exists>k. (host, Found ips) \<in> set (fst (sLookups S srv [host] k)))"

lemma query_answers:
  assumes "query N S [host] srv w = Some (Inr m, w')" and "map_of m host = Some res" and "\<not> hrNXDomain res"
  shows "answered S srv host (hrIPs res)"
proof -
  have "\<exists>k. m = foldl collectAnswer [] (fst (sLookups S srv [host] k))"
    using assms(1) by (auto simp: query_def bindP_def wrapErr_def deferP_def askK_def ret_def
        split: option.splits sum.splits prod.splits) (metis fst_conv)
  then show ?thesis
    using collect_source [of "[]" _ host res] assms(2,3) by (auto simp: answered_def)
qed

lemma resolveLoop_answers:
  "resolveLoop N S host srvs w = Some (Inr ips, w') \<Longrightarrow> \<exists>srv \<in> set srvs. answered S srv host ips"
proof (induction srvs arbitrary: w)
  case (Cons srv srvs)
  from Cons.prems obtain r w1 where q: "query N S [host] srv w = Some (r, w1)"
    by (auto simp: bindP_def tryP_def split: option.splits)
  show ?case
  proof (cases "\<exists>m res. r = Inr m \<and> map_of m host = Some res \<and> \<not> hrNXDomain res")
    case True
    then obtain m res where m: "r = Inr m" "map_of m host = Some res" "\<not> hrNXDomain res" by blast
    then have "ips = hrIPs res" using Cons.prems q by (simp add: bindP_def tryP_def ret_def)
    then show ?thesis using query_answers [OF q [unfolded m(1)] m(2,3)] by auto
  next
    case False
    then have "resolveLoop N S host srvs w1 = Some (Inr ips, w')"
      using Cons.prems q by (auto simp: bindP_def tryP_def split: sum.splits option.splits if_splits)
    from Cons.IH [OF this] show ?thesis by auto
  qed
qed (simp add: throw_def)

section \<open>Properties\<close>

text \<open>
  C28. Resolving leaves the firewall as it was. On a healthy host without exemptions, a
  resolution returns whatever the servers answer, and afterwards the chains and the policy
  rules are those from before: every exemption it opened is closed again. What it returns are
  the addresses that one of the configured servers gave for the host.
\<close>

theorem resolve_restores:
  assumes "host_world N V R H S ticks" and "H (kern w)" and "shut (V (kern w))"
  shows "\<exists>x w'. Resolve N S r host w = Some (x, w') \<and> H (kern w') \<and> V (kern w') = V (kern w) \<and> R (kern w') = R (kern w) \<and>
    (\<forall>ips. x = Inr ips \<longrightarrow> (\<exists>srv \<in> set (dnsServers r). answered S srv host ips))"
proof -
  have "closed V R H (kern w) w" using assms(2,3) by (simp add: closed_def)
  from keeps_run [OF host_world.keeps_Resolve [OF assms(1)] this] obtain x w' where
    x: "Resolve N S r host w = Some (x, w')" "closed V R H (kern w) w'" by blast
  then show ?thesis
    using resolveLoop_answers [of N S host "dnsServers r" w _ w'] by (auto simp: Resolve_def closed_def)
qed

definition demoNet :: "refk fw" where
  "demoNet = demoUp\<lparr>kern := (kern demoUp)\<lparr>rkShow := ([''dns'', ''www.privateinternetaccess.com''], ''1.2.3.4,5.6.7.8'') #
     ([''dns'', ''serverlist.piaservers.net''], ''9.9.9.9'') # rkShow (kern demoUp)\<rparr>\<rparr>"

lemma demoNet_shut: "refH (kern demoNet)" "shut (refV (kern demoNet))"
proof -
  show "refH (kern demoNet)" by code_simp
  have "list_all (\<lambda>((f', t', ch), rs). f' = IPv4 \<and> t' = tableFilter \<longrightarrow>
      list_all (\<lambda>s. target s \<noteq> Some chainExempt) rs) (rkChains (kern demoNet))" by code_simp
  then have "unused (refV (kern demoNet)) chainExempt"
    using ref_all [of IPv4 tableFilter "\<lambda>_ s. target s \<noteq> Some chainExempt" "kern demoNet"] by (auto simp: unused_def)
  moreover have "refV (kern demoNet) (IPv4, tableFilter, chainExempt) = None"
    "refV (kern demoNet) (IPv4, tableFilter, ChainOut) \<noteq> None" by code_simp+
  ultimately show "shut (refV (kern demoNet))" by (simp add: shut_def)
qed

theorem resolve_restores_witness:
  "\<exists>w'. Resolve refN refS (NewExemptResolver []) ''serverlist.piaservers.net'' demoNet = Some (Inr [''9.9.9.9''], w') \<and>
     refV (kern w') = refV (kern demoNet)"
proof -
  obtain x w' where w: "Resolve refN refS (NewExemptResolver []) ''serverlist.piaservers.net'' demoNet = Some (x, w')"
    "refV (kern w') = refV (kern demoNet)"
    using resolve_restores [OF refw.host_world_axioms demoNet_shut] by blast
  have "fst (the (Resolve refN refS (NewExemptResolver []) ''serverlist.piaservers.net'' demoNet)) = Inr [''9.9.9.9'']"
    by code_simp
  then have "x = Inr [''9.9.9.9'']" unfolding w(1) by simp
  with w show ?thesis by blast
qed

end
