(* ===== verification/Servers.thy ===== *)
theory Servers
  imports Cacher Resolver "HOL-Library.List_Lexorder" "HOL-Library.Char_ord"
begin

text \<open>
  The choice of a VPN server (\<^verbatim>\<open>internal/vpn/servers.go\<close>): fetching the server list through the
  killswitch, filtering it by region and port forwarding, and the race for the lowest latency.
  The parallel connections of the race are the host's: \<open>sRace\<close> gives what the loop over the
  channel and the timers receives, in order.
\<close>

section \<open>Configuration\<close>

record vpnConfig =
  vcPIAUser :: string
  vcPIAPass :: string
  vcLocation :: string
  vcDIPToken :: string
  vcPFRequired :: bool
  vcManualCN :: string
  vcManualIP :: string
  vcMTU :: int
  vcIPv6 :: bool
  vcWGBackend :: string

section \<open>The server list\<close>

text \<open>\<^verbatim>\<open>nil\<close> and the empty list are the same for the lists of the cache: they are only appended to.\<close>

fun tryServerListIPs :: "'k netops \<Rightarrow> 'k api \<Rightarrow> string list \<Rightarrow> (('k, 'm) net_scheme, server list) prog" where
  "tryServerListIPs N A [] = throw (Errorf ''failed to obtain serverlist from all endpoints'' [])"
| "tryServerListIPs N A (ip # ips) =
     bindP (tryP (AddExemption N ip ''443'' ''tcp'' ''pia-serverlist'')) (\<lambda>r. case r of
       Inl _ \<Rightarrow> tryServerListIPs N A ips
     | Inr _ \<Rightarrow>
         bindP (tryP (FetchServerList A ip)) (\<lambda>res.
         bindP (RemoveExemptions N) (\<lambda>_. case res of
           Inl _ \<Rightarrow> tryServerListIPs N A ips
         | Inr servers \<Rightarrow> ret servers)))"

definition getServers :: "'k netops \<Rightarrow> 'k sysops \<Rightarrow> 'k api \<Rightarrow> resolver \<Rightarrow> (('k, 'm) cw_scheme, unit) prog" where
  "getServers N S A r =
     bindP (getsP ServerListIPs) (\<lambda>cached.
     bindP (if cached = [] then bindP (Resolve N S r ServerlistHostname) MergeServerListIPs else ret ()) (\<lambda>_.
     bindP (getsP ServerListIPs) (\<lambda>ips.
     bindP (tryP (tryServerListIPs N A ips)) (\<lambda>res. case res of
       Inl e \<Rightarrow> bindP ClearServerListIPs (\<lambda>_. throw e)
     | Inr servers \<Rightarrow> MergeServers servers))))"

section \<open>Filtering\<close>

definition locationSet :: "string \<Rightarrow> string set" where
  "locationSet locations =
     set (filter (\<lambda>loc. loc \<noteq> []) (map TrimSpace (FieldsFunc (\<lambda>c. c = CHR '','' \<or> c = CHR '' '') locations)))"

definition filterServers :: "server list \<Rightarrow> string \<Rightarrow> bool \<Rightarrow> server list" where
  "filterServers servers locations pfRequired =
     (if servers = [] then []
      else let locs = locationSet locations in
        if locs = {} then []
        else filter (\<lambda>srv. (''all'' \<in> locs \<or> Region srv \<in> locs) \<and> (pfRequired \<longrightarrow> PF srv)) servers)"

text \<open>The loops with a \<^verbatim>\<open>seen\<close> map.\<close>

fun onePerRegionLoop :: "string set \<Rightarrow> server list \<Rightarrow> server list" where
  "onePerRegionLoop seen [] = []"
| "onePerRegionLoop seen (srv # ss) =
     (if Region srv \<notin> seen then srv # onePerRegionLoop (insert (Region srv) seen) ss else onePerRegionLoop seen ss)"

definition onePerRegion :: "server list \<Rightarrow> server list" where
  "onePerRegion candidates = onePerRegionLoop {} candidates"

fun regionsLoop :: "bool \<Rightarrow> string set \<Rightarrow> server list \<Rightarrow> string list" where
  "regionsLoop pfOnly seen [] = []"
| "regionsLoop pfOnly seen (srv # ss) =
     (if pfOnly \<and> \<not> PF srv then regionsLoop pfOnly seen ss
      else if Region srv \<notin> seen then Region srv # regionsLoop pfOnly (insert (Region srv) seen) ss
      else regionsLoop pfOnly seen ss)"

text \<open>Five names per line; \<^verbatim>\<open>sort.Strings\<close> orders by bytes.\<close>

function regionLines :: "string list \<Rightarrow> string list" where
  "regionLines [] = []"
| "regionLines (r # rs) = Join (take 5 (r # rs)) '', '' # regionLines (drop 5 (r # rs))"
  by pat_completeness auto
termination by (relation "measure length") auto

definition regionList :: "server list \<Rightarrow> bool \<Rightarrow> string" where
  "regionList servers pfOnly =
     (if servers = [] then ''serverlist empty''
      else Join (regionLines (sort (regionsLoop pfOnly {} servers))) (CHR 0x0A # ''      ''))"

section \<open>The race\<close>

text \<open>
  The loop over the channel and the timers: \<open>None\<close> while what it receives does not yet end it.
  A latency of 0 is a failed connection.
\<close>

definition collectMax :: nat where "collectMax = 25"

fun raceLoop :: "(nat \<times> int) list \<Rightarrow> raceEvent list \<Rightarrow> (nat \<times> int) list option" where
  "raceLoop collected [] = None"
| "raceLoop collected (Result i lat # evs) =
     (if lat > 0 then
        (let collected = collected @ [(i, lat)]
         in if length collected \<ge> collectMax then Some collected else raceLoop collected evs)
      else raceLoop collected evs)"
| "raceLoop collected (AllDone # evs) = Some collected"
| "raceLoop collected (MinTimer # evs) = (if length collected > 0 then Some collected else raceLoop collected evs)"
| "raceLoop collected (MaxTimer # evs) = Some collected"
| "raceLoop collected (RaceCtxDone # evs) = Some collected"

text \<open>\<^verbatim>\<open>sort.Slice\<close> by latency; of equal latencies the first one received is taken.\<close>

definition raceBest :: "server list \<Rightarrow> (nat \<times> int) list \<Rightarrow> server \<times> int" where
  "raceBest candidates collected =
     (if length collected = 0 then (candidates ! 0, 0)
      else let best = sort_key snd collected ! 0 in (candidates ! fst best, snd best))"

definition raceSpecs :: "server list \<Rightarrow> exemption list" where
  "raceSpecs candidates = map (\<lambda>srv. \<lparr>exIP = IP srv, exPort = ''1337'', exProto = ''tcp'', exComment = CN srv\<rparr>) candidates"

definition neverP :: "('w, 'a) prog" where
  "neverP w = None"

definition raceServers :: "'k netops \<Rightarrow> 'k sysops \<Rightarrow> server list \<Rightarrow> (('k, 'm) net_scheme, server \<times> int) prog" where
  "raceServers N S candidates =
     (if length candidates = 0 then throw (Errorf ''no server candidates'' [])
      else bindP (wrapErr ''raceServers'' (AddExemptions N (raceSpecs candidates))) (\<lambda>_.
        deferP (RemoveExemptions N)
          (bindP (askK (sRace S (map IP candidates))) (\<lambda>evs.
           case raceLoop [] evs of None \<Rightarrow> neverP | Some collected \<Rightarrow> ret (raceBest candidates collected)))))"

definition notFoundErr :: "vpnConfig \<Rightarrow> server list \<Rightarrow> err" where
  "notFoundErr cfg servers = Errorf (''PIA_LOCATIONS not found: '' @ vcLocation cfg @ ''; Available regions: '' @
     regionList servers False) [Sentinel ErrFatal]"

definition noPFErr :: "vpnConfig \<Rightarrow> server list \<Rightarrow> err" where
  "noPFErr cfg servers = Errorf (''PIA_LOCATIONS does not support port forwarding: '' @ vcLocation cfg @
     ''; Available regions with port forwarding: '' @ regionList servers True) [Sentinel ErrFatal]"

lemma fatal_errs [simp]: "errors_is (notFoundErr cfg ss) ErrFatal" "errors_is (noPFErr cfg ss) ErrFatal"
  by (simp_all add: notFoundErr_def noPFErr_def)

definition selectServer :: "'k netops \<Rightarrow> 'k sysops \<Rightarrow> vpnConfig \<Rightarrow> (('k, 'm) cw_scheme, server \<times> int) prog" where
  "selectServer N S cfg =
     bindP (getsP Servers) (\<lambda>servers.
     if vcLocation cfg \<noteq> ''all'' then
       (let allInRegion = filterServers servers (vcLocation cfg) False in
        if length allInRegion = 0 then
          throw (notFoundErr cfg servers)
        else if vcPFRequired cfg then
          (let candidates = filterServers servers (vcLocation cfg) True in
           if length candidates = 0 then
             throw (noPFErr cfg servers)
           else raceServers N S candidates)
        else raceServers N S allInRegion)
     else raceServers N S (onePerRegion (filterServers servers (vcLocation cfg) (vcPFRequired cfg))))"

section \<open>The lists, against their specification\<close>

lemma onePerRegionLoop_eq: "onePerRegionLoop seen ss = filter (\<lambda>s. Region s \<notin> seen) (firstsBy Region ss)"
proof (induction ss arbitrary: seen)
  case (Cons s ss)
  have "filter (\<lambda>y. Region y \<noteq> Region s \<and> Region y \<notin> seen) (firstsBy Region ss) = filter (\<lambda>y. Region y \<notin> seen) (firstsBy Region ss)"
    if "Region s \<in> seen" using that by (intro filter_cong) auto
  then show ?case using Cons by (auto simp: conj_commute)
qed simp

lemma onePerRegion_eq: "onePerRegion ss = firstsBy Region ss"
  by (simp add: onePerRegion_def onePerRegionLoop_eq)

lemma regionsLoop_eq:
  "regionsLoop pfOnly seen ss = filter (\<lambda>r. r \<notin> seen) (firstsBy (\<lambda>x. x) (map Region (filter (\<lambda>s. pfOnly \<longrightarrow> PF s) ss)))"
proof (induction ss arbitrary: seen)
  case (Cons s ss)
  have "filter (\<lambda>y. y \<noteq> Region s \<and> y \<notin> seen) l = filter (\<lambda>y. y \<notin> seen) l" if "Region s \<in> seen" for l
    using that by (intro filter_cong) auto
  then show ?case using Cons by (auto simp: conj_commute)
qed simp

lemma filterServers_set:
  "srv \<in> set (filterServers ss locs pf) \<longleftrightarrow> srv \<in> set ss \<and> locationSet locs \<noteq> {} \<and>
     (''all'' \<in> locationSet locs \<or> Region srv \<in> locationSet locs) \<and> (pf \<longrightarrow> PF srv)"
  by (auto simp: filterServers_def Let_def)

lemma locationSet_all: "locationSet ''all'' = {''all''}"
  by (simp add: locationSet_def TrimSpace_def isSpace_def)

section \<open>The race, against its specification\<close>

lemma raceLoop_collects:
  "raceLoop c evs = Some col \<Longrightarrow> \<exists>new. col = c @ new \<and> (\<forall>(i, lat) \<in> set new. Result i lat \<in> set evs \<and> lat > 0)"
  by (induction c evs rule: raceLoop.induct) (fastforce simp: Let_def split: if_splits)+

lemma raceLoop_ends: "raceLoop c evs = None \<Longrightarrow> AllDone \<notin> set evs \<and> MaxTimer \<notin> set evs \<and> RaceCtxDone \<notin> set evs"
  by (induction c evs rule: raceLoop.induct) (auto simp: Let_def split: if_splits)

lemma sort_key_first:
  assumes "xs \<noteq> []"
  shows "sort_key f xs ! 0 \<in> set xs" and "\<forall>y \<in> set xs. f (sort_key f xs ! 0) \<le> f y"
proof -
  have ne: "sort_key f xs \<noteq> []" using assms by (metis length_sort length_0_conv)
  then show "sort_key f xs ! 0 \<in> set xs" by (metis hd_conv_nth hd_in_set set_sort)
  have "sorted (map f (sort_key f xs))" by simp
  then show "\<forall>y \<in> set xs. f (sort_key f xs ! 0) \<le> f y"
    using ne by (metis (no_types, lifting) hd_conv_nth list.exhaust_sel list.simps(9) set_ConsD set_sort sorted_simps(2) imageI list.set_map order_refl)
qed

text \<open>The candidate chosen: the first one if nothing arrived, else one of those with the lowest latency.\<close>

definition fastest :: "server list \<Rightarrow> (nat \<times> int) list \<Rightarrow> server \<times> int \<Rightarrow> bool" where
  "fastest candidates collected x \<longleftrightarrow>
     (if collected = [] then x = (candidates ! 0, 0)
      else \<exists>i. (i, snd x) \<in> set collected \<and> fst x = candidates ! i \<and> (\<forall>(j, lat) \<in> set collected. snd x \<le> lat))"

lemma raceBest_fastest: "fastest candidates collected (raceBest candidates collected)"
proof (cases "collected = []")
  case False
  then show ?thesis
    using sort_key_first [of collected snd]
    by (auto simp: fastest_def raceBest_def Let_def intro!: exI [of _ "fst (sort_key snd collected ! 0)"])
qed (simp add: fastest_def raceBest_def)

text \<open>What the race relies on: a timer ends it, and the indices are those of the candidates.\<close>

locale race_world = host_world N V R H S ticks
  for N :: "'k netops" and V :: "'k \<Rightarrow> chains" and R :: "'k \<Rightarrow> iprules" and H :: "'k \<Rightarrow> bool"
    and S :: "'k sysops" and ticks :: "'k \<Rightarrow> nat" +
  assumes race_ends: "\<exists>e \<in> set (fst (sRace S ips k)). e \<in> {AllDone, MaxTimer, RaceCtxDone}"
    and race_index: "Result i lat \<in> set (fst (sRace S ips k)) \<Longrightarrow> i < length ips"
begin

lemma wp_raceServers:
  assumes "closed V R H k0 w" and "candidates \<noteq> []"
    and "\<And>w' srv lat collected k. closed V R H k0 w' \<Longrightarrow> fastest candidates collected (srv, lat) \<Longrightarrow> srv \<in> set candidates \<Longrightarrow>
      \<forall>(i, l) \<in> set collected. Result i l \<in> set (fst (sRace S (map IP candidates) k)) \<and> l > 0 \<Longrightarrow> Q (Inr (srv, lat)) w'"
  shows "wp (raceServers N S candidates) Q w"
proof -
  have inner: "wp (deferP (RemoveExemptions N) (bindP (askK (sRace S (map IP candidates)))
      (\<lambda>evs. case raceLoop [] evs of None \<Rightarrow> neverP | Some collected \<Rightarrow> ret (raceBest candidates collected)))) Q w'"
    if op: "opened V R H es k0 w'" for w' es
    unfolding wp_deferP wp_bindP
  proof (rule wp_askK)
    fix evs k' assume race: "sRace S (map IP candidates) (kern w') = (evs, k')"
    then have evs: "evs = fst (sRace S (map IP candidates) (kern w'))" by simp
    obtain collected where col: "raceLoop [] evs = Some collected"
      using race_ends [of "map IP candidates" "kern w'"] raceLoop_ends [of "[]" evs] evs by (cases "raceLoop [] evs") auto
    have res: "\<forall>(i, l) \<in> set collected. Result i l \<in> set evs \<and> l > 0"
      using raceLoop_collects [OF col] by auto
    have f: "fastest candidates collected (raceBest candidates collected)" by (rule raceBest_fastest)
    have "fst (raceBest candidates collected) \<in> set candidates"
    proof (cases "collected = []")
      case True
      then show ?thesis using assms(2) by (simp add: raceBest_def)
    next
      case False
      with f obtain i l where "(i, l) \<in> set collected" "fst (raceBest candidates collected) = candidates ! i"
        by (auto simp: fastest_def)
      moreover from this res have "i < length candidates"
        using race_index [of i l "map IP candidates" "kern w'"] evs by auto
      ultimately show ?thesis by simp
    qed
    moreover have "opened V R H es k0 (w'\<lparr>kern := k'\<rparr>)"
      using op quietD [where f = "sRace S (map IP candidates)" and rel = "undisturbed V R H", OF _ race] sysD
      by (auto intro: opened_undisturbed)
    ultimately show "case Inr evs of Inl e \<Rightarrow> wp (RemoveExemptions N) (\<lambda>_. Q (Inl e)) (w'\<lparr>kern := k'\<rparr>)
      | Inr a \<Rightarrow> wp (case raceLoop [] a of None \<Rightarrow> neverP | Some collected \<Rightarrow> ret (raceBest candidates collected))
          (\<lambda>r. wp (RemoveExemptions N) (\<lambda>_. Q r)) (w'\<lparr>kern := k'\<rparr>)"
      using f res col
      by (cases "raceBest candidates collected") (auto simp: evs intro!: wp_conseq [OF exempt_closes] assms(3))
  qed
  show ?thesis
    unfolding raceServers_def using assms(2)
    by (simp del: wp_deferP, intro wp_conseq [OF exempt_opens [OF assms(1)]]) (auto simp del: wp_deferP intro: inner)
qed

end

section \<open>The programs on a healthy host\<close>

lemma hostOnly_fields:
  assumes "hostOnly w w'"
  shows "ServerListIPs w' = ServerListIPs w" "Servers w' = Servers w" "AuthIPs w' = AuthIPs w" "Token w' = Token w"
    "TokenTime w' = TokenTime w" "now w' = now w"
  using assms unfolding hostOnly_def by (metis cw.select_convs net.select_convs cw.surjective net.update_convs)+

lemma hostOnly_query: "keeps (hostOnly w0) (query N S hosts srv)"
  unfolding query_def by blast

lemma hostOnly_resolveLoop: "keeps (hostOnly w0) (resolveLoop N S host srvs)"
  by (induction srvs) (auto intro!: keeps_bindP keeps_tryP hostOnly_query split: sum.split option.split)

lemma hostOnly_Resolve [intro]: "keeps (hostOnly w0) (Resolve N S r host)"
  unfolding Resolve_def by (rule hostOnly_resolveLoop)

lemma hostOnly_Fetch [intro]: "keeps (hostOnly w0) (FetchServerList A ip)"
  by (rule keepsI) (auto intro!: wp_FetchServerList hostOnly_kern)

lemma hostOnly_tryServerListIPs [intro]: "keeps (hostOnly w0) (tryServerListIPs N A ips)"
  by (induction ips) (auto intro!: keeps_bindP keeps_tryP split: sum.split)

locale vpn_world = race_world N V R H S ticks
  for N :: "'k netops" and V :: "'k \<Rightarrow> chains" and R :: "'k \<Rightarrow> iprules" and H :: "'k \<Rightarrow> bool"
    and S :: "'k sysops" and ticks :: "'k \<Rightarrow> nat" +
  fixes A :: "'k api"
  assumes api_quiet: "quiet (undisturbed V R H) (aDo A rq)"
    and cert_quiet: "quiet (undisturbed V R H) (aCertPool A)"
begin

lemma keeps_aDo [intro]: "keeps (still k0) (outK (aDo A rq))"
  by (intro keeps_outK_quiet api_quiet undisturbed_trans)

lemma keeps_cert [intro]: "keeps (still k0) (outK (aCertPool A))"
  by (intro keeps_outK_quiet cert_quiet undisturbed_trans)

lemma still_api [intro]:
  "keeps (still k0) (FetchServerList A ip)" "keeps (still k0) (GenerateToken A ip user pass)"
  "keeps (still k0) (ResolveDIP A ip token dip)"
  unfolding FetchServerList_def GenerateToken_def ResolveDIP_def Let_def
  by (auto intro!: keeps_bindP keeps_wrapErr split: sum.split list.split)

lemma still_addkey [intro]:
  "keeps (still k0) (AddKey A ip cn token key)" "keeps (still k0) (AddKeyDIP A ip cn token key)"
  unfolding AddKey_def AddKeyDIP_def addKeyExchange_def
  by (auto intro!: keeps_bindP keeps_wrapErr split: sum.split)

text \<open>One attempt under an exemption, whatever the caller does with its result.\<close>

lemma keeps_tried_single:
  assumes "\<And>k0. keeps (still k0) m" and "\<And>x. keeps (closed V R H k0) (f x)" and "\<And>err. keeps (closed V R H k0) (g err)"
  shows "keeps (closed V R H k0) (bindP (tryP (AddExemption N ip port proto comment)) (\<lambda>r. case r of
    Inl err \<Rightarrow> g err | Inr _ \<Rightarrow> bindP (tryP m) (\<lambda>x. bindP (RemoveExemptions N) (\<lambda>_. f x))))"
  using single.keeps_tried [where e = "(ip, port, proto, comment)" and m = m and f = f and g = g and s = k0]
    keeps_opened [OF assms(1)] assms(2,3) by simp

lemma keeps_tryServerListIPs [intro]: "keeps (closed V R H k0) (tryServerListIPs N A ips)"
proof (induction ips)
  case (Cons ip ips)
  show ?case unfolding tryServerListIPs.simps
    by (rule keeps_tried_single) (auto split: sum.split intro: Cons)
qed simp

lemma keeps_both_Resolve: "keeps (\<lambda>w. closed V R H k0 w \<and> hostOnly w0 w) (Resolve N S r host)"
  by (intro keeps_conj keeps_Resolve hostOnly_Resolve)

lemma keeps_both_try: "keeps (\<lambda>w. closed V R H k0 w \<and> hostOnly w0 w) (tryServerListIPs N A ips)"
  by (intro keeps_conj keeps_tryServerListIPs hostOnly_tryServerListIPs)

text \<open>Fetching the list: a failure empties the cached addresses, a success merges what came.\<close>

lemma wp_getServers:
  fixes w :: "('k, 'm) cw_scheme"
  assumes "closed V R H k0 w"
  shows "wp (getServers N S A r) (\<lambda>x w'. closed V R H k0 w' \<and> (case x of
      Inl e \<Rightarrow> ServerListIPs w' = [] \<and> Servers w' = Servers w
    | Inr _ \<Rightarrow> \<exists>new. Servers w' = mergeServers (Servers w) new)) w"
proof -
  let ?Q = "\<lambda>x w'. closed V R H k0 w' \<and> (case x of
      Inl e \<Rightarrow> ServerListIPs w' = [] \<and> Servers w' = Servers w
    | Inr _ \<Rightarrow> \<exists>new. Servers w' = mergeServers (Servers w) new)"
  define cont :: "(('k, 'm) cw_scheme, unit) prog" where
    "cont = bindP (getsP ServerListIPs) (\<lambda>ips. bindP (tryP (tryServerListIPs N A ips)) (\<lambda>res. case res of
       Inl e \<Rightarrow> bindP ClearServerListIPs (\<lambda>_. throw e) | Inr servers \<Rightarrow> MergeServers servers))"
  have fetch: "wp cont ?Q w1" if c: "closed V R H k0 w1" and s: "Servers w1 = Servers w" for w1
    unfolding cont_def by (simp, rule wp_keeps [OF keeps_both_try [where ?k0.0 = k0 and ?w0.0 = w1]])
      (use c in \<open>auto simp: s closed_def ClearServerListIPs_def MergeServers_def dest!: hostOnly_fields(2) split: sum.split\<close>)
  have start: "wp (if ServerListIPs w = [] then bindP (Resolve N S r ServerlistHostname) MergeServerListIPs else ret ())
      (\<lambda>x w'. closed V R H k0 w' \<and> Servers w' = Servers w \<and> (\<forall>e. x = Inl e \<longrightarrow> ServerListIPs w' = [])) w"
    by (simp, intro conjI impI wp_keeps [OF keeps_both_Resolve [where ?k0.0 = k0 and ?w0.0 = w]])
      (use assms in \<open>auto simp: MergeServerListIPs_def closed_def dest: hostOnly_fields split: sum.split\<close>)
  show ?thesis
    unfolding getServers_def cont_def [symmetric] wp_bindP [of "getsP ServerListIPs"] wp_getsP sum.case
  proof (subst wp_bindP, rule wp_conseq [OF start])
    fix x :: "err + unit" and w' :: "('k, 'm) cw_scheme"
    assume "closed V R H k0 w' \<and> Servers w' = Servers w \<and> (\<forall>e. x = Inl e \<longrightarrow> ServerListIPs w' = [])"
    then show "case x of Inl e \<Rightarrow> ?Q (Inl e) w' | Inr a \<Rightarrow> wp cont ?Q w'"
      by (cases x) (use fetch [of w'] in auto)
  qed
qed

end

text \<open>A server that the configuration allows.\<close>

definition eligible :: "vpnConfig \<Rightarrow> server \<Rightarrow> bool" where
  "eligible cfg srv \<longleftrightarrow> (''all'' \<in> locationSet (vcLocation cfg) \<or> Region srv \<in> locationSet (vcLocation cfg)) \<and>
     (vcPFRequired cfg \<longrightarrow> PF srv)"

lemma filterServers_eligible:
  "srv \<in> set (filterServers ss (vcLocation cfg) (vcPFRequired cfg)) \<longleftrightarrow> srv \<in> set ss \<and> eligible cfg srv"
  by (auto simp: filterServers_set eligible_def)

lemma onePerRegion_nonempty: "onePerRegion ss = [] \<longleftrightarrow> ss = []"
  by (cases ss) (simp_all add: onePerRegion_eq)

lemma onePerRegion_subset: "set (onePerRegion ss) \<subseteq> set ss"
  by (simp add: onePerRegion_eq firstsBy_subset)

text \<open>\<open>candidatesFor\<close>: the candidates of a configuration; an error when there are none.\<close>

definition candidatesFor :: "vpnConfig \<Rightarrow> server list \<Rightarrow> server list" where
  "candidatesFor cfg servers = (let cs = filterServers servers (vcLocation cfg) (vcPFRequired cfg)
     in if vcLocation cfg = ''all'' then onePerRegion cs else cs)"

lemma candidatesFor_eligible: "srv \<in> set (candidatesFor cfg servers) \<Longrightarrow> srv \<in> set servers \<and> eligible cfg srv"
  unfolding candidatesFor_def Let_def
  by (simp only: filterServers_eligible [symmetric] split: if_splits) (blast dest: onePerRegion_subset [THEN subsetD])+

lemma candidatesFor_empty: "candidatesFor cfg servers = [] \<longleftrightarrow> (\<forall>srv \<in> set servers. \<not> eligible cfg srv)"
proof -
  let ?cs = "filterServers servers (vcLocation cfg) (vcPFRequired cfg)"
  have "candidatesFor cfg servers = [] \<longleftrightarrow> ?cs = []"
    by (simp add: candidatesFor_def Let_def onePerRegion_nonempty)
  also have "\<dots> \<longleftrightarrow> (\<forall>srv. srv \<notin> set ?cs)" by (cases ?cs) auto
  also have "\<dots> \<longleftrightarrow> (\<forall>srv \<in> set servers. \<not> eligible cfg srv)"
    by (simp only: filterServers_eligible) blast
  finally show ?thesis .
qed

lemma filterServers_pf: "filterServers ss l False = [] \<Longrightarrow> filterServers ss l True = []"
  by (auto simp: filterServers_def Let_def filter_empty_conv split: if_splits)

lemma selectServer_candidates:
  "selectServer N S cfg w =
     (if candidatesFor cfg (Servers w) = [] \<and> vcLocation cfg \<noteq> ''all''
      then Some (Inl (if filterServers (Servers w) (vcLocation cfg) False = [] then notFoundErr cfg (Servers w)
             else noPFErr cfg (Servers w)), w)
      else raceServers N S (candidatesFor cfg (Servers w)) w)"
  using filterServers_pf [of "Servers w" "vcLocation cfg"]
  by (cases "vcLocation cfg = ''all''"; cases "vcPFRequired cfg")
    (simp_all add: selectServer_def candidatesFor_def bindP_def getsP_def Let_def throw_def)

text \<open>The API of the reference host: it answers from the tables of the kernel while its address is exempt.\<close>

definition refServers :: "region list" where
  "refServers =
     [\<lparr>regID = ''us'', regName = ''US'', regPortForward = False,
       regServers = [''wg'' \<mapsto> [\<lparr>CN = ''us1'', IP = ''11.0.0.1'', Region = [], RegionName = [], PF = False\<rparr>,
                              \<lparr>CN = ''us2'', IP = ''11.0.0.2'', Region = [], RegionName = [], PF = False\<rparr>]]\<rparr>,
      \<lparr>regID = ''ch'', regName = ''CH'', regPortForward = True,
       regServers = [''wg'' \<mapsto> [\<lparr>CN = ''ch1'', IP = ''12.0.0.1'', Region = [], RegionName = [], PF = False\<rparr>]]\<rparr>]"

definition refA :: "refk api" where
  "refA = \<lparr>aDo = (\<lambda>rq k. (if refOpen (rqDialIP rq) (if rqPIACert rq then ''1337'' else ''443'') ''tcp'' k
       then Inr (200, Inr (rqServerName rq)) else Inl (Errorf ''i/o timeout'' []), k)),
     decToken = (\<lambda>b. Inr \<lparr>tbToken = b, tbMessage = []\<rparr>), decRegions = (\<lambda>_. Inr refServers),
     decAddKey = (\<lambda>_. Inr \<lparr>akStatus = ''OK'', akServerKey = ''srvkey'', akServerPort = 1337, akPeerIP = ''10.2.3.4'',
       akServerVIP = ''10.2.0.1'', akDNSServers = [''10.0.0.243'']\<rparr>),
     decDIP = (\<lambda>_. Inr [\<lparr>dbStatus = ''active'', dbIP = ''12.0.0.1'', dbCN = ''ch1'', dbID = ''ch''\<rparr>]),
     encDIP = (\<lambda>_. Inr ''{}''), aCertPool = Pair (Inr ())\<rparr>"

interpretation refr: race_world refN refV refR refH refS "\<lambda>_. 0"
  by unfold_locales (auto simp: refS_def refRace_def)

interpretation refv: vpn_world refN refV refR refH refS "\<lambda>_. 0" refA
  by unfold_locales (auto simp: refS_def refA_def refRace_def quiet_def)

section \<open>Properties\<close>

text \<open>
  C27. The server selected. On a healthy host without exemptions, a selection returns and leaves
  the chains and the policy rules as they were. If some known server is in a wanted region and
  forwards ports if that is required, it returns such a server; otherwise it fails, fatally
  unless all regions are wanted.
\<close>

theorem select_server_correct:
  assumes "vpn_world N V R H S ticks A" and "H (kern w)" and "shut (V (kern w))"
  shows "\<exists>x w'. selectServer N S cfg w = Some (x, w') \<and> V (kern w') = V (kern w) \<and> R (kern w') = R (kern w) \<and>
    (case x of
       Inr (srv, lat) \<Rightarrow> srv \<in> set (Servers w) \<and> eligible cfg srv
     | Inl e \<Rightarrow> (\<forall>srv \<in> set (Servers w). \<not> eligible cfg srv) \<and> (errors_is e ErrFatal \<longleftrightarrow> vcLocation cfg \<noteq> ''all''))"
proof (cases "candidatesFor cfg (Servers w) = []")
  case True
  then show ?thesis
    using candidatesFor_empty [of cfg "Servers w"]
    by (auto simp: selectServer_candidates raceServers_def throw_def)
next
  case False
  have c: "closed V R H (kern w) w" using assms(2,3) by (simp add: closed_def)
  have "wp (raceServers N S (candidatesFor cfg (Servers w)))
      (\<lambda>x w'. closed V R H (kern w) w' \<and> (\<exists>srv lat. x = Inr (srv, lat) \<and> srv \<in> set (candidatesFor cfg (Servers w)))) w"
    by (rule race_world.wp_raceServers [OF vpn_world.axioms(1) [OF assms(1)] c False]) auto
  then show ?thesis
    using False candidatesFor_eligible [of _ cfg "Servers w"]
    by (fastforce simp: selectServer_candidates wp_iff closed_def)
qed

definition demoVpn :: "refk cw" where
  "demoVpn = \<lparr>kern = kern demoNet, ipt4Cmd = [], ipt6Cmd = [], active = True, activePort = 0,
     Token = [], TokenTime = zeroTime, AuthIPs = [], ServerListIPs = [], Servers = flattenRegions refServers,
     tokenFile = Inl (Sentinel ErrNotExist), writable = True, now = 1700000000 * second, ctxErr = None\<rparr>"

definition demoVpnCfg :: vpnConfig where
  "demoVpnCfg = \<lparr>vcPIAUser = ''u'', vcPIAPass = ''p'', vcLocation = ''us, ch'', vcDIPToken = [], vcPFRequired = True,
     vcManualCN = [], vcManualIP = [], vcMTU = 1420, vcIPv6 = False, vcWGBackend = ''kernel''\<rparr>"

lemma demoVpn_shut: "refH (kern demoVpn)" "shut (refV (kern demoVpn))"
  using demoNet_shut by (simp_all add: demoVpn_def)

theorem select_server_correct_witness:
  "\<exists>srv lat w'. selectServer refN refS demoVpnCfg demoVpn = Some (Inr (srv, lat), w') \<and>
     refV (kern w') = refV (kern demoVpn) \<and> eligible demoVpnCfg srv \<and> Region srv = ''ch''"
proof -
  obtain x w' where x: "selectServer refN refS demoVpnCfg demoVpn = Some (x, w')" "refV (kern w') = refV (kern demoVpn)"
    "\<forall>srv lat. x = Inr (srv, lat) \<longrightarrow> eligible demoVpnCfg srv"
    using select_server_correct [OF refv.vpn_world_axioms demoVpn_shut, of demoVpnCfg] by fastforce
  obtain srv lat where s: "x = Inr (srv, lat)" "Region srv = ''ch''"
  proof -
    have "case fst (the (selectServer refN refS demoVpnCfg demoVpn)) of Inr y \<Rightarrow> Region (fst y) = ''ch'' | Inl _ \<Rightarrow> False"
      by code_simp
    then show ?thesis unfolding x(1) by (cases x) (auto intro: that)
  qed
  with x show ?thesis by auto
qed

text \<open>
  The race takes the fastest candidate. On a healthy host without exemptions, a race
  returns one of the candidates and restores the firewall: the first candidate if no
  connection succeeded in time, else one whose latency is the lowest among those that arrived.
\<close>

lemma race_takes_fastest:
  assumes "race_world N V R H S ticks" and "H (kern w)" and "shut (V (kern w))" and "candidates \<noteq> []"
  shows "\<exists>srv lat w' collected k. raceServers N S candidates w = Some (Inr (srv, lat), w') \<and>
    V (kern w') = V (kern w) \<and> R (kern w') = R (kern w) \<and> srv \<in> set candidates \<and>
    (\<forall>(i, l) \<in> set collected. Result i l \<in> set (fst (sRace S (map IP candidates) k)) \<and> l > 0) \<and>
    (if collected = [] then srv = candidates ! 0 \<and> lat = 0
     else \<exists>i. (i, lat) \<in> set collected \<and> srv = candidates ! i \<and> (\<forall>(j, l) \<in> set collected. lat \<le> l))"
proof -
  have c: "closed V R H (kern w) w" using assms(2,3) by (simp add: closed_def)
  have "wp (raceServers N S candidates) (\<lambda>x w'. \<exists>srv lat collected k. x = Inr (srv, lat) \<and> closed V R H (kern w) w' \<and>
      srv \<in> set candidates \<and> fastest candidates collected (srv, lat) \<and>
      (\<forall>(i, l) \<in> set collected. Result i l \<in> set (fst (sRace S (map IP candidates) k)) \<and> l > 0)) w"
    by (rule race_world.wp_raceServers [OF assms(1) c assms(4)]) blast
  then obtain w' srv lat collected k where r: "raceServers N S candidates w = Some (Inr (srv, lat), w')"
    "closed V R H (kern w) w'" "srv \<in> set candidates" "fastest candidates collected (srv, lat)"
    "\<forall>(i, l) \<in> set collected. Result i l \<in> set (fst (sRace S (map IP candidates) k)) \<and> l > 0"
    by (auto simp: wp_iff)
  show ?thesis
    using r by (intro exI [of _ srv] exI [of _ lat] exI [of _ w'] exI [of _ collected] exI [of _ k])
      (auto simp: closed_def fastest_def split: if_splits)
qed

lemma race_takes_fastest_witness:
  "\<exists>srv lat w'. raceServers refN refS (flattenRegions refServers) demoVpn = Some (Inr (srv, lat), w') \<and>
     refV (kern w') = refV (kern demoVpn) \<and> lat = 98"
proof -
  have "flattenRegions refServers \<noteq> []" by code_simp
  from race_takes_fastest [OF refr.race_world_axioms demoVpn_shut this]
  obtain srv lat w' where w: "raceServers refN refS (flattenRegions refServers) demoVpn = Some (Inr (srv, lat), w')"
    "refV (kern w') = refV (kern demoVpn)" by blast
  have "case fst (the (raceServers refN refS (flattenRegions refServers) demoVpn)) of Inr y \<Rightarrow> snd y = 98 | Inl _ \<Rightarrow> False"
    by code_simp
  then show ?thesis unfolding w(1) using w by simp
qed

text \<open>
  Fetching the server list. On a healthy host without exemptions, it returns and restores
  the firewall. If it fails, no cached address is left, so the next attempt resolves the host
  again, and the known servers stay; if it succeeds, the fetched servers are merged into them.
\<close>

lemma get_servers_correct:
  assumes "vpn_world N V R H S ticks A" and "H (kern w)" and "shut (V (kern w))"
  shows "\<exists>x w'. getServers N S A r w = Some (x, w') \<and> V (kern w') = V (kern w) \<and> R (kern w') = R (kern w) \<and>
    (case x of
       Inl e \<Rightarrow> ServerListIPs w' = [] \<and> Servers w' = Servers w
     | Inr _ \<Rightarrow> \<exists>new. Servers w' = mergeServers (Servers w) new)"
proof -
  have "closed V R H (kern w) w" using assms(2,3) by (simp add: closed_def)
  from vpn_world.wp_getServers [OF assms(1) this, of r] show ?thesis
    unfolding wp_iff by (fastforce simp: closed_def)
qed

lemma get_servers_correct_witness:
  "\<exists>w'. getServers refN refS refA (NewExemptResolver []) (demoVpn\<lparr>Servers := []\<rparr>) = Some (Inr (), w') \<and>
     refV (kern w') = refV (kern demoVpn) \<and> length (Servers w') = 3"
proof -
  let ?w = "demoVpn\<lparr>Servers := []\<rparr>"
  have s: "refH (kern ?w)" "shut (refV (kern ?w))" using demoVpn_shut by simp_all
  obtain x w' where w: "getServers refN refS refA (NewExemptResolver []) ?w = Some (x, w')"
    "refV (kern w') = refV (kern demoVpn)"
    using get_servers_correct [OF refv.vpn_world_axioms s, of "NewExemptResolver []"] by auto
  have "fst (the (getServers refN refS refA (NewExemptResolver []) ?w)) = Inr ()"
    "length (Servers (snd (the (getServers refN refS refA (NewExemptResolver []) ?w)))) = 3" by code_simp+
  then show ?thesis unfolding w(1) using w by simp
qed

end
