(* ===== verification/Wg.thy ===== *)
theory Wg
  imports World
begin

text \<open>
  The WireGuard interface (\<^verbatim>\<open>internal/wg/wg.go\<close>): keys, bringing the tunnel up with its routing
  rules, taking it down, the check of \<^verbatim>\<open>rp_filter\<close> and the readings of \<^verbatim>\<open>wg show\<close>. Commands are
  run on the host; the text of stderr, which only goes into error messages, is left out but
  where the code looks at it.
\<close>

section \<open>Configuration\<close>

definition IfaceName :: string where "IfaceName = ''pia0''"
definition wgFwmark :: int where "wgFwmark = 51820"
definition routingTable :: int where "routingTable = 51820"
definition persistentKeepalive :: int where "persistentKeepalive = 25"
definition priorityVPN :: nat where "priorityVPN = 200"
definition prioritySuppress :: nat where "prioritySuppress = 300"

record wgConfig =
  wcPrivateKey :: string
  wcPeerPublicKey :: string
  wcEndpoint :: string
  wcPeerIP :: string
  wcMTU :: int
  wcIPv6Enabled :: bool
  wcBackend :: string

text \<open>\<^verbatim>\<open>run\<close>: a command whose error gets its name in front.\<close>

definition runCmd :: "'k netops \<Rightarrow> string list \<Rightarrow> (('k, 'm) net_scheme, unit) prog" where
  "runCmd N args = wrapErr (hd args) (runK (nRun N args))"

definition GenerateKeyPair :: "'k netops \<Rightarrow> 'k sysops \<Rightarrow> (('k, 'm) net_scheme, string \<times> string) prog" where
  "GenerateKeyPair N S =
     bindP (wrapErr ''generate private key'' (outK (nOutput N [''wg'', ''genkey'']))) (\<lambda>priv.
     bindP (wrapErr ''derive public key'' (outK (sOutIn S [''wg'', ''pubkey''] (TrimSpace priv)))) (\<lambda>pub.
     ret (TrimSpace priv, TrimSpace pub)))"

section \<open>The interface\<close>

definition sockPath :: string where
  "sockPath = ''/var/run/wireguard/'' @ IfaceName @ ''.sock''"

definition linkAdd :: "string list" where
  "linkAdd = [''ip'', ''link'', ''add'', IfaceName, ''type'', ''wireguard'']"

definition ensureTUN :: "'k netops \<Rightarrow> 'k sysops \<Rightarrow> (('k, 'm) net_scheme, unit) prog" where
  "ensureTUN N S = bindP (tryP (runK (sStat S ''/dev/net/tun''))) (\<lambda>r. case r of
       Inr _ \<Rightarrow> ret ()
     | Inl _ \<Rightarrow>
         bindP (wrapErr ''create /dev/net'' (runK (sMkdirAll S ''/dev/net''))) (\<lambda>_.
         bindP (wrapErr ''create /dev/net/tun''
           (runK (nRun N [''mknod'', ''/dev/net/tun'', ''c'', ''10'', ''200'']))) (\<lambda>_.
         wrapErr ''chmod /dev/net/tun'' (runK (sChmod S ''/dev/net/tun'' 384)))))"

text \<open>The polling loop: it ends when the socket is there, at the deadline, or with the context.\<close>

partial_function (option) waitForInterface :: "'k sysops \<Rightarrow> ('k, 'm) net_scheme \<Rightarrow> ((err + unit) \<times> ('k, 'm) net_scheme) option" where
  "waitForInterface S w = (case sStat S sockPath (kern w) of
       (None, k) \<Rightarrow> Some (Inr (), w\<lparr>kern := k\<rparr>)
     | (Some _, k) \<Rightarrow> (case sWait S k of
           (Deadline, k') \<Rightarrow> Some (Inl (Errorf ''interface did not appear'' []), w\<lparr>kern := k'\<rparr>)
         | (CtxDone e, k') \<Rightarrow> Some (Inl e, w\<lparr>kern := k'\<rparr>)
         | (Tick, k') \<Rightarrow> waitForInterface S (w\<lparr>kern := k'\<rparr>)))"

declare waitForInterface.simps [code]

definition startUserspace :: "'k netops \<Rightarrow> 'k sysops \<Rightarrow> (('k, 'm) net_scheme, string) prog" where
  "startUserspace N S =
     bindP (ensureTUN N S) (\<lambda>_.
     bindP (wrapErr ''start wireguard-go'' (runK (sStart S [''wireguard-go'', IfaceName]))) (\<lambda>_.
     bindP (tryP (waitForInterface S)) (\<lambda>r. case r of
       Inr _ \<Rightarrow> ret ''userspace''
     | Inl _ \<Rightarrow> bindP (askK (sOutputOf S [''wireguard-go'', IfaceName])) (\<lambda>out.
         let out = TrimSpace out in
         if Contains out ''no such device'' then throw (Errorf ''TUN kernel module not loaded'' [])
         else if Contains out ''operation not permitted'' then throw (Errorf ''permission denied creating TUN device'' [])
         else throw (Errorf (''wireguard-go failed to create interface: '' @ out) [])))))"

definition createInterface :: "'k netops \<Rightarrow> 'k sysops \<Rightarrow> string \<Rightarrow> (('k, 'm) net_scheme, string) prog" where
  "createInterface N S backend =
     (if backend = ''kernel'' then
        bindP (wrapErr ''kernel WireGuard unavailable (WG_BACKEND=kernel)'' (runCmd N linkAdd)) (\<lambda>_. ret ''kernel'')
      else if backend = ''userspace'' then startUserspace N S
      else bindP (tryP (runCmd N linkAdd)) (\<lambda>r. case r of
          Inr _ \<Rightarrow> ret ''kernel''
        | Inl _ \<Rightarrow> startUserspace N S))"

section \<open>The check of \<^verbatim>\<open>rp_filter\<close>\<close>

text \<open>The word after the first \<^verbatim>\<open>dev\<close> that has one.\<close>

fun devOf :: "string list \<Rightarrow> string" where
  "devOf (f # g # rest) = (if f = ''dev'' then g else devOf (g # rest))"
| "devOf _ = []"

definition rpFilterVal :: "'k netops \<Rightarrow> string \<Rightarrow> (('k, 'm) net_scheme, int) prog" where
  "rpFilterVal N iface =
     bindP (tryP (outK (nOutput N [''sysctl'', ''-n'', ''net.ipv4.conf.'' @ iface @ ''.rp_filter'']))) (\<lambda>r. case r of
       Inl _ \<Rightarrow> ret 0
     | Inr out \<Rightarrow> ret (ParseIntV (TrimSpace out)))"

definition checkRPFilter :: "'k netops \<Rightarrow> (('k, 'm) net_scheme, unit) prog" where
  "checkRPFilter N =
     bindP (tryP (outK (nOutput N [''ip'', ''-4'', ''route'', ''show'', ''default'']))) (\<lambda>r. case r of
       Inl _ \<Rightarrow> ret ()
     | Inr out \<Rightarrow> (let iface = devOf (Fields out) in
         if iface = [] then ret ()
         else bindP (rpFilterVal N ''all'') (\<lambda>a. bindP (rpFilterVal N iface) (\<lambda>i.
           if max a i = 1 then throw (Errorf ''net.ipv4.conf.all.rp_filter=1 will cause handshake failures'' [])
           else ret ()))))"

section \<open>Up and Down\<close>

definition setKey :: "'k sysops \<Rightarrow> string \<Rightarrow> (('k, 'm) net_scheme, unit) prog" where
  "setKey S key =
     bindP (askK (sRunIn S [''wg'', ''set'', IfaceName, ''private-key'', ''/dev/stdin''] key)) (\<lambda>(e, stderr). case e of
       None \<Rightarrow> ret ()
     | Some e \<Rightarrow> (if TrimSpace stderr \<noteq> [] then throw (Errorf (''set private key ('' @ TrimSpace stderr @ '')'') [e])
                 else throw (Errorf ''set private key'' [e])))"

definition addrCmd :: "wgConfig \<Rightarrow> string list" where
  "addrCmd cfg = [''ip'', ''address'', ''add'', wcPeerIP cfg @ ''/32'', ''dev'', IfaceName]"

definition mtuCmd :: "wgConfig \<Rightarrow> string list" where
  "mtuCmd cfg = [''ip'', ''link'', ''set'', ''mtu'', Itoa (max (wcMTU cfg) 1280), ''dev'', IfaceName]"

definition fwmarkCmd :: "string list" where
  "fwmarkCmd = [''wg'', ''set'', IfaceName, ''fwmark'', Itoa wgFwmark]"

definition peerCmd :: "wgConfig \<Rightarrow> string list" where
  "peerCmd cfg = [''wg'', ''set'', IfaceName, ''peer'', wcPeerPublicKey cfg, ''endpoint'', wcEndpoint cfg,
     ''allowed-ips'', (if wcIPv6Enabled cfg then ''0.0.0.0/0, ::/0'' else ''0.0.0.0/0''),
     ''persistent-keepalive'', Itoa persistentKeepalive]"

definition upCmd :: "string list" where
  "upCmd = [''ip'', ''link'', ''set'', IfaceName, ''up'']"

definition routeCmd :: "string list" where
  "routeCmd = [''ip'', ''route'', ''add'', ''0.0.0.0/0'', ''dev'', IfaceName, ''table'', Itoa routingTable]"

definition vpnSel :: "string list" where
  "vpnSel = [''not'', ''fwmark'', Itoa wgFwmark, ''table'', Itoa routingTable]"

definition suppressSel :: "string list" where
  "suppressSel = [''table'', ''main'', ''suppress_prefixlength'', ''0'']"

text \<open>
  The deferred cleanup of \<^verbatim>\<open>Up\<close> looks at the variable that the errors of the later steps do not
  reach (each of them declares its own), so after the interface exists it never runs; before
  that it is not yet deferred. The model has no cleanup either.
\<close>

definition wgUp :: "'k netops \<Rightarrow> 'k sysops \<Rightarrow> wgConfig \<Rightarrow> (('k, 'm) net_scheme, string) prog" where
  "wgUp N S cfg =
     bindP (wrapErr ''create interface'' (createInterface N S (wcBackend cfg))) (\<lambda>backend.
     bindP (setKey S (wcPrivateKey cfg)) (\<lambda>_.
     bindP (wrapErr ''add address'' (runCmd N (addrCmd cfg))) (\<lambda>_.
     bindP (wrapErr ''set MTU'' (runCmd N (mtuCmd cfg))) (\<lambda>_.
     bindP (wrapErr ''set fwmark'' (runCmd N fwmarkCmd)) (\<lambda>_.
     bindP (wrapErr ''configure peer'' (runCmd N (peerCmd cfg))) (\<lambda>_.
     bindP (wrapErr ''bring up interface'' (runCmd N upCmd)) (\<lambda>_.
     bindP (checkRPFilter N) (\<lambda>_.
     bindP (wrapErr ''add VPN route'' (runCmd N routeCmd)) (\<lambda>_.
     bindP (wrapErr ''add VPN routing rule'' (wrapErr ''ip'' (ipRuleAdd N IPv4 vpnSel priorityVPN))) (\<lambda>_.
     bindP (wrapErr ''add suppress rule'' (wrapErr ''ip'' (ipRuleAdd N IPv4 suppressSel prioritySuppress))) (\<lambda>_.
     ret backend)))))))))))"

definition cleanupRoutingRules :: "'k netops \<Rightarrow> (('k, 'm) net_scheme, unit) prog" where
  "cleanupRoutingRules N =
     forP [priorityVPN, prioritySuppress] (\<lambda>p. delLoop N [''ip'', ''rule'', ''del'', ''priority'', ItoaN p])"

definition wgDown :: "'k netops \<Rightarrow> 'k sysops \<Rightarrow> (('k, 'm) net_scheme, unit) prog" where
  "wgDown N S =
     bindP (ignoreP (runCmd N [''ip'', ''link'', ''set'', IfaceName, ''down''])) (\<lambda>_.
     bindP (ignoreP (runCmd N [''ip'', ''link'', ''del'', IfaceName])) (\<lambda>_.
     bindP (ignoreP (runK (nRun N [''pkill'', ''-f'', ''wireguard-go '' @ IfaceName]))) (\<lambda>_.
     bindP (ignoreP (runK (sRemove S sockPath))) (\<lambda>_.
     cleanupRoutingRules N))))"

section \<open>Readings\<close>

text \<open>\<open>Split\<close> never gives an empty list, so the first line always exists.\<close>

definition parseTransfer :: "string \<Rightarrow> err + (int \<times> int)" where
  "parseTransfer output =
     (case Fields (hd (Split (CHR 0x0A) (TrimSpace output))) of
        _ # a # b # _ \<Rightarrow> (case ParseInt a of
            None \<Rightarrow> Inl (Errorf ''strconv.ParseInt'' [])
          | Some rx \<Rightarrow> (case ParseInt b of
              None \<Rightarrow> Inl (Errorf ''strconv.ParseInt'' [])
            | Some tx \<Rightarrow> Inr (rx, tx)))
      | _ \<Rightarrow> Inl (Errorf ''interface transitioning'' []))"

definition GetTransferBytes :: "'k netops \<Rightarrow> (('k, 'm) net_scheme, int \<times> int) prog" where
  "GetTransferBytes N =
     bindP (outK (nOutput N [''wg'', ''show'', IfaceName, ''transfer''])) (\<lambda>output.
     case parseTransfer output of Inl e \<Rightarrow> throw e | Inr x \<Rightarrow> ret x)"

definition parseHandshake :: "string \<Rightarrow> int" where
  "parseHandshake output =
     (case Fields (hd (Split (CHR 0x0A) (TrimSpace output))) of _ # t # _ \<Rightarrow> ParseIntV t | _ \<Rightarrow> 0)"

definition GetLastHandshake :: "'k netops \<Rightarrow> (('k, 'm) net_scheme, int) prog" where
  "GetLastHandshake N =
     bindP (tryP (outK (nOutput N [''wg'', ''show'', IfaceName, ''latest-handshakes'']))) (\<lambda>r. case r of
       Inl _ \<Rightarrow> ret 0
     | Inr output \<Rightarrow> ret (parseHandshake output))"

section \<open>What the steps do to the host\<close>

lemma plain_cmds [simp, intro]:
  "plainCmd linkAdd" "plainCmd (addrCmd cfg)" "plainCmd (mtuCmd cfg)" "plainCmd fwmarkCmd" "plainCmd (peerCmd cfg)"
  "plainCmd upCmd" "plainCmd routeCmd" "plainCmd [''mknod'', a, b, c, d]" "plainCmd [''ip'', ''link'', x, y]"
  "plainCmd [''ip'', ''link'', x, y, z]" "plainCmd [''pkill'', x, y]"
  by (simp_all add: plainCmd_def linkAdd_def addrCmd_def mtuCmd_def fwmarkCmd_def peerCmd_def upCmd_def routeCmd_def)

lemma sels_nonempty [simp]: "vpnSel \<noteq> []" "suppressSel \<noteq> []"
  by (simp_all add: vpnSel_def suppressSel_def)

lemma wg_priorities [simp]: "priorityVPN \<noteq> prioritySuppress" "prioritySuppress \<noteq> priorityVPN"
  by (simp_all add: priorityVPN_def prioritySuppress_def)

lemma ipRuleAdd_runK:
  "ipRuleAdd N f sel p = runK (nRun N ([''ip''] @ famArgs f @ [''rule'', ''add''] @ sel @ [''priority'', ItoaN p]))"
  by (simp add: ipRuleAdd_def)

text \<open>What \<^verbatim>\<open>Up\<close> leaves: no change, the first rule, or (when it succeeds) both rules.\<close>

definition upRules :: "nat \<Rightarrow> (nat \<times> string list) multiset" where
  "upRules n = mset (take n [(priorityVPN, vpnSel), (prioritySuppress, suppressSel)])"

context host_world
begin

lemma keeps_runCmd [intro]: "plainCmd args \<Longrightarrow> keeps (still k0) (runCmd N args)"
  unfolding runCmd_def by blast

text \<open>The polling loop ends, since every interval brings the deadline nearer.\<close>

lemma wait_returns: "wp (waitForInterface S) (\<lambda>_. still (kern w)) w"
proof (induction "ticks (kern w)" arbitrary: w rule: less_induct)
  case less
  obtain r k where st: "sStat S sockPath (kern w) = (r, k)" by fastforce
  have uk: "undisturbed V R H (kern w) k" and tk: "ticks k \<le> ticks (kern w)"
    using sysD quietD [where f = "sStat S sockPath" and rel = "undisturbed V R H", OF _ st] quietD [where f = "sStat S sockPath" and rel = "\<lambda>k k'. ticks k' \<le> ticks k", OF stat_ticks st]
    by blast+
  obtain a k' where wt: "sWait S k = (a, k')" by fastforce
  have uk': "undisturbed V R H k k'" using sysD quietD [where f = "sWait S" and rel = "undisturbed V R H", OF _ wt] by blast
  have u: "undisturbed V R H (kern w) k'" using uk uk' transpD [OF undisturbed_trans] by metis
  show ?case
  proof (cases r)
    case (Some e)
    show ?thesis
    proof (cases a)
      case Tick
      have "ticks k' < ticks (kern w)" using tick [of k k'] wt Tick tk by simp
      then have "wp (waitForInterface S) (\<lambda>_. still k') (w\<lparr>kern := k'\<rparr>)"
        using less [of "w\<lparr>kern := k'\<rparr>"] by simp
      then have "wp (waitForInterface S) (\<lambda>_. still (kern w)) (w\<lparr>kern := k'\<rparr>)"
        by (rule wp_conseq) (rule transpD [OF undisturbed_trans u])
      then show ?thesis
        using st wt Some Tick by (simp add: wp_def waitForInterface.simps [of S w])
    qed (use st wt Some u in \<open>simp_all add: wp_def waitForInterface.simps [of S w]\<close>)
  qed (use st uk in \<open>simp add: wp_def waitForInterface.simps [of S w]\<close>)
qed

lemma keeps_waitForInterface [intro]: "keeps (still k0) (waitForInterface S)"
  by (rule keepsI, rule wp_conseq [OF wait_returns]) (rule transpD [OF undisturbed_trans])

lemma keeps_startUserspace [intro]: "keeps (still k0) (startUserspace N S)"
  unfolding startUserspace_def ensureTUN_def Let_def
  by (intro keeps_bindP keeps_wrapErr keeps_sys keeps_tryP keeps_waitForInterface)
    (auto split: sum.split intro!: keeps_bindP)

lemma keeps_createInterface [intro]: "keeps (still k0) (createInterface N S b)"
  unfolding createInterface_def by (auto split: sum.split intro!: keeps_bindP)

lemma keeps_checkRPFilter [intro]: "keeps (still k0) (checkRPFilter N)"
  unfolding checkRPFilter_def rpFilterVal_def Let_def
  by (rule keeps_bindP) (auto split: sum.split intro!: keeps_bindP)

lemma keeps_setKey [intro]: "keeps (still k0) (setKey S key)"
  unfolding setKey_def Let_def by (rule keeps_bindP) (auto split: option.split)

lemma keeps_GenerateKeyPair [intro]: "keeps (still k0) (GenerateKeyPair N S)"
  unfolding GenerateKeyPair_def by (intro keeps_bindP keeps_wrapErr keeps_output keeps_sys keeps_ret)

text \<open>On a healthy host \<^verbatim>\<open>ip rule add\<close> fails only if the rule is there.\<close>

lemma wp_rule_add_either:
  assumes "H (kern w)" and "sel \<noteq> []"
    and "\<And>k'. H k' \<Longrightarrow> (p, sel) \<notin># R (kern w) f \<Longrightarrow> V k' = V (kern w) \<Longrightarrow>
      R k' = (R (kern w))(f := add_mset (p, sel) (R (kern w) f)) \<Longrightarrow> Q (Inr ()) (w\<lparr>kern := k'\<rparr>)"
    and "\<And>e k'. H k' \<Longrightarrow> (p, sel) \<in># R (kern w) f \<Longrightarrow> V k' = V (kern w) \<Longrightarrow> R k' = R (kern w) \<Longrightarrow>
      Q (Inl e) (w\<lparr>kern := k'\<rparr>)"
  shows "wp (ipRuleAdd N f sel p) Q w"
  unfolding ipRuleAdd_runK
proof (rule wp_runK)
  fix k' assume "nRun N ([''ip''] @ famArgs f @ [''rule'', ''add''] @ sel @ [''priority'', ItoaN p]) (kern w) = (None, k')"
  from rule_add_ok [OF this assms(2)] rule_add_succ [OF assms(1) this assms(2)]
  show "Q (Inr ()) (w\<lparr>kern := k'\<rparr>)" by (intro assms(3)) auto
next
  fix e k' assume "nRun N ([''ip''] @ famArgs f @ [''rule'', ''add''] @ sel @ [''priority'', ItoaN p]) (kern w) = (Some e, k')"
  from rule_add_err [OF this assms(2)] rule_add_succ [OF assms(1) this assms(2)]
  show "Q (Inl e) (w\<lparr>kern := k'\<rparr>)" by (intro assms(4)) auto
qed

lemma wp_wgUp:
  assumes "H (kern w)"
    and "\<And>r w' n. H (kern w') \<Longrightarrow> V (kern w') = V (kern w) \<Longrightarrow> n \<le> 2 \<Longrightarrow> (\<forall>b. r = Inr b \<longrightarrow> n = 2) \<Longrightarrow>
      R (kern w') = (R (kern w))(IPv4 := R (kern w) IPv4 + upRules n) \<Longrightarrow> Q r w'"
  shows "wp (wgUp N S cfg) Q w"
proof -
  let ?k = "kern w"
  have err: "Q (Inl e) w'" if "still ?k w'" for e w'
    using that assms(1) by (intro assms(2) [of _ 0]) (auto simp: undisturbed_def upRules_def)
  have tail: "wp (bindP (wrapErr ''add VPN routing rule'' (wrapErr ''ip'' (ipRuleAdd N IPv4 vpnSel priorityVPN))) (\<lambda>_.
      bindP (wrapErr ''add suppress rule'' (wrapErr ''ip'' (ipRuleAdd N IPv4 suppressSel prioritySuppress))) (\<lambda>_.
      ret b))) Q w'" if st: "still ?k w'" for b w'
  proof -
    have h: "H (kern w')" and v: "V (kern w') = V ?k" and r: "R (kern w') = R ?k"
      using st assms(1) by (auto simp: undisturbed_def)
    show ?thesis
    proof (simp, rule wp_rule_add_either [OF h], simp, simp, rule wp_rule_add_either, simp_all)
      fix k1 k2
      assume "H k2" "V k2 = V (kern w')"
        "R k2 = (R (kern w'))(IPv4 := add_mset (prioritySuppress, suppressSel) (add_mset (priorityVPN, vpnSel) (R (kern w') IPv4)))"
      then show "Q (Inr b) (w'\<lparr>kern := k2\<rparr>)"
        by (intro assms(2) [of _ 2]) (simp_all add: v r upRules_def add_mset_commute)
    next
      fix k1 e k2
      assume "H k2" "V k2 = V (kern w')" "R k2 = (R (kern w'))(IPv4 := add_mset (priorityVPN, vpnSel) (R (kern w') IPv4))"
      then show "Q (Inl (Errorf ''add suppress rule'' [Errorf ''ip'' [e]])) (w'\<lparr>kern := k2\<rparr>)"
        by (intro assms(2) [of _ 1]) (simp_all add: v r upRules_def)
    next
      fix e k' assume "H k'" "V k' = V (kern w')" "R k' = R (kern w')"
      then show "Q (Inl (Errorf ''add VPN routing rule'' [Errorf ''ip'' [e]])) (w'\<lparr>kern := k'\<rparr>)"
        by (intro err) (simp add: undisturbed_def v r)
    qed
  qed
  show ?thesis
    unfolding wgUp_def
    by (intro wp_keeps_bindP [where I = "still ?k"] keeps_wrapErr keeps_createInterface keeps_setKey keeps_checkRPFilter
        keeps_runCmd plain_cmds err tail undisturbed_refl)
qed

lemma wp_wgDown_host:
  assumes "H (kern w)"
    and "\<And>w'. H (kern w') \<Longrightarrow> V (kern w') = V (kern w) \<Longrightarrow>
      R (kern w') = (R (kern w))(IPv4 := filter_mset (\<lambda>x. fst x \<noteq> priorityVPN \<and> fst x \<noteq> prioritySuppress) (R (kern w) IPv4)) \<Longrightarrow>
      Q (Inr ()) w'"
  shows "wp (wgDown N S) Q w"
proof -
  have tail: "wp (cleanupRoutingRules N) Q w'" if st: "still (kern w) w'" for w'
  proof -
    have h: "H (kern w')" and v: "V (kern w') = V (kern w)" and r: "R (kern w') = R (kern w)"
      using st assms(1) by (auto simp: undisturbed_def)
    have loop: "wp (delLoop N [''ip'', ''rule'', ''del'', ''priority'', ItoaN p]) Q' u"
      if "H (kern u)" and "\<And>k'. H k' \<Longrightarrow> V k' = V (kern u) \<Longrightarrow>
        R k' = (R (kern u))(IPv4 := filter_mset (\<lambda>x. fst x \<noteq> p) (R (kern u) IPv4)) \<Longrightarrow> Q' (Inr ()) (u\<lparr>kern := k'\<rparr>)"
      for p Q' u
      by (rule wp_delLoop_host [where f = IPv4 and d = "''del''" and pw = "''priority''"]) (use that in auto)
    show ?thesis
      unfolding cleanupRoutingRules_def
      by (simp, rule loop [OF h]; simp; rule loop; simp; rule assms(2))
        (auto simp: v r filter_filter_mset conj_commute)
  qed
  show ?thesis
    unfolding wgDown_def
    by (intro wp_keeps_ignoreP [where I = "still (kern w)"] keeps_runCmd keeps_cmd keeps_sys plain_cmds tail undisturbed_refl)
qed

end

section \<open>The order of the commands\<close>

text \<open>The commands of \<^verbatim>\<open>Up\<close> with the kernel module, in order, but for the readings.\<close>

definition upPlan :: "wgConfig \<Rightarrow> string list list" where
  "upPlan cfg = [linkAdd, addrCmd cfg, mtuCmd cfg, fwmarkCmd, peerCmd cfg, upCmd, routeCmd,
     [''ip'', ''rule'', ''add''] @ vpnSel @ [''priority'', ItoaN priorityVPN],
     [''ip'', ''rule'', ''add''] @ suppressSel @ [''priority'', ItoaN prioritySuppress]]"

text \<open>
  \<open>recorded N S hist\<close>: \<open>hist\<close> is the list of the commands run, whatever they answered; readings
  and commands with an input are not in it.
\<close>

definition recorded :: "'k netops \<Rightarrow> 'k sysops \<Rightarrow> ('k \<Rightarrow> string list list) \<Rightarrow> bool" where
  "recorded N S hist \<longleftrightarrow> (\<forall>args. quiet (\<lambda>k k'. hist k' = hist k @ [args]) (nRun N args)) \<and>
     (\<forall>args. quiet (\<lambda>k k'. hist k' = hist k) (nOutput N args)) \<and>
     (\<forall>args i. quiet (\<lambda>k k'. hist k' = hist k) (sRunIn S args i))"

lemma wp_runCmd_rec:
  assumes "recorded N S hist"
    and "\<And>r k'. hist k' = hist (kern w) @ [args] \<Longrightarrow> Q r (w\<lparr>kern := k'\<rparr>)"
  shows "wp (runK (nRun N args)) Q w"
  by (rule wp_runK; rule assms(2)) (use assms(1) in \<open>auto simp: recorded_def dest!: spec [of _ args] quietD\<close>)

lemma wp_output_rec:
  assumes "recorded N S hist"
    and "\<And>r k'. hist k' = hist (kern w) \<Longrightarrow> Q r (w\<lparr>kern := k'\<rparr>)"
  shows "wp (outK (nOutput N args)) Q w"
  by (rule wp_outK; rule assms(2)) (use assms(1) in \<open>auto simp: recorded_def dest!: spec [of _ args] quietD\<close>)

lemma rec_in: "recorded N S hist \<Longrightarrow> sRunIn S args i k = (r, k') \<Longrightarrow> hist k' = hist k"
  unfolding recorded_def quiet_def by (metis snd_conv)

lemma keeps_rec_output: "recorded N S hist \<Longrightarrow> keeps (\<lambda>w. hist (kern w) = x) (outK (nOutput N args))"
  by (rule keepsI) (auto intro: wp_output_rec)

lemma keeps_rec_setKey: "recorded N S hist \<Longrightarrow> keeps (\<lambda>w. hist (kern w) = x) (setKey S key)"
  unfolding setKey_def Let_def
  by (rule keepsI) (auto intro!: wp_askK split: option.splits dest: rec_in)

lemma keeps_rec_checkRPFilter: "recorded N S hist \<Longrightarrow> keeps (\<lambda>w. hist (kern w) = x) (checkRPFilter N)"
  unfolding checkRPFilter_def rpFilterVal_def Let_def
  by (rule keeps_bindP) (auto split: sum.split intro!: keeps_bindP keeps_rec_output)

text \<open>One planned command: after it, the commands run are one more of the plan.\<close>

lemma step_rec:
  assumes "recorded N S hist" and "hist (kern w) = h @ dn"
    and "\<And>e w'. hist (kern w') = h @ dn @ [args] \<Longrightarrow> Q (Inl e) w'"
    and "\<And>w'. hist (kern w') = h @ dn @ [args] \<Longrightarrow> wp (f ()) Q w'"
  shows "wp (bindP (wrapErr s (wrapErr s' (runK (nRun N args)))) f) Q w"
  by (simp, rule wp_runCmd_rec [OF assms(1)]) (auto simp: assms(2) intro!: assms(3,4) split: sum.splits)

lemma step_link:
  assumes "recorded N S hist" and "hist (kern w) = h @ dn"
    and "\<And>e w'. hist (kern w') = h @ dn @ [linkAdd] \<Longrightarrow> Q (Inl e) w'"
    and "\<And>w'. hist (kern w') = h @ dn @ [linkAdd] \<Longrightarrow> wp (f ''kernel'') Q w'"
  shows "wp (bindP (wrapErr s (createInterface N S ''kernel'')) f) Q w"
  unfolding createInterface_def runCmd_def
  by (simp, rule wp_runCmd_rec [OF assms(1)]) (auto simp: assms(2) intro!: assms(3,4) split: sum.splits)

lemmas step_cmd = step_rec [where s' = "hd args" and args = args for args, folded runCmd_def]
lemmas step_rule = step_rec [where args = "[''ip''] @ famArgs f @ [''rule'', ''add''] @ sel @ [''priority'', ItoaN p]" for f sel p,
  folded ipRuleAdd_def]

section \<open>Properties\<close>

text \<open>
  C23. Up and down. On a healthy host, bringing the tunnel up returns, changes no chain of the
  firewall and no policy rule but its own two: both are there when it succeeds, a part of them
  when it fails. Taking the tunnel down after that returns, and if no rule had the priorities
  of the tunnel before, it restores the policy rules exactly.
\<close>

theorem tunnel_roundtrip:
  assumes "host_world N V R H S ticks" and "H (kern w)"
    and "\<forall>x \<in># R (kern w) IPv4. fst x \<noteq> priorityVPN \<and> fst x \<noteq> prioritySuppress"
  shows "\<exists>r w1 w2. wgUp N S cfg w = Some (r, w1) \<and> wgDown N S w1 = Some (Inr (), w2) \<and>
    V (kern w1) = V (kern w) \<and> V (kern w2) = V (kern w) \<and> R (kern w2) = R (kern w) \<and>
    (\<exists>m. m \<subseteq># {#(priorityVPN, vpnSel), (prioritySuppress, suppressSel)#} \<and>
       R (kern w1) = (R (kern w))(IPv4 := R (kern w) IPv4 + m) \<and>
       (\<forall>b. r = Inr b \<longrightarrow> m = {#(priorityVPN, vpnSel), (prioritySuppress, suppressSel)#}))"
proof -
  have "wp (wgUp N S cfg) (\<lambda>r w1. H (kern w1) \<and> V (kern w1) = V (kern w) \<and> (\<exists>n \<le> 2. (\<forall>b. r = Inr b \<longrightarrow> n = 2) \<and>
      R (kern w1) = (R (kern w))(IPv4 := R (kern w) IPv4 + upRules n))) w"
    by (rule host_world.wp_wgUp [OF assms(1,2)]) blast
  then obtain r w1 n where w1: "wgUp N S cfg w = Some (r, w1)" "H (kern w1)" "V (kern w1) = V (kern w)" "n \<le> 2"
    "\<forall>b. r = Inr b \<longrightarrow> n = 2" "R (kern w1) = (R (kern w))(IPv4 := R (kern w) IPv4 + upRules n)"
    by (auto simp: wp_iff)
  have n: "n = 0 \<or> n = 1 \<or> n = 2" using w1(4) by auto
  have old: "filter_mset (\<lambda>x. fst x \<noteq> priorityVPN \<and> fst x \<noteq> prioritySuppress) (R (kern w) IPv4) = R (kern w) IPv4"
    using assms(3) by (simp add: filter_mset_eq_conv)
  have new: "filter_mset (\<lambda>x. fst x \<noteq> priorityVPN \<and> fst x \<noteq> prioritySuppress) (upRules n) = {#}"
    using n by (auto simp: upRules_def)
  have sub: "upRules n \<subseteq># {#(priorityVPN, vpnSel), (prioritySuppress, suppressSel)#}"
    using n by (auto simp: upRules_def)
  have "wp (wgDown N S) (\<lambda>r w2. r = Inr () \<and> V (kern w2) = V (kern w) \<and> R (kern w2) = R (kern w)) w1"
    by (rule host_world.wp_wgDown_host [OF assms(1) w1(2)]) (simp add: w1 old new)
  then obtain w2 where "wgDown N S w1 = Some (Inr (), w2)" "V (kern w2) = V (kern w)" "R (kern w2) = R (kern w)"
    by (auto simp: wp_iff)
  moreover have "upRules 2 = {#(priorityVPN, vpnSel), (prioritySuppress, suppressSel)#}"
    by (simp add: upRules_def)
  ultimately show ?thesis
    using w1(1,3,5,6) sub by (intro exI [of _ r] exI [of _ w1] exI [of _ w2] conjI exI [of _ "upRules n"]) auto
qed

definition demoWg :: wgConfig where
  "demoWg = \<lparr>wcPrivateKey = ''k'', wcPeerPublicKey = ''p'', wcEndpoint = ''1.2.3.4:1337'', wcPeerIP = ''10.0.0.2'',
     wcMTU = 1420, wcIPv6Enabled = False, wcBackend = ''kernel''\<rparr>"

theorem tunnel_roundtrip_witness:
  "\<exists>b w1 w2. wgUp refN refS demoWg routeHost = Some (Inr b, w1) \<and> wgDown refN refS w1 = Some (Inr (), w2) \<and>
    (priorityVPN, vpnSel) \<in># refR (kern w1) IPv4 \<and> refR (kern w2) = refR (kern routeHost)"
proof -
  have h: "refH (kern routeHost)" by code_simp
  have "list_all (\<lambda>x. fst x \<noteq> priorityVPN \<and> fst x \<noteq> prioritySuppress) (rkRules (kern routeHost) IPv4)" by code_simp
  then have d: "\<forall>x \<in># refR (kern routeHost) IPv4. fst x \<noteq> priorityVPN \<and> fst x \<noteq> prioritySuppress"
    by (auto simp: refR_def list_all_iff)
  obtain r w1 w2 m where w: "wgUp refN refS demoWg routeHost = Some (r, w1)" "wgDown refN refS w1 = Some (Inr (), w2)"
    "refR (kern w2) = refR (kern routeHost)" "refR (kern w1) = (refR (kern routeHost))(IPv4 := refR (kern routeHost) IPv4 + m)"
    "\<forall>b. r = Inr b \<longrightarrow> m = {#(priorityVPN, vpnSel), (prioritySuppress, suppressSel)#}"
    using tunnel_roundtrip [OF refw.host_world_axioms h d, of demoWg] by blast
  have "fst (the (wgUp refN refS demoWg routeHost)) = Inr ''kernel''" by code_simp
  then have "r = Inr ''kernel''" using w(1) by simp
  then have "(priorityVPN, vpnSel) \<in># refR (kern w1) IPv4" using w(4,5) by simp
  with w \<open>r = Inr ''kernel''\<close> show ?thesis by blast
qed

text \<open>
  The firewall mark is set before the peer. With the kernel module, the commands that
  bringing the tunnel up runs are an initial part of the planned sequence, whatever they
  answer, and all of it if it succeeds: so no peer is configured and no interface is set up
  before the mark that keeps its packets out of the tunnel is set.
\<close>

lemma up_follows_plan:
  assumes "recorded N S hist" and "wcBackend cfg = ''kernel''"
  shows "\<exists>r w'. wgUp N S cfg w = Some (r, w') \<and>
    (\<exists>cmds. hist (kern w') = hist (kern w) @ cmds \<and> prefix cmds (upPlan cfg) \<and> (\<forall>b. r = Inr b \<longrightarrow> cmds = upPlan cfg))"
proof -
  let ?Q = "\<lambda>r w'. \<exists>cmds. hist (kern w') = hist (kern w) @ cmds \<and> prefix cmds (upPlan cfg) \<and>
    (\<forall>b. r = Inr b \<longrightarrow> cmds = upPlan cfg)"
  let ?h = "hist (kern w)"
  have leaf: "?Q r w'" if "hist (kern w') = ?h @ d" "prefix d (upPlan cfg)" "\<forall>b. r = Inr b \<longrightarrow> d = upPlan cfg" for r w' d
    using that by blast
  note step = step_cmd [OF assms(1), where h = ?h] and rule = step_rule [OF assms(1), where h = ?h]
  note reads = wp_keeps_bindP [OF keeps_rec_setKey [OF assms(1)]] wp_keeps_bindP [OF keeps_rec_checkRPFilter [OF assms(1)]]
  note plan = upPlan_def prefix_def
  have ret_leaf: "wp (ret b) ?Q w'" if "hist (kern w') = ?h @ upPlan cfg" for b w'
    using that by (simp add: exI [of _ "upPlan cfg"])
  have "wp (wgUp N S cfg) ?Q w"
    unfolding wgUp_def assms(2)
    by (rule step_link [OF assms(1), where h = ?h and dn = "[]"] step rule reads leaf ret_leaf | assumption | simp add: plan append_assoc [symmetric])+
  then show ?thesis by (auto simp: wp_iff)
qed

text \<open>A host that records its commands and lets all of them succeed.\<close>

definition recN :: "string list list netops" where
  "recN = \<lparr>nNewChain = (\<lambda>_ _ _. Pair None), nAppend = (\<lambda>_ _ _ _. Pair None), nInsert = (\<lambda>_ _ _ _ _. Pair None),
     nDelete = (\<lambda>_ _ _ _. Pair None), nClearAndDeleteChain = (\<lambda>_ _ _. Pair None), nList = (\<lambda>_ _ _. Pair (Inr [])),
     nRun = (\<lambda>args h. (None, h @ [args])), nOutput = (\<lambda>_. Pair (Inr []))\<rparr>"

definition recS :: "string list list sysops" where
  "recS = \<lparr>sRunIn = (\<lambda>_ _. Pair (None, [])), sOutIn = (\<lambda>_ _. Pair (Inr [])), sStart = (\<lambda>_. Pair None),
     sOutputOf = (\<lambda>_. Pair []), sStat = (\<lambda>_. Pair None), sMkdirAll = (\<lambda>_. Pair None), sChmod = (\<lambda>_ _. Pair None),
     sRemove = (\<lambda>_. Pair None), sWait = Pair Deadline, sLookups = (\<lambda>_ _. Pair []), sRace = (\<lambda>_. Pair []),
     sBefore = Pair True, sSleep = Pair None, sFetchIPs = (\<lambda>_. Pair [])\<rparr>"

lemma up_follows_plan_witness:
  "\<exists>b w'. wgUp recN recS demoWg \<lparr>kern = []\<rparr> = Some (Inr b, w') \<and> kern w' = upPlan demoWg"
proof -
  have r: "recorded recN recS (\<lambda>h. h)"
    by (simp add: recorded_def quiet_def recN_def recS_def)
  have k: "wcBackend demoWg = ''kernel''" by (simp add: demoWg_def)
  obtain r w' cmds where w: "wgUp recN recS demoWg \<lparr>kern = []\<rparr> = Some (r, w')" "kern w' = [] @ cmds"
    "\<forall>b. r = Inr b \<longrightarrow> cmds = upPlan demoWg"
    using up_follows_plan [OF r k, of "\<lparr>kern = []\<rparr>"] by auto
  have "fst (the (wgUp recN recS demoWg \<lparr>kern = []\<rparr>)) = Inr ''kernel''" by code_simp
  then have "r = Inr ''kernel''" using w(1) by simp
  with w show ?thesis by (metis append_Nil)
qed

end
