(* ===== verification/VpnSetup.thy ===== *)
theory VpnSetup
  imports Servers Wg
begin

text \<open>
  Setting a VPN connection up (\<^verbatim>\<open>internal/vpn/setup.go\<close>): authentication through the
  killswitch, the choice of a server, the registration of the key and the tunnel.
\<close>

section \<open>Authentication\<close>

record connectionInfo =
  ciServerIP :: string
  ciServerCN :: string
  ciClientIP :: string
  ciPFGateway :: string
  ciDNS :: "string list"

definition tryAuth :: "'k netops \<Rightarrow> 'k api \<Rightarrow> string \<Rightarrow> string \<Rightarrow> string \<Rightarrow> (('k, 'm) net_scheme, string) prog" where
  "tryAuth N A ip user pass =
     bindP (wrapErr ''auth'' (AddExemption N ip ''443'' ''tcp'' ''auth'')) (\<lambda>_.
     deferP (RemoveExemptions N) (GenerateToken A ip user pass))"

text \<open>The loop over addresses; \<open>None\<close> when all of them failed.\<close>

fun authLoop :: "'k netops \<Rightarrow> 'k api \<Rightarrow> string \<Rightarrow> string \<Rightarrow> string list \<Rightarrow> (('k, 'm) net_scheme, string option) prog" where
  "authLoop N A user pass [] = ret None"
| "authLoop N A user pass (ip # ips) =
     bindP (tryP (tryAuth N A ip user pass)) (\<lambda>r. case r of
       Inr token \<Rightarrow> ret (Some token)
     | Inl e \<Rightarrow>
         (if errors_is e ErrFatal then throw (Errorf ''Check PIA_USER/PASS or secrets pia_user/pass'' [e])
          else if errors_is e ErrRateLimited then throw (Errorf ''To avoid future rate limiting make the token persist'' [e])
          else authLoop N A user pass ips))"

definition authenticate :: "'k netops \<Rightarrow> 'k sysops \<Rightarrow> 'k api \<Rightarrow> resolver \<Rightarrow> vpnConfig \<Rightarrow> (('k, 'm) cw_scheme, string) prog" where
  "authenticate N S A r cfg =
     bindP (getsP AuthIPs) (\<lambda>cached.
     bindP (authLoop N A (vcPIAUser cfg) (vcPIAPass cfg) cached) (\<lambda>t. case t of
       Some token \<Rightarrow> ret token
     | None \<Rightarrow>
         bindP (Resolve N S r AuthHostname) (\<lambda>ips.
         bindP (MergeAuthIPs ips) (\<lambda>_.
         bindP (authLoop N A (vcPIAUser cfg) (vcPIAPass cfg) ips) (\<lambda>t. case t of
           Some token \<Rightarrow> ret token
         | None \<Rightarrow> throw (Errorf ''auth: all endpoints failed'' []))))))"

definition getToken :: "'k netops \<Rightarrow> 'k sysops \<Rightarrow> 'k api \<Rightarrow> resolver \<Rightarrow> vpnConfig \<Rightarrow> (('k, 'm) cw_scheme, string) prog" where
  "getToken N S A r cfg =
     bindP TokenFresh (\<lambda>(fresh, tokenAge).
     if fresh then GetToken
     else bindP (authenticate N S A r cfg) (\<lambda>token. bindP (SetToken token) (\<lambda>_. ret token)))"

fun resolveDIPLoop :: "'k netops \<Rightarrow> 'k api \<Rightarrow> string \<Rightarrow> string \<Rightarrow> string list \<Rightarrow> (('k, 'm) net_scheme, dipInfo) prog" where
  "resolveDIPLoop N A dipToken token [] = throw (Errorf ''dip: all endpoints failed'' [])"
| "resolveDIPLoop N A dipToken token (ip # ips) =
     bindP (tryP (AddExemption N ip ''443'' ''tcp'' ''dip'')) (\<lambda>r. case r of
       Inl e \<Rightarrow> throw (Errorf ''dip'' [e])
     | Inr _ \<Rightarrow>
         bindP (tryP (ResolveDIP A ip token dipToken)) (\<lambda>res.
         bindP (RemoveExemptions N) (\<lambda>_. case res of
           Inr info \<Rightarrow> ret info
         | Inl e \<Rightarrow> (if errors_is e ErrFatal then throw e else resolveDIPLoop N A dipToken token ips))))"

definition resolveDIP :: "'k netops \<Rightarrow> 'k api \<Rightarrow> vpnConfig \<Rightarrow> string \<Rightarrow> (('k, 'm) cw_scheme, dipInfo) prog" where
  "resolveDIP N A cfg token = bindP (getsP AuthIPs) (resolveDIPLoop N A (vcDIPToken cfg) token)"

section \<open>Setup\<close>

text \<open>The address and the name of the server to connect to.\<close>

definition chooseServer :: "'k netops \<Rightarrow> 'k sysops \<Rightarrow> 'k api \<Rightarrow> vpnConfig \<Rightarrow> string \<Rightarrow> (('k, 'm) cw_scheme, string \<times> string) prog" where
  "chooseServer N S A cfg token =
     (if vcManualCN cfg \<noteq> [] \<and> vcManualIP cfg \<noteq> [] then ret (vcManualIP cfg, vcManualCN cfg)
      else if vcDIPToken cfg \<noteq> [] then
        bindP (resolveDIP N A cfg token) (\<lambda>info.
        bindP (getsP Servers) (\<lambda>servers.
          let pfAvailable = (case find (\<lambda>srv. Region srv = dipRegion info) servers of Some srv \<Rightarrow> PF srv | None \<Rightarrow> False) in
          if vcPFRequired cfg \<and> \<not> pfAvailable then
            throw (Errorf (''DIP location '' @ dipCN info @ '' does not support port forwarding'') [Sentinel ErrFatal])
          else ret (dipIP info, dipCN info)))
      else bindP (selectServer N S cfg) (\<lambda>(srv, latency). ret (IP srv, CN srv)))"

text \<open>The registration of the public key, with what a rejected token does to the cache.\<close>

definition registerKey :: "'k netops \<Rightarrow> 'k api \<Rightarrow> vpnConfig \<Rightarrow> string \<Rightarrow> string \<Rightarrow> string \<Rightarrow> string \<Rightarrow>
    (('k, 'm) cw_scheme, addKeyResponse) prog" where
  "registerKey N A cfg token serverIP serverCN publicKey =
     bindP (wrapErr ''addkey'' (AddExemption N serverIP ''1337'' ''tcp'' ''addkey'')) (\<lambda>_.
     bindP (tryP (if vcDIPToken cfg \<noteq> [] then AddKeyDIP A serverIP serverCN (vcDIPToken cfg) publicKey
                  else AddKey A serverIP serverCN token publicKey)) (\<lambda>res.
     bindP (RemoveExemptions N) (\<lambda>_. case res of
       Inl e \<Rightarrow> bindP (if errors_is e ErrTokenRejected then ClearToken else ret ()) (\<lambda>_. throw e)
     | Inr resp \<Rightarrow> ret resp)))"

text \<open>An error of which only the message is kept: what it wrapped is lost.\<close>

definition fatalErr :: "string \<Rightarrow> ('w, 'a) prog \<Rightarrow> ('w, 'a) prog" where
  "fatalErr msg m = bindP (tryP m) (\<lambda>r. case r of Inl _ \<Rightarrow> throw (Errorf msg [Sentinel ErrFatal]) | Inr x \<Rightarrow> ret x)"

definition wgConfigOf :: "vpnConfig \<Rightarrow> string \<Rightarrow> string \<Rightarrow> addKeyResponse \<Rightarrow> wgConfig" where
  "wgConfigOf cfg privateKey serverIP resp =
     \<lparr>wcPrivateKey = privateKey, wcPeerPublicKey = akServerKey resp,
      wcEndpoint = serverIP @ '':'' @ Itoa (akServerPort resp), wcPeerIP = akPeerIP resp, wcMTU = vcMTU cfg,
      wcIPv6Enabled = vcIPv6 cfg, wcBackend = vcWGBackend cfg\<rparr>"

definition vpnSetup :: "'k netops \<Rightarrow> 'k sysops \<Rightarrow> 'k api \<Rightarrow> resolver \<Rightarrow> vpnConfig \<Rightarrow> (('k, 'm) cw_scheme, connectionInfo) prog" where
  "vpnSetup N S A r cfg =
     bindP (getToken N S A r cfg) (\<lambda>token.
     bindP (bindP (getsP Servers) (\<lambda>servers. if servers = [] then getServers N S A r else ret ())) (\<lambda>_.
     bindP (chooseServer N S A cfg token) (\<lambda>(serverIP, serverCN).
     bindP (fatalErr ''failed to generate WG keypair'' (GenerateKeyPair N S)) (\<lambda>(privateKey, publicKey).
     bindP (registerKey N A cfg token serverIP serverCN publicKey) (\<lambda>resp.
     bindP (fatalErr ''wireguard'' (wgUp N S (wgConfigOf cfg privateKey serverIP resp))) (\<lambda>backend.
     ret \<lparr>ciServerIP = serverIP, ciServerCN = serverCN, ciClientIP = akPeerIP resp,
          ciPFGateway = akServerVIP resp, ciDNS = akDNSServers resp\<rparr>))))))"

section \<open>Tokens\<close>

lemma hostOnly_trans: "hostOnly w0 w \<Longrightarrow> hostOnly w w' \<Longrightarrow> hostOnly w0 w'"
  unfolding hostOnly_def by (metis net.select_convs(1) net.surjective net.update_convs(1))

lemma wp_tryAuth:
  assumes "\<And>r w'. hostOnly w w' \<Longrightarrow> (\<forall>tok. r = Inr tok \<longrightarrow> tok \<noteq> []) \<Longrightarrow> Q r w'"
  shows "wp (tryAuth N A ip user pass) Q w"
  unfolding tryAuth_def
  by (rule wp_keeps_bindP [where I = "hostOnly w"])
    (auto intro!: assms wp_GenerateToken wp_keeps [OF hostOnly_exempt(3) [where ?w0.0 = w]] hostOnly_kern)

lemma wp_authLoop:
  assumes "\<And>r w'. hostOnly w w' \<Longrightarrow> (\<forall>tok. r = Inr (Some tok) \<longrightarrow> tok \<noteq> []) \<Longrightarrow> Q r w'"
  shows "wp (authLoop N A user pass ips) Q w"
  using assms
proof (induction ips arbitrary: w)
  case (Cons ip ips)
  show ?case
    unfolding authLoop.simps wp_bindP wp_tryP
    by (rule wp_tryAuth)
      (auto intro!: Cons.prems Cons.IH intro: hostOnly_trans split: sum.split)
qed simp

text \<open>What authentication leaves alone.\<close>

definition sameToken :: "('k, 'm) cw_scheme \<Rightarrow> ('k, 'm) cw_scheme \<Rightarrow> bool" where
  "sameToken w0 w \<longleftrightarrow> Token w = Token w0 \<and> TokenTime w = TokenTime w0 \<and> now w = now w0 \<and> Servers w = Servers w0"

lemma hostOnly_sameToken: "hostOnly w0 w \<Longrightarrow> sameToken w0 w"
  by (simp add: sameToken_def hostOnly_fields)

lemma sameToken_trans: "sameToken w0 w \<Longrightarrow> sameToken w w' \<Longrightarrow> sameToken w0 w'"
  by (simp add: sameToken_def)

lemma wp_authenticate:
  assumes "\<And>r w'. sameToken w w' \<Longrightarrow> (\<forall>tok. r = Inr tok \<longrightarrow> tok \<noteq> []) \<Longrightarrow> Q r w'"
  shows "wp (authenticate N S A rs cfg) Q w"
proof -
  have late: "wp (bindP (MergeAuthIPs ips) (\<lambda>_. bindP (authLoop N A (vcPIAUser cfg) (vcPIAPass cfg) ips)
      (\<lambda>t. case t of Some token \<Rightarrow> ret token | None \<Rightarrow> throw (Errorf ''auth: all endpoints failed'' [])))) Q w'"
    if w': "sameToken w w'" for w' ips
  proof -
    have m: "sameToken w (w'\<lparr>AuthIPs := xs\<rparr>)" for xs using w' by (simp add: sameToken_def)
    show ?thesis unfolding wp_bindP MergeAuthIPs_def wp_modifyP sum.case
      by (rule wp_authLoop)
        (auto intro!: assms sameToken_trans [OF m hostOnly_sameToken] split: sum.split option.split)
  qed
  show ?thesis
    unfolding authenticate_def wp_bindP [of "getsP AuthIPs"] wp_getsP sum.case
      wp_bindP [of "authLoop N A (vcPIAUser cfg) (vcPIAPass cfg) (AuthIPs w)"]
  proof (rule wp_authLoop)
    fix r :: "err + string option" and w'
    assume h: "hostOnly w w'" and ne: "\<forall>tok. r = Inr (Some tok) \<longrightarrow> tok \<noteq> []"
    have res: "wp (bindP (Resolve N S ra AuthHostname) (\<lambda>ips. bindP (MergeAuthIPs ips) (\<lambda>_.
        bindP (authLoop N A (vcPIAUser cfg) (vcPIAPass cfg) ips)
         (\<lambda>t. case t of Some token \<Rightarrow> ret token | None \<Rightarrow> throw (Errorf ''auth: all endpoints failed'' []))))) Q w'" for ra
      by (rule wp_keeps_bindP [OF hostOnly_Resolve h]) (auto intro: late assms hostOnly_sameToken simp del: wp_bindP)
    show "case r of Inl e \<Rightarrow> Q (Inl e) w' | Inr t \<Rightarrow> wp (case t of Some token \<Rightarrow> ret token
      | None \<Rightarrow> bindP (Resolve N S rs AuthHostname) (\<lambda>ips. bindP (MergeAuthIPs ips) (\<lambda>_.
        bindP (authLoop N A (vcPIAUser cfg) (vcPIAPass cfg) ips)
         (\<lambda>t. case t of Some token \<Rightarrow> ret token | None \<Rightarrow> throw (Errorf ''auth: all endpoints failed'' []))))) Q w'"
      using h ne res [of rs] by (cases r; cases "projr r") (auto intro!: assms hostOnly_sameToken simp del: wp_bindP)
  qed
qed

text \<open>\<open>isFresh\<close>: a token younger than 23 hours.\<close>

definition isFresh :: "('k, 'm) cw_scheme \<Rightarrow> bool" where
  "isFresh w \<longleftrightarrow> Token w \<noteq> [] \<and> Since (TokenTime w) (now w) < 23 * 3600 * 1000000000"

lemma wp_getToken:
  assumes "isFresh w \<Longrightarrow> Q (Inr (Token w)) w"
    and "\<And>tok w'. \<not> isFresh w \<Longrightarrow> tok \<noteq> [] \<Longrightarrow> Token w' = tok \<Longrightarrow> TokenTime w' = now w \<Longrightarrow> Servers w' = Servers w \<Longrightarrow>
      now w' = now w \<Longrightarrow> Q (Inr tok) w'"
    and "\<And>e w'. \<not> isFresh w \<Longrightarrow> sameToken w w' \<Longrightarrow> Q (Inl e) w'"
  shows "wp (getToken N S A rs cfg) Q w"
proof (cases "isFresh w")
  case True
  then show ?thesis
    using assms(1) by (simp add: getToken_def TokenFresh_def GetToken_def Let_def isFresh_def maxTokenAge_def second_def)
next
  case False
  have "wp (bindP (authenticate N S A rs cfg) (\<lambda>token. bindP (SetToken token) (\<lambda>_. ret token))) Q w"
    unfolding wp_bindP [of "authenticate N S A rs cfg"]
    by (rule wp_authenticate) (use False in \<open>auto simp: SetToken_def Let_def sameToken_def intro!: assms(2,3) split: sum.split\<close>)
  then show ?thesis
    using False by (auto simp: getToken_def TokenFresh_def Let_def isFresh_def maxTokenAge_def second_def simp del: wp_bindP
        simp: wp_bindP [of "getsP f" for f])
qed

text \<open>An authentication error ends the loop.\<close>

lemma authLoop_stops:
  assumes "tryAuth N A ip user pass w = Some (Inl e, w')" and "errors_is e ErrFatal \<or> errors_is e ErrRateLimited"
  shows "\<exists>e'. authLoop N A user pass (ip # ips) w = Some (Inl e', w') \<and>
    (errors_is e ErrFatal \<longrightarrow> errors_is e' ErrFatal) \<and> (errors_is e ErrRateLimited \<longrightarrow> errors_is e' ErrRateLimited)"
  using assms by (auto simp: bindP_def tryP_def throw_def)

lemma wp_RemoveExemptions:
  assumes "hostOnly w w'" and "\<And>w''. hostOnly w w'' \<Longrightarrow> Q (Inr ()) w''"
  shows "wp (RemoveExemptions N) Q w'"
  unfolding RemoveExemptions_def by (auto intro!: wp_runK assms(2) hostOnly_kern assms(1))

section \<open>The firewall during a setup\<close>

lemma hostOnly_registration: "keeps (hostOnly w0) (AddKey A ip cn token key)" "keeps (hostOnly w0) (AddKeyDIP A ip cn dip key)"
  by (rule keepsI; auto intro!: wp_AddKey wp_AddKeyDIP hostOnly_kern)+

lemma closed_cache [intro]:
  "keeps (closed v r h k0) (MergeAuthIPs ips)" "keeps (closed v r h k0) (SetToken tok)" "keeps (closed v r h k0) ClearToken"
  unfolding MergeAuthIPs_def SetToken_def ClearToken_def Let_def removeToken_def
  by (rule keeps_closed_modify; simp)+

context vpn_world
begin

text \<open>Work under one exemption, in the two ways the code writes it.\<close>

lemma keeps_single_deferred:
  assumes "\<And>k0. keeps (still k0) m"
  shows "keeps (closed V R H k0) (bindP (wrapErr msg (AddExemption N ip port proto comment)) (\<lambda>_. deferP (RemoveExemptions N) m))"
  using single.keeps_deferred [where e = "(ip, port, proto, comment)" and s = k0 and m = m and msg = msg]
    keeps_opened [OF assms] by simp

lemma keeps_single_sequence:
  assumes "\<And>k0. keeps (still k0) m" and "\<And>x. keeps (closed V R H k0) (f x)"
  shows "keeps (closed V R H k0) (bindP (wrapErr msg (AddExemption N ip port proto comment)) (\<lambda>_.
    bindP (tryP m) (\<lambda>x. bindP (RemoveExemptions N) (\<lambda>_. f x))))"
  using single.keeps_sequence [where e = "(ip, port, proto, comment)" and s = k0 and m = m and msg = msg and f = f]
    keeps_opened [OF assms(1)] assms(2) by simp

lemma keeps_tryAuth [intro]: "keeps (closed V R H k0) (tryAuth N A ip user pass)"
  unfolding tryAuth_def by (intro keeps_single_deferred still_api)

lemma keeps_authLoop [intro]: "keeps (closed V R H k0) (authLoop N A user pass ips)"
  by (induction ips) (auto intro!: keeps_bindP keeps_tryP split: sum.split)

lemma keeps_authenticate [intro]: "keeps (closed V R H k0) (authenticate N S A r cfg)"
  unfolding authenticate_def by (auto intro!: keeps_bindP split: option.split)

lemma keeps_getToken [intro]: "keeps (closed V R H k0) (getToken N S A r cfg)"
  unfolding getToken_def TokenFresh_def GetToken_def by (auto intro!: keeps_bindP split: prod.split)

lemma keeps_resolveDIP [intro]: "keeps (closed V R H k0) (resolveDIP N A cfg token)"
proof -
  have "keeps (closed V R H k0) (resolveDIPLoop N A d token ips)" for d ips
  proof (induction ips)
    case (Cons ip ips)
    show ?case unfolding resolveDIPLoop.simps
      by (rule keeps_tried_single) (auto split: sum.split intro: Cons)
  qed simp
  then show ?thesis unfolding resolveDIP_def by (auto intro!: keeps_bindP)
qed

lemma keeps_raceServers [intro]: "keeps (closed V R H k0) (raceServers N S cs)"
  by (cases "cs = []", simp add: raceServers_def) (auto intro!: keepsI wp_raceServers)

lemma keeps_selectServer [intro]: "keeps (closed V R H k0) (selectServer N S cfg)"
  unfolding selectServer_def Let_def by (auto intro!: keeps_bindP)

lemma keeps_getServers [intro]: "keeps (closed V R H k0) (getServers N S A r)"
  by (rule keepsI, rule wp_conseq [OF wp_getServers]) auto

lemma keeps_chooseServer [intro]: "keeps (closed V R H k0) (chooseServer N S A cfg token)"
  unfolding chooseServer_def Let_def by (auto intro!: keeps_bindP split: prod.split option.split)

lemma keeps_registerKey [intro]: "keeps (closed V R H k0) (registerKey N A cfg token ip cn key)"
  unfolding registerKey_def
  by (rule keeps_single_sequence) (auto intro!: keeps_bindP split: sum.split)

lemma keeps_fatalErr: "keeps I m \<Longrightarrow> keeps I (fatalErr msg m)"
  unfolding fatalErr_def by (auto intro!: keeps_bindP split: sum.split)

text \<open>All of it but the tunnel leaves the firewall closed; the tunnel adds its rules.\<close>

lemma wp_vpnSetup:
  assumes c: "closed V R H k0 w"
    and err: "\<And>e w'. closed V R H k0 w' \<Longrightarrow> Q (Inl e) w'"
    and up: "\<And>x w' n. shut (V (kern w')) \<Longrightarrow> H (kern w') \<Longrightarrow> V (kern w') = V k0 \<Longrightarrow> n \<le> 2 \<Longrightarrow> (\<forall>i. x = Inr i \<longrightarrow> n = 2) \<Longrightarrow>
      R (kern w') = (R k0)(IPv4 := R k0 IPv4 + upRules n) \<Longrightarrow> Q x w'"
  shows "wp (vpnSetup N S A r cfg) Q w"
proof -
  have last: "wp (bindP (fatalErr msg (wgUp N S c)) (\<lambda>_. ret i)) Q w'" if "closed V R H k0 w'" for w' msg c i
    unfolding fatalErr_def wp_bindP wp_tryP
    by (rule wp_wgUp) (use that in \<open>auto simp: closed_def intro!: up split: sum.split\<close>)
  show ?thesis
    unfolding vpnSetup_def
    apply (rule wp_keeps_bindP [where I = "closed V R H k0", OF keeps_getToken c], erule err)
    apply (rule wp_keeps_bindP [where I = "closed V R H k0"], (auto intro!: keeps_bindP)[1], assumption, erule err)
    apply (rule wp_keeps_bindP [where I = "closed V R H k0", OF keeps_chooseServer], assumption, erule err, clarsimp simp del: wp_bindP)
    apply (rule wp_keeps_bindP [where I = "closed V R H k0", OF keeps_fatalErr [OF keeps_closed [OF keeps_GenerateKeyPair]]],
      assumption, erule err, clarsimp simp del: wp_bindP)
    apply (rule wp_keeps_bindP [where I = "closed V R H k0", OF keeps_registerKey], assumption, erule err, erule last)
    done
qed

end

section \<open>Properties\<close>

text \<open>
  C10. A setup leaves the firewall as it was. On a healthy host without exemptions, setting the
  connection up returns whatever PIA, the resolvers and the tunnel answer. Afterwards no
  exemption is open and the chains are those from before; the policy rules are those from
  before and rules of the tunnel, both of them if it succeeded.
\<close>

theorem vpn_setup_restores:
  assumes "vpn_world N V R H S ticks A" and "H (kern w)" and "shut (V (kern w))"
  shows "\<exists>x w' m. vpnSetup N S A r cfg w = Some (x, w') \<and> H (kern w') \<and> V (kern w') = V (kern w) \<and>
    R (kern w') = (R (kern w))(IPv4 := R (kern w) IPv4 + m) \<and> m \<subseteq># {#(priorityVPN, vpnSel), (prioritySuppress, suppressSel)#} \<and>
    (\<forall>i. x = Inr i \<longrightarrow> m = {#(priorityVPN, vpnSel), (prioritySuppress, suppressSel)#})"
proof -
  let ?Q = "\<lambda>x w'. \<exists>n. H (kern w') \<and> V (kern w') = V (kern w) \<and>
    R (kern w') = (R (kern w))(IPv4 := R (kern w) IPv4 + upRules n) \<and> (\<forall>i. x = Inr i \<longrightarrow> n = 2) \<and> n \<le> 2"
  have c: "closed V R H (kern w) w" using assms(2,3) by (simp add: closed_def)
  have "wp (vpnSetup N S A r cfg) ?Q w"
  proof (rule vpn_world.wp_vpnSetup [OF assms(1) c])
    show "closed V R H (kern w) w' \<Longrightarrow> ?Q (Inl e) w'" for e w'
      by (intro exI [of _ 0]) (simp add: closed_def upRules_def)
  qed blast
  then obtain x w' n where w: "vpnSetup N S A r cfg w = Some (x, w')" "H (kern w')" "V (kern w') = V (kern w)"
    "R (kern w') = (R (kern w))(IPv4 := R (kern w) IPv4 + upRules n)" "\<forall>i. x = Inr i \<longrightarrow> n = 2" "n \<le> 2"
    unfolding wp_iff by blast
  have "n \<in> {0, 1, 2}" using w(6) by auto
  then have "upRules n \<subseteq># {#(priorityVPN, vpnSel), (prioritySuppress, suppressSel)#}"
    by (auto simp: upRules_def)
  moreover have "upRules 2 = {#(priorityVPN, vpnSel), (prioritySuppress, suppressSel)#}"
    by (simp add: upRules_def)
  ultimately show ?thesis
    using w by (intro exI [of _ x] exI [of _ w'] exI [of _ "upRules n"]) auto
qed

definition demoSetup :: "refk cw" where
  "demoSetup = demoVpn\<lparr>kern := (kern demoVpn)\<lparr>rkShow := ([''wg'', ''genkey''], ''priv'') # rkShow (kern demoVpn)\<rparr>\<rparr>"

theorem vpn_setup_restores_witness:
  "\<exists>i w'. vpnSetup refN refS refA (NewExemptResolver []) demoVpnCfg demoSetup = Some (Inr i, w') \<and>
     ciServerIP i = ''12.0.0.1'' \<and> refV (kern w') = refV (kern demoSetup) \<and> (priorityVPN, vpnSel) \<in># refR (kern w') IPv4"
proof -
  have s: "refH (kern demoSetup)" "shut (refV (kern demoSetup))"
    using demoVpn_shut by (simp_all add: demoSetup_def refH_def refV_def)
  obtain x w' m where w: "vpnSetup refN refS refA (NewExemptResolver []) demoVpnCfg demoSetup = Some (x, w')"
    "refV (kern w') = refV (kern demoSetup)" "refR (kern w') = (refR (kern demoSetup))(IPv4 := refR (kern demoSetup) IPv4 + m)"
    "\<forall>i. x = Inr i \<longrightarrow> m = {#(priorityVPN, vpnSel), (prioritySuppress, suppressSel)#}"
    using vpn_setup_restores [OF refv.vpn_world_axioms s, of "NewExemptResolver []" demoVpnCfg] by blast
  have "case fst (the (vpnSetup refN refS refA (NewExemptResolver []) demoVpnCfg demoSetup)) of
    Inr i \<Rightarrow> ciServerIP i = ''12.0.0.1'' | Inl _ \<Rightarrow> False" by code_simp
  then obtain i where "x = Inr i" "ciServerIP i = ''12.0.0.1''" unfolding w(1) by (cases x) auto
  with w show ?thesis by auto
qed

text \<open>
  C30. The login token. Asking for a token always returns. A cached token younger than 23 hours
  is taken without a request; otherwise the result is a new, non-empty token that is cached
  with the time it was set at, or an error that leaves the cached one alone.
\<close>

theorem token_reused_or_renewed:
  "\<exists>r w'. getToken N S A rs cfg w = Some (r, w') \<and>
    (if Token w \<noteq> [] \<and> Since (TokenTime w) (now w) < 23 * 60 * 60 * 1000000000 then r = Inr (Token w) \<and> w' = w
     else case r of
         Inr tok \<Rightarrow> tok \<noteq> [] \<and> Token w' = tok \<and> TokenTime w' = now w
       | Inl _ \<Rightarrow> Token w' = Token w \<and> TokenTime w' = TokenTime w)"
proof -
  have "wp (getToken N S A rs cfg) (\<lambda>r w'. if isFresh w then r = Inr (Token w) \<and> w' = w
     else case r of Inr tok \<Rightarrow> tok \<noteq> [] \<and> Token w' = tok \<and> TokenTime w' = now w
       | Inl _ \<Rightarrow> Token w' = Token w \<and> TokenTime w' = TokenTime w) w"
    by (rule wp_getToken) (simp_all add: sameToken_def)
  then show ?thesis by (simp add: wp_iff isFresh_def)
qed

text \<open>
  C31. A rejected token is dropped. The registration of a key always returns. If PIA rejects the
  token it is cleared from the cache, so that the next attempt logs in again; whatever else
  happens the cached token stays.
\<close>

theorem rejected_token_cleared:
  fixes w :: "('k, 'm) cw_scheme"
  shows "\<exists>r w'. registerKey N A cfg token ip cn key w = Some (r, w') \<and>
    (case r of
       Inr _ \<Rightarrow> Token w' = Token w
     | Inl e \<Rightarrow>
         (\<exists>e'. e = Errorf ''addkey'' [e'] \<and> Token w' = Token w) \<or>
         (if errors_is e ErrTokenRejected
          then Token w' = [] \<and> getToken N S A rs cfg w' =
            bindP (authenticate N S A rs cfg) (\<lambda>token. bindP (SetToken token) (\<lambda>_. ret token)) w'
          else Token w' = Token w))"
proof -
  define Q where "Q = (\<lambda>r (w' :: ('k, 'm) cw_scheme). case r of
       Inr (_ :: addKeyResponse) \<Rightarrow> Token w' = Token w
     | Inl e \<Rightarrow> (\<exists>e'. e = Errorf ''addkey'' [e'] \<and> Token w' = Token w) \<or>
         (if errors_is e ErrTokenRejected
          then Token w' = [] \<and> getToken N S A rs cfg w' =
            bindP (authenticate N S A rs cfg) (\<lambda>token. bindP (SetToken token) (\<lambda>_. ret token)) w'
          else Token w' = Token w))"
  have again: "getToken N S A rs cfg w' =
      bindP (authenticate N S A rs cfg) (\<lambda>token. bindP (SetToken token) (\<lambda>_. ret token)) w'" if "Token w' = []" for w' :: "('k, 'm) cw_scheme"
    using that by (simp add: getToken_def TokenFresh_def bindP_def [of "getsP f" for f] getsP_def Let_def)
  note h = hostOnly_registration [of w] hostOnly_exempt [of w]
  have last: "wp (case res of Inl e \<Rightarrow> bindP (if errors_is e ErrTokenRejected then ClearToken else ret ()) (\<lambda>_. throw e)
      | Inr resp \<Rightarrow> ret resp) Q w'" if "hostOnly w w'" for res and w' :: "('k, 'm) cw_scheme"
    using that hostOnly_fields(4) [OF that] again
    by (cases res) (auto simp: Q_def ClearToken_def removeToken_def)
  have close: "wp (bindP (RemoveExemptions N) (\<lambda>_. f)) Q w'" if "hostOnly w w'" and "\<And>w'. hostOnly w w' \<Longrightarrow> wp f Q w'"
    for f and w' :: "('k, 'm) cw_scheme"
    unfolding wp_bindP [of "RemoveExemptions N"]
    by (rule wp_RemoveExemptions [OF that(1)]) (simp del: wp_bindP add: that(2))
  define cont :: "(('k, 'm) cw_scheme, addKeyResponse) prog" where
    "cont = bindP (tryP (if vcDIPToken cfg \<noteq> [] then AddKeyDIP A ip cn (vcDIPToken cfg) key else AddKey A ip cn token key))
      (\<lambda>res. bindP (RemoveExemptions N) (\<lambda>_. case res of
         Inl e \<Rightarrow> bindP (if errors_is e ErrTokenRejected then ClearToken else ret ()) (\<lambda>_. throw e) | Inr resp \<Rightarrow> ret resp))"
  have key: "wp cont Q w'" if "hostOnly w w'" for w'
    unfolding cont_def wp_bindP [of "tryP m" for m] wp_tryP sum.case
    by (rule wp_keeps [where I = "hostOnly w"], simp add: h, rule that) (auto intro: close last simp del: wp_bindP)
  have early: "Q (Inl (Errorf ''addkey'' [e])) w'" if "hostOnly w w'" for e w'
    using that by (simp add: Q_def hostOnly_fields(4))
  have "wp (bindP (wrapErr ''addkey'' (AddExemption N ip ''1337'' ''tcp'' ''addkey'')) (\<lambda>_. cont)) Q w"
    by (simp, rule wp_keeps [where I = "hostOnly w"]) (auto simp: h split: sum.split intro: key early)
  then have "wp (registerKey N A cfg token ip cn key) Q w"
    by (simp only: registerKey_def cont_def)
  then show ?thesis by (simp add: wp_iff Q_def)
qed

text \<open>
  An authentication stops at the first refusal. If the first cached address answers that
  the credentials are wrong or that the rate limit is hit, authentication fails at once with
  the same sentinel and contacts no other address: the world is as that attempt left it.
\<close>

lemma auth_stops_on_refusal:
  fixes w :: "('k, 'm) cw_scheme"
  assumes "AuthIPs w = ip # ips" and "tryAuth N A ip (vcPIAUser cfg) (vcPIAPass cfg) w = Some (Inl e, w')"
    and "errors_is e ErrFatal \<or> errors_is e ErrRateLimited"
  shows "\<exists>e'. authenticate N S A r cfg w = Some (Inl e', w') \<and>
    (errors_is e ErrFatal \<longrightarrow> errors_is e' ErrFatal) \<and> (errors_is e ErrRateLimited \<longrightarrow> errors_is e' ErrRateLimited)"
proof -
  obtain e' where e': "authLoop N A (vcPIAUser cfg) (vcPIAPass cfg) (AuthIPs w) w = Some (Inl e', w')"
    "(errors_is e ErrFatal \<longrightarrow> errors_is e' ErrFatal) \<and> (errors_is e ErrRateLimited \<longrightarrow> errors_is e' ErrRateLimited)"
    using authLoop_stops [OF assms(2,3), of ips] unfolding assms(1) by blast
  have bg: "bindP (getsP f) g w = g (f w) w" for f and g :: "_ \<Rightarrow> (('k, 'm) cw_scheme, string) prog" and w :: "('k, 'm) cw_scheme"
    by (simp add: bindP_def getsP_def)
  have "authenticate N S A r cfg w = Some (Inl e', w')"
    unfolding authenticate_def bg by (simp add: bindP_def [of "authLoop N A u p xs" for u p xs] e'(1))
  then show ?thesis using e'(2) by blast
qed

lemma auth_stops_on_refusal_witness:
  "\<exists>e' w'. authenticate refN refS (refA\<lparr>aDo := (\<lambda>rq. Pair (Inr (401, Inr [])))\<rparr>) (NewExemptResolver []) demoVpnCfg
      (demoVpn\<lparr>AuthIPs := [''1.2.3.4'', ''5.6.7.8'']\<rparr>) = Some (Inl e', w') \<and> errors_is e' ErrFatal"
proof -
  let ?A = "refA\<lparr>aDo := (\<lambda>rq. Pair (Inr (401, Inr [])))\<rparr>" and ?w = "demoVpn\<lparr>AuthIPs := [''1.2.3.4'', ''5.6.7.8'']\<rparr>"
  let ?t = "tryAuth refN ?A ''1.2.3.4'' (vcPIAUser demoVpnCfg) (vcPIAPass demoVpnCfg) ?w"
  have "case ?t of Some (Inl e, _) \<Rightarrow> errors_is e ErrFatal | _ \<Rightarrow> False" by code_simp
  then obtain e w' where t: "?t = Some (Inl e, w')" "errors_is e ErrFatal" by (auto split: option.splits sum.splits prod.splits)
  have "AuthIPs ?w = ''1.2.3.4'' # [''5.6.7.8'']" by simp
  from auth_stops_on_refusal [OF this t(1), of refS "NewExemptResolver []"] t(2) show ?thesis by blast
qed

end
