(* ===== verification/Verify.thy ===== *)
theory Verify
  imports Servers
begin

text \<open>
  The verification of a connection (\<^verbatim>\<open>internal/vpn/verify.go\<close>): the wait for a handshake and the
  comparison of the public address with the one from before the tunnel. The goroutine that
  sends pings meanwhile is left out.
\<close>

section \<open>Waiting for the handshake\<close>

definition handshakeDone :: "string \<Rightarrow> bool" where
  "handshakeDone output = (let parts = Fields output in length parts \<ge> 2 \<and> ParseIntV (parts ! 1) > 0)"

text \<open>One round of the loop: the result if it ends the loop.\<close>

definition handshakeRound :: "'k netops \<Rightarrow> 'k sysops \<Rightarrow> 'k \<Rightarrow> (err + unit) option \<times> 'k" where
  "handshakeRound N S k = (let (ahead, k0) = sBefore S k in
     if \<not> ahead then (Some (Inl (Errorf ''handshake timeout after 6s'' [])), k0)
     else let (out, k1) = nOutput N [''wg'', ''show'', ''pia0'', ''latest-handshakes''] k0 in
       if (case out of Inl _ \<Rightarrow> False | Inr output \<Rightarrow> handshakeDone output) then (Some (Inr ()), k1)
       else let (e, k2) = sSleep S k1 in (map_option Inl e, k2))"

partial_function (option) waitForHandshake ::
    "'k netops \<Rightarrow> 'k sysops \<Rightarrow> ('k, 'm) net_scheme \<Rightarrow> ((err + unit) \<times> ('k, 'm) net_scheme) option" where
  "waitForHandshake N S w = (case handshakeRound N S (kern w) of
       (Some r, k) \<Rightarrow> Some (r, w\<lparr>kern := k\<rparr>)
     | (None, k) \<Rightarrow> waitForHandshake N S (w\<lparr>kern := k\<rparr>))"

declare waitForHandshake.simps [code]

definition ipServices :: "string list" where
  "ipServices = [''https://api.ipify.org'', ''https://ifconfig.me/ip'', ''https://icanhazip.com'', ''https://checkip.amazonaws.com'']"

text \<open>What one goroutine makes of its answer; the body is read up to 64 bytes.\<close>

definition serviceResult :: "string \<times> (err + (int \<times> (err + string))) \<Rightarrow> err + string" where
  "serviceResult = (\<lambda>(url, resp). case resp of
       Inl e \<Rightarrow> Inl e
     | Inr (status, body) \<Rightarrow>
         (if status \<noteq> 200 then Inl (Errorf (url @ '': status '' @ Itoa status) [])
          else case body of
              Inl e \<Rightarrow> Inl e
            | Inr b \<Rightarrow> (let ip = TrimSpace (take 64 b) in
                if isIP ip then Inr ip else Inl (Errorf (''invalid IP: '' @ ip) []))))"

text \<open>The loop over the results: the first address, or the last error.\<close>

fun firstIP :: "err \<Rightarrow> (err + string) list \<Rightarrow> err + string" where
  "firstIP lastErr [] = Inl lastErr"
| "firstIP lastErr (Inr ip # rs) = (if ip \<noteq> [] then Inr ip else firstIP lastErr rs)"
| "firstIP lastErr (Inl e # rs) = firstIP e rs"

definition getPublicIP :: "'k sysops \<Rightarrow> (('k, 'm) net_scheme, string) prog" where
  "getPublicIP S = bindP (askK (sFetchIPs S ipServices)) (\<lambda>resps.
     case firstIP (Errorf ''no valid IP from any service'' []) (map serviceResult resps) of
       Inl e \<Rightarrow> throw e | Inr ip \<Rightarrow> ret ip)"

definition VerifyConnection :: "'k netops \<Rightarrow> 'k sysops \<Rightarrow> string \<Rightarrow> (('k, 'm) net_scheme, unit) prog" where
  "VerifyConnection N S preVPNIP =
     bindP (wrapErr ''waiting for handshake'' (waitForHandshake N S)) (\<lambda>_.
     bindP (tryP (getPublicIP S)) (\<lambda>r. case r of
       Inl _ \<Rightarrow> ret ()
     | Inr publicIP \<Rightarrow> (if publicIP = preVPNIP
         then throw (Errorf ''IP leak detected: traffic not routing through VPN!'' []) else ret ())))"

section \<open>What a verification finds\<close>

text \<open>\<open>validIPs\<close>: the addresses among the answers of the services, in the order they arrive.\<close>

definition validIPs :: "(string \<times> (err + (int \<times> (err + string)))) list \<Rightarrow> string list" where
  "validIPs resps = filter isIP (concat (map (\<lambda>(url, resp). case resp of
       Inr (status, Inr b) \<Rightarrow> (if status = 200 then [TrimSpace (take 64 b)] else []) | _ \<Rightarrow> []) resps))"

lemma not_isIP_Nil [simp]: "\<not> isIP []"
  by (simp add: isIP_def parseAddr_def)

lemma firstIP_validIPs:
  "case validIPs resps of [] \<Rightarrow> \<exists>e. firstIP e0 (map serviceResult resps) = Inl e
   | ip # _ \<Rightarrow> firstIP e0 (map serviceResult resps) = Inr ip \<and> ip \<noteq> []"
proof (induction resps arbitrary: e0)
  case (Cons r resps)
  obtain url resp where r: "r = (url, resp)" by fastforce
  have bad: ?case if "serviceResult r = Inl e" "validIPs (r # resps) = validIPs resps" for e
    using that Cons [of e] by (auto split: list.splits)
  show ?case
  proof (cases "\<exists>b. resp = Inr (200, Inr b) \<and> isIP (TrimSpace (take 64 b))")
    case True
    then obtain b where "resp = Inr (200, Inr b)" "isIP (TrimSpace (take 64 b))" by blast
    moreover from this(2) have "TrimSpace (take 64 b) \<noteq> []" by auto
    ultimately show ?thesis by (simp add: r serviceResult_def validIPs_def Let_def)
  next
    case False
    then have "\<exists>e. serviceResult r = Inl e" "validIPs (r # resps) = validIPs resps"
      by (auto simp: r serviceResult_def validIPs_def Let_def split: sum.split)
    with bad show ?thesis by blast
  qed
qed (simp add: validIPs_def)

context host_world
begin

text \<open>The wait ends: every interval brings the deadline nearer.\<close>

lemma handshakeRound_steps:
  assumes "handshakeRound N S k = (r, k')"
  shows "undisturbed V R H k k'" and "r = None \<Longrightarrow> ticks k' < ticks k"
    and "r = Some (Inr ()) \<Longrightarrow> \<exists>j out. fst (nOutput N [''wg'', ''show'', ''pia0'', ''latest-handshakes''] j) = Inr out \<and> handshakeDone out"
proof -
  let ?cmd = "[''wg'', ''show'', ''pia0'', ''latest-handshakes'']"
  obtain ahead k0 where b: "sBefore S k = (ahead, k0)" by fastforce
  obtain out k1 where o1: "nOutput N ?cmd k0 = (out, k1)" by fastforce
  obtain e k2 where e: "sSleep S k1 = (e, k2)" by fastforce
  have u: "undisturbed V R H k k0" "undisturbed V R H k0 k1" "undisturbed V R H k1 k2"
    using sysD quietD [where f = "sBefore S" and rel = "undisturbed V R H", OF _ b]
      quietD [OF out_quiet o1] quietD [where f = "sSleep S" and rel = "undisturbed V R H", OF _ e] by blast+
  have t: "ticks k0 \<le> ticks k" "ticks k1 \<le> ticks k0" "e = None \<Longrightarrow> ticks k2 < ticks k1"
    using quietD [OF before_ticks b] quietD [OF out_ticks o1] sleep_ticks [of k1 k2] e by auto
  show "undisturbed V R H k k'"
    using assms u b o1 e by (auto simp: handshakeRound_def undisturbed_def Let_def split: if_splits)
  show "r = None \<Longrightarrow> ticks k' < ticks k"
    using assms t b o1 e by (auto simp: handshakeRound_def Let_def split: if_splits)
  show "\<exists>j out. fst (nOutput N ?cmd j) = Inr out \<and> handshakeDone out" if "r = Some (Inr ())"
    using assms that b o1 e
    by (auto simp: handshakeRound_def Let_def split: if_splits sum.splits intro!: exI [of _ k0])
qed

lemma wp_waitForHandshake:
  "wp (waitForHandshake N S) (\<lambda>x w'. still (kern w) w' \<and> (x = Inr () \<longrightarrow>
     (\<exists>j out. fst (nOutput N [''wg'', ''show'', ''pia0'', ''latest-handshakes''] j) = Inr out \<and> handshakeDone out))) w"
    (is "wp _ (?Q w) _")
proof (induction "ticks (kern w)" arbitrary: w rule: less_induct)
  case less
  obtain r k where r: "handshakeRound N S (kern w) = (r, k)" by fastforce
  show ?case
  proof (cases r)
    case None
    then have "wp (waitForHandshake N S) (?Q (w\<lparr>kern := k\<rparr>)) (w\<lparr>kern := k\<rparr>)"
      using less [of "w\<lparr>kern := k\<rparr>"] handshakeRound_steps(2) [OF r] by simp
    then have "wp (waitForHandshake N S) (?Q w) (w\<lparr>kern := k\<rparr>)"
      by (rule wp_conseq) (use handshakeRound_steps(1) [OF r] in \<open>auto simp: undisturbed_def\<close>)
    then show ?thesis
      using r None by (simp add: wp_def waitForHandshake.simps [of N S w])
  next
    case (Some x)
    then show ?thesis
      using r handshakeRound_steps(1,3) [OF r] by (cases x) (auto simp: wp_def waitForHandshake.simps [of N S w])
  qed
qed

lemma wp_VerifyConnection:
  "wp (VerifyConnection N S preVPNIP) (\<lambda>x w'. still (kern w) w' \<and> (case x of
       Inr _ \<Rightarrow> (\<exists>k out. fst (nOutput N [''wg'', ''show'', ''pia0'', ''latest-handshakes''] k) = Inr out \<and> handshakeDone out) \<and>
         (\<exists>k. case validIPs (fst (sFetchIPs S ipServices k)) of [] \<Rightarrow> True | ip # _ \<Rightarrow> ip \<noteq> preVPNIP)
     | Inl e \<Rightarrow> (\<exists>e'. e = Errorf ''waiting for handshake'' [e']) \<or>
         (\<exists>k ips. validIPs (fst (sFetchIPs S ipServices k)) = preVPNIP # ips))) w" (is "wp _ ?Q _")
proof -
  have ip: "wp (bindP (tryP (getPublicIP S)) (\<lambda>r. case r of Inl _ \<Rightarrow> ret ()
      | Inr publicIP \<Rightarrow> (if publicIP = preVPNIP
         then throw (Errorf ''IP leak detected: traffic not routing through VPN!'' []) else ret ()))) ?Q w'"
    if st: "still (kern w) w'" and hs: "fst (nOutput N [''wg'', ''show'', ''pia0'', ''latest-handshakes''] j) = Inr out" "handshakeDone out"
    for w' j out
  proof -
    obtain as k where a: "sFetchIPs S ipServices (kern w') = (as, k)" by fastforce
    have "undisturbed V R H (kern w') k"
      using sysD quietD [where f = "sFetchIPs S ipServices" and rel = "undisturbed V R H", OF _ a] by blast
    then have st': "still (kern w) (w'\<lparr>kern := k\<rparr>)" using st by (auto simp: undisturbed_def)
    have as: "as = fst (sFetchIPs S ipServices (kern w'))" using a by simp
    let ?rs = "firstIP (Errorf ''no valid IP from any service'' []) (map serviceResult as)"
    have g: "getPublicIP S w' = Some (?rs, w'\<lparr>kern := k\<rparr>)"
      by (simp add: getPublicIP_def bindP_def askK_def a ret_def throw_def split: sum.split)
    have hs': "\<exists>k out. fst (nOutput N [''wg'', ''show'', ''pia0'', ''latest-handshakes''] k) = Inr out \<and> handshakeDone out"
      using hs by blast
    show ?thesis
    proof (cases "validIPs as")
      case Nil
      then obtain e where "?rs = Inl e" using firstIP_validIPs [where resps = as and ?e0.0 = "Errorf ''no valid IP from any service'' []"] by auto
      then have "wp (getPublicIP S) (\<lambda>r w''. r = Inl e \<and> w'' = w'\<lparr>kern := k\<rparr>) w'" using g by (simp add: wp_def)
      then show ?thesis unfolding wp_bindP wp_tryP
        by (rule wp_conseq) (use st' hs' Nil [unfolded as] in \<open>auto intro!: exI [of _ "kern w'"]\<close>)
    next
      case (Cons ip ips)
      then have "?rs = Inr ip" using firstIP_validIPs [where resps = as and ?e0.0 = "Errorf ''no valid IP from any service'' []"] by simp
      then have "wp (getPublicIP S) (\<lambda>r w''. r = Inr ip \<and> w'' = w'\<lparr>kern := k\<rparr>) w'" using g by (simp add: wp_def)
      then show ?thesis unfolding wp_bindP wp_tryP
        by (rule wp_conseq) (use st' hs' Cons [unfolded as] in \<open>auto intro!: exI [of _ "kern w'"]\<close>)
    qed
  qed
  show ?thesis
    unfolding VerifyConnection_def wp_bindP [of "wrapErr msg m" for msg m] wp_wrapErr
    by (rule wp_conseq [OF wp_waitForHandshake]) (auto simp del: wp_bindP split: sum.split intro: ip)
qed

end

section \<open>Properties\<close>

text \<open>
  C6. A verification finds a leak. It always returns and leaves the firewall alone. When it
  succeeds, the tunnel has reported a handshake and no service gave an address, or the first
  address given differs from the one before the tunnel; when it fails, either no handshake came
  before the deadline or the first address given is the one before the tunnel.
\<close>

theorem verify_finds_leak:
  assumes "host_world N V R H S ticks"
  shows "\<exists>x w'. VerifyConnection N S preVPNIP w = Some (x, w') \<and> undisturbed V R H (kern w) (kern w') \<and>
    (case x of
       Inr _ \<Rightarrow> (\<exists>k out. fst (nOutput N [''wg'', ''show'', ''pia0'', ''latest-handshakes''] k) = Inr out \<and> handshakeDone out) \<and>
         (\<exists>k. case validIPs (fst (sFetchIPs S ipServices k)) of [] \<Rightarrow> True | ip # _ \<Rightarrow> ip \<noteq> preVPNIP)
     | Inl e \<Rightarrow> (\<exists>e'. e = Errorf ''waiting for handshake'' [e']) \<or>
         (\<exists>k ips. validIPs (fst (sFetchIPs S ipServices k)) = preVPNIP # ips))"
  using host_world.wp_VerifyConnection [OF assms, of preVPNIP w] by (simp add: wp_iff)

definition demoShake :: "refk net" where
  "demoShake = \<lparr>kern = \<lparr>rkChains = [], rkRules = (\<lambda>_. []),
     rkShow = [([''wg'', ''show'', ''pia0'', ''latest-handshakes''], ''KEY 9'')], rkFaults = []\<rparr>\<rparr>"

theorem verify_finds_leak_witness:
  "\<exists>e w'. VerifyConnection refN refS ''203.0.113.7'' demoShake = Some (Inl e, w') \<and>
    (\<exists>k. ''203.0.113.7'' \<in> set (validIPs (fst (sFetchIPs refS ipServices k))))"
proof -
  obtain x w' where w: "VerifyConnection refN refS ''203.0.113.7'' demoShake = Some (x, w')"
    and c: "\<And>e. x = Inl e \<Longrightarrow> (\<exists>e'. e = Errorf ''waiting for handshake'' [e']) \<or>
         (\<exists>k ips. validIPs (fst (sFetchIPs refS ipServices k)) = ''203.0.113.7'' # ips)"
    using verify_finds_leak [OF refw.host_world_axioms, of "''203.0.113.7''" demoShake] by fastforce
  obtain k where hr: "handshakeRound refN refS (kern demoShake) = (Some (Inr ()), k)"
  proof -
    have "fst (handshakeRound refN refS (kern demoShake)) = Some (Inr ())" by code_simp
    then show ?thesis by (metis that prod.collapse)
  qed
  have v: "validIPs (fst (sFetchIPs refS ipServices k)) = [''203.0.113.7'']"
    unfolding refS_def ipServices_def by code_simp
  obtain as k' where a: "sFetchIPs refS ipServices k = (as, k')" by fastforce
  with v have "firstIP (Errorf ''no valid IP from any service'' []) (map serviceResult as) = Inr ''203.0.113.7''"
    using firstIP_validIPs [where resps = as and ?e0.0 = "Errorf ''no valid IP from any service'' []"] by simp
  then have "x = Inl (Errorf ''IP leak detected: traffic not routing through VPN!'' [])"
    using w hr a by (simp add: VerifyConnection_def bindP_def wrapErr_def tryP_def getPublicIP_def askK_def
        waitForHandshake.simps [of refN refS demoShake] throw_def ret_def)
  then show ?thesis
    using w c by (metis err.inject(2) list.distinct(1) list.set_intros(1))
qed

end
