(* ===== verification/Resolv.thy ===== *)
theory Resolv
  imports Cacher GoNet
begin

text \<open>
  The file \<^verbatim>\<open>/etc/resolv.conf\<close> (\<^verbatim>\<open>internal/dns/resolv.go\<close>): reading and writing its servers, the
  backup taken before the first change and its restoration. The two files are a part of the
  world, and every write or removal may fail: \<open>ioFaults\<close> holds, for the next operations, the
  error and what a failed write leaves in the file.
\<close>

section \<open>Files\<close>

text \<open>What reading a file gives: \<^verbatim>\<open>ErrNotExist\<close> when there is none.\<close>

type_synonym fileState = "err + string"

record 'k rw = "'k cw" +
  resolvConf :: fileState
  resolvBak :: fileState
  ioFaults :: "(err \<times> fileState) option list"

definition absent :: "fileState \<Rightarrow> bool" where
  "absent f \<longleftrightarrow> f = Inl (Sentinel ErrNotExist)"

text \<open>One write: the new content, or an error and whatever is in the file then.\<close>

definition fault :: "('k, 'm) rw_scheme \<Rightarrow> (err \<times> fileState) option" where
  "fault w = (case ioFaults w of [] \<Rightarrow> None | x # _ \<Rightarrow> x)"

definition WriteFile :: "(fileState \<Rightarrow> ('k, 'm) rw_scheme \<Rightarrow> ('k, 'm) rw_scheme) \<Rightarrow> string \<Rightarrow> (('k, 'm) rw_scheme, unit) prog" where
  "WriteFile put data w = (let w' = w\<lparr>ioFaults := tl (ioFaults w)\<rparr> in
     case fault w of
       None \<Rightarrow> Some (Inr (), put (Inr data) w')
     | Some (e, left) \<Rightarrow> Some (Inl e, put left w'))"

definition putConf :: "fileState \<Rightarrow> ('k, 'm) rw_scheme \<Rightarrow> ('k, 'm) rw_scheme" where
  "putConf f w = w\<lparr>resolvConf := f\<rparr>"

definition putBak :: "fileState \<Rightarrow> ('k, 'm) rw_scheme \<Rightarrow> ('k, 'm) rw_scheme" where
  "putBak f w = w\<lparr>resolvBak := f\<rparr>"

text \<open>\<^verbatim>\<open>os.Remove\<close>: a failed removal leaves the file alone.\<close>

definition RemoveBak :: "(('k, 'm) rw_scheme, unit) prog" where
  "RemoveBak w = (let w' = w\<lparr>ioFaults := tl (ioFaults w)\<rparr> in
     case fault w of
       None \<Rightarrow> Some (Inr (), putBak (Inl (Sentinel ErrNotExist)) w')
     | Some (e, _) \<Rightarrow> Some (Inl e, w'))"

definition readP :: "(('k, 'm) rw_scheme \<Rightarrow> fileState) \<Rightarrow> (('k, 'm) rw_scheme, string) prog" where
  "readP f w = Some (f w, w)"

section \<open>The operations\<close>

text \<open>\<^verbatim>\<open>Read\<close>: the servers of the lines that begin with \<^verbatim>\<open>nameserver\<close>.\<close>

definition nameserver :: string where "nameserver = ''nameserver ''"

definition parseServers :: "string \<Rightarrow> string list" where
  "parseServers content =
     map (\<lambda>line. TrimPrefix line nameserver) (filter (\<lambda>line. HasPrefix line nameserver) (Split (CHR 0x0A) content))"

definition ReadResolv :: "(('k, 'm) rw_scheme, string list) prog" where
  "ReadResolv = bindP (readP resolvConf) (\<lambda>content. let servers = parseServers content in
     if servers = [] then throw (Errorf ''no nameservers exist in resolv.conf'' []) else ret servers)"

definition resolvContent :: "string list \<Rightarrow> string" where
  "resolvContent servers = ''# Set by pia-tun'' @ [CHR 0x0A] @
     concat (map (\<lambda>s. nameserver @ s @ [CHR 0x0A]) servers) @
     (if length servers > 1 then ''options rotate'' @ [CHR 0x0A] else [])"

definition WriteResolv :: "string list \<Rightarrow> (('k, 'm) rw_scheme, unit) prog" where
  "WriteResolv servers = wrapErr ''failed to write /etc/resolv.conf'' (WriteFile putConf (resolvContent servers))"

definition ClearResolv :: "(('k, 'm) rw_scheme, unit) prog" where
  "ClearResolv = wrapErr ''failed to clear /etc/resolv.conf'' (WriteFile putConf [])"

text \<open>
  \<^verbatim>\<open>os.Stat\<close> of the backup fails exactly when the file is absent: a file that cannot be read can
  be looked at.
\<close>

definition Backup :: "(('k, 'm) rw_scheme, unit) prog" where
  "Backup = bindP (getsP resolvBak) (\<lambda>bak.
     if \<not> absent bak then ret ()
     else bindP (wrapErr ''failed to read resolv.conf for backup'' (readP resolvConf)) (\<lambda>data.
       wrapErr ''failed to write resolv.bak'' (WriteFile putBak data)))"

definition Restore :: "(('k, 'm) rw_scheme, unit) prog" where
  "Restore = bindP (wrapErr ''failed to read resolv.bak'' (readP resolvBak)) (\<lambda>data.
     bindP (wrapErr ''failed to restore resolv.conf'' (WriteFile putConf data)) (\<lambda>_.
     ignoreP RemoveBak))"

text \<open>The server a lookup of the process itself goes to (\<^verbatim>\<open>SetNetResolver\<close>).\<close>

definition netServer :: "(('k, 'm) rw_scheme, string) prog" where
  "netServer = bindP (tryP ReadResolv) (\<lambda>r. case r of
       Inl _ \<Rightarrow> throw (Errorf ''no nameservers in resolv.conf'' [])
     | Inr servers \<Rightarrow> ret (JoinHostPort (servers ! 0) ''53''))"

section \<open>Reading what was written\<close>

lemma Split_lines:
  assumes "\<forall>l \<in> set ls. c \<notin> set l" and "c \<notin> set r"
  shows "Split c (concat (map (\<lambda>l. l @ [c]) ls) @ r) = ls @ [r]"
  using assms by (induction ls) (simp_all add: Split_no_sep Split_append_sep)

lemma parse_resolvContent:
  assumes "\<forall>s \<in> set servers. CHR 0x0A \<notin> set s"
  shows "parseServers (resolvContent servers) = servers"
proof -
  let ?opt = "if length servers > 1 then [''options rotate''] else []"
  let ?ls = "''# Set by pia-tun'' # map (\<lambda>s. nameserver @ s) servers @ ?opt"
  have "resolvContent servers = concat (map (\<lambda>l. l @ [CHR 0x0A]) ?ls) @ []"
    by (simp add: resolvContent_def comp_def)
  moreover have "\<forall>l \<in> set ?ls. CHR 0x0A \<notin> set l"
    using assms by (auto simp: nameserver_def)
  ultimately have "Split (CHR 0x0A) (resolvContent servers) = ?ls @ [[]]"
    using Split_lines [of ?ls "CHR 0x0A" "[]"] by simp
  then show ?thesis
    by (simp add: parseServers_def HasPrefix_def TrimPrefix_def nameserver_def filter_map comp_def map_idI)
qed

section \<open>The backup\<close>

text \<open>
  What may happen to the files while the program runs: any of the writing operations, with
  any faults, and a restart of the program, which only begins with another backup.
\<close>

inductive resolvStep :: "('k, 'm) rw_scheme \<Rightarrow> ('k, 'm) rw_scheme \<Rightarrow> bool" where
  writes: "WriteResolv servers w = Some (r, w') \<Longrightarrow> resolvStep w w'"
| clears: "ClearResolv w = Some (r, w') \<Longrightarrow> resolvStep w w'"
| backups: "Backup w = Some (r, w') \<Longrightarrow> resolvStep w w'"
| refault: "resolvStep w (w\<lparr>ioFaults := fs\<rparr>)"

inductive_cases resolvStepE: "resolvStep w w'"

lemma write_keeps_bak:
  assumes "wrapErr msg (WriteFile putConf data) w = Some (r, w')"
  shows "resolvBak w' = resolvBak w"
  using assms by (auto simp: wrapErr_def WriteFile_def putConf_def Let_def split: option.splits sum.splits)

lemma backup_again: "\<not> absent (resolvBak w) \<Longrightarrow> Backup w = Some (Inr (), w)"
  by (simp add: Backup_def bindP_def getsP_def ret_def)

lemma step_keeps_bak:
  assumes "resolvStep w w'" and "resolvBak w = Inr orig"
  shows "resolvBak w' = Inr orig"
  using assms(1)
  using assms(2) backup_again [of w]
  by (cases rule: resolvStepE) (auto simp: absent_def WriteResolv_def ClearResolv_def dest: write_keeps_bak)

lemma steps_keep_bak: "resolvStep\<^sup>*\<^sup>* w w' \<Longrightarrow> resolvBak w = Inr orig \<Longrightarrow> resolvBak w' = Inr orig"
  by (induction rule: rtranclp_induct) (auto dest: step_keeps_bak)

section \<open>Properties\<close>

text \<open>
  What is written is read back. If no server contains a line feed, reading the file after
  a successful write of a non-empty list of servers gives that list, in its order.
\<close>

lemma resolv_roundtrip:
  assumes "servers \<noteq> []" and "\<forall>s \<in> set servers. CHR 0x0A \<notin> set s" and "fault w = None"
  shows "\<exists>w'. WriteResolv servers w = Some (Inr (), w') \<and> ReadResolv w' = Some (Inr servers, w')"
  using assms parse_resolvContent [OF assms(2)]
  by (simp add: WriteResolv_def wrapErr_def WriteFile_def ReadResolv_def bindP_def readP_def putConf_def Let_def ret_def)

text \<open>
  C29. The original file comes back. Once a backup has succeeded, whatever the program writes to
  the file, and with whatever faults and restarts, a restoration that succeeds puts the content
  from before the backup back.
\<close>

theorem resolv_restored:
  assumes "absent (resolvBak w0)" and "resolvConf w0 = Inr orig" and "Backup w0 = Some (Inr (), w1)"
    and "resolvStep\<^sup>*\<^sup>* w1 w2"
  shows "\<exists>r w3. Restore w2 = Some (r, w3) \<and> (r = Inr () \<longrightarrow> resolvConf w3 = Inr orig)"
proof -
  have "resolvBak w1 = Inr orig"
    using assms(1-3) by (auto simp: Backup_def bindP_def getsP_def readP_def wrapErr_def WriteFile_def putBak_def Let_def split: option.splits)
  then have "resolvBak w2 = Inr orig" using steps_keep_bak [OF assms(4)] by simp
  then show ?thesis
    by (auto simp: Restore_def bindP_def readP_def wrapErr_def WriteFile_def putConf_def ignoreP_def RemoveBak_def putBak_def Let_def
        split: option.split)
qed

definition demoFiles :: "nat rw" where
  "demoFiles = cw.extend demoCache \<lparr>resolvConf = Inr (''nameserver 127.0.0.11'' @ [CHR 0x0A]),
     resolvBak = Inl (Sentinel ErrNotExist), ioFaults = []\<rparr>"

lemma resolv_roundtrip_witness:
  "\<exists>w'. WriteResolv [''10.0.0.243'', ''10.0.0.242''] demoFiles = Some (Inr (), w') \<and>
     ReadResolv w' = Some (Inr [''10.0.0.243'', ''10.0.0.242''], w')"
  by (rule resolv_roundtrip) (simp_all add: fault_def demoFiles_def cw.defs)

theorem resolv_restored_witness:
  "\<exists>w1 w2 w3. Backup demoFiles = Some (Inr (), w1) \<and> WriteResolv [''10.0.0.243''] w1 = Some (Inr (), w2) \<and>
     Restore w2 = Some (Inr (), w3) \<and> resolvConf w3 = resolvConf demoFiles"
proof -
  have a: "absent (resolvBak demoFiles)" by (simp add: absent_def demoFiles_def cw.defs)
  have c: "resolvConf demoFiles = Inr (''nameserver 127.0.0.11'' @ [CHR 0x0A])" by (simp add: demoFiles_def cw.defs)
  obtain w1 where b: "Backup demoFiles = Some (Inr (), w1)" and f1: "ioFaults w1 = []"
    using a by (simp add: Backup_def bindP_def getsP_def readP_def wrapErr_def WriteFile_def c putBak_def fault_def demoFiles_def cw.defs)
  obtain w2 where w: "WriteResolv [''10.0.0.243''] w1 = Some (Inr (), w2)" and f2: "ioFaults w2 = []"
    using f1 by (simp add: WriteResolv_def wrapErr_def WriteFile_def fault_def putConf_def)
  have s: "resolvStep\<^sup>*\<^sup>* w1 w2" by (rule r_into_rtranclp, rule resolvStep.writes [OF w])
  obtain r w3 where r: "Restore w2 = Some (r, w3)" "r = Inr () \<Longrightarrow> resolvConf w3 = resolvConf demoFiles"
    using resolv_restored [OF a c b s] c by auto
  have "resolvBak w2 = Inr (''nameserver 127.0.0.11'' @ [CHR 0x0A])"
  proof -
    have "resolvBak w1 = Inr (''nameserver 127.0.0.11'' @ [CHR 0x0A])"
      using b a by (auto simp: Backup_def bindP_def getsP_def readP_def wrapErr_def WriteFile_def c putBak_def fault_def demoFiles_def cw.defs)
    then show ?thesis using steps_keep_bak [OF s] by simp
  qed
  then have "r = Inr ()"
    using r(1) f2 by (auto simp: Restore_def bindP_def readP_def wrapErr_def WriteFile_def fault_def putConf_def ignoreP_def RemoveBak_def)
  with b w r show ?thesis by blast
qed

end
