(* ===== verification/DnsProxy.thy ===== *)
theory DnsProxy
  imports Resolv Resolver "HOL-Library.Word"
begin

text \<open>
  The DNS-over-TLS proxy (\<^verbatim>\<open>internal/dns/proxy.go\<close>): the upstreams it resolves at its setup, the
  framing of DNS messages on a stream, a query over a kept connection with one reconnection,
  the round robin over the upstreams and the answer of last resort. Bytes are 8-bit words.
  Dialling, writing to, reading from and closing a connection are parameters on the host;
  deadlines show as their errors. Queries are one after the other: those to one upstream are
  serialized by its mutex, and the effects of concurrent ones on the host are its own.
\<close>

unbundle bit_operations_syntax

type_synonym byte = "8 word"

section \<open>Connections\<close>

text \<open>
  \<open>dRead c n\<close> is \<^verbatim>\<open>io.ReadFull\<close> of \<open>n\<close> bytes; \<open>dDone\<close> is the error of the context of the dials;
  \<open>dListen\<close> binds the local address for a network.
\<close>

record 'k dotops =
  dDial :: "string \<Rightarrow> string \<Rightarrow> 'k \<Rightarrow> (err + nat) \<times> 'k"
  dWrite :: "nat \<Rightarrow> byte list \<Rightarrow> 'k \<Rightarrow> err option \<times> 'k"
  dRead :: "nat \<Rightarrow> nat \<Rightarrow> 'k \<Rightarrow> (err + byte list) \<times> 'k"
  dClose :: "nat \<Rightarrow> 'k \<Rightarrow> unit \<times> 'k"
  dDone :: "'k \<Rightarrow> err option \<times> 'k"
  dListen :: "string \<Rightarrow> 'k \<Rightarrow> err option \<times> 'k"

record upstream =
  upAddr :: string
  upServerName :: string

text \<open>\<open>conns\<close>: the open connection of each upstream; \<open>idx\<close>: the counter of the round robin.\<close>

record 'k dw = "'k rw" +
  upstreams :: "upstream list"
  conns :: "nat \<Rightarrow> nat option"
  idx :: "64 word"

definition proxyIP :: string where "proxyIP = ''127.0.0.1''"
definition maxDNSMsg :: "16 word" where "maxDNSMsg = 16384"

section \<open>Messages\<close>

definition PutUint16 :: "16 word \<Rightarrow> byte list" where
  "PutUint16 n = [ucast (drop_bit 8 n), ucast n]"

definition Uint16 :: "byte list \<Rightarrow> 16 word" where
  "Uint16 b = push_bit 8 (ucast (b ! 0)) OR ucast (b ! 1)"

definition frame :: "byte list \<Rightarrow> byte list" where
  "frame msg = PutUint16 (of_nat (length msg)) @ msg"

definition writeMsg :: "'k dotops \<Rightarrow> nat \<Rightarrow> byte list \<Rightarrow> (('k, 'm) net_scheme, unit) prog" where
  "writeMsg D c msg = runK (dWrite D c (frame msg))"

definition readMsg :: "'k dotops \<Rightarrow> nat \<Rightarrow> (('k, 'm) net_scheme, byte list) prog" where
  "readMsg D c = bindP (outK (dRead D c 2)) (\<lambda>hdr. let n = Uint16 hdr in
     if n > maxDNSMsg then throw (Errorf (''oversized DNS message: '' @ ItoaN (unat n) @ '' bytes'') [])
     else outK (dRead D c (unat n)))"

definition servfail :: "byte list \<Rightarrow> byte list option" where
  "servfail qry = (if length qry < 12 then None
     else Some ([qry ! 0, qry ! 1, qry ! 2 OR 0x80, 0x82] @ replicate 8 0))"

section \<open>One upstream\<close>

definition setConn :: "nat \<Rightarrow> nat option \<Rightarrow> (('k, 'm) dw_scheme, unit) prog" where
  "setConn i c = modifyP (\<lambda>w. w\<lparr>conns := (conns w)(i := c)\<rparr>)"

text \<open>\<^verbatim>\<open>u.conn.Store(nil); conn.Close()\<close>.\<close>

definition dropConn :: "'k dotops \<Rightarrow> nat \<Rightarrow> nat \<Rightarrow> (('k, 'm) dw_scheme, unit) prog" where
  "dropConn D i c = bindP (setConn i None) (\<lambda>_. askK (dClose D c))"

definition dialUp :: "'k dotops \<Rightarrow> nat \<Rightarrow> upstream \<Rightarrow> (('k, 'm) dw_scheme, nat) prog" where
  "dialUp D i u = bindP (getsP (\<lambda>w. conns w i)) (\<lambda>slot. case slot of
       Some c \<Rightarrow> ret c
     | None \<Rightarrow> bindP (outK (dDial D (upAddr u) (upServerName u))) (\<lambda>c.
         bindP (setConn i (Some c)) (\<lambda>_. ret c)))"

text \<open>The loop of \<^verbatim>\<open>forwardDoT\<close> with the attempts left; \<open>i\<close> is the index of the upstream.\<close>

fun forwardAttempts :: "nat \<Rightarrow> 'k dotops \<Rightarrow> nat \<Rightarrow> upstream \<Rightarrow> byte list \<Rightarrow> (('k, 'm) dw_scheme, byte list) prog" where
  "forwardAttempts 0 D i u qry = throw (Errorf (''upstream '' @ upAddr u @ '': failed after reconnect'') [])"
| "forwardAttempts (Suc n) D i u qry =
     bindP (dialUp D i u) (\<lambda>c.
     bindP (tryP (writeMsg D c qry)) (\<lambda>r. case r of
       Inl _ \<Rightarrow> bindP (dropConn D i c) (\<lambda>_. forwardAttempts n D i u qry)
     | Inr _ \<Rightarrow> bindP (tryP (readMsg D c)) (\<lambda>r. case r of
           Inl _ \<Rightarrow> bindP (dropConn D i c) (\<lambda>_. forwardAttempts n D i u qry)
         | Inr resp \<Rightarrow> ret resp)))"

definition forwardDoT :: "'k dotops \<Rightarrow> nat \<Rightarrow> upstream \<Rightarrow> byte list \<Rightarrow> (('k, 'm) dw_scheme, byte list) prog" where
  "forwardDoT = forwardAttempts 2"

section \<open>Dispatch\<close>

text \<open>The loop of \<^verbatim>\<open>dispatch\<close>: \<open>todo\<close> rounds are left, starting with the upstream at \<open>j\<close>.\<close>

fun dispatchLoop :: "nat \<Rightarrow> 'k dotops \<Rightarrow> upstream list \<Rightarrow> nat \<Rightarrow> byte list \<Rightarrow> (('k, 'm) dw_scheme, byte list option) prog" where
  "dispatchLoop 0 D us j qry = ret (servfail qry)"
| "dispatchLoop (Suc todo) D us j qry =
     bindP (tryP (forwardDoT D (j mod length us) (us ! (j mod length us)) qry)) (\<lambda>r. case r of
       Inr resp \<Rightarrow> ret (Some resp)
     | Inl _ \<Rightarrow> bindP (askK (dDone D)) (\<lambda>d.
         if d \<noteq> None then ret (servfail qry) else dispatchLoop todo D us (Suc j) qry))"

text \<open>
  \<^verbatim>\<open>int(idx.Add(1)-1) % n\<close>: the counter read as a signed number. Without an upstream, or once
  the counter has passed \<open>2 ^ 63\<close> with a remainder other than 0, the code panics.
\<close>

definition panic :: "string \<Rightarrow> err" where
  "panic msg = Errorf (''panic: '' @ msg) []"

definition dispatch :: "'k dotops \<Rightarrow> byte list \<Rightarrow> (('k, 'm) dw_scheme, byte list option) prog" where
  "dispatch D qry =
     bindP (getsP (\<lambda>w. (idx w, upstreams w))) (\<lambda>(i, us).
     bindP (modifyP (\<lambda>w. w\<lparr>idx := i + 1\<rparr>)) (\<lambda>_.
       if us = [] then throw (panic ''integer divide by zero'')
       else if sint i < 0 \<and> sint i mod int (length us) \<noteq> 0 then throw (panic ''index out of range'')
       else dispatchLoop (length us) D us (nat (sint i mod int (length us))) qry))"

text \<open>The loop of a TCP client: one message after the other.\<close>

partial_function (option) handleTCPConn :: "'k dotops \<Rightarrow> nat \<Rightarrow> ('k, 'm) dw_scheme \<Rightarrow> ((err + unit) \<times> ('k, 'm) dw_scheme) option" where
  "handleTCPConn D c w = (case readMsg D c w of
       None \<Rightarrow> None
     | Some (Inl _, w1) \<Rightarrow> Some (Inr (), w1\<lparr>kern := snd (dClose D c (kern w1))\<rparr>)
     | Some (Inr qry, w1) \<Rightarrow> (case dispatch D qry w1 of
         None \<Rightarrow> None
       | Some (Inl e, w2) \<Rightarrow> Some (Inl e, w2)
       | Some (Inr None, w2) \<Rightarrow> Some (Inr (), w2\<lparr>kern := snd (dClose D c (kern w2))\<rparr>)
       | Some (Inr (Some resp), w2) \<Rightarrow> (case writeMsg D c resp w2 of
           None \<Rightarrow> None
         | Some (Inl _, w3) \<Rightarrow> Some (Inr (), w3\<lparr>kern := snd (dClose D c (kern w3))\<rparr>)
         | Some (Inr _, w3) \<Rightarrow> handleTCPConn D c w3)))"

section \<open>Setup\<close>

definition tlsPrefix :: string where "tlsPrefix = ''tls://''"

definition parseUpstreams :: "string list \<Rightarrow> err + string list" where
  "parseUpstreams rawServers =
     (let hostnames = filter (\<lambda>host. \<not> isIP host) (map (\<lambda>host. TrimPrefix host tlsPrefix) rawServers) in
      if hostnames = [] then Inl (Errorf ''no valid upstreams configured'' [Sentinel ErrFatal]) else Inr hostnames)"

text \<open>
  The results of a resolution are a map, of which Go visits the entries in any order; here they
  come in the order their answers arrived, which is any order too.
\<close>

definition upstreamsOf :: "string \<times> hostResult \<Rightarrow> upstream list" where
  "upstreamsOf = (\<lambda>(h, result). if hrNXDomain result then []
     else map (\<lambda>ip. \<lparr>upAddr = JoinHostPort ip ''853'', upServerName = h\<rparr>) (hrIPs result))"

definition resolveHostnames :: "'k netops \<Rightarrow> 'k sysops \<Rightarrow> resolver \<Rightarrow> string list \<Rightarrow> (('k, 'm) dw_scheme, unit) prog" where
  "resolveHostnames N S r hostnames =
     bindP (wrapErr ''failed to resolve DoT hostnames'' (ResolveAll N S r hostnames)) (\<lambda>results.
     bindP (modifyP (\<lambda>w. w\<lparr>upstreams := upstreams w @ concat (map upstreamsOf results)\<rparr>)) (\<lambda>_.
     bindP (getsP upstreams) (\<lambda>us.
     if us = [] then throw (Errorf ''no upstream servers available'' [Sentinel ErrFatal]) else ret ())))"

text \<open>\<^verbatim>\<open>CloseUpstreams\<close>: the dials in flight are cancelled and every connection is closed.\<close>

definition closeConn :: "'k dotops \<Rightarrow> nat \<Rightarrow> (('k, 'm) dw_scheme, unit) prog" where
  "closeConn D i = bindP (getsP (\<lambda>w. conns w i)) (\<lambda>c. case c of None \<Rightarrow> ret () | Some c \<Rightarrow> dropConn D i c)"

definition CloseUpstreams :: "'k dotops \<Rightarrow> (('k, 'm) dw_scheme, unit) prog" where
  "CloseUpstreams D = bindP (getsP (\<lambda>w. length (upstreams w))) (\<lambda>n. forP [0..<n] (closeConn D))"

definition startProxy :: "'k dotops \<Rightarrow> (('k, 'm) dw_scheme, unit) prog" where
  "startProxy D =
     bindP (modifyP (\<lambda>w. w\<lparr>idx := 0\<rparr>)) (\<lambda>_.
     bindP (tryP (bindP (runK (dListen D ''udp'')) (\<lambda>_. runK (dListen D ''tcp'')))) (\<lambda>r. case r of
       Inl e \<Rightarrow> bindP (CloseUpstreams D) (\<lambda>_. throw (Errorf ''dot proxy'' [e]))
     | Inr _ \<Rightarrow> bindP (tryP (WriteResolv [proxyIP])) (\<lambda>r. case r of
           Inl e \<Rightarrow> bindP (CloseUpstreams D) (\<lambda>_. throw (Errorf ''write resolv.conf'' [e]))
         | Inr _ \<Rightarrow> ret ())))"

definition proxySetup :: "'k netops \<Rightarrow> 'k sysops \<Rightarrow> 'k dotops \<Rightarrow> resolver \<Rightarrow> string list \<Rightarrow> (('k, 'm) dw_scheme, unit) prog" where
  "proxySetup N S D r rawServers =
     bindP (modifyP (\<lambda>w. w\<lparr>upstreams := [], conns := (\<lambda>_. None)\<rparr>)) (\<lambda>_.
     case parseUpstreams rawServers of
       Inl e \<Rightarrow> throw e
     | Inr hostnames \<Rightarrow> bindP (resolveHostnames N S r hostnames) (\<lambda>_.
         bindP (tryP (startProxy D)) (\<lambda>r. case r of
           Inl _ \<Rightarrow> throw (Errorf ''dns proxy'' [Sentinel ErrFatal])
         | Inr _ \<Rightarrow> ret ())))"

text \<open>\<^verbatim>\<open>Display\<close>: the addresses grouped by server name, in the order the names come first.\<close>

fun groupLoop :: "string list \<Rightarrow> (string \<rightharpoonup> string list) \<Rightarrow> (string \<times> string) list \<Rightarrow> string list \<times> (string \<rightharpoonup> string list)" where
  "groupLoop order groups [] = (order, groups)"
| "groupLoop order groups ((sn, host) # us) =
     (case groups sn of
        None \<Rightarrow> groupLoop (order @ [sn]) (groups(sn \<mapsto> [host])) us
      | Some hs \<Rightarrow> groupLoop order (groups(sn \<mapsto> hs @ [host])) us)"

text \<open>\<open>host\<close> gives the host part of an address (\<^verbatim>\<open>net.SplitHostPort\<close> of what \<^verbatim>\<open>JoinHostPort\<close> made).\<close>

definition hostPart :: "string \<Rightarrow> string" where
  "hostPart addr = (if HasPrefix addr ''['' then takeWhile (\<lambda>c. c \<noteq> CHR '']'') (tl addr)
     else takeWhile (\<lambda>c. c \<noteq> CHR '':'') addr)"

definition Display :: "upstream list \<Rightarrow> string" where
  "Display us = (let (order, groups) = groupLoop [] Map.empty (map (\<lambda>u. (upServerName u, hostPart (upAddr u))) us) in
     Join (map (\<lambda>sn. sn @ '' ('' @ Join (the (groups sn)) '', '' @ '')'') order) '', '')"

section \<open>Framing\<close>

lemma Uint16_PutUint16: "Uint16 (PutUint16 n @ rest) = n"
proof (rule bit_word_eqI)
  fix i assume i: "i < LENGTH(16)"
  then have "i < 8 \<or> 8 \<le> i \<and> i - 8 < 8" by auto
  then show "bit (Uint16 (PutUint16 n @ rest)) i \<longleftrightarrow> bit n i"
    using i by (auto simp: Uint16_def PutUint16_def bit_simps)
qed

text \<open>
  \<open>pipe D c rd\<close>: what is written to the connection is read from it, in order; \<open>rd\<close> are the bytes
  not yet read.
\<close>

definition pipe :: "'k dotops \<Rightarrow> nat \<Rightarrow> ('k \<Rightarrow> byte list) \<Rightarrow> bool" where
  "pipe D c rd \<longleftrightarrow>
     (\<forall>data k. fst (dWrite D c data k) = None \<and> rd (snd (dWrite D c data k)) = rd k @ data) \<and>
     (\<forall>n k. n \<le> length (rd k) \<longrightarrow> fst (dRead D c n k) = Inr (take n (rd k)) \<and> rd (snd (dRead D c n k)) = drop n (rd k))"

lemma pipe_write:
  assumes "pipe D c rd"
  obtains k' where "dWrite D c data k = (None, k')" "rd k' = rd k @ data"
  using assms unfolding pipe_def by (metis prod.collapse)

lemma pipe_read:
  assumes "pipe D c rd" and "n \<le> length (rd k)"
  obtains k' where "dRead D c n k = (Inr (take n (rd k)), k')" "rd k' = drop n (rd k)"
  using assms unfolding pipe_def by (metis prod.collapse)

lemma wp_readMsg_pipe:
  assumes p: "pipe D c rd" and r: "rd (kern w) = frame msg @ rest" and l: "length msg < 2 ^ 16"
    and ok: "\<And>w'. length msg \<le> 16384 \<Longrightarrow> rd (kern w') = rest \<Longrightarrow> Q (Inr msg) w'"
    and big: "\<And>e w'. 16384 < length msg \<Longrightarrow> Q (Inl e) w'"
  shows "wp (readMsg D c) Q w"
proof -
  let ?n = "of_nat (length msg) :: 16 word"
  have n: "unat ?n = length msg" using l by (simp add: unat_of_nat take_bit_nat_eq_self)
  have "2 \<le> length (rd (kern w))" by (simp add: r frame_def PutUint16_def)
  from pipe_read [OF p this] obtain k1 where k1: "dRead D c 2 (kern w) = (Inr (take 2 (rd (kern w))), k1)"
    "rd k1 = drop 2 (rd (kern w))" .
  have hdr: "take 2 (rd (kern w)) = PutUint16 ?n" and rest: "rd k1 = msg @ rest"
    by (simp_all add: r k1(2) frame_def PutUint16_def)
  have u: "Uint16 (PutUint16 ?n) = ?n" using Uint16_PutUint16 [of ?n "[]"] by simp
  have cmp: "?n > maxDNSMsg \<longleftrightarrow> 16384 < length msg"
    by (simp add: maxDNSMsg_def word_less_nat_alt n)
  show ?thesis
  proof (cases "16384 < length msg")
    case True
    then show ?thesis
      by (simp add: readMsg_def, intro wp_outK) (auto simp: k1 hdr u cmp Let_def intro!: big)
  next
    case False
    have "length msg \<le> length (rd k1)" by (simp add: rest)
    from pipe_read [OF p this] obtain k2 where k2: "dRead D c (length msg) k1 = (Inr msg, k2)" "rd k2 = rest"
      by (metis append_eq_conv_conj rest)
    show ?thesis
      using False by (simp add: readMsg_def, intro wp_outK) (auto simp: k1 hdr u cmp n k2 Let_def intro!: wp_outK ok)
  qed
qed

section \<open>Connections kept and dropped\<close>

text \<open>
  After a query the upstream has an open connection exactly if the query was answered, and the
  connections of the other upstreams are as they were.
\<close>

definition others :: "nat \<Rightarrow> ('k, 'm) dw_scheme \<Rightarrow> ('k, 'm) dw_scheme \<Rightarrow> bool" where
  "others i w w' \<longleftrightarrow> (\<forall>j. j \<noteq> i \<longrightarrow> conns w' j = conns w j) \<and> idx w' = idx w \<and> upstreams w' = upstreams w"

lemma others_simps [simp]: "others i w w" "others i w (w'\<lparr>kern := k\<rparr>) = others i w w'"
    "others i w (w'\<lparr>conns := (conns w')(i := c)\<rparr>) = others i w w'"
    "others i w (w'\<lparr>kern := k, conns := (conns w')(i := c)\<rparr>) = others i w w'"
  by (auto simp: others_def)

lemma wp_dropConn:
  assumes "others i w0 w" and "\<And>w'. others i w0 w' \<Longrightarrow> conns w' i = None \<Longrightarrow> Q (Inr ()) w'"
  shows "wp (dropConn D i c) Q w"
  unfolding dropConn_def setConn_def by (simp, intro wp_askK) (use assms in simp)

lemma hostOnly_dw: "hostOnly w w' \<Longrightarrow> conns w' = conns w \<and> idx w' = idx w \<and> upstreams w' = upstreams w"
  unfolding hostOnly_def by (cases w; cases w') simp

lemma hostOnly_readMsg: "keeps (hostOnly w0) (readMsg D c)"
  unfolding readMsg_def by (auto simp: Let_def intro!: keeps_bindP)

lemma wp_readMsg:
  assumes "\<And>r w'. hostOnly w w' \<Longrightarrow> Q r w'"
  shows "wp (readMsg D c) Q w"
  by (rule wp_keeps [OF hostOnly_readMsg hostOnly_refl]) (rule assms)

lemma others_hostOnly: "others i w0 w \<Longrightarrow> hostOnly w w' \<Longrightarrow> others i w0 w'"
  by (auto simp: others_def dest: hostOnly_dw)

lemma wp_dialUp:
  assumes "others i w0 w"
    and "\<And>c w'. others i w0 w' \<Longrightarrow> conns w' i = Some c \<Longrightarrow> Q (Inr c) w'"
    and "\<And>e w'. others i w0 w' \<Longrightarrow> conns w' i = None \<Longrightarrow> Q (Inl e) w'"
  shows "wp (dialUp D i u) Q w"
  unfolding dialUp_def setConn_def
  by (cases "conns w i") (auto intro!: wp_outK assms(2,3) simp: assms(1) split: sum.split)

lemma wp_forwardAttempts:
  assumes "others i w0 w" and "n > 0 \<or> conns w i = None"
    and "\<And>r w'. others i w0 w' \<Longrightarrow> conns w' i \<noteq> None \<longleftrightarrow> (\<exists>resp. r = Inr resp) \<Longrightarrow> Q r w'"
  shows "wp (forwardAttempts n D i u qry) Q w"
  using assms(1,2)
proof (induction n arbitrary: w)
  case 0
  then show ?case by (auto intro: assms(3))
next
  case (Suc n)
  have retry: "wp (bindP (dropConn D i c) (\<lambda>_. forwardAttempts n D i u qry)) Q w'" if "others i w0 w'" for c w'
    by (simp, rule wp_dropConn [OF that]) (simp add: Suc.IH)
  have read: "wp (bindP (tryP (readMsg D c)) (\<lambda>r. case r of
       Inl _ \<Rightarrow> bindP (dropConn D i c) (\<lambda>_. forwardAttempts n D i u qry) | Inr resp \<Rightarrow> ret resp)) Q w'"
    if "others i w0 w'" "conns w' i = Some c" for c w'
    unfolding wp_bindP [of "tryP m" for m] wp_tryP
    by (rule wp_readMsg) (use that in \<open>auto simp del: wp_bindP split: sum.split dest: hostOnly_dw intro!: retry assms(3) intro: others_hostOnly\<close>)
  have use: "wp (bindP (tryP (writeMsg D c qry)) (\<lambda>r. case r of
       Inl _ \<Rightarrow> bindP (dropConn D i c) (\<lambda>_. forwardAttempts n D i u qry)
     | Inr _ \<Rightarrow> bindP (tryP (readMsg D c)) (\<lambda>r. case r of
           Inl _ \<Rightarrow> bindP (dropConn D i c) (\<lambda>_. forwardAttempts n D i u qry)
         | Inr resp \<Rightarrow> ret resp))) Q w'" if "others i w0 w'" "conns w' i = Some c" for c w'
    unfolding wp_bindP [of "tryP m" for m] wp_tryP writeMsg_def
    by (rule wp_runK) (auto simp del: wp_bindP simp: that intro!: retry read)
  show ?case
    unfolding forwardAttempts.simps wp_bindP [of "dialUp D i u"]
    by (rule wp_dialUp [OF Suc.prems(1)]) (auto simp del: wp_bindP intro: use assms(3))
qed

subsection \<open>How often a query is tried\<close>

text \<open>
  Two histories of the host: \<open>sent\<close> counts the queries that were written to a connection, \<open>dials\<close>
  has the outcomes of the dials; reading and closing add to neither.
\<close>

definition watches :: "'k dotops \<Rightarrow> ('k \<Rightarrow> nat) \<Rightarrow> ('k \<Rightarrow> bool list) \<Rightarrow> bool" where
  "watches D sent dials \<longleftrightarrow>
     (\<forall>c data k x k'. dWrite D c data k = (x, k') \<longrightarrow> sent k' = Suc (sent k) \<and> dials k' = dials k) \<and>
     (\<forall>a h k x k'. dDial D a h k = (x, k') \<longrightarrow> sent k' = sent k \<and> dials k' = dials k @ [\<exists>c. x = Inr c]) \<and>
     (\<forall>c n k x k'. dRead D c n k = (x, k') \<longrightarrow> sent k' = sent k \<and> dials k' = dials k) \<and>
     (\<forall>c k x k'. dClose D c k = (x, k') \<longrightarrow> sent k' = sent k \<and> dials k' = dials k)"

text \<open>
  \<open>tries n b e sent ds\<close>: what a result (\<open>e\<close>: it is an error) may have taken with \<open>n\<close> attempts: an
  answer, one to \<open>n\<close> writes on connections that were there (\<open>b\<close>) or dialled; an error, all \<open>n\<close>
  writes, or a dial that failed.
\<close>

definition tries :: "nat \<Rightarrow> bool \<Rightarrow> bool \<Rightarrow> nat \<Rightarrow> bool list \<Rightarrow> bool" where
  "tries n b e m ds \<longleftrightarrow> m \<le> n \<and> length ds + (if b \<and> 0 < n then 1 else 0) \<le> n \<and>
     (if e then m = n \<and> False \<notin> set ds \<or> m < n \<and> (\<exists>ds'. ds = ds' @ [False] \<and> False \<notin> set ds') else 0 < m \<and> False \<notin> set ds)"

lemma tries_simps [simp]: "tries 0 b True 0 []" "tries (Suc n) False True 0 [False]" "tries (Suc n) True False (Suc 0) []"
  "tries (Suc n) False False (Suc 0) [True]"
  by (simp_all add: tries_def)

lemma tries_Suc:
  assumes "tries n False e m ds"
  shows "tries (Suc n) True e (Suc m) ds" "tries (Suc n) False e (Suc m) (True # ds)"
proof -
  show "tries (Suc n) True e (Suc m) ds" using assms by (cases e) (auto simp: tries_def)
  have "\<exists>ds'. True # ds = ds' @ [False] \<and> False \<notin> set ds'" if "ds = ds1 @ [False]" "False \<notin> set ds1" for ds1
    using that by (intro exI [of _ "True # ds1"]) simp
  then show "tries (Suc n) False e (Suc m) (True # ds)" using assms by (cases e) (auto simp: tries_def)
qed

lemma keeps_readMsg_kern:
  assumes "\<And>c n k x k'. dRead D c n k = (x, k') \<Longrightarrow> J k \<Longrightarrow> J k'"
  shows "keeps (\<lambda>w. J (kern w)) (readMsg D c)"
proof -
  have "keeps (\<lambda>w. J (kern w)) (outK (dRead D c n))" for n
    by (rule keepsI, rule wp_outK) (use assms in \<open>auto split: sum.split\<close>)
  then show ?thesis unfolding readMsg_def by (auto simp: Let_def intro!: keeps_bindP)
qed

text \<open>What a run from \<open>w\<close> to \<open>w'\<close> with \<open>n\<close> attempts took.\<close>

definition spent :: "('k \<Rightarrow> nat) \<Rightarrow> ('k \<Rightarrow> bool list) \<Rightarrow> nat \<Rightarrow> bool \<Rightarrow> ('k, 'm) net_scheme \<Rightarrow> err + 'a \<Rightarrow> ('k, 'm) net_scheme \<Rightarrow> bool" where
  "spent sent dials n b w r w' \<longleftrightarrow> (\<exists>m ds. sent (kern w') = sent (kern w) + m \<and> dials (kern w') = dials (kern w) @ ds \<and>
     tries n b (\<exists>e. r = Inl e) m ds)"

text \<open>The same after a query was written on the host \<open>k\<close> with \<open>n\<close> attempts left.\<close>

definition asked :: "('k \<Rightarrow> nat) \<Rightarrow> ('k \<Rightarrow> bool list) \<Rightarrow> nat \<Rightarrow> 'k \<Rightarrow> err + 'a \<Rightarrow> ('k, 'm) net_scheme \<Rightarrow> bool" where
  "asked sent dials n k r w' \<longleftrightarrow> (\<exists>m ds. sent (kern w') = Suc (sent k + m) \<and> dials (kern w') = dials k @ ds \<and>
     (tries n False (\<exists>e. r = Inl e) m ds \<or> m = 0 \<and> ds = [] \<and> (\<exists>resp. r = Inr resp)))"

lemma asked_answer [simp]: "sent (kern w') = Suc (sent k) \<Longrightarrow> dials (kern w') = dials k \<Longrightarrow> asked sent dials n k (Inr resp) w'"
  by (auto simp: asked_def)

lemma asked_later:
  assumes "sent (kern w1) = Suc (sent k)" "dials (kern w1) = dials k" "spent sent dials n False w1 r w'"
  shows "asked sent dials n k r w'"
  using assms by (auto simp: asked_def spent_def)

lemma spent_asked:
  assumes "asked sent dials n k r w'" "sent k = sent (kern w)" "dials k = dials (kern w) @ (if b then [] else [True])"
  shows "spent sent dials (Suc n) b w r w'"
proof -
  obtain m ds where h: "sent (kern w') = sent (kern w) + Suc m" "dials (kern w') = dials (kern w) @ (if b then ds else True # ds)"
    "tries n False (\<exists>e. r = Inl e) m ds \<or> m = 0 \<and> ds = [] \<and> (\<exists>resp. r = Inr resp)"
    using assms by (auto simp: asked_def)
  then have "tries (Suc n) b (\<exists>e. r = Inl e) (Suc m) (if b then ds else True # ds)" by (cases b) (auto intro: tries_Suc)
  then show ?thesis using h(1,2) unfolding spent_def by blast
qed

lemma wp_forwardAttempts_spent:
  fixes w :: "('k, 'm) dw_scheme"
  assumes D: "watches D sent dials"
  shows "wp (forwardAttempts n D i u qry) (spent sent dials n (conns w i \<noteq> None) w) w"
proof (induction n arbitrary: w)
  case 0
  show ?case by (auto simp: spent_def)
next
  case (Suc n)
  let ?fresh = "asked sent dials n"
  have retry: "wp (bindP (dropConn D i c) (\<lambda>_. forwardAttempts n D i u qry)) (?fresh k0) w'"
    if h: "sent (kern w') = Suc (sent k0)" "dials (kern w') = dials k0" for c k0 and w' :: "('k, 'm) dw_scheme"
  proof -
    have "wp (dropConn D i c) (\<lambda>r w1. r = Inr () \<and> conns w1 i = None \<and> sent (kern w1) = Suc (sent k0) \<and> dials (kern w1) = dials k0) w'"
      unfolding dropConn_def setConn_def by (simp, rule wp_askK) (use D h in \<open>auto simp: watches_def\<close>)
    then show ?thesis
      unfolding wp_bindP by (rule wp_conseq) (auto intro!: wp_conseq [OF Suc.IH] intro: asked_later)
  qed
  have read: "wp (bindP (tryP (readMsg D c)) (\<lambda>r. case r of
       Inl _ \<Rightarrow> bindP (dropConn D i c) (\<lambda>_. forwardAttempts n D i u qry) | Inr resp \<Rightarrow> ret resp)) (?fresh k0) w'"
    if h: "sent (kern w') = Suc (sent k0)" "dials (kern w') = dials k0" for c k0 and w' :: "('k, 'm) dw_scheme"
  proof -
    have "keeps (\<lambda>w'. sent (kern w') = Suc (sent k0) \<and> dials (kern w') = dials k0) (readMsg D c)"
      by (rule keeps_readMsg_kern [where J = "\<lambda>k. sent k = Suc (sent k0) \<and> dials k = dials k0"]) (use D in \<open>auto simp: watches_def\<close>)
    from keepsD [OF this, of w'] h have "wp (readMsg D c) (\<lambda>_ w'. sent (kern w') = Suc (sent k0) \<and> dials (kern w') = dials k0) w'" by simp
    then show ?thesis
      unfolding wp_bindP [of "tryP m" for m] wp_tryP
      by (rule wp_conseq) (auto simp del: wp_bindP split: sum.split intro: retry)
  qed
  have exchange: "wp (bindP (tryP (writeMsg D c qry)) (\<lambda>r. case r of
       Inl _ \<Rightarrow> bindP (dropConn D i c) (\<lambda>_. forwardAttempts n D i u qry)
     | Inr _ \<Rightarrow> bindP (tryP (readMsg D c)) (\<lambda>r. case r of
           Inl _ \<Rightarrow> bindP (dropConn D i c) (\<lambda>_. forwardAttempts n D i u qry)
         | Inr resp \<Rightarrow> ret resp))) (?fresh (kern w')) w'" for c and w' :: "('k, 'm) dw_scheme"
    unfolding wp_bindP [of "tryP m" for m] wp_tryP writeMsg_def
    by (rule wp_runK) (use D in \<open>auto simp del: wp_bindP simp: watches_def intro!: retry read\<close>)
  show ?case
  proof (cases "conns w i")
    case (Some c)
    have "wp (dialUp D i u) Q w \<longleftrightarrow> Q (Inr c) w" for Q by (simp add: dialUp_def Some)
    then show ?thesis unfolding forwardAttempts.simps wp_bindP [of "dialUp D i u"]
      by (auto simp del: wp_bindP simp: Some intro!: wp_conseq [OF exchange] intro: spent_asked)
  next
    case None
    have "wp (dialUp D i u) (\<lambda>r w'. case r of Inl e \<Rightarrow> sent (kern w') = sent (kern w) \<and> dials (kern w') = dials (kern w) @ [False]
        | Inr c \<Rightarrow> sent (kern w') = sent (kern w) \<and> dials (kern w') = dials (kern w) @ [True]) w"
      unfolding dialUp_def setConn_def by (simp add: None, rule wp_outK) (use D in \<open>auto simp: watches_def split: sum.split\<close>)
    then show ?thesis unfolding forwardAttempts.simps wp_bindP [of "dialUp D i u"]
      by (rule wp_conseq) (auto simp del: wp_bindP simp: None spent_def split: sum.splits intro!: wp_conseq [OF exchange] dest!: spent_asked [where b = False and w = w])
  qed
qed

section \<open>The round robin\<close>

lemma wp_forwardDoT:
  assumes "\<And>r w'. others i w w' \<Longrightarrow> conns w' i \<noteq> None \<longleftrightarrow> (\<exists>resp. r = Inr resp) \<Longrightarrow> forwardDoT D i u qry w = Some (r, w') \<Longrightarrow> Q r w'"
  shows "wp (forwardDoT D i u qry) Q w"
proof -
  have "wp (forwardDoT D i u qry) (\<lambda>r w'. others i w w' \<and> (conns w' i \<noteq> None \<longleftrightarrow> (\<exists>resp. r = Inr resp))) w"
    unfolding forwardDoT_def by (rule wp_forwardAttempts [where ?w0.0 = w]) auto
  then show ?thesis using assms by (auto simp: wp_iff)
qed

text \<open>What a dispatch may answer: what an upstream answered, or the answer of last resort.\<close>

definition failedOn :: "'k dotops \<Rightarrow> upstream list \<Rightarrow> byte list \<Rightarrow> nat \<Rightarrow> bool" where
  "failedOn D us qry i \<longleftrightarrow> (\<exists>v v' e. forwardDoT D i (us ! i) qry (v :: 'k dw) = Some (Inl e, v'))"

lemma wp_dispatchLoop:
  fixes w :: "'k dw"
  assumes "us \<noteq> []" and "\<forall>t < j. failedOn D us qry ((s + t) mod length us)"
    and up: "\<And>resp i v v' w'. i < length us \<Longrightarrow> forwardDoT D i (us ! i) qry (v :: 'k dw) = Some (Inr resp, v') \<Longrightarrow>
      idx w' = idx w \<Longrightarrow> Q (Inr (Some resp)) w'"
    and cancelled: "\<And>k e k' w'. dDone D k = (Some e, k') \<Longrightarrow> idx w' = idx w \<Longrightarrow> Q (Inr (servfail qry)) w'"
    and all: "\<And>w'. \<forall>t < j + todo. failedOn D us qry ((s + t) mod length us) \<Longrightarrow> idx w' = idx w \<Longrightarrow> Q (Inr (servfail qry)) w'"
  shows "wp (dispatchLoop todo D us (s + j) qry) Q w"
  using assms(2-)
proof (induction todo arbitrary: j w)
  case 0
  then show ?case by simp
next
  case (Suc todo)
  let ?i = "(s + j) mod length us"
  have i: "?i < length us" using assms(1) by simp
  show ?case
    unfolding dispatchLoop.simps wp_bindP [of "tryP m" for m] wp_tryP
  proof (rule wp_forwardDoT)
    fix r w1
    assume o: "others ?i w w1" and f: "forwardDoT D ?i (us ! ?i) qry w = Some (r, w1)"
    then have ix: "idx w1 = idx w" by (simp add: others_def)
    show "case Inr r of Inl e \<Rightarrow> Q (Inl e) w1 | Inr a \<Rightarrow> wp (case a of Inl _ \<Rightarrow> bindP (askK (dDone D)) (\<lambda>d.
         if d \<noteq> None then ret (servfail qry) else dispatchLoop todo D us (Suc (s + j)) qry) | Inr resp \<Rightarrow> ret (Some resp)) Q w1"
    proof (cases r)
      case (Inr resp)
      then show ?thesis using Suc.prems(2) [OF i _ ix] f by simp
    next
      case (Inl e)
      have "failedOn D us qry ?i" unfolding failedOn_def using f Inl by blast
      then have fails: "\<forall>t < Suc j. failedOn D us qry ((s + t) mod length us)"
        using Suc.prems(1) by (auto simp: less_Suc_eq)
      have "wp (dispatchLoop todo D us (s + Suc j) qry) Q (w1\<lparr>kern := k\<rparr>)" for k
        using Suc.prems(2-4) fails ix by (intro Suc.IH) simp_all
      then show ?thesis
        using Inl Suc.prems(3) ix by (auto intro!: wp_askK)
    qed
  qed
qed

text \<open>The rounds of a dispatch reach every upstream.\<close>

lemma rotation_covers:
  assumes "i < (n :: nat)"
  shows "\<exists>t < n. (s + t) mod n = i"
proof (intro exI conjI)
  show "(i + (n - s mod n)) mod n < n" using assms by simp
  have "(s + (i + (n - s mod n)) mod n) mod n = (s mod n + (i + (n - s mod n))) mod n"
    by (simp add: mod_simps)
  also have "s mod n + (i + (n - s mod n)) = i + n" using assms mod_less_divisor [of n s] by linarith
  finally show "(s + (i + (n - s mod n)) mod n) mod n = i" using assms by simp
qed

section \<open>The setup\<close>

text \<open>Connections and listeners do not touch the firewall.\<close>

locale dot_world = host_world N V R H S ticks
  for N :: "'k netops" and V :: "'k \<Rightarrow> chains" and R :: "'k \<Rightarrow> iprules" and H :: "'k \<Rightarrow> bool"
    and S :: "'k sysops" and ticks :: "'k \<Rightarrow> nat" +
  fixes D :: "'k dotops"
  assumes close_quiet: "quiet (undisturbed V R H) (dClose D c)"
    and listen_quiet: "quiet (undisturbed V R H) (dListen D net)"
begin

lemma keeps_dot [intro]:
  "keeps (closed V R H k0) (askK (dClose D c))" "keeps (closed V R H k0) (runK (dListen D net))"
  by (rule keeps_closed, intro keeps_quiet keeps_runK_quiet close_quiet listen_quiet undisturbed_trans)+

lemma keeps_CloseUpstreams [intro]: "keeps (closed V R H k0) (CloseUpstreams D)"
  unfolding CloseUpstreams_def closeConn_def dropConn_def setConn_def
  by (auto intro!: keeps_bindP keeps_forP keeps_closed_modify split: option.split)

lemma keeps_resolveHostnames: "keeps (closed V R H k0) (resolveHostnames N S r hs)"
  unfolding resolveHostnames_def by (auto intro!: keeps_bindP keeps_closed_modify keeps_wrapErr)

lemma wp_startProxy:
  assumes "closed V R H k0 w"
    and "\<And>e w'. closed V R H k0 w' \<Longrightarrow> Q (Inl e) w'"
    and "\<And>w'. closed V R H k0 w' \<Longrightarrow> upstreams w' = upstreams w \<Longrightarrow> idx w' = 0 \<Longrightarrow>
      resolvConf w' = Inr (resolvContent [proxyIP]) \<Longrightarrow> Q (Inr ()) w'"
  shows "wp (startProxy D) Q w"
proof -
  let ?I = "\<lambda>w'. closed V R H k0 w' \<and> hostOnly (w\<lparr>idx := 0\<rparr>) w'"
  have fail: "wp (bindP (CloseUpstreams D) (\<lambda>_. throw e)) Q w'" if "closed V R H k0 w'" for e w'
    by (simp, rule wp_keeps [OF keeps_CloseUpstreams that]) (auto intro: assms(2) split: sum.split)
  have conf: "wp (bindP (tryP (WriteResolv [proxyIP])) (\<lambda>r. case r of
       Inl e \<Rightarrow> bindP (CloseUpstreams D) (\<lambda>_. throw (Errorf ''write resolv.conf'' [e])) | Inr _ \<Rightarrow> ret ())) Q w'" if "?I w'" for w'
  proof (cases "fault w'")
    case None
    then show ?thesis using that
      by (auto simp: WriteResolv_def wrapErr_def WriteFile_def putConf_def bindP_def tryP_def ret_def wp_def closed_def Let_def
          dest: hostOnly_dw intro!: assms(3))
  next
    case (Some f)
    have "wp (bindP (CloseUpstreams D) (\<lambda>_. throw e)) Q (putConf x (w'\<lparr>ioFaults := fs\<rparr>))" for e x fs
      by (rule fail) (use that in \<open>simp add: putConf_def closed_def\<close>)
    then show ?thesis using Some that
      by (cases f) (simp add: WriteResolv_def wrapErr_def WriteFile_def bindP_def [of "tryP m" for m] tryP_def wp_def Let_def)
  qed
  have "keeps ?I (bindP (runK (dListen D ''udp'')) (\<lambda>_. runK (dListen D ''tcp'')))"
    by (intro keeps_conj) auto
  moreover have "?I (w\<lparr>idx := 0\<rparr>)" using assms(1) by (simp add: closed_def)
  ultimately show ?thesis
    unfolding startProxy_def wp_bindP [of "modifyP f" for f] wp_modifyP sum.case wp_bindP [of "tryP m" for m] wp_tryP
    by (rule wp_keeps) (use conf fail in \<open>auto simp del: wp_bindP split: sum.split
        simp: wp_bindP [of "tryP m" for m, symmetric]\<close>)
qed

lemma wp_proxySetup:
  fixes w :: "('k, 'm) dw_scheme"
  assumes "closed V R H k0 w"
  shows "wp (proxySetup N S D r raw) (\<lambda>x w'. closed V R H k0 w' \<and> (x = Inr () \<longrightarrow>
    upstreams w' \<noteq> [] \<and> idx w' = 0 \<and> resolvConf w' = Inr (resolvContent [proxyIP]))) w" (is "wp _ ?Q _")
proof (cases "parseUpstreams raw")
  case (Inl e)
  then show ?thesis using assms by (simp add: proxySetup_def closed_def)
next
  case (Inr hs)
  have start: "wp (bindP (tryP (startProxy D)) (\<lambda>r. case r of
      Inl _ \<Rightarrow> throw (Errorf ''dns proxy'' [Sentinel ErrFatal]) | Inr _ \<Rightarrow> ret ())) ?Q w'"
    if "closed V R H k0 w'" "upstreams w' \<noteq> []" for w' :: "('k, 'm) dw_scheme"
    by (simp, rule wp_startProxy [OF that(1)]) (use that(2) in auto)
  have "wp (resolveHostnames N S r hs) (\<lambda>x w'. closed V R H k0 w' \<and> (x = Inr () \<longrightarrow> upstreams w' \<noteq> []))
      (w\<lparr>upstreams := [], conns := \<lambda>_. None\<rparr>)"
    using keepsD [OF keeps_resolveHostnames, of k0 "w\<lparr>upstreams := [], conns := \<lambda>_. None\<rparr>" r hs] assms
    by (auto simp: wp_iff closed_def resolveHostnames_def bindP_def wrapErr_def modifyP_def getsP_def ret_def throw_def
        split: option.splits sum.splits if_splits)
  then have "wp (bindP (resolveHostnames N S r hs) (\<lambda>_. bindP (tryP (startProxy D)) (\<lambda>r. case r of
      Inl _ \<Rightarrow> throw (Errorf ''dns proxy'' [Sentinel ErrFatal]) | Inr _ \<Rightarrow> ret ()))) ?Q (w\<lparr>upstreams := [], conns := \<lambda>_. None\<rparr>)"
    unfolding wp_bindP [of "resolveHostnames N S r hs"]
  proof (rule wp_conseq)
    fix x :: "err + unit" and w' :: "('k, 'm) dw_scheme" assume "closed V R H k0 w' \<and> (x = Inr () \<longrightarrow> upstreams w' \<noteq> [])"
    then show "case x of Inl e \<Rightarrow> ?Q (Inl e) w' | Inr _ \<Rightarrow> wp (bindP (tryP (startProxy D)) (\<lambda>r. case r of
        Inl _ \<Rightarrow> throw (Errorf ''dns proxy'' [Sentinel ErrFatal]) | Inr _ \<Rightarrow> ret ())) ?Q w'"
      using start [of w'] by (cases x) (simp_all del: wp_bindP)
  qed
  then show ?thesis
    unfolding proxySetup_def Inr sum.case wp_bindP [of "modifyP f" for f] wp_modifyP .
qed

end

definition refD :: "refk dotops" where
  "refD = \<lparr>dDial = (\<lambda>_ _. Pair (Inr 1)), dWrite = (\<lambda>_ _. Pair None), dRead = (\<lambda>_ n. Pair (Inr (replicate n 0))),
     dClose = (\<lambda>_. Pair ()), dDone = Pair None, dListen = (\<lambda>_. Pair None)\<rparr>"

interpretation refd: dot_world refN refV refR refH refS "\<lambda>_. 0" refD
  by unfold_locales (simp_all add: refD_def quiet_def)

section \<open>Properties\<close>

text \<open>
  Framing. A message written to a connection is read back from its other end, with nothing
  left over, as long as it has at most 16384 bytes; a longer one is refused by the reader.
\<close>

lemma frame_roundtrip:
  assumes "pipe D c rd" and "rd (kern w) = []" and "length msg < 65536"
  shows "\<exists>w1 r w2. writeMsg D c msg w = Some (Inr (), w1) \<and> readMsg D c w1 = Some (r, w2) \<and>
    (if length msg \<le> 16384 then r = Inr msg \<and> rd (kern w2) = [] else \<exists>e. r = Inl e)"
proof -
  obtain k1 where k1: "dWrite D c (frame msg) (kern w) = (None, k1)" "rd k1 = frame msg"
    using pipe_write [OF assms(1), of "frame msg" "kern w"] assms(2) by auto
  let ?w1 = "w\<lparr>kern := k1\<rparr>"
  have "wp (readMsg D c) (\<lambda>r w2. if length msg \<le> 16384 then r = Inr msg \<and> rd (kern w2) = [] else \<exists>e. r = Inl e) ?w1"
    by (rule wp_readMsg_pipe [OF assms(1), where msg = msg and rest = "[]"]) (use k1 assms(3) in auto)
  moreover have "writeMsg D c msg w = Some (Inr (), ?w1)"
    by (simp add: writeMsg_def runK_def k1)
  ultimately show ?thesis by (auto simp: wp_iff)
qed

text \<open>A host whose only state is one stream of bytes, on which every connection works.\<close>

definition loopD :: "byte list dotops" where
  "loopD = \<lparr>dDial = (\<lambda>a h. if a = ''down'' then Pair (Inl (Errorf ''refused'' [])) else Pair (Inr 7)),
     dWrite = (\<lambda>c data k. (None, k @ data)),
     dRead = (\<lambda>c n k. if n \<le> length k then (Inr (take n k), drop n k) else (Inl (Errorf ''EOF'' []), [])),
     dClose = (\<lambda>c. Pair ()), dDone = Pair None, dListen = (\<lambda>_. Pair None)\<rparr>"

definition dwOf :: "'k \<Rightarrow> upstream list \<Rightarrow> 'k dw" where
  "dwOf k us = \<lparr>kern = k, ipt4Cmd = [], ipt6Cmd = [], active = True, activePort = 0,
     Token = [], TokenTime = 0, AuthIPs = [], ServerListIPs = [], Servers = [], tokenFile = Inl (Sentinel ErrNotExist),
     writable = True, now = 0, ctxErr = None, resolvConf = Inr [], resolvBak = Inl (Sentinel ErrNotExist), ioFaults = [],
     upstreams = us, conns = (\<lambda>_. None), idx = 4\<rparr>"

definition loopHost :: "byte list dw" where
  "loopHost = dwOf [] [\<lparr>upAddr = ''down'', upServerName = ''a''\<rparr>, \<lparr>upAddr = ''up'', upServerName = ''b''\<rparr>]"

lemma loop_pipe: "pipe loopD c (\<lambda>k. k)"
  by (simp add: pipe_def loopD_def)

lemma frame_roundtrip_witness:
  "\<exists>w1 w2. writeMsg loopD 7 [1, 2, 3] loopHost = Some (Inr (), w1) \<and> readMsg loopD 7 w1 = Some (Inr [1, 2, 3], w2)"
proof -
  have "kern loopHost = []" by (simp add: loopHost_def dwOf_def)
  then show ?thesis using frame_roundtrip [OF loop_pipe, of loopHost "[1, 2, 3]" 7] by auto
qed

text \<open>
  C33. Connections that failed are not used again, and a query is tried at most twice. A query
  to an upstream always returns; afterwards the upstream has an open connection exactly if it
  answered, and the other upstreams have the connections they had. Of the host it asks at most
  two writes of the query and two dials, one less if there was a connection. An answer came after
  one or two writes without a failed dial; the query fails only after two writes, or with a
  dial that failed, which was the last one.
\<close>

theorem stale_connection_dropped:
  assumes "watches D sent dials"
  shows "\<exists>r w' m ds. forwardDoT D i u qry w = Some (r, w') \<and> (conns w' i \<noteq> None \<longleftrightarrow> (\<exists>resp. r = Inr resp)) \<and>
     (\<forall>j. j = i \<or> conns w' j = conns w j) \<and>
     sent (kern w') = sent (kern w) + m \<and> dials (kern w') = dials (kern w) @ ds \<and>
     m \<le> 2 \<and> length ds \<le> (if conns w i = None then 2 else 1) \<and>
     (case r of
        Inr resp \<Rightarrow> 0 < m \<and> False \<notin> set ds
      | Inl e \<Rightarrow> m = 2 \<and> False \<notin> set ds \<or> m < 2 \<and> (\<exists>ds'. ds = ds' @ [False] \<and> False \<notin> set ds'))"
proof -
  have "wp (forwardDoT D i u qry) (\<lambda>r w'. (conns w' i \<noteq> None \<longleftrightarrow> (\<exists>resp. r = Inr resp)) \<and> (\<forall>j. j = i \<or> conns w' j = conns w j)) w"
    by (rule wp_forwardDoT) (auto simp: others_def)
  then obtain r w' where run: "forwardDoT D i u qry w = Some (r, w')" "conns w' i \<noteq> None \<longleftrightarrow> (\<exists>resp. r = Inr resp)"
    "\<forall>j. j = i \<or> conns w' j = conns w j" by (auto simp: wp_iff)
  moreover have "spent sent dials 2 (conns w i \<noteq> None) w r w'"
    using wp_forwardAttempts_spent [OF assms, of 2 i u qry w] run(1) by (simp add: wp_iff forwardDoT_def)
  ultimately show ?thesis by (cases r) (auto simp: spent_def tries_def)
qed

text \<open>
  A host that counts. The upstream has a connection that went stale: the query is written to it,
  the answer does not come, and the second attempt dials a connection that answers.
\<close>

definition countD :: "(nat \<times> bool list) dotops" where
  "countD = \<lparr>dDial = (\<lambda>a h k. (Inr 3, (fst k, snd k @ [True]))), dWrite = (\<lambda>c data k. (None, (Suc (fst k), snd k))),
     dRead = (\<lambda>c n k. (if c = 3 then Inr (if n = 2 then [0, 1] else [7]) else Inl (Sentinel ErrNotExist), k)),
     dClose = (\<lambda>c k. ((), k)), dDone = (\<lambda>k. (None, k)), dListen = (\<lambda>n k. (None, k))\<rparr>"

definition staleHost :: "(nat \<times> bool list) dw" where
  "staleHost = (dwOf (0, []) [])\<lparr>conns := (\<lambda>_. None)(0 := Some 5)\<rparr>"

lemma stale_connection_dropped_witness:
  "\<exists>w'. forwardDoT countD 0 \<lparr>upAddr = ''a'', upServerName = ''b''\<rparr> [1] staleHost = Some (Inr [7], w') \<and>
     kern w' = (2, [True]) \<and> conns w' 0 \<noteq> None"
proof -
  let ?u = "\<lparr>upAddr = ''a'', upServerName = ''b''\<rparr>"
  have D: "watches countD fst snd" by (simp add: watches_def countD_def)
  have two: "forwardDoT = forwardAttempts (Suc (Suc 0))" by (simp add: forwardDoT_def numeral_2_eq_2)
  have "\<exists>w'. forwardDoT countD 0 ?u [1] staleHost = Some (Inr [7], w') \<and> kern w' = (2, [True])"
    by (simp add: staleHost_def dwOf_def countD_def two dialUp_def dropConn_def setConn_def
        writeMsg_def readMsg_def Uint16_def maxDNSMsg_def bindP_def tryP_def ret_def getsP_def modifyP_def askK_def outK_def runK_def Let_def)
  then obtain w' where run: "forwardDoT countD 0 ?u [1] staleHost = Some (Inr [7], w')" "kern w' = (2, [True])" by blast
  then show ?thesis using stale_connection_dropped [OF D, of 0 ?u "[1]" staleHost] by auto
qed

text \<open>
  C32. Dispatching a query. With at least one upstream and fewer than \<open>2 ^ 63\<close> queries so far, a
  query returns and is counted; it is answered by what one of the upstreams answered, and with
  SERVFAIL only if every upstream failed on it or the dials were cancelled. The answer SERVFAIL
  carries the identifier of the query, is marked as a response and has the code 2; a query
  without a full header gets none.
\<close>

theorem dispatch_correct:
  fixes w :: "'k dw"
  assumes "upstreams w \<noteq> []" and "0 \<le> sint (idx w)"
  shows "\<exists>r w'. dispatch D qry w = Some (Inr r, w') \<and> idx w' = idx w + 1 \<and>
    ((\<exists>i resp v v'. r = Some resp \<and> i < length (upstreams w) \<and>
        forwardDoT D i (upstreams w ! i) qry (v :: 'k dw) = Some (Inr resp, v')) \<or>
     r = servfail qry \<and> ((\<exists>k e k'. dDone D k = (Some e, k')) \<or> (\<forall>i < length (upstreams w). failedOn D (upstreams w) qry i))) \<and>
    (case servfail qry of
       None \<Rightarrow> length qry < 12
     | Some resp \<Rightarrow> length resp = 12 \<and> take 2 resp = take 2 qry \<and> bit (resp ! 2) 7 \<and>
         resp ! 2 AND 0x7F = qry ! 2 AND 0x7F \<and> resp ! 3 AND 0x0F = 2)"
proof -
  let ?us = "upstreams w" and ?s = "nat (sint (idx w) mod int (length (upstreams w)))" and ?w = "w\<lparr>idx := idx w + 1\<rparr>"
  let ?Q = "\<lambda>x w'. \<exists>r. x = Inr r \<and> idx w' = idx w + 1 \<and>
    ((\<exists>i resp v v'. r = Some resp \<and> i < length ?us \<and> forwardDoT D i (?us ! i) qry (v :: 'k dw) = Some (Inr resp, v')) \<or>
     r = servfail qry \<and> ((\<exists>k e k'. dDone D k = (Some e, k')) \<or> (\<forall>i < length ?us. failedOn D ?us qry i)))"
  have "wp (dispatchLoop (length ?us) D ?us (?s + 0) qry) ?Q ?w"
  proof (rule wp_dispatchLoop [OF assms(1)])
    fix w' :: "'k dw"
    assume "\<forall>t < 0 + length ?us. failedOn D ?us qry ((?s + t) mod length ?us)" and "idx w' = idx ?w"
    then have "\<forall>i < length ?us. failedOn D ?us qry i"
      using rotation_covers [of _ "length ?us" ?s] by fastforce
    then show "?Q (Inr (servfail qry)) w'" using \<open>idx w' = idx ?w\<close> by simp
  qed auto
  moreover have "dispatch D qry w = dispatchLoop (length ?us) D ?us ?s qry ?w"
    using assms by (simp add: dispatch_def bindP_def getsP_def modifyP_def)
  moreover have "case servfail qry of None \<Rightarrow> length qry < 12
     | Some resp \<Rightarrow> length resp = 12 \<and> take 2 resp = take 2 qry \<and> bit (resp ! 2) 7 \<and>
         resp ! 2 AND 0x7F = qry ! 2 AND 0x7F \<and> resp ! 3 AND 0x0F = 2"
  proof (cases "length qry < 12")
    case False
    then have "take 2 qry = [qry ! 0, qry ! 1]"
      by (cases qry rule: remdups_adj.cases) auto
    moreover have "(qry ! 2 OR 0x80) AND 0x7F = qry ! 2 AND (0x7F :: byte)" by (simp add: bit.conj_disj_distrib2)
    moreover have "bit (qry ! 2 OR (0x80 :: byte)) 7" by (simp add: bit_or_iff)
    ultimately show ?thesis using False by (simp add: servfail_def numeral_2_eq_2)
  qed (simp add: servfail_def)
  ultimately show ?thesis by (auto simp: wp_iff)
qed

theorem dispatch_correct_witness:
  "\<exists>w'. dispatch loopD [1, 2, 3] loopHost = Some (Inr (Some [1, 2, 3]), w') \<and> idx w' = 5"
proof -
  have u: "upstreams loopHost \<noteq> []" "0 \<le> sint (idx loopHost)" "idx loopHost = 4" by (simp_all add: loopHost_def dwOf_def)
  obtain r w' where w: "dispatch loopD [1, 2, 3] loopHost = Some (Inr r, w')" "idx w' = idx loopHost + 1"
    using dispatch_correct [OF u(1,2), of loopD "[1, 2, 3]"] by blast
  have "fst (the (dispatch loopD [1, 2, 3] loopHost)) = Inr (Some [1, 2, 3])" by code_simp
  then show ?thesis using w u(3) by simp
qed

text \<open>
  C34. Setting the proxy up. On a healthy host without exemptions it returns, whatever the
  servers answer, and leaves the chains and the policy rules as they were. If it succeeds there
  is an upstream, so that no dispatch divides by zero, the counter is at its start, and lookups
  of the host go to the proxy: \<^verbatim>\<open>resolv.conf\<close> names 127.0.0.1 only.
\<close>

theorem proxy_setup_correct:
  assumes "dot_world N V R H S ticks D" and "H (kern w)" and "shut (V (kern w))"
  shows "\<exists>x w'. proxySetup N S D r raw w = Some (x, w') \<and> V (kern w') = V (kern w) \<and> R (kern w') = R (kern w) \<and>
    (x = Inr () \<longrightarrow> upstreams w' \<noteq> [] \<and> 0 \<le> sint (idx w') \<and> ReadResolv w' = Some (Inr [''127.0.0.1''], w'))"
proof -
  have "closed V R H (kern w) w" using assms(2,3) by (simp add: closed_def)
  moreover have "ReadResolv w' = Some (Inr [proxyIP], w')" if "resolvConf w' = Inr (resolvContent [proxyIP])" for w'
    using that parse_resolvContent [of "[proxyIP]"] by (simp add: ReadResolv_def readP_def bindP_def ret_def proxyIP_def)
  ultimately show ?thesis
    using dot_world.wp_proxySetup [OF assms(1), of "kern w" w r raw]
    by (fastforce simp: wp_iff closed_def proxyIP_def)
qed

definition demoDot :: "refk dw" where
  "demoDot = dwOf (kern demoNet) []"

theorem proxy_setup_correct_witness:
  "\<exists>w'. proxySetup refN refS refD (NewExemptResolver []) [''tls://serverlist.piaservers.net''] demoDot = Some (Inr (), w') \<and>
     refV (kern w') = refV (kern demoDot) \<and> upstreams w' \<noteq> []"
proof -
  have s: "refH (kern demoDot)" "shut (refV (kern demoDot))"
    using demoNet_shut by (simp_all add: demoDot_def dwOf_def)
  let ?p = "proxySetup refN refS refD (NewExemptResolver []) [''tls://serverlist.piaservers.net''] demoDot"
  obtain x w' where w: "?p = Some (x, w')" "refV (kern w') = refV (kern demoDot)" "x = Inr () \<longrightarrow> upstreams w' \<noteq> []"
    using proxy_setup_correct [OF refd.dot_world_axioms s, of "NewExemptResolver []" "[''tls://serverlist.piaservers.net'']"] by blast
  have "fst (the ?p) = Inr ()" by code_simp
  with w show ?thesis by simp
qed

end
