(* ===== verification/GoBytes.thy ===== *)
theory GoBytes
  imports GoStrings
begin

text \<open>
  Bytes and the encodings of Go's standard library that several components use:
  \<^verbatim>\<open>encoding/base64\<close>, and \<^verbatim>\<open>strings.ReplaceAll\<close> and \<^verbatim>\<open>strings.Index\<close> of a text.
\<close>

section \<open>Bytes\<close>

definition byteOf :: "nat \<Rightarrow> char" where "byteOf = char_of"

definition val :: "char \<Rightarrow> nat" where "val = of_char"

lemma val_byteOf [simp]: "n < 256 \<Longrightarrow> val (byteOf n) = n"
  by (simp add: val_def byteOf_def)

lemma byteOf_val [simp]: "byteOf (val c) = c"
  by (simp add: val_def byteOf_def)

lemma val_less [simp]: "val c < 256"
  unfolding val_def by (rule nat_of_char_less_256)

section \<open>Base64\<close>

text \<open>
  \<^verbatim>\<open>base64.StdEncoding\<close>: line breaks are skipped, the padding must be complete and at the end,
  the bits left over in the last group are not looked at.
\<close>

definition b64Alphabet :: string where
  "b64Alphabet = ''ABCDEFGHIJKLMNOPQRSTUVWXYZabcdefghijklmnopqrstuvwxyz0123456789+/''"

fun indexOf :: "nat \<Rightarrow> char \<Rightarrow> string \<Rightarrow> nat option" where
  "indexOf i c [] = None"
| "indexOf i c (x # xs) = (if x = c then Some i else indexOf (Suc i) c xs)"

definition b64Val :: "char \<Rightarrow> nat option" where
  "b64Val c = indexOf 0 c b64Alphabet"

definition pad :: char where "pad = CHR ''=''"

fun decodeGroups :: "string \<Rightarrow> string option" where
  "decodeGroups [] = Some []"
| "decodeGroups (a # b # c # d # rest) = (case (b64Val a, b64Val b) of
       (Some x, Some y) \<Rightarrow>
         (let n1 = 4 * x + y div 16 in
          if c = pad then (if d = pad \<and> rest = [] then Some [byteOf n1] else None)
          else case b64Val c of None \<Rightarrow> None
            | Some z \<Rightarrow>
                (let n2 = 16 * (y mod 16) + z div 4 in
                 if d = pad then (if rest = [] then Some [byteOf n1, byteOf n2] else None)
                 else case b64Val d of None \<Rightarrow> None
                   | Some u \<Rightarrow> map_option (\<lambda>s. byteOf n1 # byteOf n2 # byteOf (64 * (z mod 4) + u) # s) (decodeGroups rest)))
     | _ \<Rightarrow> None)"
| "decodeGroups _ = None"

definition b64Decode :: "string \<Rightarrow> string option" where
  "b64Decode s = decodeGroups (filter (\<lambda>c. c \<noteq> CHR 0x0A \<and> c \<noteq> CHR 0x0D) s)"

section \<open>Base64 is decoded as encoded\<close>

definition b64Char :: "nat \<Rightarrow> char" where
  "b64Char n = b64Alphabet ! n"

text \<open>The encoding of RFC 4648 with padding.\<close>

fun b64Encode :: "string \<Rightarrow> string" where
  "b64Encode [] = []"
| "b64Encode [a] = [b64Char (val a div 4), b64Char (16 * (val a mod 4)), pad, pad]"
| "b64Encode [a, b] = [b64Char (val a div 4), b64Char (16 * (val a mod 4) + val b div 16), b64Char (4 * (val b mod 16)), pad]"
| "b64Encode (a # b # c # rest) = [b64Char (val a div 4), b64Char (16 * (val a mod 4) + val b div 16),
     b64Char (4 * (val b mod 16) + val c div 64), b64Char (val c mod 64)] @ b64Encode rest"

lemma b64Char_facts:
  assumes "n < 64"
  shows "b64Val (b64Char n) = Some n" and "b64Char n \<noteq> pad" and "b64Char n \<noteq> CHR 0x0A" and "b64Char n \<noteq> CHR 0x0D"
proof -
  have "list_all (\<lambda>n. b64Val (b64Char n) = Some n \<and> b64Char n \<noteq> pad \<and> b64Char n \<noteq> CHR 0x0A \<and> b64Char n \<noteq> CHR 0x0D) [0..<64]"
    by code_simp
  with assms show "b64Val (b64Char n) = Some n" "b64Char n \<noteq> pad" "b64Char n \<noteq> CHR 0x0A" "b64Char n \<noteq> CHR 0x0D"
    by (auto simp: list_all_iff)
qed

lemma b64_groups: "decodeGroups (b64Encode s) = Some s"
proof (induction s rule: b64Encode.induct)
  case (2 a)
  have "val a div 4 < 64" "16 * (val a mod 4) < 64" using val_less [of a] by linarith+
  then show ?case by (simp add: b64Char_facts Let_def)
next
  case (3 a b)
  have "val a div 4 < 64" "16 * (val a mod 4) + val b div 16 < 64" "4 * (val b mod 16) < 64"
    "val b div 16 < 16" using val_less [of a] val_less [of b] by linarith+
  then show ?case by (simp add: b64Char_facts Let_def)
next
  case (4 a b c rest)
  have l: "val a div 4 < 64" "16 * (val a mod 4) + val b div 16 < 64" "4 * (val b mod 16) + val c div 64 < 64" "val c mod 64 < 64"
    "val b div 16 < 16" "val c div 64 < 4" using val_less [of a] val_less [of b] val_less [of c] by linarith+
  show ?case using 4 l by (simp add: b64Char_facts Let_def)
qed simp

lemma b64_no_breaks: "filter (\<lambda>c. c \<noteq> CHR 0x0A \<and> c \<noteq> CHR 0x0D) (b64Encode s) = b64Encode s"
proof (induction s rule: b64Encode.induct)
  case (2 a)
  have "val a div 4 < 64" "16 * (val a mod 4) < 64" using val_less [of a] by linarith+
  then show ?case by (simp add: b64Char_facts pad_def)
next
  case (3 a b)
  have "val a div 4 < 64" "16 * (val a mod 4) + val b div 16 < 64" "4 * (val b mod 16) < 64"
    using val_less [of a] val_less [of b] by linarith+
  then show ?case by (simp add: b64Char_facts pad_def)
next
  case (4 a b c rest)
  have "val a div 4 < 64" "16 * (val a mod 4) + val b div 16 < 64" "4 * (val b mod 16) + val c div 64 < 64" "val c mod 64 < 64"
    using val_less [of a] val_less [of b] val_less [of c] by linarith+
  then show ?case using 4 by (simp add: b64Char_facts)
qed simp

lemma b64_roundtrip: "b64Decode (b64Encode s) = Some s"
  by (simp only: b64Decode_def b64_no_breaks b64_groups)

section \<open>Substitution\<close>

text \<open>\<^verbatim>\<open>strings.ReplaceAll\<close> with a text that is not empty: the occurrences from the left, without overlap.\<close>

function ReplaceText :: "string \<Rightarrow> string \<Rightarrow> string \<Rightarrow> string" where
  "ReplaceText s old new =
     (if s = [] \<or> old = [] then s
      else if prefix old s then new @ ReplaceText (drop (length old) s) old new
      else hd s # ReplaceText (tl s) old new)"
  by auto
termination
  by (relation "measure (\<lambda>(s, _, _). length s)") auto

declare ReplaceText.simps [simp del]

lemma ReplaceText_Nil [simp]: "ReplaceText [] old new = []"
  by (simp add: ReplaceText.simps)

lemma ReplaceText_id: "\<not> sublist old s \<Longrightarrow> ReplaceText s old new = s"
proof (induction s old new rule: ReplaceText.induct)
  case (1 s old new)
  show ?case
  proof (cases "s = []")
    case False
    then have "\<not> prefix old s" "\<not> sublist old (tl s)"
      using 1(3) by (auto simp: prefix_imp_sublist) (metis list.collapse sublist_Cons_right)
    moreover have "old \<noteq> []" using 1(3) by auto
    ultimately show ?thesis using 1(2) False by (simp add: ReplaceText.simps [of s])
  qed simp
qed

text \<open>What follows the first occurrence (\<^verbatim>\<open>strings.Index\<close>).\<close>

fun afterFirst :: "string \<Rightarrow> string \<Rightarrow> string option" where
  "afterFirst mark [] = (if mark = [] then Some [] else None)"
| "afterFirst mark (c # s) = (if prefix mark (c # s) then Some (drop (length mark) (c # s)) else afterFirst mark s)"

lemma afterFirst_iff: "(\<exists>r. afterFirst mark s = Some r) \<longleftrightarrow> sublist mark s"
  by (induction s) (auto simp: sublist_Cons_right)

end
