(* ===== verification/Proxy.thy ===== *)
theory Proxy
  imports GoNet GoBytes
begin

text \<open>
  The two proxies of the container (\<^verbatim>\<open>internal/proxy\<close>): the SOCKS5 handshake of one connection, as a
  reader of the client's bytes, and the authentication and forwarding of the HTTP proxy. The
  client's connection is the bytes it will send; dialling and the HTTP transport are
  parameters. The bytes are copied after the handshake; that copy is not modelled.
\<close>

record proxyConfig =
  HTTPEnabled :: bool
  Socks5Enabled :: bool
  pUser :: string
  pPass :: string
  Socks5Port :: int
  HTTPPort :: int

section \<open>The client's connection\<close>

text \<open>\<open>sDials\<close> are the addresses dialled; \<open>sTunnel\<close> tells whether the bytes are passed on in the end.\<close>

record sock =
  sIn :: string
  sOut :: string
  sDials :: "string list"
  sTunnel :: bool

text \<open>\<^verbatim>\<open>io.ReadFull\<close>: the connection closes when there are fewer bytes.\<close>

definition eof :: err where "eof = Errorf ''EOF'' []"

definition readFull :: "nat \<Rightarrow> (sock, string) prog" where
  "readFull n s = (if n \<le> length (sIn s) then Some (Inr (take n (sIn s)), s\<lparr>sIn := drop n (sIn s)\<rparr>)
     else Some (Inl eof, s\<lparr>sIn := []\<rparr>))"

definition reply :: "nat list \<Rightarrow> (sock, unit) prog" where
  "reply bs = modifyP (\<lambda>s. s\<lparr>sOut := sOut s @ map byteOf bs\<rparr>)"

definition closeWith :: "nat list \<Rightarrow> (sock, 'a) prog" where
  "closeWith bs = bindP (reply bs) (\<lambda>_. throw eof)"

definition readLen :: "(sock, string) prog" where
  "readLen = bindP (readFull 1) (\<lambda>l. readFull (val (l ! 0)))"

section \<open>SOCKS5 (socks5.go)\<close>

definition authRequired :: "proxyConfig \<Rightarrow> bool" where
  "authRequired c \<longleftrightarrow> pUser c \<noteq> [] \<and> pPass c \<noteq> []"

text \<open>The greeting and the choice of the method.\<close>

definition greet :: "proxyConfig \<Rightarrow> (sock, unit) prog" where
  "greet c = bindP (readFull 2) (\<lambda>header.
     if val (header ! 0) \<noteq> 5 then throw eof
     else bindP (readFull (val (header ! 1))) (\<lambda>_.
       reply (if authRequired c then [5, 2] else [5, 0])))"

text \<open>The sub-negotiation of RFC 1929. The version byte is not looked at.\<close>

definition socksAuth :: "proxyConfig \<Rightarrow> (sock, unit) prog" where
  "socksAuth c = (if \<not> authRequired c then ret ()
     else bindP (readFull 2) (\<lambda>authHeader.
       bindP (readFull (val (authHeader ! 1))) (\<lambda>user.
       bindP readLen (\<lambda>pass.
       if user \<noteq> pUser c \<or> pass \<noteq> pPass c then closeWith [1, 1] else reply [1, 0]))))"

text \<open>The destination: an IPv4 address or a name.\<close>

definition refusal :: "nat \<Rightarrow> nat list" where
  "refusal code = [5, code, 0, 1, 0, 0, 0, 0, 0, 0]"

definition readHost :: "nat \<Rightarrow> (sock, string) prog" where
  "readHost atyp =
     (if atyp = 1 then bindP (readFull 4) (\<lambda>addr. ret (ipv4String (map val addr)))
      else if atyp = 3 then readLen
      else closeWith (refusal 8))"

text \<open>The port, the connection to the destination, and the answer.\<close>

definition socksDial :: "(string \<Rightarrow> bool) \<Rightarrow> string \<Rightarrow> (sock, unit) prog" where
  "socksDial dialOK host =
     bindP (readFull 2) (\<lambda>portBuf.
     let port = 256 * val (portBuf ! 0) + val (portBuf ! 1); addr = host @ '':'' @ ItoaN port in
     bindP (modifyP (\<lambda>s. s\<lparr>sDials := sDials s @ [addr]\<rparr>)) (\<lambda>_.
     if \<not> dialOK addr then closeWith (refusal 5)
     else bindP (reply (refusal 0)) (\<lambda>_. modifyP (\<lambda>s. s\<lparr>sTunnel := True\<rparr>))))"

definition socksRequest :: "(string \<Rightarrow> bool) \<Rightarrow> (sock, unit) prog" where
  "socksRequest dialOK =
     bindP (readFull 4) (\<lambda>req.
     if val (req ! 1) \<noteq> 1 then closeWith (refusal 7)
     else bindP (readHost (val (req ! 3))) (socksDial dialOK))"

definition handleSOCKS5 :: "proxyConfig \<Rightarrow> (string \<Rightarrow> bool) \<Rightarrow> (sock, unit) prog" where
  "handleSOCKS5 c dialOK = bindP (greet c) (\<lambda>_. bindP (socksAuth c) (\<lambda>_. socksRequest dialOK))"

section \<open>The HTTP proxy (http.go)\<close>

record httpReq =
  hqMethod :: string
  hqHost :: string
  hqHeader :: "(string \<times> string) list"

record httpResp =
  hrStatus :: int
  hrHeader :: "(string \<times> string) list"
  hrBody :: string

text \<open>What the handler does: an answer, or a tunnel to an address after an answer 200.\<close>

datatype outcome = Answer httpResp | TunnelTo string

definition httpError :: "string \<Rightarrow> int \<Rightarrow> (string \<times> string) list \<Rightarrow> outcome" where
  "httpError msg code hs = Answer \<lparr>hrStatus = code, hrHeader = hs, hrBody = msg @ [CHR 0x0A]\<rparr>"

text \<open>Header names are canonical; \<^verbatim>\<open>Get\<close> is the first value of a name.\<close>

definition HeaderGet :: "(string \<times> string) list \<Rightarrow> string \<Rightarrow> string" where
  "HeaderGet h k = (case map_of h k of None \<Rightarrow> [] | Some v \<Rightarrow> v)"

definition HeaderDel :: "(string \<times> string) list \<Rightarrow> string \<Rightarrow> (string \<times> string) list" where
  "HeaderDel h k = filter (\<lambda>(k', v). k' \<noteq> k) h"

definition checkAuth :: "proxyConfig \<Rightarrow> string \<Rightarrow> bool" where
  "checkAuth c auth =
     (if \<not> HasPrefix auth ''Basic '' then False
      else case b64Decode (drop 6 auth) of None \<Rightarrow> False
        | Some payload \<Rightarrow> (case SplitN2 (CHR '':'') payload of
              [u, p] \<Rightarrow> u = pUser c \<and> p = pPass c
            | _ \<Rightarrow> False))"

text \<open>Dialling and the round trip give the text of their error, if any.\<close>

definition handleTunneling :: "(string \<Rightarrow> string option) \<Rightarrow> httpReq \<Rightarrow> outcome" where
  "handleTunneling dial r = (case dial (hqHost r) of
       Some msg \<Rightarrow> httpError msg 503 []
     | None \<Rightarrow> TunnelTo (hqHost r))"

definition stripped :: "httpReq \<Rightarrow> httpReq" where
  "stripped r = r\<lparr>hqHeader := HeaderDel (HeaderDel (hqHeader r) ''Proxy-Authorization'') ''Proxy-Connection''\<rparr>"

definition handleHTTP :: "(httpReq \<Rightarrow> string + httpResp) \<Rightarrow> httpReq \<Rightarrow> outcome" where
  "handleHTTP roundTrip r = (case roundTrip (stripped r) of
       Inl msg \<Rightarrow> httpError msg 503 []
     | Inr resp \<Rightarrow> Answer \<lparr>hrStatus = hrStatus resp, hrHeader = hrHeader resp, hrBody = hrBody resp\<rparr>)"

definition ServeHTTP :: "proxyConfig \<Rightarrow> (string \<Rightarrow> string option) \<Rightarrow> (httpReq \<Rightarrow> string + httpResp) \<Rightarrow> httpReq \<Rightarrow> outcome" where
  "ServeHTTP c dial roundTrip r =
     (if pUser c \<noteq> [] \<and> pPass c \<noteq> [] \<and> \<not> checkAuth c (HeaderGet (hqHeader r) ''Proxy-Authorization'')
      then httpError ''Proxy Authentication Required'' 407 [(''Proxy-Authenticate'', ''Basic realm=\"Proxy\"'')]
      else if hqMethod r = ''CONNECT'' then handleTunneling dial r
      else handleHTTP roundTrip r)"

section \<open>Messages of a SOCKS5 client\<close>

text \<open>
  The reference: what a client sends that asks for a connection. The bytes without meaning to
  the server are arbitrary.
\<close>

datatype dest = V4 nat nat nat nat | Name string

fun encDest :: "dest \<Rightarrow> string" where
  "encDest (V4 a b c d) = map byteOf [1, a, b, c, d]"
| "encDest (Name s) = byteOf 3 # byteOf (length s) # s"

fun validDest :: "dest \<Rightarrow> bool" where
  "validDest (V4 a b c d) = (a < 256 \<and> b < 256 \<and> c < 256 \<and> d < 256)"
| "validDest (Name s) = (length s < 256)"

fun hostOf :: "dest \<Rightarrow> string" where
  "hostOf (V4 a b c d) = ipv4String [a, b, c, d]"
| "hostOf (Name s) = s"

definition encRequest :: "proxyConfig \<Rightarrow> string \<Rightarrow> char \<Rightarrow> char \<Rightarrow> char \<Rightarrow> dest \<Rightarrow> nat \<Rightarrow> string" where
  "encRequest c methods v1 v2 rsv d port =
     [byteOf 5, byteOf (length methods)] @ methods @
     (if authRequired c then [v1, byteOf (length (pUser c))] @ pUser c @ [byteOf (length (pPass c))] @ pPass c else []) @
     [v2, byteOf 1, rsv] @ encDest d @ [byteOf (port div 256), byteOf (port mod 256)]"

section \<open>Reading the handshake\<close>

lemma wp_readFull:
  assumes "\<And>bs rest. sIn s = bs @ rest \<Longrightarrow> length bs = n \<Longrightarrow> Q (Inr bs) (s\<lparr>sIn := rest\<rparr>)"
    and "Q (Inl eof) (s\<lparr>sIn := []\<rparr>)"
  shows "wp (readFull n) Q s"
  using assms(1) [of "take n (sIn s)" "drop n (sIn s)"] assms(2) by (simp add: wp_def readFull_def)

lemma readFull_ok: "sIn s = bs @ rest \<Longrightarrow> length bs = n \<Longrightarrow> readFull n s = Some (Inr bs, s\<lparr>sIn := rest\<rparr>)"
  by (auto simp: readFull_def)

lemma length2: "length xs = 2 \<longleftrightarrow> (\<exists>a b. xs = [a, b])" and length1: "length xs = Suc 0 \<longleftrightarrow> (\<exists>a. xs = [a])"
  and length4: "length xs = 4 \<longleftrightarrow> (\<exists>a b c d. xs = [a, b, c, d])"
  by (auto simp: length_Suc_conv numeral_eq_Suc)

text \<open>A state before anything was dialled.\<close>

definition idle :: "sock \<Rightarrow> bool" where
  "idle s \<longleftrightarrow> sDials s = [] \<and> \<not> sTunnel s"

text \<open>A run of bytes whose length is given by the byte before.\<close>

lemma wp_counted:
  assumes "\<And>bs rest. sIn s = bs @ rest \<Longrightarrow> b = byteOf (length bs) \<Longrightarrow> length bs < 256 \<Longrightarrow> Q (Inr bs) (s\<lparr>sIn := rest\<rparr>)"
    and "Q (Inl eof) (s\<lparr>sIn := []\<rparr>)"
  shows "wp (readFull (val b)) Q s"
proof (rule wp_readFull)
  fix bs rest assume "sIn s = bs @ rest" "length bs = val b"
  then show "Q (Inr bs) (s\<lparr>sIn := rest\<rparr>)" by (intro assms(1)) simp_all
qed (rule assms(2))

lemma wp_readLen:
  assumes "\<And>bs rest. sIn s = byteOf (length bs) # bs @ rest \<Longrightarrow> length bs < 256 \<Longrightarrow> Q (Inr bs) (s\<lparr>sIn := rest\<rparr>)"
    and "\<And>s'. idle s \<longrightarrow> idle s' \<Longrightarrow> Q (Inl eof) s'"
  shows "wp readLen Q s"
  unfolding readLen_def wp_bindP
proof (rule wp_readFull)
  fix bs rest assume *: "sIn s = bs @ rest" "length bs = 1"
  then obtain l where l: "bs = [l]" by (auto simp: length1)
  have "wp (readFull (val l)) Q (s\<lparr>sIn := rest\<rparr>)"
  proof (rule wp_counted)
    fix bs r assume "sIn (s\<lparr>sIn := rest\<rparr>) = bs @ r" "l = byteOf (length bs)" "length bs < 256"
    then have "Q (Inr bs) (s\<lparr>sIn := r\<rparr>)" using * l by (intro assms(1)) simp_all
    then show "Q (Inr bs) (s\<lparr>sIn := rest, sIn := r\<rparr>)" by simp
  qed (simp add: assms(2) idle_def)
  then show "case Inr bs of Inl e \<Rightarrow> Q (Inl e) (s\<lparr>sIn := rest\<rparr>) | Inr l \<Rightarrow> wp (readFull (val (l ! 0))) Q (s\<lparr>sIn := rest\<rparr>)"
    by (simp add: l)
qed (simp add: assms(2) idle_def)

lemma readLen_ok: "sIn s = byteOf (length bs) # bs @ rest \<Longrightarrow> length bs < 256 \<Longrightarrow> readLen s = Some (Inr bs, s\<lparr>sIn := rest\<rparr>)"
  by (simp add: readLen_def bindP_def readFull_def)

lemma wp_greet:
  assumes "\<And>methods rest out. sIn s = [byteOf 5, byteOf (length methods)] @ methods @ rest \<Longrightarrow> length methods < 256 \<Longrightarrow>
      Q (Inr ()) (s\<lparr>sIn := rest, sOut := out\<rparr>)"
    and "\<And>s'. idle s \<longrightarrow> idle s' \<Longrightarrow> Q (Inl eof) s'"
  shows "wp (greet c) Q s"
proof -
  have methods: "wp (bindP (readFull (val b)) (\<lambda>_. reply r)) Q (s\<lparr>sIn := rest\<rparr>)"
    if "sIn s = byteOf 5 # b # rest" for b r rest
    unfolding wp_bindP reply_def
    by (rule wp_counted) (use that in \<open>auto simp: idle_def intro!: assms\<close>)
  have five: "val a = 5 \<Longrightarrow> a = byteOf 5" for a by (metis byteOf_val)
  show ?thesis
    unfolding greet_def wp_bindP [of "readFull 2"]
    by (rule wp_readFull) (auto simp: length2 idle_def simp del: wp_bindP dest!: five intro!: methods assms(2))
qed

text \<open>The bytes of an authentication, when one is needed.\<close>

definition encAuth :: "proxyConfig \<Rightarrow> char \<Rightarrow> string" where
  "encAuth c v = (if authRequired c then [v, byteOf (length (pUser c))] @ pUser c @ [byteOf (length (pPass c))] @ pPass c else [])"

definition shortCreds :: "proxyConfig \<Rightarrow> bool" where
  "shortCreds c \<longleftrightarrow> (authRequired c \<longrightarrow> length (pUser c) < 256 \<and> length (pPass c) < 256)"

lemma wp_socksAuth:
  assumes "\<And>v rest out. sIn s = encAuth c v @ rest \<Longrightarrow> shortCreds c \<Longrightarrow> Q (Inr ()) (s\<lparr>sIn := rest, sOut := out\<rparr>)"
    and "\<And>s'. idle s \<longrightarrow> idle s' \<Longrightarrow> Q (Inl eof) s'"
  shows "wp (socksAuth c) Q s"
proof (cases "authRequired c")
  case False
  then show ?thesis
    using assms(1) [of undefined "sIn s" "sOut s"] by (simp add: socksAuth_def encAuth_def shortCreds_def)
next
  case True
  have last: "wp (if user \<noteq> pUser c \<or> pass \<noteq> pPass c then closeWith [1, 1] else reply [1, 0]) Q (s\<lparr>sIn := rest\<rparr>)"
    if "sIn s = v # byteOf (length user) # user @ byteOf (length pass) # pass @ rest" "length user < 256" "length pass < 256"
    for v user pass rest
    using assms(1) [of v rest] that True
    by (auto simp: closeWith_def reply_def encAuth_def shortCreds_def idle_def intro!: assms(2))
  have pass: "wp (bindP readLen (\<lambda>pass. if user \<noteq> pUser c \<or> pass \<noteq> pPass c then closeWith [1, 1] else reply [1, 0])) Q (s\<lparr>sIn := rest\<rparr>)"
    if *: "sIn s = v # byteOf (length user) # user @ rest" "length user < 256" for v user rest
    unfolding wp_bindP [of readLen]
  proof (rule wp_readLen)
    fix pass r assume "sIn (s\<lparr>sIn := rest\<rparr>) = byteOf (length pass) # pass @ r" "length pass < 256"
    then show "case Inr pass of Inl e \<Rightarrow> Q (Inl e) (s\<lparr>sIn := rest, sIn := r\<rparr>)
        | Inr pass \<Rightarrow> wp (if user \<noteq> pUser c \<or> pass \<noteq> pPass c then closeWith [1, 1] else reply [1, 0]) Q (s\<lparr>sIn := rest, sIn := r\<rparr>)"
      using * last [of v user pass r] by simp
  qed (auto simp: idle_def intro!: assms(2))
  have user: "wp (bindP (readFull (val b)) (\<lambda>user. bindP readLen (\<lambda>pass.
      if user \<noteq> pUser c \<or> pass \<noteq> pPass c then closeWith [1, 1] else reply [1, 0]))) Q (s\<lparr>sIn := rest\<rparr>)"
    if "sIn s = v # b # rest" for v b rest
    unfolding wp_bindP [of "readFull n" for n]
  proof (rule wp_counted)
    fix user r assume "sIn (s\<lparr>sIn := rest\<rparr>) = user @ r" "b = byteOf (length user)" "length user < 256"
    then show "case Inr user of Inl e \<Rightarrow> Q (Inl e) (s\<lparr>sIn := rest, sIn := r\<rparr>)
        | Inr user \<Rightarrow> wp (bindP readLen (\<lambda>pass. if user \<noteq> pUser c \<or> pass \<noteq> pPass c then closeWith [1, 1] else reply [1, 0])) Q
            (s\<lparr>sIn := rest, sIn := r\<rparr>)"
      using that pass [of v user r] by simp
  qed (auto simp: idle_def intro!: assms(2))
  have eq: "socksAuth c = bindP (readFull 2) (\<lambda>h. bindP (readFull (val (h ! 1))) (\<lambda>user. bindP readLen (\<lambda>pass.
      if user \<noteq> pUser c \<or> pass \<noteq> pPass c then closeWith [1, 1] else reply [1, 0])))"
    using True by (simp add: socksAuth_def)
  show ?thesis
    unfolding eq wp_bindP [of "readFull 2"]
  proof (rule wp_readFull)
    fix bs rest assume *: "sIn s = bs @ rest" "length bs = 2"
    then obtain v b where bs: "bs = [v, b]" by (auto simp: length2)
    show "case Inr bs of Inl e \<Rightarrow> Q (Inl e) (s\<lparr>sIn := rest\<rparr>) | Inr h \<Rightarrow> wp (bindP (readFull (val (h ! 1))) (\<lambda>user. bindP readLen (\<lambda>pass.
      if user \<noteq> pUser c \<or> pass \<noteq> pPass c then closeWith [1, 1] else reply [1, 0]))) Q (s\<lparr>sIn := rest\<rparr>)"
      using user [of v b rest] * bs by (simp del: wp_bindP disj_not1)
  qed (simp add: assms(2) idle_def)
qed

text \<open>The destination.\<close>

lemma wp_readHost:
  assumes "\<And>d rest. sIn s = drop 1 (encDest d) @ rest \<Longrightarrow> byteOf atyp = hd (encDest d) \<Longrightarrow> validDest d \<Longrightarrow>
      Q (Inr (hostOf d)) (s\<lparr>sIn := rest\<rparr>)"
    and "\<And>s'. idle s \<longrightarrow> idle s' \<Longrightarrow> Q (Inl eof) s'"
  shows "wp (readHost atyp) Q s"
proof -
  have v4: "wp (bindP (readFull 4) (\<lambda>addr. ret (ipv4String (map val addr)))) Q s" if "atyp = 1"
    unfolding wp_bindP
  proof (rule wp_readFull)
    fix bs rest assume *: "sIn s = bs @ rest" "length bs = 4"
    then obtain a b x y where bs: "bs = [a, b, x, y]" by (auto simp: length4)
    show "case Inr bs of Inl e \<Rightarrow> Q (Inl e) (s\<lparr>sIn := rest\<rparr>) | Inr addr \<Rightarrow> wp (ret (ipv4String (map val addr))) Q (s\<lparr>sIn := rest\<rparr>)"
      using assms(1) [of "V4 (val a) (val b) (val x) (val y)" rest] * bs that by simp
  qed (simp add: assms(2) idle_def)
  have name: "wp readLen Q s" if "atyp = 3"
  proof (rule wp_readLen)
    fix bs rest assume "sIn s = byteOf (length bs) # bs @ rest" "length bs < 256"
    then show "Q (Inr bs) (s\<lparr>sIn := rest\<rparr>)" using assms(1) [of "Name bs" rest] that by simp
  qed (rule assms(2))
  have "wp (closeWith (refusal 8)) Q s"
    by (simp add: closeWith_def reply_def idle_def assms(2))
  then show ?thesis using v4 name by (simp add: readHost_def del: wp_bindP)
qed

definition client :: "string \<Rightarrow> sock" where
  "client bytes = \<lparr>sIn = bytes, sOut = [], sDials = [], sTunnel = False\<rparr>"

definition asks :: "proxyConfig \<Rightarrow> string \<Rightarrow> string \<Rightarrow> bool" where
  "asks c bytes addr \<longleftrightarrow> (\<exists>methods v1 v2 rsv d port rest. bytes = encRequest c methods v1 v2 rsv d port @ rest \<and>
     length methods < 256 \<and> shortCreds c \<and> validDest d \<and> port < 65536 \<and> addr = hostOf d @ '':'' @ ItoaN port)"

definition dialled :: "proxyConfig \<Rightarrow> (string \<Rightarrow> bool) \<Rightarrow> string \<Rightarrow> sock \<Rightarrow> bool" where
  "dialled c ok bytes s \<longleftrightarrow> idle s \<or> (\<exists>addr. sDials s = [addr] \<and> asks c bytes addr \<and> sTunnel s = ok addr)"

text \<open>What the server has read of a request before the port.\<close>

definition readSoFar :: "proxyConfig \<Rightarrow> string \<Rightarrow> string \<Rightarrow> sock \<Rightarrow> bool" where
  "readSoFar c bytes p s \<longleftrightarrow> idle s \<and> shortCreds c \<and> (\<exists>methods v. length methods < 256 \<and>
     bytes = [byteOf 5, byteOf (length methods)] @ methods @ encAuth c v @ p @ sIn s)"

lemma wp_socksDial:
  assumes "readSoFar c bytes ([v2, byteOf 1, rsv] @ encDest d) s" and "validDest d"
  shows "wp (socksDial ok (hostOf d)) (\<lambda>_. dialled c ok bytes) s"
  unfolding socksDial_def wp_bindP [of "readFull 2"]
proof (rule wp_readFull)
  fix bs rest assume *: "sIn s = bs @ rest" "length bs = 2"
  then obtain hi lo where bs: "bs = [hi, lo]" by (auto simp: length2)
  have port: "256 * val hi + val lo < 65536"
    using val_less [of hi] val_less [of lo] by linarith
  obtain methods v where m: "length methods < 256" "shortCreds c" "idle s"
    "bytes = [byteOf 5, byteOf (length methods)] @ methods @ encAuth c v @ [v2, byteOf 1, rsv] @ encDest d @ sIn s"
    using assms(1) by (auto simp: readSoFar_def)
  have "asks c bytes (hostOf d @ '':'' @ ItoaN (256 * val hi + val lo))"
    unfolding asks_def
    by (rule exI [of _ methods], rule exI [of _ v], rule exI [of _ v2], rule exI [of _ rsv], rule exI [of _ d],
        rule exI [of _ "256 * val hi + val lo"], rule exI [of _ rest])
      (use m * bs port assms(2) in \<open>simp add: encRequest_def encAuth_def\<close>)
  then show "case Inr bs of Inl e \<Rightarrow> dialled c ok bytes (s\<lparr>sIn := rest\<rparr>) | Inr portBuf \<Rightarrow> wp (
     let port = 256 * val (portBuf ! 0) + val (portBuf ! 1); addr = hostOf d @ '':'' @ ItoaN port in
     bindP (modifyP (\<lambda>s. s\<lparr>sDials := sDials s @ [addr]\<rparr>)) (\<lambda>_.
     if \<not> ok addr then closeWith (refusal 5)
     else bindP (reply (refusal 0)) (\<lambda>_. modifyP (\<lambda>s. s\<lparr>sTunnel := True\<rparr>)))) (\<lambda>_. dialled c ok bytes) (s\<lparr>sIn := rest\<rparr>)"
    using m(3) by (simp add: bs idle_def closeWith_def reply_def Let_def dialled_def)
qed (use assms in \<open>simp add: idle_def dialled_def readSoFar_def\<close>)

lemma wp_socksRequest:
  assumes "readSoFar c bytes [] s"
  shows "wp (socksRequest ok) (\<lambda>_. dialled c ok bytes) s"
  unfolding socksRequest_def wp_bindP [of "readFull 4"]
proof (rule wp_readFull)
  fix bs rest assume *: "sIn s = bs @ rest" "length bs = 4"
  then obtain v2 cmd rsv atyp where bs: "bs = [v2, cmd, rsv, atyp]" by (auto simp: length4)
  have i: "idle (s\<lparr>sIn := rest\<rparr>)" using assms by (simp add: readSoFar_def idle_def)
  have host: "wp (bindP (readHost (val atyp)) (socksDial ok)) (\<lambda>_. dialled c ok bytes) (s\<lparr>sIn := rest\<rparr>)" if "val cmd = 1"
    unfolding wp_bindP
  proof (rule wp_readHost)
    fix d r assume d: "sIn (s\<lparr>sIn := rest\<rparr>) = drop 1 (encDest d) @ r" "byteOf (val atyp) = hd (encDest d)" "validDest d"
    have "cmd = byteOf 1" using that by (metis byteOf_val)
    moreover have "encDest d = atyp # drop 1 (encDest d)" using d(2) by (cases d) simp_all
    ultimately have "readSoFar c bytes ([v2, byteOf 1, rsv] @ encDest d) (s\<lparr>sIn := rest, sIn := r\<rparr>)"
      using assms * bs d(1) by (auto simp: readSoFar_def idle_def) (metis append_Cons)
    from wp_socksDial [OF this d(3)] show "case Inr (hostOf d) of Inl e \<Rightarrow> dialled c ok bytes (s\<lparr>sIn := rest, sIn := r\<rparr>)
      | Inr host \<Rightarrow> wp (socksDial ok host) (\<lambda>_. dialled c ok bytes) (s\<lparr>sIn := rest, sIn := r\<rparr>)" by simp
  qed (use i in \<open>simp add: dialled_def\<close>)
  show "case Inr bs of Inl e \<Rightarrow> dialled c ok bytes (s\<lparr>sIn := rest\<rparr>)
    | Inr req \<Rightarrow> wp (if val (req ! 1) \<noteq> 1 then closeWith (refusal 7)
       else bindP (readHost (val (req ! 3))) (socksDial ok)) (\<lambda>_. dialled c ok bytes) (s\<lparr>sIn := rest\<rparr>)"
    using host i by (auto simp: bs closeWith_def reply_def idle_def dialled_def simp del: wp_bindP simp: wp_bindP [of "modifyP f" for f])
qed (use assms in \<open>simp add: idle_def dialled_def readSoFar_def\<close>)

lemma wp_handleSOCKS5: "wp (handleSOCKS5 c ok) (\<lambda>_. dialled c ok bytes) (client bytes)"
  unfolding handleSOCKS5_def wp_bindP
proof (rule wp_greet)
  fix methods rest out
  assume g: "sIn (client bytes) = [byteOf 5, byteOf (length methods)] @ methods @ rest" "length methods < 256"
  let ?s = "client bytes\<lparr>sIn := rest, sOut := out\<rparr>"
  have "wp (socksAuth c) (\<lambda>r s'. case r of Inl e \<Rightarrow> dialled c ok bytes s' | Inr _ \<Rightarrow> wp (socksRequest ok) (\<lambda>_. dialled c ok bytes) s') ?s"
  proof (rule wp_socksAuth)
    fix v r out' assume "sIn ?s = encAuth c v @ r" "shortCreds c"
    then have "readSoFar c bytes [] (?s\<lparr>sIn := r, sOut := out'\<rparr>)"
      using g by (auto simp: readSoFar_def idle_def client_def)
    then show "case Inr () of Inl e \<Rightarrow> dialled c ok bytes (?s\<lparr>sIn := r, sOut := out'\<rparr>)
      | Inr _ \<Rightarrow> wp (socksRequest ok) (\<lambda>_. dialled c ok bytes) (?s\<lparr>sIn := r, sOut := out'\<rparr>)" by (simp add: wp_socksRequest)
  qed (simp add: dialled_def idle_def client_def)
  then show "case Inr () of Inl e \<Rightarrow> dialled c ok bytes ?s | Inr _ \<Rightarrow> wp (socksAuth c)
    (\<lambda>r s'. case r of Inl e \<Rightarrow> dialled c ok bytes s' | Inr _ \<Rightarrow> wp (socksRequest ok) (\<lambda>_. dialled c ok bytes) s') ?s" by simp
qed (simp add: dialled_def idle_def client_def)

text \<open>The other direction: a request that is well formed is dialled.\<close>

lemma run_handleSOCKS5:
  assumes "length methods < 256" and "shortCreds c" and "validDest d" and "port < 65536"
  shows "\<exists>r s'. handleSOCKS5 c ok (client (encRequest c methods v1 v2 rsv d port @ rest)) = Some (r, s') \<and>
    sDials s' = [hostOf d @ '':'' @ ItoaN port]"
proof -
  let ?p = "[byteOf (port div 256), byteOf (port mod 256)]"
  have bytes: "encRequest c methods v1 v2 rsv d port @ rest =
      byteOf 5 # byteOf (length methods) # methods @ encAuth c v1 @ v2 # byteOf 1 # rsv # encDest d @ ?p @ rest"
    by (simp add: encRequest_def encAuth_def)
  let ?r2 = "v2 # byteOf 1 # rsv # encDest d @ ?p @ rest"
  obtain o1 where g: "greet c (client (encRequest c methods v1 v2 rsv d port @ rest)) =
      Some (Inr (), (client (encRequest c methods v1 v2 rsv d port @ rest))\<lparr>sIn := encAuth c v1 @ ?r2, sOut := o1\<rparr>)"
    using assms(1) by (simp add: bytes client_def greet_def bindP_def readFull_def reply_def modifyP_def)
  have auth: "\<exists>out. socksAuth c s = Some (Inr (), s\<lparr>sIn := r, sOut := out\<rparr>)" if "sIn s = encAuth c v1 @ r" for s r
  proof (cases "authRequired c")
    case True
    then show ?thesis using that assms(2)
      by (auto simp: socksAuth_def encAuth_def shortCreds_def bindP_def readFull_def readLen_ok reply_def modifyP_def)
  next
    case False
    then show ?thesis using that by (intro exI [of _ "sOut s"]) (auto simp: socksAuth_def encAuth_def ret_def)
  qed
  obtain s2 where a: "socksAuth c ((client (encRequest c methods v1 v2 rsv d port @ rest))\<lparr>sIn := encAuth c v1 @ ?r2, sOut := o1\<rparr>) =
      Some (Inr (), s2)" "sIn s2 = ?r2" "sDials s2 = []"
    using auth [of "(client (encRequest c methods v1 v2 rsv d port @ rest))\<lparr>sIn := encAuth c v1 @ ?r2, sOut := o1\<rparr>" ?r2]
    by (auto simp: client_def)
  have host: "readHost (val (hd (encDest d))) s = Some (Inr (hostOf d), s\<lparr>sIn := r\<rparr>)" if "sIn s = tl (encDest d) @ r" for s r
    using that assms(3) by (cases d) (simp_all add: readHost_def bindP_def readFull_def ret_def readLen_ok)
  have "readFull 4 s2 = Some (Inr [v2, byteOf 1, rsv, hd (encDest d)], s2\<lparr>sIn := tl (encDest d) @ ?p @ rest\<rparr>)"
    using a(2) by (cases d) (simp_all add: readFull_def)
  moreover have "256 * (port div 256) + port mod 256 = port" by simp
  ultimately have "\<exists>r s'. socksRequest ok s2 = Some (r, s') \<and> sDials s' = [hostOf d @ '':'' @ ItoaN port]"
    using assms(4) a(3) host [of "s2\<lparr>sIn := tl (encDest d) @ ?p @ rest\<rparr>" "?p @ rest"]
    by (simp add: socksRequest_def bindP_def socksDial_def readFull_def Let_def modifyP_def closeWith_def reply_def throw_def)
  then show ?thesis using g a by (simp add: handleSOCKS5_def bindP_def)
qed

lemma first_sep:
  assumes "(c :: char) \<notin> set x" and "c \<notin> set u"
  shows "x @ c # y = u @ c # p \<longleftrightarrow> x = u \<and> y = p"
proof
  assume "x @ c # y = u @ c # p"
  then have "SplitN2 c (x @ c # y) = SplitN2 c (u @ c # p)" by (rule arg_cong)
  then show "x = u \<and> y = p" by (simp only: SplitN2_append [OF assms(1)] SplitN2_append [OF assms(2)] list.inject simp_thms)
qed simp

section \<open>Properties\<close>

text \<open>
  C36. The SOCKS5 server connects exactly for well-formed requests. Whatever bytes a client
  sends, the handshake ends; it has dialled an address exactly if the bytes begin with a greeting,
  the configured credentials if there are any, and a request to connect to that address; then
  that is the only address, and bytes are passed on exactly if dialling it worked.
\<close>

theorem socks_dials_exactly:
  "\<exists>r s'. handleSOCKS5 c ok (client bytes) = Some (r, s') \<and>
     (\<forall>addr. addr \<in> set (sDials s') \<longleftrightarrow> asks c bytes addr) \<and>
     (sDials s' = [] \<and> \<not> sTunnel s' \<or> (\<exists>addr. sDials s' = [addr] \<and> sTunnel s' = ok addr))"
proof -
  obtain r s' where r: "handleSOCKS5 c ok (client bytes) = Some (r, s')" "dialled c ok bytes s'"
    using wp_handleSOCKS5 [of c ok bytes] by (auto simp: wp_iff)
  have "sDials s' = [addr]" if "asks c bytes addr" for addr
  proof -
    from that obtain methods v1 v2 rsv d port rest where *: "bytes = encRequest c methods v1 v2 rsv d port @ rest"
      "length methods < 256" "shortCreds c" "validDest d" "port < 65536" "addr = hostOf d @ '':'' @ ItoaN port"
      unfolding asks_def by blast
    show ?thesis using run_handleSOCKS5 [OF *(2-5), of ok v1 v2 rsv rest] r(1) *(1,6) by simp
  qed
  note dials = this
  have "sDials s' = [] \<and> \<not> sTunnel s' \<or> (\<exists>addr. sDials s' = [addr] \<and> sTunnel s' = ok addr \<and> asks c bytes addr)"
    using r(2) by (auto simp: dialled_def idle_def)
  then consider "sDials s' = []" "\<not> sTunnel s'" | addr where "sDials s' = [addr]" "sTunnel s' = ok addr" "asks c bytes addr"
    by blast
  then show ?thesis
  proof cases
    case 1
    then have "\<not> asks c bytes addr" for addr using dials [of addr] by (auto simp del: not_None_eq)
    then show ?thesis using 1 r(1) by (intro exI [of _ r] exI [of _ s']) simp
  next
    case (2 addr)
    then have "asks c bytes a \<longleftrightarrow> a = addr" for a using dials [of a] by auto
    then show ?thesis using 2 r(1) by (intro exI [of _ r] exI [of _ s']) simp
  qed
qed

text \<open>
  C37. Basic authentication. A header is accepted exactly if it is the scheme followed by a
  text that decodes to the configured user and password with a colon in between, the user
  having none; what a client makes of its user and password by the standard encoding is
  accepted exactly if they are the configured ones.
\<close>

theorem basic_auth_exact:
  "(checkAuth c auth \<longleftrightarrow> CHR '':'' \<notin> set (pUser c) \<and>
      (\<exists>x. auth = ''Basic '' @ x \<and> b64Decode x = Some (pUser c @ CHR '':'' # pPass c))) \<and>
   (CHR '':'' \<in> set u \<or> checkAuth c (''Basic '' @ b64Encode (u @ CHR '':'' # p)) = (u = pUser c \<and> p = pPass c))"
proof -
  have split: "(case SplitN2 (CHR '':'') s of [u, p] \<Rightarrow> u = pUser c \<and> p = pPass c | _ \<Rightarrow> False) \<longleftrightarrow>
      CHR '':'' \<notin> set (pUser c) \<and> s = pUser c @ CHR '':'' # pPass c" for s
  proof (cases "CHR '':'' \<in> set s")
    case True
    then obtain x y where s: "s = x @ CHR '':'' # y" "CHR '':'' \<notin> set x" by (metis split_list_first)
    then have "SplitN2 (CHR '':'') s = [x, y]" by (simp add: SplitN2_append)
    then show ?thesis using s first_sep [of "CHR '':''" x "pUser c" y "pPass c"] by auto
  qed (auto simp: SplitN2_def)
  have pre: "HasPrefix a ''Basic '' \<longleftrightarrow> a = ''Basic '' @ drop 6 a" for a
    by (auto simp: HasPrefix_def prefix_def)
  have first: "checkAuth c a \<longleftrightarrow> CHR '':'' \<notin> set (pUser c) \<and>
      (\<exists>x. a = ''Basic '' @ x \<and> b64Decode x = Some (pUser c @ CHR '':'' # pPass c))" for a
    using pre [of a] by (auto simp: checkAuth_def split split: option.split)
  moreover have "checkAuth c (''Basic '' @ b64Encode (u @ CHR '':'' # p)) = (u = pUser c \<and> p = pPass c)" if "CHR '':'' \<notin> set u"
    unfolding first using that by (auto simp: b64_roundtrip first_sep)
  ultimately show ?thesis by blast
qed

text \<open>
  The HTTP proxy keeps its credentials. With a user and a password configured, a request
  whose header does not authenticate is answered 407 and reaches neither the network nor the
  transport; a request that is forwarded carries neither of the two proxy headers, and all
  others as they came.
\<close>

lemma http_proxy_guarded:
  "(authRequired c \<and> \<not> checkAuth c (HeaderGet (hqHeader r) ''Proxy-Authorization'') \<longrightarrow>
      (\<exists>resp. hrStatus resp = 407 \<and> (\<forall>dial rt. ServeHTTP c dial rt r = Answer resp))) \<and>
   (\<forall>k v. (k, v) \<in> set (hqHeader (stripped r)) \<longleftrightarrow>
      (k, v) \<in> set (hqHeader r) \<and> k \<notin> {''Proxy-Authorization'', ''Proxy-Connection''}) \<and>
   (\<forall>dial rt rt'. rt (stripped r) = rt' (stripped r) \<longrightarrow> ServeHTTP c dial rt r = ServeHTTP c dial rt' r)"
  by (auto simp: authRequired_def ServeHTTP_def httpError_def stripped_def HeaderDel_def handleHTTP_def)

lemma http_proxy_guarded_witness:
  "\<exists>resp. hrStatus resp = 407 \<and> ServeHTTP \<lparr>HTTPEnabled = True, Socks5Enabled = False, pUser = ''u'', pPass = ''p'',
     Socks5Port = 1080, HTTPPort = 8888\<rparr> (\<lambda>_. None) (\<lambda>_. Inl ''EOF'')
     \<lparr>hqMethod = ''CONNECT'', hqHost = ''example.org:443'', hqHeader = [(''Proxy-Authorization'', ''Bearer dTpx'')]\<rparr> = Answer resp"
proof -
  let ?c = "\<lparr>HTTPEnabled = True, Socks5Enabled = False, pUser = ''u'', pPass = ''p'', Socks5Port = 1080, HTTPPort = 8888\<rparr>"
  let ?r = "\<lparr>hqMethod = ''CONNECT'', hqHost = ''example.org:443'', hqHeader = [(''Proxy-Authorization'', ''Bearer dTpx'')]\<rparr>"
  have "authRequired ?c \<and> \<not> checkAuth ?c (HeaderGet (hqHeader ?r) ''Proxy-Authorization'')" by code_simp
  from conjunct1 [OF http_proxy_guarded [of ?c ?r], THEN mp, OF this] show ?thesis by auto
qed

end
