(* ===== verification/Metrics.thy ===== *)
theory Metrics
  imports Wg Backend Killswitch
begin

text \<open>
  The metrics (\<^verbatim>\<open>internal/metrics\<close>): the state behind the JSON endpoint, the Prometheus counters
  and gauges next to it, the collector that reads the tunnel and the firewall, and the texts of
  the endpoint (with \<^verbatim>\<open>log.FormatDuration\<close>). A Prometheus counter is the exact sum of what was
  added to it (it is a float64, exact up to \<open>2 ^ 53\<close>); adding a negative number to it panics.
  The registration of the metrics and the mutex are left out.
\<close>

section \<open>State\<close>

record metricsConfig =
  mcEnabled :: bool
  mcPort :: int
  mcName :: string

text \<open>The fields for the JSON endpoint, then the Prometheus metrics, then what was last read of the drops.\<close>

record metrics =
  mConfig :: metricsConfig
  TotalChecks :: int
  FailedChecks :: int
  SuccessfulChecks :: int
  TotalReconnects :: int
  LastCheckTime :: int
  LastCheckLatency :: int
  UptimeStart :: int
  CurrentServer :: string
  CurrentIP :: string
  BytesReceived :: int
  BytesTransmitted :: int
  ConnectedAt :: "int option"
  ServerLatency :: int
  mVersion :: string
  ConnectionUp :: bool
  WANUp :: bool
  KillswitchActive :: bool
  PortForwardingActive :: bool
  PortForwardingPort :: int
  healthChecksTotal :: int
  healthChecksSuccess :: int
  reconnectsTotal :: int
  checkLatencies :: "int list"
  bytesReceivedTotal :: int
  bytesTransmittedTotal :: int
  serverLatencies :: "int list"
  sessionUptime :: int
  vpnInfo :: "(string \<times> string) set"
  wanUpGauge :: int
  connectionUpGauge :: int
  killswitchGauge :: int
  lastHandshake :: int
  pfActiveGauge :: int
  pfPortGauge :: int
  packetsDropped :: "string \<Rightarrow> int"
  bytesDropped :: "string \<Rightarrow> int"
  lastPacketsIn :: int
  lastBytesIn :: int
  lastPacketsOut :: int
  lastBytesOut :: int

text \<open>\<^verbatim>\<open>New\<close>, at a time.\<close>

definition NewMetrics :: "metricsConfig \<Rightarrow> string \<Rightarrow> int \<Rightarrow> metrics" where
  "NewMetrics cfg version t = \<lparr>mConfig = cfg, TotalChecks = 0, FailedChecks = 0, SuccessfulChecks = 0, TotalReconnects = 0,
     LastCheckTime = 0, LastCheckLatency = 0, UptimeStart = t, CurrentServer = [], CurrentIP = [], BytesReceived = 0,
     BytesTransmitted = 0, ConnectedAt = None, ServerLatency = 0, mVersion = version, ConnectionUp = False, WANUp = True,
     KillswitchActive = False, PortForwardingActive = False, PortForwardingPort = 0,
     healthChecksTotal = 0, healthChecksSuccess = 0, reconnectsTotal = 0, checkLatencies = [], bytesReceivedTotal = 0,
     bytesTransmittedTotal = 0, serverLatencies = [], sessionUptime = 0, vpnInfo = {}, wanUpGauge = 1, connectionUpGauge = 0,
     killswitchGauge = 0, lastHandshake = 0, pfActiveGauge = 0, pfPortGauge = 0, packetsDropped = (\<lambda>_. 0), bytesDropped = (\<lambda>_. 0),
     lastPacketsIn = 0, lastBytesIn = 0, lastPacketsOut = 0, lastBytesOut = 0\<rparr>"

section \<open>Updates\<close>

definition Enabled :: "metrics \<Rightarrow> bool" where
  "Enabled m = mcEnabled (mConfig m)"

definition gauge :: "bool \<Rightarrow> int" where
  "gauge b = (if b then 1 else 0)"

text \<open>Durations are nanoseconds, \<open>t\<close> is the time of the call.\<close>

definition RecordCheck :: "bool \<Rightarrow> int \<Rightarrow> int \<Rightarrow> metrics \<Rightarrow> metrics" where
  "RecordCheck success duration t m =
     (let m = m\<lparr>TotalChecks := TotalChecks m + 1, LastCheckTime := t, LastCheckLatency := duration\<rparr>;
          m = (if success then m\<lparr>SuccessfulChecks := SuccessfulChecks m + 1\<rparr> else m\<lparr>FailedChecks := FailedChecks m + 1\<rparr>);
          m = m\<lparr>healthChecksTotal := healthChecksTotal m + 1\<rparr>;
          m = (if success then m\<lparr>healthChecksSuccess := healthChecksSuccess m + 1\<rparr> else m)
      in m\<lparr>checkLatencies := checkLatencies m @ [duration]\<rparr>)"

text \<open>
  What a reading adds to a counter whose last reading is known: a reading below the last one is
  taken as a counter that started again. \<open>None\<close> is the panic of a negative addition.
\<close>

definition delta :: "int \<Rightarrow> int \<Rightarrow> int option" where
  "delta prev r = (if r \<ge> prev then (let d = r - prev in if d > 0 then Some d else Some 0)
     else if r < 0 then None else Some r)"

definition UpdateTransferBytes :: "int \<Rightarrow> int \<Rightarrow> metrics \<Rightarrow> metrics option" where
  "UpdateTransferBytes rx tx m = (case (delta (BytesReceived m) rx, delta (BytesTransmitted m) tx) of
       (Some d, Some d') \<Rightarrow> Some (m\<lparr>bytesReceivedTotal := bytesReceivedTotal m + d, bytesTransmittedTotal := bytesTransmittedTotal m + d',
          BytesReceived := rx, BytesTransmitted := tx\<rparr>)
     | _ \<Rightarrow> None)"

text \<open>The latency is given in nanoseconds here.\<close>

definition ObserveServerLatency :: "int \<Rightarrow> metrics \<Rightarrow> metrics" where
  "ObserveServerLatency latency m = m\<lparr>ServerLatency := latency div 1000000, serverLatencies := serverLatencies m @ [latency]\<rparr>"

definition RecordReconnect :: "metrics \<Rightarrow> metrics" where
  "RecordReconnect m = m\<lparr>TotalReconnects := TotalReconnects m + 1, reconnectsTotal := reconnectsTotal m + 1\<rparr>"

definition RecordNewConnection :: "string \<Rightarrow> string \<Rightarrow> int \<Rightarrow> metrics \<Rightarrow> metrics" where
  "RecordNewConnection server ip t m = (if server = [] \<or> ip = [] then m
     else m\<lparr>ConnectedAt := Some t, CurrentServer := server, CurrentIP := ip, vpnInfo := {(server, ip)},
            sessionUptime := t div 1000000000\<rparr>)"

definition UpdateConnectionStatus :: "bool \<Rightarrow> metrics \<Rightarrow> metrics" where
  "UpdateConnectionStatus connected m = m\<lparr>ConnectionUp := connected, connectionUpGauge := gauge connected\<rparr>"

definition UpdateKillswitchStatus :: "bool \<Rightarrow> metrics \<Rightarrow> metrics" where
  "UpdateKillswitchStatus ks m = m\<lparr>KillswitchActive := ks, killswitchGauge := gauge ks\<rparr>"

definition UpdateWANStatus :: "bool \<Rightarrow> metrics \<Rightarrow> metrics" where
  "UpdateWANStatus up m = m\<lparr>WANUp := up, wanUpGauge := gauge up\<rparr>"

definition UpdateLastHandshake :: "int \<Rightarrow> metrics \<Rightarrow> metrics" where
  "UpdateLastHandshake timestamp m = m\<lparr>lastHandshake := timestamp\<rparr>"

definition UpdatePortForwarding :: "bool \<Rightarrow> int \<Rightarrow> metrics \<Rightarrow> metrics" where
  "UpdatePortForwarding pf port m = m\<lparr>PortForwardingActive := pf, PortForwardingPort := port,
     pfActiveGauge := gauge pf, pfPortGauge := port\<rparr>"

definition addTo :: "string \<Rightarrow> int \<Rightarrow> (string \<Rightarrow> int) \<Rightarrow> string \<Rightarrow> int" where
  "addTo dir d f = f(dir := f dir + d)"

definition UpdateKillswitchDrops :: "int \<Rightarrow> int \<Rightarrow> int \<Rightarrow> int \<Rightarrow> metrics \<Rightarrow> metrics option" where
  "UpdateKillswitchDrops packetsIn bytesIn packetsOut bytesOut m =
     (case (delta (lastPacketsIn m) packetsIn, delta (lastBytesIn m) bytesIn,
            delta (lastPacketsOut m) packetsOut, delta (lastBytesOut m) bytesOut) of
       (Some pin, Some bin, Some pout, Some bout) \<Rightarrow>
         Some (m\<lparr>packetsDropped := addTo ''out'' pout (addTo ''in'' pin (packetsDropped m)),
                 bytesDropped := addTo ''out'' bout (addTo ''in'' bin (bytesDropped m)),
                 lastPacketsIn := packetsIn, lastBytesIn := bytesIn, lastPacketsOut := packetsOut, lastBytesOut := bytesOut\<rparr>)
     | _ \<Rightarrow> None)"

section \<open>The collector (collector.go)\<close>

text \<open>One collection. The errors of the readings count as zeros.\<close>

definition orPanic :: "'a option \<Rightarrow> ('w, 'a) prog" where
  "orPanic x = (case x of None \<Rightarrow> throw (Errorf ''panic: counter cannot decrease in value'' []) | Some a \<Rightarrow> ret a)"

definition collect :: "'k netops \<Rightarrow> (string \<Rightarrow> string \<Rightarrow> err + string) \<Rightarrow> metrics \<Rightarrow> ('k fw, metrics) prog" where
  "collect N query m =
     bindP (GetLastHandshake N) (\<lambda>h.
     bindP (tryP (GetTransferBytes N)) (\<lambda>r.
     let (rx, tx) = (case r of Inl _ \<Rightarrow> (0, 0) | Inr x \<Rightarrow> x) in
     bindP (orPanic (UpdateTransferBytes rx tx (UpdateLastHandshake h m))) (\<lambda>m.
     bindP (getsP (GetDropStats query)) (\<lambda>((pIn, bIn), (pOut, bOut)).
     bindP (orPanic (UpdateKillswitchDrops (sint pIn) (sint bIn) (sint pOut) (sint bOut) m)) (\<lambda>m.
     bindP (getsP IsActive) (\<lambda>ks.
     ret (UpdateKillswitchStatus ks m)))))))"

text \<open>\<^verbatim>\<open>RunCollector\<close>: one collection at once and one per tick, until the context is cancelled; \<open>tick\<close> gives its error then.\<close>

partial_function (option) collectLoop ::
    "'k netops \<Rightarrow> ('k \<Rightarrow> err option \<times> 'k) \<Rightarrow> ('k \<Rightarrow> string \<Rightarrow> string \<Rightarrow> err + string) \<Rightarrow> metrics \<Rightarrow> 'k fw \<Rightarrow> ((err + metrics) \<times> 'k fw) option" where
  "collectLoop N tick query m w = (case tick (kern w) of (x, k) \<Rightarrow> (case x of
       Some _ \<Rightarrow> Some (Inr m, w\<lparr>kern := k\<rparr>)
     | None \<Rightarrow> (case collect N (query k) m (w\<lparr>kern := k\<rparr>) of
           None \<Rightarrow> None
         | Some (Inl e, w') \<Rightarrow> Some (Inl e, w')
         | Some (Inr m', w') \<Rightarrow> collectLoop N tick query m' w')))"

definition RunCollector :: "'k netops \<Rightarrow> ('k \<Rightarrow> err option \<times> 'k) \<Rightarrow> ('k \<Rightarrow> string \<Rightarrow> string \<Rightarrow> err + string) \<Rightarrow> metrics \<Rightarrow> ('k fw, metrics) prog" where
  "RunCollector N tick query m =
     bindP (getsP (\<lambda>w. query (kern w))) (\<lambda>q. bindP (collect N q m) (\<lambda>m'. collectLoop N tick query m'))"

section \<open>Texts\<close>

definition unit1000 :: int where "unit1000 = 1000"

text \<open>The loop of \<^verbatim>\<open>formatBytes\<close>: \<open>n\<close> shrinks while the divisor and the exponent grow.\<close>

function scaleLoop :: "int \<Rightarrow> int \<Rightarrow> nat \<Rightarrow> int \<times> nat" where
  "scaleLoop n div' exp = (if n \<ge> unit1000 then scaleLoop (n div unit1000) (div' * unit1000) (exp + 1) else (div', exp))"
  by auto
termination
  by (relation "measure (\<lambda>(n, d, e). nat n)") (auto simp: unit1000_def)

declare scaleLoop.simps [simp del]

text \<open>\<open>fmt1 a b\<close> is \<^verbatim>\<open>%.1f\<close> of the quotient; indexing past the letters would panic.\<close>

definition formatBytes :: "(int \<Rightarrow> int \<Rightarrow> string) \<Rightarrow> int \<Rightarrow> string option" where
  "formatBytes fmt1 b =
     (if b < unit1000 then Some (Itoa b @ '' B'')
      else let (d, e) = scaleLoop (b div unit1000) unit1000 0 in
        if e < length ''KMGTPE'' then Some (fmt1 b d @ '' '' @ [''KMGTPE'' ! e] @ ''B'') else None)"

definition formatLatency :: "int \<Rightarrow> string" where
  "formatLatency l = Itoa l @ ''ms''"

text \<open>Go's quotient and remainder, which round towards zero.\<close>

definition quot :: "int \<Rightarrow> int \<Rightarrow> int" where
  "quot a b = sgn a * sgn b * (\<bar>a\<bar> div \<bar>b\<bar>)"

definition rem :: "int \<Rightarrow> int \<Rightarrow> int" where
  "rem a b = a - b * quot a b"

text \<open>The float64 of \<^verbatim>\<open>Hours\<close> and \<^verbatim>\<open>Minutes\<close> is taken exactly; it is off by less than a microsecond in a lifetime.\<close>

definition hourNs :: int where "hourNs = 3600 * 1000000000"
definition minuteNs :: int where "minuteNs = 60 * 1000000000"

definition FormatDuration :: "int \<Rightarrow> string" where
  "FormatDuration d = (let days = quot (quot d hourNs) 24; hours = rem (quot d hourNs) 24; minutes = rem (quot d minuteNs) 60 in
     if days > 0 then Itoa days @ ''d '' @ Itoa hours @ ''h '' @ Itoa minutes @ ''m''
     else if hours > 0 then Itoa hours @ ''h '' @ Itoa minutes @ ''m''
     else Itoa minutes @ ''m'')"

datatype stat = SBool bool | SInt int | SText string

text \<open>\<open>fmt2 a b\<close> is \<^verbatim>\<open>%.2f\<close> of a percentage; \<open>None\<close> when a text panics.\<close>

definition GetStats :: "(int \<Rightarrow> int \<Rightarrow> string) \<Rightarrow> (int \<Rightarrow> int \<Rightarrow> string) \<Rightarrow> int \<Rightarrow> metrics \<Rightarrow> (string \<times> stat) list option" where
  "GetStats fmt1 fmt2 t m =
     (case (formatBytes fmt1 (BytesReceived m), formatBytes fmt1 (BytesTransmitted m),
            formatBytes fmt1 (BytesReceived m + BytesTransmitted m)) of
       (Some rx, Some tx, Some both) \<Rightarrow> Some
         [(''version'', SText (mVersion m)), (''connection_up'', SBool (ConnectionUp m)), (''wan_up'', SBool (WANUp m)),
          (''killswitch_active'', SBool (KillswitchActive m)), (''current_server'', SText (CurrentServer m)),
          (''current_ip'', SText (CurrentIP m)),
          (''session_uptime'', SText (FormatDuration (case ConnectedAt m of None \<Rightarrow> 0 | Some c \<Rightarrow> t - c))),
          (''container_uptime'', SText (FormatDuration (t - UptimeStart m))),
          (''server_latency_last'', SText (formatLatency (ServerLatency m))),
          (''bytes_received'', SText rx), (''bytes_transmitted'', SText tx), (''bytes_total'', SText both),
          (''port_forwarding_active'', SBool (PortForwardingActive m)), (''port_forwarding_port'', SInt (PortForwardingPort m)),
          (''reconnects_total'', SInt (TotalReconnects m)), (''health_checks_total'', SInt (TotalChecks m)),
          (''health_checks_successful'', SInt (SuccessfulChecks m)), (''health_checks_failed'', SInt (FailedChecks m)),
          (''health_checks_success_rate'', SText (if TotalChecks m > 0 then fmt2 (SuccessfulChecks m) (TotalChecks m) @ ''%'' else ''N/A'')),
          (''health_checks_latency_last'', SText (formatLatency (LastCheckLatency m div 1000000)))]
     | _ \<Rightarrow> None)"

section \<open>What a counter with restarts has counted\<close>

text \<open>
  The reference: the readings of a counter fall apart into runs that do not decrease, one per
  life of the source; what was counted in all is the sum of the last readings of the runs.
\<close>

fun peaks :: "int list \<Rightarrow> int" where
  "peaks [] = 0"
| "peaks [r] = r"
| "peaks (r # s # rs) = (if s < r then r else 0) + peaks (s # rs)"

definition inc :: "int \<Rightarrow> int \<Rightarrow> int" where
  "inc prev r = (if r < prev then r else r - prev)"

lemma delta_nonneg: "0 \<le> prev \<Longrightarrow> 0 \<le> r \<Longrightarrow> delta prev r = Some (inc prev r)"
  by (auto simp: delta_def inc_def Let_def)

section \<open>Steps\<close>

text \<open>What the rest of the program does to the metrics, in any order.\<close>

inductive metricStep :: "metrics \<Rightarrow> metrics \<Rightarrow> bool" where
  check: "metricStep m (RecordCheck success duration t m)"
| transfer: "UpdateTransferBytes rx tx m = Some m' \<Longrightarrow> metricStep m m'"
| serverLat: "metricStep m (ObserveServerLatency latency m)"
| reconnect: "metricStep m (RecordReconnect m)"
| connection: "metricStep m (RecordNewConnection server ip t m)"
| status: "metricStep m (UpdateConnectionStatus connected m)"
| killswitch: "metricStep m (UpdateKillswitchStatus ks m)"
| wanStatus: "metricStep m (UpdateWANStatus up m)"
| handshake: "metricStep m (UpdateLastHandshake timestamp m)"
| portStatus: "metricStep m (UpdatePortForwarding pf port m)"
| drops: "UpdateKillswitchDrops pin bin pout bout m = Some m' \<Longrightarrow> metricStep m m'"

text \<open>
  The JSON state and the Prometheus metrics fit: the counters and gauges both have are equal, and a
  transfer total, which counts on when the tunnel starts again, is at least the last reading.
\<close>

definition consistent :: "metrics \<Rightarrow> bool" where
  "consistent m \<longleftrightarrow> TotalChecks m = SuccessfulChecks m + FailedChecks m \<and> 0 \<le> SuccessfulChecks m \<and> 0 \<le> FailedChecks m \<and>
     healthChecksTotal m = TotalChecks m \<and> healthChecksSuccess m = SuccessfulChecks m \<and>
     int (length (checkLatencies m)) = TotalChecks m \<and> reconnectsTotal m = TotalReconnects m \<and>
     connectionUpGauge m = gauge (ConnectionUp m) \<and> wanUpGauge m = gauge (WANUp m) \<and>
     killswitchGauge m = gauge (KillswitchActive m) \<and> pfActiveGauge m = gauge (PortForwardingActive m) \<and>
     pfPortGauge m = PortForwardingPort m \<and>
     vpnInfo m = (if ConnectedAt m = None then {} else {(CurrentServer m, CurrentIP m)}) \<and>
     0 \<le> BytesReceived m \<and> BytesReceived m \<le> bytesReceivedTotal m \<and>
     0 \<le> BytesTransmitted m \<and> BytesTransmitted m \<le> bytesTransmittedTotal m"

lemmas metric_updates = RecordCheck_def UpdateTransferBytes_def ObserveServerLatency_def RecordReconnect_def RecordNewConnection_def
  UpdateConnectionStatus_def UpdateKillswitchStatus_def UpdateWANStatus_def UpdateLastHandshake_def UpdatePortForwarding_def
  UpdateKillswitchDrops_def

lemma consistent_check: "consistent m \<Longrightarrow> consistent (RecordCheck success duration t m)"
  by (cases success) (simp_all add: consistent_def RecordCheck_def Let_def)

lemma consistent_plain:
  "consistent m \<Longrightarrow> consistent (ObserveServerLatency latency m)" "consistent m \<Longrightarrow> consistent (RecordReconnect m)"
  "consistent m \<Longrightarrow> consistent (UpdateConnectionStatus b m)" "consistent m \<Longrightarrow> consistent (UpdateKillswitchStatus b m)"
  "consistent m \<Longrightarrow> consistent (UpdateWANStatus b m)" "consistent m \<Longrightarrow> consistent (UpdateLastHandshake h m)"
  "consistent m \<Longrightarrow> consistent (UpdatePortForwarding b port m)" "consistent m \<Longrightarrow> consistent (RecordNewConnection server ip t m)"
  by (simp_all add: consistent_def metric_updates)

lemma counters_update:
  "(case (a, b) of (Some d, Some d') \<Rightarrow> Some (f d d') | _ \<Rightarrow> None) = Some m' \<Longrightarrow> (\<And>d d'. m' = f d d' \<Longrightarrow> R) \<Longrightarrow> R"
  "(case (a, b, a', b') of (Some d, Some d', Some e, Some e') \<Rightarrow> Some (g d d' e e') | _ \<Rightarrow> None) = Some m' \<Longrightarrow>
     (\<And>d d' e e'. m' = g d d' e e' \<Longrightarrow> R) \<Longrightarrow> R"
  by (auto split: option.splits)

lemma total_covers: "delta prev r = Some d \<Longrightarrow> 0 \<le> prev \<Longrightarrow> prev \<le> s \<Longrightarrow> 0 \<le> r \<and> r \<le> s + d"
  by (auto simp: delta_def Let_def split: if_splits)

lemma consistent_counters:
  "UpdateTransferBytes rx tx m = Some m' \<Longrightarrow> consistent m \<Longrightarrow> consistent m'"
  "UpdateKillswitchDrops pin bin pout bout m = Some m' \<Longrightarrow> consistent m \<Longrightarrow> consistent m'"
proof -
  assume "UpdateTransferBytes rx tx m = Some m'"
  then obtain d d' where d: "delta (BytesReceived m) rx = Some d" "delta (BytesTransmitted m) tx = Some d'"
    and m': "m' = m\<lparr>bytesReceivedTotal := bytesReceivedTotal m + d, bytesTransmittedTotal := bytesTransmittedTotal m + d',
      BytesReceived := rx, BytesTransmitted := tx\<rparr>"
    by (auto simp: UpdateTransferBytes_def split: option.splits)
  assume c: "consistent m"
  then have "0 \<le> BytesReceived m" "BytesReceived m \<le> bytesReceivedTotal m" "0 \<le> BytesTransmitted m" "BytesTransmitted m \<le> bytesTransmittedTotal m"
    by (simp_all add: consistent_def)
  then have "0 \<le> rx \<and> rx \<le> bytesReceivedTotal m + d \<and> 0 \<le> tx \<and> tx \<le> bytesTransmittedTotal m + d'"
    using total_covers [OF d(1)] total_covers [OF d(2)] by blast
  then show "consistent m'" using c unfolding m' consistent_def by simp
next
  show "UpdateKillswitchDrops pin bin pout bout m = Some m' \<Longrightarrow> consistent m \<Longrightarrow> consistent m'"
    unfolding UpdateKillswitchDrops_def by (erule counters_update) (simp add: consistent_def)
qed

lemma consistent_step: "metricStep m m' \<Longrightarrow> consistent m \<Longrightarrow> consistent m'"
  by (induction rule: metricStep.induct) (rule consistent_check consistent_plain consistent_counters; assumption)+

text \<open>The collector takes such steps only, so it keeps the two in agreement for as long as it runs.\<close>

lemma collect_steps:
  assumes "collect N q m w = Some (Inr m', w')"
  shows "metricStep\<^sup>*\<^sup>* m m'"
proof -
  obtain h rx tx m1 a b c d m2 ks where *: "UpdateTransferBytes rx tx (UpdateLastHandshake h m) = Some m1"
    "UpdateKillswitchDrops a b c d m1 = Some m2" "m' = UpdateKillswitchStatus ks m2"
    using assms by (auto simp: collect_def bindP_def orPanic_def getsP_def tryP_def throw_def ret_def Let_def split: option.splits sum.splits prod.splits)
  then show ?thesis
    by (meson metricStep.handshake metricStep.transfer metricStep.drops metricStep.killswitch rtranclp.rtrancl_refl rtranclp.rtrancl_into_rtrancl)
qed

lemma collectLoop_steps: "collectLoop N tick query m w = Some (Inr m', w') \<Longrightarrow> metricStep\<^sup>*\<^sup>* m m'"
proof -
  assume run: "collectLoop N tick query m w = Some (Inr m', w')"
  have "\<forall>m''. fst (Inr m' :: err + metrics, w') = Inr m'' \<longrightarrow> metricStep\<^sup>*\<^sup>* m m''"
    by (rule collectLoop.raw_induct [of "\<lambda>N tick query m w y. \<forall>m''. fst y = Inr m'' \<longrightarrow> metricStep\<^sup>*\<^sup>* m m''" N tick query m w "(Inr m', w')", OF _ run])
      (fastforce split: prod.splits option.splits sum.splits dest: collect_steps intro: rtranclp_trans)
  then show ?thesis by simp
qed

lemma collector_consistent:
  assumes "consistent m" and "RunCollector N tick query m w = Some (Inr m', w')"
  shows "consistent m'"
proof -
  have "metricStep\<^sup>*\<^sup>* m m'"
    using assms(2) by (auto simp: RunCollector_def bindP_def getsP_def split: option.splits sum.splits dest!: collect_steps collectLoop_steps)
  then show ?thesis by (induction) (simp_all add: assms(1) consistent_step)
qed

text \<open>What one collection feeds in: the two transfer counters and the four of the drops.\<close>

definition feedOne :: "metrics \<Rightarrow> (int \<times> int) \<times> (int \<times> int) \<times> (int \<times> int) \<Rightarrow> metrics option" where
  "feedOne m = (\<lambda>((rx, tx), (pin, bin), (pout, bout)).
     case UpdateTransferBytes rx tx m of None \<Rightarrow> None | Some m \<Rightarrow> UpdateKillswitchDrops pin bin pout bout m)"

fun feed :: "((int \<times> int) \<times> (int \<times> int) \<times> (int \<times> int)) list \<Rightarrow> metrics \<Rightarrow> metrics option" where
  "feed [] m = Some m"
| "feed (r # rs) m = (case feedOne m r of None \<Rightarrow> None | Some m \<Rightarrow> feed rs m)"

definition nonneg :: "(int \<times> int) \<times> (int \<times> int) \<times> (int \<times> int) \<Rightarrow> bool" where
  "nonneg = (\<lambda>((a, b), (c, d), (e, f)). 0 \<le> a \<and> 0 \<le> b \<and> 0 \<le> c \<and> 0 \<le> d \<and> 0 \<le> e \<and> 0 \<le> f)"

text \<open>The total a counter has, from a total and a last reading on.\<close>

definition counted :: "int \<Rightarrow> int \<Rightarrow> int list \<Rightarrow> int" where
  "counted tot prev rs = tot + peaks (prev # rs) - prev"

lemma counted_simps [simp]:
  "counted tot prev [] = tot"
  "counted tot prev (r # rs) = counted (tot + inc prev r) r rs"
  by (auto simp: counted_def inc_def)

lemma feed_counts:
  assumes "\<forall>r \<in> set rs. nonneg r"
    and "0 \<le> BytesReceived m" "0 \<le> BytesTransmitted m" "0 \<le> lastPacketsIn m" "0 \<le> lastBytesIn m" "0 \<le> lastPacketsOut m" "0 \<le> lastBytesOut m"
  shows "\<exists>m'. feed rs m = Some m' \<and>
    bytesReceivedTotal m' = counted (bytesReceivedTotal m) (BytesReceived m) (map (\<lambda>r. fst (fst r)) rs) \<and>
    bytesTransmittedTotal m' = counted (bytesTransmittedTotal m) (BytesTransmitted m) (map (\<lambda>r. snd (fst r)) rs) \<and>
    packetsDropped m' ''in'' = counted (packetsDropped m ''in'') (lastPacketsIn m) (map (\<lambda>r. fst (fst (snd r))) rs) \<and>
    bytesDropped m' ''in'' = counted (bytesDropped m ''in'') (lastBytesIn m) (map (\<lambda>r. snd (fst (snd r))) rs) \<and>
    packetsDropped m' ''out'' = counted (packetsDropped m ''out'') (lastPacketsOut m) (map (\<lambda>r. fst (snd (snd r))) rs) \<and>
    bytesDropped m' ''out'' = counted (bytesDropped m ''out'') (lastBytesOut m) (map (\<lambda>r. snd (snd (snd r))) rs)"
  using assms
proof (induction rs arbitrary: m)
  case (Cons r rs)
  obtain rx tx pin bin pout bout where r: "r = ((rx, tx), (pin, bin), (pout, bout))" by (metis prod.collapse)
  have n: "0 \<le> rx" "0 \<le> tx" "0 \<le> pin" "0 \<le> bin" "0 \<le> pout" "0 \<le> bout" using Cons.prems(1) by (auto simp: r nonneg_def)
  obtain m1 where m1: "feedOne m r = Some m1"
    and f: "BytesReceived m1 = rx" "BytesTransmitted m1 = tx" "lastPacketsIn m1 = pin" "lastBytesIn m1 = bin"
      "lastPacketsOut m1 = pout" "lastBytesOut m1 = bout"
      "bytesReceivedTotal m1 = bytesReceivedTotal m + inc (BytesReceived m) rx"
      "bytesTransmittedTotal m1 = bytesTransmittedTotal m + inc (BytesTransmitted m) tx"
      "packetsDropped m1 ''in'' = packetsDropped m ''in'' + inc (lastPacketsIn m) pin"
      "bytesDropped m1 ''in'' = bytesDropped m ''in'' + inc (lastBytesIn m) bin"
      "packetsDropped m1 ''out'' = packetsDropped m ''out'' + inc (lastPacketsOut m) pout"
      "bytesDropped m1 ''out'' = bytesDropped m ''out'' + inc (lastBytesOut m) bout"
    using n Cons.prems(2-)
    by (simp add: r feedOne_def UpdateTransferBytes_def UpdateKillswitchDrops_def delta_nonneg addTo_def)
  show ?case
    using Cons.IH [of m1] Cons.prems(1) n by (simp add: m1 [unfolded r] f r)
qed simp

section \<open>Scaling\<close>

lemma le_div_iff: "a \<le> n div 1000 \<longleftrightarrow> 1000 * a \<le> (n :: int)" and div_less_iff: "n div 1000 < a \<longleftrightarrow> n < 1000 * a"
  by linarith+

lemma scaleLoop_spec:
  assumes "0 < n"
  shows "\<exists>k. scaleLoop n d e = (d * 1000 ^ k, e + k) \<and> 1000 ^ k \<le> n \<and> n < 1000 ^ (k + 1)"
  using assms
proof (induction n d e rule: scaleLoop.induct)
  case (1 n d e)
  show ?case
  proof (cases "n \<ge> 1000")
    case True
    then have "0 < n div 1000" by simp
    then obtain k where k: "scaleLoop (n div 1000) (d * 1000) (e + 1) = (d * 1000 * 1000 ^ k, e + 1 + k)"
      "1000 ^ k \<le> n div 1000" "n div 1000 < 1000 ^ (k + 1)"
      using 1(1) True by (auto simp: unit1000_def)
    have "1000 ^ (k + 1) \<le> n" "n < 1000 ^ (k + 1 + 1)"
      using k(2,3) by (simp_all add: le_div_iff div_less_iff)
    then show ?thesis
      using True k(1) by (intro exI [of _ "k + 1"]) (simp add: scaleLoop.simps [of n d e] unit1000_def)
  next
    case False
    then show ?thesis
      using 1(2) by (intro exI [of _ 0]) (simp add: scaleLoop.simps [of n d e] unit1000_def)
  qed
qed

lemma formatBytes_scale:
  assumes "1000 \<le> b" "b < 2 ^ 63"
  obtains e where "e < 6" "1000 ^ (e + 1) \<le> b" "b < 1000 ^ (e + 2)"
    "formatBytes fmt1 b = Some (fmt1 b (1000 ^ (e + 1)) @ '' '' @ [''KMGTPE'' ! e] @ ''B'')"
proof -
  obtain k where k: "scaleLoop (b div 1000) 1000 0 = (1000 * 1000 ^ k, k)" "1000 ^ k \<le> b div 1000" "b div 1000 < 1000 ^ (k + 1)"
    using scaleLoop_spec [of "b div 1000" 1000 0] assms(1) by (auto simp: pos_imp_zdiv_pos_iff)
  have b: "1000 ^ (k + 1) \<le> b" "b < 1000 ^ (k + 2)" using k(2,3) by (simp_all add: le_div_iff div_less_iff)
  have "k < 6"
  proof (rule ccontr)
    assume "\<not> k < 6"
    then have "(1000 :: int) ^ 7 \<le> 1000 ^ (k + 1)" by (intro power_increasing) auto
    then show False using b(1) assms(2) by simp
  qed
  then show ?thesis using that [of k] b k(1) assms(1) by (simp add: formatBytes_def unit1000_def)
qed

lemma new_zeros:
  "BytesReceived (NewMetrics cfg version t) = 0" "BytesTransmitted (NewMetrics cfg version t) = 0"
  "lastPacketsIn (NewMetrics cfg version t) = 0" "lastBytesIn (NewMetrics cfg version t) = 0"
  "lastPacketsOut (NewMetrics cfg version t) = 0" "lastBytesOut (NewMetrics cfg version t) = 0"
  "bytesReceivedTotal (NewMetrics cfg version t) = 0" "bytesTransmittedTotal (NewMetrics cfg version t) = 0"
  "packetsDropped (NewMetrics cfg version t) d = 0" "bytesDropped (NewMetrics cfg version t) d = 0"
  by (simp_all add: NewMetrics_def)

section \<open>Properties\<close>

text \<open>
  C20. The two views of the metrics fit. Whatever the program does to the metrics, in any order:
  every check is counted as a success or a failure; the counters of checks and reconnections and
  the gauges of the connection, the WAN, the killswitch and the forwarded port that Prometheus
  scrapes equal the fields of the JSON endpoint; the connection info names exactly the last
  connection that was recorded; and the transfer counters, which differ once the tunnel has
  restarted, are never below the readings that the JSON shows.
\<close>
theorem metrics_consistent:
  assumes "metricStep\<^sup>*\<^sup>* (NewMetrics cfg version t) m"
  shows "consistent m"
  using assms
proof (induction rule: rtranclp_induct)
  case base
  show ?case by (simp add: consistent_def NewMetrics_def gauge_def)
next
  case (step m m')
  from this(2,3) show ?case by (rule consistent_step)
qed

definition exampleMetrics :: metrics where
  "exampleMetrics = NewMetrics \<lparr>mcEnabled = True, mcPort = 9090, mcName = ''gluetun''\<rparr> ''v1'' 5"

theorem metrics_consistent_witness:
  "consistent (RecordNewConnection ''s1'' ''1.2.3.4'' 9 (RecordCheck False 7 8 exampleMetrics)) \<and>
   TotalChecks (RecordNewConnection ''s1'' ''1.2.3.4'' 9 (RecordCheck False 7 8 exampleMetrics)) = 1"
proof -
  have "metricStep\<^sup>*\<^sup>* exampleMetrics (RecordNewConnection ''s1'' ''1.2.3.4'' 9 (RecordCheck False 7 8 exampleMetrics))"
    by (meson metricStep.check metricStep.connection r_into_rtranclp rtranclp.rtrancl_into_rtrancl)
  then have "consistent (RecordNewConnection ''s1'' ''1.2.3.4'' 9 (RecordCheck False 7 8 exampleMetrics))"
    unfolding exampleMetrics_def by (rule metrics_consistent)
  then show ?thesis by (simp add: exampleMetrics_def NewMetrics_def RecordCheck_def RecordNewConnection_def Let_def)
qed

text \<open>
  C21. The collector keeps counting when the tunnel or the firewall table starts again: after any
  sequence of readings that are not negative, no addition panics and each of the six totals is
  the sum of the last readings of the runs its readings fall into.
\<close>
theorem counters_refine_peaks:
  assumes "\<forall>r \<in> set rs. nonneg r"
  shows "\<exists>m. feed rs (NewMetrics cfg version t) = Some m \<and>
    bytesReceivedTotal m = peaks (map (\<lambda>r. fst (fst r)) rs) \<and>
    bytesTransmittedTotal m = peaks (map (\<lambda>r. snd (fst r)) rs) \<and>
    packetsDropped m ''in'' = peaks (map (\<lambda>r. fst (fst (snd r))) rs) \<and>
    bytesDropped m ''in'' = peaks (map (\<lambda>r. snd (fst (snd r))) rs) \<and>
    packetsDropped m ''out'' = peaks (map (\<lambda>r. fst (snd (snd r))) rs) \<and>
    bytesDropped m ''out'' = peaks (map (\<lambda>r. snd (snd (snd r))) rs)"
proof -
  have z: "counted 0 0 qs = peaks qs" if "\<forall>q \<in> set qs. 0 \<le> q" for qs
    using that by (cases qs) (auto simp: counted_def)
  have p: "counted 0 0 (map f rs) = peaks (map f rs)" if "\<forall>r \<in> set rs. 0 \<le> f r" for f
    using that by (intro z) auto
  have q: "\<forall>r \<in> set rs. 0 \<le> fst (fst r)" "\<forall>r \<in> set rs. 0 \<le> snd (fst r)" "\<forall>r \<in> set rs. 0 \<le> fst (fst (snd r))"
    "\<forall>r \<in> set rs. 0 \<le> snd (fst (snd r))" "\<forall>r \<in> set rs. 0 \<le> fst (snd (snd r))" "\<forall>r \<in> set rs. 0 \<le> snd (snd (snd r))"
    using assms by (auto simp: nonneg_def)
  show ?thesis
    using feed_counts [OF assms, of "NewMetrics cfg version t"] by (simp only: new_zeros order.refl simp_thms p [OF q(1)] p [OF q(2)]
        p [OF q(3)] p [OF q(4)] p [OF q(5)] p [OF q(6)])
qed

theorem counters_refine_peaks_witness:
  "\<exists>m. feed [((10, 1), (0, 0), (0, 0)), ((30, 2), (4, 40), (0, 0)), ((5, 3), (6, 60), (1, 7))] exampleMetrics = Some m \<and>
     bytesReceivedTotal m = 35 \<and> bytesTransmittedTotal m = 3 \<and> packetsDropped m ''in'' = 6 \<and> bytesDropped m ''out'' = 7"
  unfolding exampleMetrics_def
  using counters_refine_peaks [of "[((10, 1), (0, 0), (0, 0)), ((30, 2), (4, 40), (0, 0)), ((5, 3), (6, 60), (1, 7))]"
    "\<lparr>mcEnabled = True, mcPort = 9090, mcName = ''gluetun''\<rparr>" "''v1''" 5] by (auto simp: nonneg_def)

text \<open>
  The text of a byte count of 63 bits never runs past the unit letters, the scaling loop ends,
  and the unit it picks is the one in which the count is at least one and below a thousand.
\<close>
lemma format_bytes_bounds:
  assumes "1000 \<le> b" "b < 2 ^ 63"
  shows "\<exists>e < 6. formatBytes fmt1 b = Some (fmt1 b (1000 ^ (e + 1)) @ '' '' @ [''KMGTPE'' ! e] @ ''B'') \<and>
    1000 ^ (e + 1) \<le> b \<and> b < 1000 ^ (e + 2)"
  using assms by (metis formatBytes_scale)

lemma format_bytes_bounds_witness:
  "\<exists>e < 6. formatBytes (\<lambda>a b. Itoa (a div b)) 7500000 = Some (Itoa (7500000 div 1000 ^ (e + 1)) @ '' '' @ [''KMGTPE'' ! e] @ ''B'') \<and>
    1000 ^ (e + 1) \<le> (7500000 :: int) \<and> (7500000 :: int) < 1000 ^ (e + 2)"
  using format_bytes_bounds [of 7500000 "\<lambda>a b. Itoa (a div b)"] by simp

end
