(* ===== verification/Status.thy ===== *)
theory Status
  imports DnsProxy Metrics
begin

text \<open>
  The state the services of a connection share besides the firewall, the cache and
  \<^verbatim>\<open>resolv.conf\<close>: the metrics of the program and the channel that hands a forwarded port to the
  syncer, which holds at most one port.
\<close>

record 'k sw = "'k dw" +
  stats :: metrics
  portCh :: "int option"

definition updStats :: "(metrics \<Rightarrow> metrics) \<Rightarrow> (('k, 'm) sw_scheme, unit) prog" where
  "updStats f = modifyP (\<lambda>w. w\<lparr>stats := f (stats w)\<rparr>)"

lemma wp_updStats [simp]: "wp (updStats f) Q w = Q (Inr ()) (w\<lparr>stats := f (stats w)\<rparr>)"
  by (simp add: updStats_def)

text \<open>A reading of the clock: \<open>el\<close> tells how much time passed since the last one.\<close>

definition readClock :: "('k \<Rightarrow> nat \<times> 'k) \<Rightarrow> (('k, 'm) cw_scheme, int) prog" where
  "readClock el = bindP (askK el) (\<lambda>d. bindP (modifyP (\<lambda>w. w\<lparr>now := now w + int d\<rparr>)) (\<lambda>_. getsP now))"

lemma wp_readClock:
  assumes "\<And>d k'. el (kern w) = (d, k') \<Longrightarrow> Q (Inr (now w + int d)) (w\<lparr>kern := k', now := now w + int d\<rparr>)"
  shows "wp (readClock el) Q w"
  unfolding readClock_def using assms by (auto intro!: wp_askK)

end
