(* ===== verification/Json.thy ===== *)
theory Json
  imports GoBytes
begin

text \<open>
  What the code uses of Go's \<^verbatim>\<open>encoding/json\<close>: decoding a text into a struct of strings and
  integers. The text is taken to be valid UTF-8, and the limit on the nesting of values is left
  out. The parser has fuel; \<open>parse_enough\<close> shows that what \<open>decodeJSON\<close> gives it is enough.
\<close>

section \<open>Strings\<close>

definition quoteC :: char where "quoteC = CHR 0x22"
definition backslash :: char where "backslash = CHR 0x5C"

definition hexVal :: "char \<Rightarrow> nat option" where
  "hexVal c = (let n = val c in
     if 48 \<le> n \<and> n \<le> 57 then Some (n - 48) else if 97 \<le> n \<and> n \<le> 102 then Some (n - 87)
     else if 65 \<le> n \<and> n \<le> 70 then Some (n - 55) else None)"

fun hex4 :: "string \<Rightarrow> (nat \<times> string) option" where
  "hex4 (a # b # c # d # r) = (case (hexVal a, hexVal b, hexVal c, hexVal d) of
       (Some w, Some x, Some y, Some z) \<Rightarrow> Some (4096 * w + 256 * x + 16 * y + z, r)
     | _ \<Rightarrow> None)"
| "hex4 _ = None"

definition utf8 :: "nat \<Rightarrow> string" where
  "utf8 n = map byteOf
     (if n < 0x80 then [n] else if n < 0x800 then [0xC0 + n div 64, 0x80 + n mod 64]
      else if n < 0x10000 then [0xE0 + n div 4096, 0x80 + n div 64 mod 64, 0x80 + n mod 64]
      else [0xF0 + n div 262144, 0x80 + n div 4096 mod 64, 0x80 + n div 64 mod 64, 0x80 + n mod 64])"

text \<open>What follows a \<^verbatim>\<open>\u\<close>: surrogates count in pairs, a lone one is replaced.\<close>

definition unicode :: "string \<Rightarrow> (string \<times> string) option" where
  "unicode s = (case hex4 s of None \<Rightarrow> None | Some (n, r) \<Rightarrow>
     if 0xD800 \<le> n \<and> n < 0xE000 then
       (case (if n < 0xDC00 \<and> take 2 r = [backslash, CHR ''u''] then hex4 (drop 2 r) else None) of
          Some (m, r') \<Rightarrow> if 0xDC00 \<le> m \<and> m < 0xE000
            then Some (utf8 (0x10000 + (n - 0xD800) * 1024 + (m - 0xDC00)), r') else Some (utf8 0xFFFD, r)
        | None \<Rightarrow> Some (utf8 0xFFFD, r))
     else Some (utf8 n, r))"

definition simpleEscape :: "char \<Rightarrow> char option" where
  "simpleEscape c = map_of [(quoteC, quoteC), (backslash, backslash), (CHR ''/'', CHR ''/''), (CHR ''b'', CHR 0x08),
     (CHR ''f'', CHR 0x0C), (CHR ''n'', CHR 0x0A), (CHR ''r'', CHR 0x0D), (CHR ''t'', CHR 0x09)] c"

definition escapeSeq :: "string \<Rightarrow> (string \<times> string) option" where
  "escapeSeq s = (case s of [] \<Rightarrow> None | c # r \<Rightarrow>
     if c = CHR ''u'' then unicode r else map_option (\<lambda>x. ([x], r)) (simpleEscape c))"

lemma hex4_length: "hex4 s = Some (n, r) \<Longrightarrow> length r < length s"
  by (induction s rule: hex4.induct) (auto split: option.splits)

lemma unicode_length: "unicode s = Some (b, r) \<Longrightarrow> length r < length s"
  by (auto simp: unicode_def split: option.splits prod.splits if_splits dest!: hex4_length)

lemma escapeSeq_length: "escapeSeq s = Some (b, r) \<Longrightarrow> length r < length s"
  by (auto simp: escapeSeq_def split: list.splits if_splits dest: unicode_length)

text \<open>A string after its opening quote: its bytes and what follows the closing quote.\<close>

function strBody :: "string \<Rightarrow> (string \<times> string) option" where
  "strBody [] = None"
| "strBody (c # t) =
     (if c = quoteC then Some ([], t)
      else if c = backslash then (case escapeSeq t of None \<Rightarrow> None
        | Some (b, r) \<Rightarrow> map_option (\<lambda>(s, r'). (b @ s, r')) (strBody r))
      else if val c < 32 then None
      else map_option (\<lambda>(s, r'). (c # s, r')) (strBody t))"
  by pat_completeness auto
termination
  by (relation "measure length") (auto dest: escapeSeq_length)

lemma strBody_length: "strBody s = Some (b, r) \<Longrightarrow> length r < length s"
proof (induction s arbitrary: b r rule: strBody.induct)
  case (2 c t)
  consider "c = quoteC" | p where "c \<noteq> quoteC" "c = backslash" "escapeSeq t = Some p" | "c \<noteq> quoteC" "c \<noteq> backslash"
    using "2.prems" by (auto split: if_splits option.splits)
  then show ?case
  proof cases
    case (2 p)
    then show ?thesis
      using "2.prems" "2.IH"(1) [OF 2 prod.collapse] escapeSeq_length [of t "fst p" "snd p"]
      by (fastforce split: option.splits prod.splits)
  next
    case 3
    then show ?thesis using "2.prems" "2.IH"(2) by (fastforce split: if_splits)
  qed (use "2.prems" in auto)
qed simp

section \<open>Values\<close>

datatype json = JNull | JBool bool | JNum string | JStr string | JArr "json list" | JObj "(string \<times> json) list"

definition skipSpace :: "string \<Rightarrow> string" where
  "skipSpace s = dropWhile (\<lambda>c. c \<in> {CHR 0x20, CHR 0x09, CHR 0x0A, CHR 0x0D}) s"

definition validExp :: "string \<Rightarrow> bool" where
  "validExp s = (case s of [] \<Rightarrow> True | c # t \<Rightarrow> (c = CHR ''e'' \<or> c = CHR ''E'') \<and>
     (let u = (if t \<noteq> [] \<and> hd t \<in> set ''+-'' then tl t else t) in u \<noteq> [] \<and> list_all isDigit u))"

definition validFrac :: "string \<Rightarrow> bool" where
  "validFrac s = (if s \<noteq> [] \<and> hd s = CHR ''.''
     then (let f = takeWhile isDigit (tl s) in f \<noteq> [] \<and> validExp (drop (length f) (tl s))) else validExp s)"

definition validNumber :: "string \<Rightarrow> bool" where
  "validNumber tok = (let s = TrimPrefix tok ''-''; i = takeWhile isDigit s in
     i \<noteq> [] \<and> (length i = 1 \<or> hd i \<noteq> CHR ''0'') \<and> validFrac (drop (length i) s))"

definition numToken :: "string \<Rightarrow> string" where
  "numToken s = takeWhile (\<lambda>c. isDigit c \<or> c \<in> set ''+-.eE'') s"

text \<open>A value that is neither a string nor composed.\<close>

definition parseAtom :: "string \<Rightarrow> (json \<times> string) option" where
  "parseAtom s =
     (if HasPrefix s ''null'' then Some (JNull, drop 4 s)
      else if HasPrefix s ''true'' then Some (JBool True, drop 4 s)
      else if HasPrefix s ''false'' then Some (JBool False, drop 5 s)
      else let tok = numToken s in if validNumber tok then Some (JNum tok, drop (length tok) s) else None)"

fun parseValue :: "nat \<Rightarrow> string \<Rightarrow> (json \<times> string) option"
  and parseElems :: "nat \<Rightarrow> string \<Rightarrow> (json list \<times> string) option"
  and parseMembers :: "nat \<Rightarrow> string \<Rightarrow> ((string \<times> json) list \<times> string) option" where
  "parseValue 0 s = None"
| "parseValue (Suc n) s = (case skipSpace s of [] \<Rightarrow> None | c # t \<Rightarrow>
     if c = quoteC then map_option (\<lambda>(b, r). (JStr b, r)) (strBody t)
     else if c = CHR ''{'' then
       (if HasPrefix (skipSpace t) ''}'' then Some (JObj [], tl (skipSpace t))
        else map_option (\<lambda>(ms, r). (JObj ms, r)) (parseMembers n t))
     else if c = CHR ''['' then
       (if HasPrefix (skipSpace t) '']'' then Some (JArr [], tl (skipSpace t))
        else map_option (\<lambda>(vs, r). (JArr vs, r)) (parseElems n t))
     else parseAtom (c # t))"
| "parseElems 0 s = None"
| "parseElems (Suc n) s = (case parseValue n s of None \<Rightarrow> None | Some (v, r) \<Rightarrow>
     (case skipSpace r of [] \<Rightarrow> None | c # t \<Rightarrow>
       if c = CHR '','' then map_option (\<lambda>(vs, r'). (v # vs, r')) (parseElems n t)
       else if c = CHR '']'' then Some ([v], t) else None))"
| "parseMembers 0 s = None"
| "parseMembers (Suc n) s = (case skipSpace s of [] \<Rightarrow> None | q # t \<Rightarrow>
     if q \<noteq> quoteC then None else (case strBody t of None \<Rightarrow> None | Some (k, r) \<Rightarrow>
       if \<not> HasPrefix (skipSpace r) '':'' then None
       else (case parseValue n (tl (skipSpace r)) of None \<Rightarrow> None | Some (v, r') \<Rightarrow>
         (case skipSpace r' of [] \<Rightarrow> None | c # u \<Rightarrow>
           if c = CHR '','' then map_option (\<lambda>(ms, r''). ((k, v) # ms, r'')) (parseMembers n u)
           else if c = CHR ''}'' then Some ([(k, v)], u) else None))))"

definition decodeJSON :: "string \<Rightarrow> json option" where
  "decodeJSON s = (case parseValue (Suc (2 * length s)) s of None \<Rightarrow> None
     | Some (v, r) \<Rightarrow> if skipSpace r = [] then Some v else None)"

section \<open>Structs\<close>

text \<open>
  The members of a struct field: its name is compared without regard to case. \<open>null\<close> leaves a
  field alone, another type is an error; the last member counts. \<open>None\<close> is an error of
  \<^verbatim>\<open>Unmarshal\<close>.
\<close>

definition fieldsOf :: "string \<Rightarrow> json \<Rightarrow> json list option" where
  "fieldsOf name v = (case v of
       JObj ms \<Rightarrow> Some (filter (\<lambda>x. x \<noteq> JNull) (map snd (filter (\<lambda>(k, _). toLower k = toLower name) ms)))
     | JNull \<Rightarrow> Some [] | _ \<Rightarrow> None)"

definition asString :: "json \<Rightarrow> string option" where
  "asString v = (case v of JStr s \<Rightarrow> Some s | _ \<Rightarrow> None)"

definition asInt :: "json \<Rightarrow> int option" where
  "asInt v = (case v of JNum tok \<Rightarrow> ParseInt tok | _ \<Rightarrow> None)"

definition field :: "(json \<Rightarrow> 'a option) \<Rightarrow> 'a \<Rightarrow> string \<Rightarrow> json \<Rightarrow> 'a option" where
  "field as zero name v = (case fieldsOf name v of None \<Rightarrow> None
     | Some vs \<Rightarrow> if list_all (\<lambda>x. as x \<noteq> None) vs then Some (last (zero # map (the \<circ> as) vs)) else None)"

definition stringField :: "string \<Rightarrow> json \<Rightarrow> string option" where
  "stringField = field asString []"

definition intField :: "string \<Rightarrow> json \<Rightarrow> int option" where
  "intField = field asInt 0"

section \<open>The fuel is enough\<close>

lemma skipSpace_length: "length (skipSpace s) \<le> length s"
  unfolding skipSpace_def by (rule length_dropWhile_le)

lemma skipSpace_Cons_length: "skipSpace s = c # t \<Longrightarrow> length t < length s"
  using skipSpace_length [of s] by simp

lemma parseAtom_length: "parseAtom s = Some (v, r) \<Longrightarrow> s \<noteq> [] \<Longrightarrow> length r < length s"
proof -
  assume "parseAtom s = Some (v, r)" "s \<noteq> []"
  moreover have "validNumber [] = False" by code_simp
  then have "validNumber (numToken s) \<Longrightarrow> numToken s \<noteq> []" by metis
  ultimately show "length r < length s"
    by (auto simp: parseAtom_def Let_def split: if_splits)
qed

lemma parse_length:
  "parseValue n s = Some (v, r) \<Longrightarrow> length r < length s"
  "parseElems n s = Some (vs, r) \<Longrightarrow> length r < length s"
  "parseMembers n s = Some (ms, r) \<Longrightarrow> length r < length s"
proof (induction n s and n s and n s arbitrary: v r and vs r and ms r rule: parseValue_parseElems_parseMembers.induct)
  case (2 n s)
  from "2.prems" obtain c t where ct: "skipSpace s = c # t" by (auto split: list.splits)
  have "length (tl (skipSpace t)) \<le> length t" using skipSpace_length [of t] by simp
  then show ?case
    using "2.prems" skipSpace_Cons_length [OF ct] ct "2.IH" [OF ct]
    by (fastforce split: if_splits dest: strBody_length parseAtom_length)
next
  case (4 n s)
  from "4.prems" obtain x r1 c t where *: "parseValue n s = Some (x, r1)" "skipSpace r1 = c # t"
    by (auto split: option.splits list.splits)
  show ?case
    using "4.prems" * "4.IH"(1) [OF *(1)] "4.IH"(2) [OF *(1) refl *(2)] skipSpace_Cons_length [OF *(2)]
    by (fastforce split: if_splits)
next
  case (6 n s)
  from "6.prems" obtain q t k r1 v r2 c u where *: "skipSpace s = q # t" "q = quoteC" "strBody t = Some (k, r1)"
    "parseValue n (tl (skipSpace r1)) = Some (v, r2)" "HasPrefix (skipSpace r1) '':''" "skipSpace r2 = c # u"
    by (auto split: option.splits list.splits if_splits)
  have "length r2 < length s"
    using "6.IH"(1) [OF *(1) _ *(3) refl _ *(4)] *(2,5) strBody_length [OF *(3)] skipSpace_length [of r1] skipSpace_Cons_length [OF *(1)]
    by auto
  then show ?case
    using "6.prems" * "6.IH"(2) [OF *(1) _ *(3) refl _ *(4) refl *(6)] skipSpace_Cons_length [OF *(6)]
    by (fastforce split: if_splits)
qed simp_all

text \<open>More fuel than twice the length changes nothing.\<close>

lemma parse_fuel:
  "2 * length s < n \<Longrightarrow> parseValue (Suc n) s = parseValue n s"
  "2 * length s + 1 < n \<Longrightarrow> parseElems (Suc n) s = parseElems n s"
  "2 * length s + 1 < n \<Longrightarrow> parseMembers (Suc n) s = parseMembers n s"
proof (induction n s and n s and n s rule: parseValue_parseElems_parseMembers.induct)
  case (2 n s)
  show ?case
  proof (cases "skipSpace s")
    case (Cons c t)
    then have "2 * length t + 1 < n" using "2.prems" skipSpace_Cons_length [OF Cons] by simp
    then have "c \<noteq> quoteC \<Longrightarrow> c = CHR ''{'' \<Longrightarrow> \<not> HasPrefix (skipSpace t) ''}'' \<Longrightarrow> parseMembers (Suc n) t = parseMembers n t"
      "c \<noteq> quoteC \<Longrightarrow> c \<noteq> CHR ''{'' \<Longrightarrow> c = CHR ''['' \<Longrightarrow> \<not> HasPrefix (skipSpace t) '']'' \<Longrightarrow> parseElems (Suc n) t = parseElems n t"
      using "2.IH" [OF Cons] by blast+
    then show ?thesis using Cons by (simp del: parseElems.simps parseMembers.simps)
  qed simp
next
  case (4 n s)
  have v: "parseValue (Suc n) s = parseValue n s" using "4.prems" by (intro "4.IH"(1)) simp
  show ?case
  proof (cases "parseValue n s")
    case (Some p)
    obtain x r where p: "p = (x, r)" by fastforce
    show ?thesis
    proof (cases "skipSpace r")
      case (Cons c t)
      have "2 * length t + 1 < n"
        using parse_length(1) [OF Some [unfolded p]] skipSpace_Cons_length [OF Cons] "4.prems" by simp
      then have "c = CHR '','' \<Longrightarrow> parseElems (Suc n) t = parseElems n t"
        using "4.IH"(2) [OF Some p [symmetric] Cons] by blast
      then show ?thesis using v Some p Cons by (simp del: parseValue.simps parseElems.simps add: parseElems.simps(2) [of "Suc n" s] parseElems.simps(2) [of n s])
    qed (use v Some p in \<open>simp del: parseValue.simps parseElems.simps add: parseElems.simps(2) [of "Suc n" s] parseElems.simps(2) [of n s]\<close>)
  qed (use v in \<open>simp del: parseValue.simps parseElems.simps add: parseElems.simps(2) [of "Suc n" s] parseElems.simps(2) [of n s]\<close>)
next
  case (6 n s)
  note unf = parseMembers.simps(2) [of "Suc n" s] parseMembers.simps(2) [of n s]
  consider "skipSpace s = []" | q t where "skipSpace s = q # t" "q \<noteq> quoteC \<or> strBody t = None"
    | q t k r1 where "skipSpace s = q # t" "q = quoteC" "strBody t = Some (k, r1)" "\<not> HasPrefix (skipSpace r1) '':''"
    | q t k r1 where "skipSpace s = q # t" "q = quoteC" "strBody t = Some (k, r1)" "HasPrefix (skipSpace r1) '':''"
    by (cases "skipSpace s") fastforce+
  then show ?case
  proof cases
    case (4 q t k r1)
    have lr: "length r1 < length s" using strBody_length [OF 4(3)] skipSpace_Cons_length [OF 4(1)] by simp
    moreover have "length (tl (skipSpace r1)) \<le> length r1" using skipSpace_length [of r1] by simp
    ultimately have lv: "2 * length (tl (skipSpace r1)) < n" using "6.prems" by simp
    have v: "parseValue (Suc n) (tl (skipSpace r1)) = parseValue n (tl (skipSpace r1))"
      using lv 4 by (intro "6.IH"(1) [OF 4(1) _ 4(3) refl]) auto
    show ?thesis
    proof (cases "parseValue n (tl (skipSpace r1))")
      case (Some p)
      obtain x r2 where p: "p = (x, r2)" by fastforce
      show ?thesis
      proof (cases "skipSpace r2")
        case (Cons c u)
        have "2 * length u + 1 < n"
          using parse_length(1) [OF Some [unfolded p]] skipSpace_Cons_length [OF Cons] lv by simp
        then have "c = CHR '','' \<Longrightarrow> parseMembers (Suc n) u = parseMembers n u"
          using "6.IH"(2) [OF 4(1) _ 4(3) refl _ Some p [symmetric] Cons] 4 by blast
        then show ?thesis using v Some p Cons 4 by (simp del: parseValue.simps parseMembers.simps add: unf)
      qed (use v Some p 4 in \<open>simp del: parseValue.simps parseMembers.simps add: unf\<close>)
    qed (use v 4 in \<open>simp del: parseValue.simps parseMembers.simps add: unf\<close>)
  qed (auto simp: unf simp del: parseMembers.simps split: option.split)
qed simp_all

lemma parse_enough: "parseValue (Suc (2 * length s) + k) s = parseValue (Suc (2 * length s)) s"
  by (induction k) (simp_all add: parse_fuel(1) del: parseValue.simps)

section \<open>Escaped strings read back\<close>

text \<open>The escapes the code writes; other control characters it leaves as they are.\<close>

definition escChar :: "char \<Rightarrow> string" where
  "escChar c = (if c = backslash then [backslash, backslash] else if c = quoteC then [backslash, quoteC]
     else if c = CHR 0x0A then [backslash, CHR ''n''] else if c = CHR 0x0D then [backslash, CHR ''r'']
     else if c = CHR 0x09 then [backslash, CHR ''t''] else [c])"

definition jsonable :: "string \<Rightarrow> bool" where
  "jsonable s = list_all (\<lambda>c. 32 \<le> val c \<or> c \<in> {CHR 0x0A, CHR 0x0D, CHR 0x09}) s"

lemma strBody_escaped: "jsonable s \<Longrightarrow> strBody (concat (map escChar s) @ quoteC # r) = Some (s, r)"
proof (induction s)
  case (Cons c s)
  have q: "quoteC \<noteq> backslash" "\<not> val backslash < 32" by (simp_all add: quoteC_def backslash_def val_def)
  have e: "escapeSeq (backslash # t) = Some ([backslash], t)" "escapeSeq (quoteC # t) = Some ([quoteC], t)"
    "escapeSeq (CHR ''n'' # t) = Some ([CHR 0x0A], t)" "escapeSeq (CHR ''r'' # t) = Some ([CHR 0x0D], t)"
    "escapeSeq (CHR ''t'' # t) = Some ([CHR 0x09], t)" for t
    by (simp_all add: escapeSeq_def simpleEscape_def quoteC_def backslash_def)
  show ?case
    using Cons q e by (auto simp: escChar_def jsonable_def)
qed simp

lemma strBody_plain:
  assumes "\<forall>c \<in> set s. 32 \<le> val c \<and> c \<noteq> quoteC \<and> c \<noteq> backslash"
  shows "strBody (s @ quoteC # r) = Some (s, r)"
proof -
  have "jsonable s" using assms by (auto simp: jsonable_def list_all_iff)
  moreover have "concat (map escChar s) = s" using assms
    by (induction s) (auto simp: escChar_def val_def)
  ultimately show ?thesis using strBody_escaped by metis
qed

section \<open>Printed integers are numbers\<close>

lemma ItoaN_hd_0: "n > 0 \<Longrightarrow> hd (ItoaN n) \<noteq> CHR ''0''"
proof (induction n rule: ItoaN.induct)
  case (1 n)
  show ?case
  proof (cases "n < 10")
    case True
    then have "digitVal (digitChar n) \<noteq> digitVal CHR ''0''" using "1.prems" True by (simp add: digitVal_def [of "CHR ''0''"])
    then have "digitChar n \<noteq> CHR ''0''" by metis
    then show ?thesis using True by (subst ItoaN.simps) simp
  next
    case False
    then have "hd (ItoaN (n div 10)) \<noteq> CHR ''0''" using "1.IH" by simp
    then show ?thesis using False by (subst ItoaN.simps) simp
  qed
qed

lemma ItoaN_lead: "length (ItoaN n) = 1 \<or> hd (ItoaN n) \<noteq> CHR ''0''"
proof (cases "n = 0")
  case True then show ?thesis by (simp add: ItoaN.simps)
next
  case False then show ?thesis using ItoaN_hd_0 by simp
qed

lemma validNumber_Itoa: "validNumber (Itoa i)"
proof -
  have t: "takeWhile isDigit (ItoaN n) = ItoaN n" for n
    using ItoaN_chars by (simp add: takeWhile_eq_all_conv)
  have "TrimPrefix (ItoaN n) ''-'' = ItoaN n" for n
    using ItoaN_hd [of n] isDigit_not_special by (cases "ItoaN n") (auto simp: TrimPrefix_def HasPrefix_def)
  moreover have "TrimPrefix (CHR ''-'' # ItoaN n) ''-'' = ItoaN n" for n
    by (simp add: TrimPrefix_def HasPrefix_def)
  ultimately show ?thesis
    using ItoaN_lead by (auto simp: validNumber_def Itoa_def t validFrac_def validExp_def)
qed

lemma numToken_Itoa: "\<not> isDigit c \<Longrightarrow> c \<notin> set ''+-.eE'' \<Longrightarrow> numToken (Itoa i @ c # r) = Itoa i"
proof -
  assume c: "\<not> isDigit c" "c \<notin> set ''+-.eE''"
  have "\<forall>x \<in> set (Itoa i). isDigit x \<or> x \<in> set ''+-.eE''"
    using ItoaN_chars by (auto simp: Itoa_def split: if_splits)
  then show ?thesis using c unfolding numToken_def by (simp add: takeWhile_append2)
qed

lemma parseAtom_Itoa:
  assumes "\<not> isDigit c" "c \<notin> set ''+-.eE''"
  shows "parseAtom (Itoa i @ c # r) = Some (JNum (Itoa i), c # r)"
proof -
  obtain h t where h: "Itoa i = h # t" "isDigit h \<or> h = CHR ''-''"
    using ItoaN_hd by (cases "Itoa i") (auto simp: Itoa_def split: if_splits, metis list.sel(1))
  then have "\<not> HasPrefix (Itoa i @ c # r) ''null''" "\<not> HasPrefix (Itoa i @ c # r) ''true''" "\<not> HasPrefix (Itoa i @ c # r) ''false''"
    by (auto simp: HasPrefix_def isDigit_def)
  then show ?thesis using numToken_Itoa [OF assms] by (simp add: parseAtom_def validNumber_Itoa)
qed

end
