(* ===== verification/PortSync.thy ===== *)
theory PortSync
  imports Status Json
begin

text \<open>
  Handing the forwarded port to a torrent client or a script (\<^verbatim>\<open>internal/portsync\<close>). The exchange
  of an HTTP request for an answer, the shell and the \<^verbatim>\<open>select\<close> over the context, the channel and
  the timer are parameters; a URL that cannot be parsed counts as an error of the exchange. The
  pause after connecting Deluge is left out.
\<close>

section \<open>Configuration (portsync.go)\<close>

record psConfig =
  psClient :: string
  psURL :: string
  psUser :: string
  psPass :: string
  psScript :: string

text \<open>A client with its URL and its credentials.\<close>

datatype client = QBittorrent string string string | Transmission string string string | Deluge string string

record syncer =
  syClient :: "client option"
  syScript :: string

definition normalizeClient :: "string \<Rightarrow> string" where
  "normalizeClient ct =
     (if ct \<in> {''qbittorrent'', ''qbit'', ''qb''} then ''qbittorrent''
      else if ct \<in> {''transmission'', ''trans''} then ''transmission''
      else if ct = ''deluge'' then ''deluge'' else ct)"

definition defaultURL :: "string \<Rightarrow> string" where
  "defaultURL c = (let n = normalizeClient c in
     if n = ''qbittorrent'' then ''http://localhost:8080''
     else if n = ''transmission'' then ''http://localhost:9091''
     else if n = ''deluge'' then ''http://localhost:8112'' else [])"

definition newSyncer :: "psConfig \<Rightarrow> syncer" where
  "newSyncer cfg = (let url = (if psURL cfg = [] then defaultURL (psClient cfg) else psURL cfg); n = normalizeClient (psClient cfg) in
     \<lparr>syClient = (if n = ''qbittorrent'' then Some (QBittorrent url (psUser cfg) (psPass cfg))
         else if n = ''transmission'' then Some (Transmission url (psUser cfg) (psPass cfg))
         else if n = ''deluge'' then Some (Deluge url (psPass cfg)) else None),
      syScript = psScript cfg\<rparr>)"

section \<open>The interface of the host\<close>

datatype psEvent = PsDone | PsPort int | PsTimer

record 'k psops =
  psDo :: "request \<Rightarrow> 'k \<Rightarrow> (err + response) \<times> 'k"
  psShell :: "string \<Rightarrow> 'k \<Rightarrow> err option \<times> 'k"
  psSelect :: "'k \<Rightarrow> psEvent \<times> 'k"

text \<open>An exchange whose answer is read to its end; \<^verbatim>\<open>getBody\<close> gives an empty text where the code drops the error.\<close>

definition send :: "'k psops \<Rightarrow> request \<Rightarrow> (('k, 'm) net_scheme, response) prog" where
  "send P rq = outK (psDo P rq)"

definition bodyOf :: "response \<Rightarrow> ('w, string) prog" where
  "bodyOf resp = (case snd resp of Inl e \<Rightarrow> throw e | Inr b \<Rightarrow> ret b)"

definition bodyText :: "response \<Rightarrow> string" where
  "bodyText resp = (case snd resp of Inl _ \<Rightarrow> [] | Inr b \<Rightarrow> b)"

definition unexpected :: "int \<Rightarrow> string \<Rightarrow> ('w, 'a) prog" where
  "unexpected status rest = throw (Errorf (''unexpected status '' @ Itoa status @ rest) [])"

definition formHeader :: "(string \<times> string) list" where
  "formHeader = [(''Content-Type'', ''application/x-www-form-urlencoded'')]"

definition jsonHeader :: "string \<times> string" where
  "jsonHeader = (''Content-Type'', ''application/json'')"

section \<open>qBittorrent (qbittorrent.go)\<close>

definition postForm :: "string \<Rightarrow> (string \<times> string) list \<Rightarrow> request" where
  "postForm url form = (baseReq ''POST'' url)\<lparr>rqHeaders := formHeader, rqBody := Encode form\<rparr>"

definition qbLogin :: "'k psops \<Rightarrow> string \<Rightarrow> string \<Rightarrow> string \<Rightarrow> (('k, 'm) net_scheme, unit) prog" where
  "qbLogin P url user pass =
     bindP (send P (postForm (url @ ''/api/v2/auth/login'') [(''password'', pass), (''username'', user)])) (\<lambda>resp.
     if fst resp \<noteq> 200 \<and> fst resp \<noteq> 204 then unexpected (fst resp) ('', body='' @ bodyText resp) else ret ())"

definition qbPort :: "int \<Rightarrow> string" where
  "qbPort port = ''{\"listen_port\":'' @ Itoa port @ ''}''"

definition qbSetPort :: "'k psops \<Rightarrow> string \<Rightarrow> int \<Rightarrow> (('k, 'm) net_scheme, unit) prog" where
  "qbSetPort P url port =
     bindP (send P (postForm (url @ ''/api/v2/app/setPreferences'') [(''json'', qbPort port)])) (\<lambda>resp.
     if fst resp \<noteq> 200 then unexpected (fst resp) ('', body='' @ bodyText resp) else ret ())"

definition qbExpected :: "int \<Rightarrow> string" where
  "qbExpected port = ''\"listen_port\":'' @ Itoa port"

definition qbVerifyPort :: "'k psops \<Rightarrow> string \<Rightarrow> int \<Rightarrow> (('k, 'm) net_scheme, unit) prog" where
  "qbVerifyPort P url port =
     bindP (send P (baseReq ''GET'' (url @ ''/api/v2/app/preferences''))) (\<lambda>resp.
     bindP (bodyOf resp) (\<lambda>body.
     if \<not> Contains body (qbExpected port)
     then throw (Errorf (''port not set (expected '' @ Itoa port @ '' in response)'') []) else ret ()))"

definition qbSync :: "'k psops \<Rightarrow> string \<Rightarrow> string \<Rightarrow> string \<Rightarrow> int \<Rightarrow> (('k, 'm) net_scheme, unit) prog" where
  "qbSync P url user pass port =
     bindP (wrapErr ''login'' (qbLogin P url user pass)) (\<lambda>_.
     bindP (wrapErr ''set port'' (qbSetPort P url port)) (\<lambda>_.
     wrapErr ''verify'' (qbVerifyPort P url port)))"

section \<open>Transmission (transmission.go)\<close>

definition trAuth :: "string \<Rightarrow> string \<Rightarrow> request \<Rightarrow> request" where
  "trAuth user pass rq = (if user \<noteq> [] then rq\<lparr>rqBasicAuth := Some (user, pass)\<rparr> else rq)"

definition sessionMarker :: string where
  "sessionMarker = ''X-Transmission-Session-Id: ''"

definition trGetSessionID :: "'k psops \<Rightarrow> string \<Rightarrow> string \<Rightarrow> string \<Rightarrow> (('k, 'm) net_scheme, string) prog" where
  "trGetSessionID P url user pass =
     bindP (send P (trAuth user pass (baseReq ''GET'' (url @ ''/transmission/rpc'')))) (\<lambda>resp.
     bindP (bodyOf resp) (\<lambda>body. case afterFirst sessionMarker body of
       None \<Rightarrow> throw (Errorf ''session ID not found in response'' [])
     | Some rest \<Rightarrow>
         (let id' = TrimSpace (takeWhile (\<lambda>c. c \<notin> {CHR ''<'', CHR 0x0A, CHR 0x0D}) rest) in
          if id' = [] then throw (Errorf ''empty session ID'' []) else ret id')))"

definition trBody :: "int \<Rightarrow> string" where
  "trBody port = ''{\"method\":\"session-set\",\"arguments\":{\"peer-port\":'' @ Itoa port @ ''}}''"

definition trSetPort :: "'k psops \<Rightarrow> string \<Rightarrow> string \<Rightarrow> string \<Rightarrow> string \<Rightarrow> int \<Rightarrow> (('k, 'm) net_scheme, unit) prog" where
  "trSetPort P url user pass session port =
     bindP (send P (trAuth user pass ((baseReq ''POST'' (url @ ''/transmission/rpc''))
        \<lparr>rqHeaders := [(''X-Transmission-Session-Id'', session), jsonHeader], rqBody := trBody port\<rparr>))) (\<lambda>resp.
     bindP (bodyOf resp) (\<lambda>body.
     if fst resp \<noteq> 200 then unexpected (fst resp) []
     else if \<not> Contains body ''\"result\":\"success\"'' then throw (Errorf (''no success in response: '' @ body) [])
     else ret ()))"

definition trSync :: "'k psops \<Rightarrow> string \<Rightarrow> string \<Rightarrow> string \<Rightarrow> int \<Rightarrow> (('k, 'm) net_scheme, unit) prog" where
  "trSync P url user pass port =
     bindP (wrapErr ''get session ID'' (trGetSessionID P url user pass)) (\<lambda>session.
     wrapErr ''set port'' (trSetPort P url user pass session port))"

section \<open>Deluge (deluge.go)\<close>

definition jsonEscape :: "string \<Rightarrow> string" where
  "jsonEscape s =
     (let s = ReplaceAll s (CHR 0x5C) [CHR 0x5C, CHR 0x5C]; s = ReplaceAll s (CHR 0x22) [CHR 0x5C, CHR 0x22];
          s = ReplaceAll s (CHR 0x0A) [CHR 0x5C, CHR ''n'']; s = ReplaceAll s (CHR 0x0D) [CHR 0x5C, CHR ''r'']
      in ReplaceAll s (CHR 0x09) [CHR 0x5C, CHR ''t''])"

definition rpc :: "'k psops \<Rightarrow> string \<Rightarrow> string \<Rightarrow> (('k, 'm) net_scheme, string) prog" where
  "rpc P url body =
     bindP (send P ((baseReq ''POST'' (url @ ''/json''))\<lparr>rqHeaders := [jsonHeader], rqBody := body\<rparr>)) (\<lambda>resp.
     bindP (bodyOf resp) (\<lambda>text.
     if fst resp \<noteq> 200 then unexpected (fst resp) [] else ret text))"

definition loginBody :: "string \<Rightarrow> string" where
  "loginBody pass = ''{\"method\":\"auth.login\",\"params\":[\"'' @ jsonEscape pass @ ''\"],\"id\":1}''"

definition deLogin :: "'k psops \<Rightarrow> string \<Rightarrow> string \<Rightarrow> (('k, 'm) net_scheme, unit) prog" where
  "deLogin P url pass =
     bindP (rpc P url (loginBody pass)) (\<lambda>resp.
     if \<not> Contains resp ''\"result\"'' \<or> Contains resp ''\"result\": false'' then throw (Errorf ''login failed'' []) else ret ())"

text \<open>The first text of 32 hexadecimal digits between quotes.\<close>

definition lowHex :: "char \<Rightarrow> bool" where
  "lowHex c \<longleftrightarrow> isDigit c \<or> c \<in> set ''abcdef''"

fun findHostID :: "string \<Rightarrow> string option" where
  "findHostID [] = None"
| "findHostID (c # s) = (if c = CHR 0x22 \<and> 33 \<le> length s \<and> list_all lowHex (take 32 s) \<and> s ! 32 = CHR 0x22
     then Some (take 32 s) else findHostID s)"

definition ensureConnected :: "'k psops \<Rightarrow> string \<Rightarrow> (('k, 'm) net_scheme, unit) prog" where
  "ensureConnected P url =
     bindP (rpc P url ''{\"method\":\"web.connected\",\"params\":[],\"id\":2}'') (\<lambda>resp.
     if Contains resp ''\"result\": true'' \<or> Contains resp ''\"result\":true'' then ret ()
     else bindP (wrapErr ''get hosts'' (rpc P url ''{\"method\":\"web.get_hosts\",\"params\":[],\"id\":3}'')) (\<lambda>hosts.
       case findHostID hosts of
         None \<Rightarrow> throw (Errorf ''no daemon hosts found'' [])
       | Some hostID \<Rightarrow>
           bindP (wrapErr ''connect to daemon''
             (rpc P url (''{\"method\":\"web.connect\",\"params\":[\"'' @ hostID @ ''\"],\"id\":4}''))) (\<lambda>_. ret ())))"

definition deBody :: "int \<Rightarrow> string" where
  "deBody port = ''{\"method\":\"core.set_config\",\"params\":[{\"listen_ports\":['' @ Itoa port @ '','' @ Itoa port @ '']}],\"id\":5}''"

definition deSetPort :: "'k psops \<Rightarrow> string \<Rightarrow> int \<Rightarrow> (('k, 'm) net_scheme, unit) prog" where
  "deSetPort P url port =
     bindP (rpc P url (deBody port)) (\<lambda>resp.
     if Contains resp ''\"error\"'' \<and> \<not> Contains resp ''\"error\": null'' \<and> \<not> Contains resp ''\"error\":null''
     then throw (Errorf (''error in response: '' @ resp) []) else ret ())"

definition deSync :: "'k psops \<Rightarrow> string \<Rightarrow> string \<Rightarrow> int \<Rightarrow> (('k, 'm) net_scheme, unit) prog" where
  "deSync P url pass port =
     bindP (wrapErr ''login'' (deLogin P url pass)) (\<lambda>_.
     bindP (wrapErr ''ensure connected'' (ensureConnected P url)) (\<lambda>_.
     wrapErr ''set port'' (deSetPort P url port)))"

section \<open>Synchronising a port\<close>

fun SyncPort :: "'k psops \<Rightarrow> client \<Rightarrow> int \<Rightarrow> (('k, 'm) net_scheme, unit) prog" where
  "SyncPort P (QBittorrent url user pass) port = qbSync P url user pass port"
| "SyncPort P (Transmission url user pass) port = trSync P url user pass port"
| "SyncPort P (Deluge url pass) port = deSync P url pass port"

text \<open>\<^verbatim>\<open>executeScript\<close> (command.go).\<close>

definition expanded :: "string \<Rightarrow> int \<Rightarrow> string" where
  "expanded script port = ReplaceText script ''{PORT}'' (Itoa port)"

definition executeScript :: "'k psops \<Rightarrow> string \<Rightarrow> int \<Rightarrow> (('k, 'm) net_scheme, unit) prog" where
  "executeScript P script port = runK (psShell P (expanded script port))"

text \<open>Only the methods that have not succeeded yet are tried.\<close>

definition attempt :: "bool \<Rightarrow> ('w, unit) prog \<Rightarrow> ('w, bool) prog" where
  "attempt ok m = (if ok then ret True else bindP (tryP m) (\<lambda>r. ret (r = Inr ())))"

definition trySync :: "'k psops \<Rightarrow> syncer \<Rightarrow> int \<Rightarrow> bool \<Rightarrow> bool \<Rightarrow> (('k, 'm) net_scheme, bool \<times> bool) prog" where
  "trySync P s port clientOK scriptOK =
     bindP (case syClient s of None \<Rightarrow> ret clientOK | Some c \<Rightarrow> attempt clientOK (SyncPort P c port)) (\<lambda>clientOK'.
     bindP (if syScript s = [] then ret scriptOK else attempt scriptOK (executeScript P (syScript s) port)) (\<lambda>scriptOK'.
     ret (clientOK', scriptOK')))"

text \<open>The loop of \<^verbatim>\<open>handleNewPort\<close>, which starts over with a port that arrives meanwhile.\<close>

partial_function (option) syncLoop ::
    "'k psops \<Rightarrow> syncer \<Rightarrow> int \<Rightarrow> bool \<Rightarrow> bool \<Rightarrow> ('k, 'm) net_scheme \<Rightarrow> ((err + unit) \<times> ('k, 'm) net_scheme) option" where
  "syncLoop P s port clientOK scriptOK w = (case psSelect P (kern w) of (ev, k) \<Rightarrow> (case ev of
       PsDone \<Rightarrow> Some (Inr (), w\<lparr>kern := k\<rparr>)
     | PsPort newPort \<Rightarrow> syncLoop P s newPort (syClient s = None) (syScript s = []) (w\<lparr>kern := k\<rparr>)
     | PsTimer \<Rightarrow> (case trySync P s port clientOK scriptOK (w\<lparr>kern := k\<rparr>) of
           None \<Rightarrow> None
         | Some (Inl e, w') \<Rightarrow> Some (Inl e, w')
         | Some (Inr (c, x), w') \<Rightarrow> if c \<and> x then Some (Inr (), w') else syncLoop P s port c x w')))"

definition handleNewPort :: "'k psops \<Rightarrow> syncer \<Rightarrow> int \<Rightarrow> (('k, 'm) net_scheme, unit) prog" where
  "handleNewPort P s port = syncLoop P s port (syClient s = None) (syScript s = [])"

text \<open>\<^verbatim>\<open>Run\<close>: outside a synchronisation there is no timer.\<close>

partial_function (option) runSyncer ::
    "'k psops \<Rightarrow> syncer \<Rightarrow> ('k, 'm) net_scheme \<Rightarrow> ((err + unit) \<times> ('k, 'm) net_scheme) option" where
  "runSyncer P s w = (case psSelect P (kern w) of (ev, k) \<Rightarrow> (case ev of
       PsDone \<Rightarrow> Some (Inr (), w\<lparr>kern := k\<rparr>)
     | PsTimer \<Rightarrow> runSyncer P s (w\<lparr>kern := k\<rparr>)
     | PsPort port \<Rightarrow> (case handleNewPort P s port (w\<lparr>kern := k\<rparr>) of
           None \<Rightarrow> None
         | Some (Inl e, w') \<Rightarrow> Some (Inl e, w')
         | Some (Inr _, w') \<Rightarrow> runSyncer P s w')))"

text \<open>\<^verbatim>\<open>NotifyPort\<close>: a port that waits in the channel is drained first.\<close>

definition NotifyPort :: "int \<Rightarrow> (('k, 'm) sw_scheme, unit) prog" where
  "NotifyPort port =
     bindP (modifyP (\<lambda>w. w\<lparr>portCh := None\<rparr>)) (\<lambda>_. modifyP (\<lambda>w. w\<lparr>portCh := Some port\<rparr>))"

section \<open>The contract of a synchronisation\<close>

text \<open>
  What the loop relies on. \<open>latest\<close> is the port received last, \<open>clientAt p\<close> and \<open>scriptAt p\<close> say
  that the client, or the script, has been given \<open>p\<close>; \<open>ticks\<close> bounds the events that are left
  before the context is cancelled.
\<close>

locale sync_host =
  fixes P :: "'k psops" and s :: syncer and clientAt scriptAt :: "int \<Rightarrow> 'k \<Rightarrow> bool"
    and latest :: "'k \<Rightarrow> int" and cancelled :: "'k \<Rightarrow> bool" and ticks :: "'k \<Rightarrow> nat"
  assumes recv: "psSelect P k = (PsPort p, k') \<Longrightarrow> latest k' = p"
    and timer: "psSelect P k = (PsTimer, k') \<Longrightarrow> latest k' = latest k \<and> clientAt p k' = clientAt p k \<and> scriptAt p k' = scriptAt p k"
    and gone: "psSelect P k = (PsDone, k') \<Longrightarrow> cancelled k'"
    and progress: "psSelect P k = (ev, k') \<Longrightarrow> ev \<noteq> PsDone \<Longrightarrow> ticks k' < ticks k"
    and exchange: "psDo P rq k = (r, k') \<Longrightarrow> latest k' = latest k \<and> ticks k' \<le> ticks k \<and> scriptAt p k' = scriptAt p k"
    and shell: "psShell P cmd k = (e, k') \<Longrightarrow> latest k' = latest k \<and> ticks k' \<le> ticks k \<and> clientAt p k' = clientAt p k"
    and client: "syClient s = Some c \<Longrightarrow> SyncPort P c p (w :: 'k net) = Some (Inr (), w') \<Longrightarrow> clientAt p (kern w')"
    and script: "psShell P (expanded (syScript s) p) k = (None, k') \<Longrightarrow> scriptAt p k'"
begin

definition steady :: "int \<Rightarrow> nat \<Rightarrow> (int \<Rightarrow> bool) \<Rightarrow> 'k net \<Rightarrow> bool" where
  "steady l t x w \<longleftrightarrow> latest (kern w) = l \<and> ticks (kern w) \<le> t \<and> (\<forall>p. scriptAt p (kern w) = x p)"

lemma keeps_send [intro]: "keeps (steady l t x) (send P rq)"
  unfolding send_def by (rule keepsI, rule wp_outK) (auto simp: steady_def dest: exchange)

lemma keeps_bodyOf [intro]: "keeps I (bodyOf resp)" "keeps I (unexpected status rest)"
  by (auto simp: bodyOf_def unexpected_def split: sum.split)

lemma keeps_rpc [intro]: "keeps (steady l t x) (rpc P url body)"
  unfolding rpc_def by (auto intro!: keeps_bindP)

lemma keeps_clients [intro]:
  "keeps (steady l t x) (qbSync P url user pass port)" "keeps (steady l t x) (trSync P url user pass port)"
  "keeps (steady l t x) (deSync P url pass port)"
proof -
  have "keeps (steady l t x) (qbLogin P url user pass)" "keeps (steady l t x) (qbSetPort P url port)"
    "keeps (steady l t x) (qbVerifyPort P url port)"
    unfolding qbLogin_def qbSetPort_def qbVerifyPort_def by (auto intro!: keeps_bindP)
  then show "keeps (steady l t x) (qbSync P url user pass port)" unfolding qbSync_def by (intro keeps_bindP keeps_wrapErr)
  have "keeps (steady l t x) (trGetSessionID P url user pass)" "keeps (steady l t x) (trSetPort P url user pass session port)" for session
    unfolding trGetSessionID_def trSetPort_def by (auto intro!: keeps_bindP split: option.split simp: Let_def)
  then show "keeps (steady l t x) (trSync P url user pass port)" unfolding trSync_def by (intro keeps_bindP keeps_wrapErr)
  have c: "keeps (steady l t x) (if b then ret () else m)" if "keeps (steady l t x) m" for b m using that by simp
  have "keeps (steady l t x) (deLogin P url pass)" "keeps (steady l t x) (deSetPort P url port)"
    unfolding deLogin_def deSetPort_def by (intro keeps_bindP keeps_rpc; simp)+
  moreover have "keeps (steady l t x) (ensureConnected P url)"
    unfolding ensureConnected_def by (intro keeps_bindP keeps_rpc keeps_wrapErr c) (auto intro!: keeps_bindP keeps_wrapErr split: option.split)
  ultimately show "keeps (steady l t x) (deSync P url pass port)" unfolding deSync_def by (intro keeps_bindP keeps_wrapErr)
qed

lemma keeps_SyncPort: "keeps (steady l t x) (SyncPort P c port)"
  by (cases c) auto

text \<open>One try: what it reports as done is done.\<close>

definition synced :: "int \<Rightarrow> bool \<Rightarrow> bool \<Rightarrow> 'k net \<Rightarrow> bool" where
  "synced port clientOK scriptOK w \<longleftrightarrow> latest (kern w) = port \<and> (clientOK \<longrightarrow> syClient s = None \<or> clientAt port (kern w)) \<and>
     (scriptOK \<longrightarrow> syScript s = [] \<or> scriptAt port (kern w))"

lemma wp_attempt:
  assumes "ok \<Longrightarrow> Q (Inr True) w" and "\<not> ok \<Longrightarrow> wp m (\<lambda>r w'. Q (Inr (r = Inr ())) w') w"
  shows "wp (attempt ok m) Q w"
  using assms by (simp add: attempt_def)

text \<open>What is left alone by a try from \<open>w\<close>, and by one that tries the client only.\<close>

definition tried :: "int \<Rightarrow> 'k net \<Rightarrow> bool \<Rightarrow> 'k net \<Rightarrow> bool" where
  "tried port w c w' \<longleftrightarrow> steady (latest (kern w)) (ticks (kern w)) (\<lambda>p. scriptAt p (kern w)) w' \<and>
     (c \<longrightarrow> syClient s = None \<or> clientAt port (kern w'))"

lemma wp_tryClient:
  assumes "synced port c x w"
  shows "wp (case syClient s of None \<Rightarrow> ret c | Some cl \<Rightarrow> attempt c (SyncPort P cl port))
    (\<lambda>r w'. \<exists>c'. r = Inr c' \<and> tried port w c' w') w"
proof (cases "syClient s")
  case (Some cl)
  obtain r w' where r: "SyncPort P cl port w = Some (r, w')"
    "steady (latest (kern w)) (ticks (kern w)) (\<lambda>p. scriptAt p (kern w)) w'"
    using keeps_run [OF keeps_SyncPort, of "latest (kern w)" "ticks (kern w)" "\<lambda>p. scriptAt p (kern w)" w cl port]
    by (auto simp: steady_def)
  have "tried port w (r = Inr ()) w'" using r client [OF Some, of port w w'] by (auto simp: tried_def)
  moreover have "c \<Longrightarrow> tried port w c w" using assms by (simp add: tried_def synced_def steady_def)
  ultimately show ?thesis
    unfolding Some option.case by (intro wp_attempt) (auto simp: wp_def r(1))
qed (use assms in \<open>simp add: tried_def steady_def synced_def\<close>)

lemma wp_tryScript:
  assumes "synced port c x w" and "tried port w c' w'"
  shows "wp (if syScript s = [] then ret x else attempt x (executeScript P (syScript s) port))
    (\<lambda>r w''. \<exists>x'. r = Inr x' \<and> ticks (kern w'') \<le> ticks (kern w) \<and> synced port c' x' w'') w'"
proof (cases "syScript s = [] \<or> x")
  case True
  then have "synced port c' x w'" "ticks (kern w') \<le> ticks (kern w)"
    using assms by (auto simp: tried_def steady_def synced_def)
  then show ?thesis using True by (auto intro!: wp_attempt)
next
  case False
  obtain e k where e: "psShell P (expanded (syScript s) port) (kern w') = (e, k)" by fastforce
  have "synced port c' (e = None) (w'\<lparr>kern := k\<rparr>)" "ticks k \<le> ticks (kern w)"
    using assms shell [OF e, of port] script [of port "kern w'" k] e by (auto simp: tried_def steady_def synced_def)
  then show ?thesis using False e
    by (cases e) (simp_all add: attempt_def executeScript_def wp_def [of "runK f" for f] runK_def)
qed

lemma wp_trySync:
  assumes "synced port c x w"
  shows "wp (trySync P s port c x) (\<lambda>r w'. ticks (kern w') \<le> ticks (kern w) \<and> (\<exists>c' x'. r = Inr (c', x') \<and> synced port c' x' w')) w"
  unfolding trySync_def wp_bindP
proof (rule wp_conseq [OF wp_tryClient [OF assms]], elim exE conjE)
  fix r w' c' assume "r = Inr c'" and t: "tried port w c' w'"
  then show "case r of Inl e \<Rightarrow> ticks (kern w') \<le> ticks (kern w) \<and> (\<exists>c'' x'. Inl e = Inr (c'', x') \<and> synced port c'' x' w')
     | Inr a \<Rightarrow> wp (if syScript s = [] then ret x else attempt x (executeScript P (syScript s) port))
        (\<lambda>r w'. case r of Inl e \<Rightarrow> ticks (kern w') \<le> ticks (kern w) \<and> (\<exists>c' x'. Inl e = Inr (c', x') \<and> synced port c' x' w')
          | Inr x' \<Rightarrow> wp (ret (a, x')) (\<lambda>r w'. ticks (kern w') \<le> ticks (kern w) \<and> (\<exists>c' x'. r = Inr (c', x') \<and> synced port c' x' w')) w') w'"
    unfolding \<open>r = Inr c'\<close> sum.case by (intro wp_conseq [OF wp_tryScript [OF assms t]]) auto
qed

lemma wp_syncLoop:
  assumes "synced port c x w"
  shows "wp (syncLoop P s port c x) (\<lambda>r w'. r = Inr () \<and> (cancelled (kern w') \<or>
    synced (latest (kern w')) True True w')) w"
  using assms
proof (induction "ticks (kern w)" arbitrary: port c x w rule: less_induct)
  case less
  obtain ev k where ev: "psSelect P (kern w) = (ev, k)" by fastforce
  show ?case
  proof (cases ev)
    case PsDone
    then show ?thesis using ev gone [of "kern w" k] by (simp add: syncLoop.simps [of _ _ _ _ _ w] wp_def)
  next
    case (PsPort p)
    have "synced p (syClient s = None) (syScript s = []) (w\<lparr>kern := k\<rparr>)"
      using recv [OF ev [unfolded PsPort]] by (simp add: synced_def)
    then show ?thesis using less(1) [of "w\<lparr>kern := k\<rparr>"] ev PsPort progress [OF ev]
      by (simp add: syncLoop.simps [of _ _ _ _ _ w] wp_def)
  next
    case PsTimer
    have "synced port c x (w\<lparr>kern := k\<rparr>)"
      using less(2) timer [OF ev [unfolded PsTimer]] by (simp add: synced_def)
    from wp_trySync [OF this] obtain c' x' w' where t: "trySync P s port c x (w\<lparr>kern := k\<rparr>) = Some (Inr (c', x'), w')"
      "synced port c' x' w'" "ticks (kern w') \<le> ticks k" by (auto simp: wp_iff)
    have "ticks (kern w') < ticks (kern w)" using t(3) progress [OF ev] PsTimer by simp
    with less(1) [OF this t(2)] t show ?thesis
      by (auto simp: syncLoop.simps [of _ _ _ _ _ w] wp_def ev PsTimer synced_def)
  qed
qed

lemma handleNewPort_latest:
  fixes w :: "'k net"
  assumes "latest (kern w) = port"
  shows "\<exists>w'. handleNewPort P s port w = Some (Inr (), w') \<and> (cancelled (kern w') \<or>
    (syClient s \<noteq> None \<longrightarrow> clientAt (latest (kern w')) (kern w')) \<and> (syScript s \<noteq> [] \<longrightarrow> scriptAt (latest (kern w')) (kern w')))"
proof -
  have "synced port (syClient s = None) (syScript s = []) w" using assms by (simp add: synced_def)
  from wp_syncLoop [OF this] show ?thesis by (auto simp: handleNewPort_def wp_iff synced_def)
qed

end

section \<open>A reference host\<close>

text \<open>
  A host with the events to come, the last body that was posted, the last command that
  succeeded, and how it answers requests and commands.
\<close>

record tk =
  tkEvents :: "psEvent list"
  tkLatest :: int
  tkGone :: bool
  tkPosted :: string
  tkRan :: string
  tkShell :: "err option list"

definition refTP :: "(request \<Rightarrow> err + response) \<Rightarrow> tk psops" where
  "refTP ans = \<lparr>psDo = (\<lambda>rq k. (ans rq, if rqMethod rq = ''POST'' then k\<lparr>tkPosted := rqBody rq\<rparr> else k)),
     psShell = (\<lambda>cmd k. (case tkShell k of
         [] \<Rightarrow> (None, k\<lparr>tkRan := cmd\<rparr>)
       | e # es \<Rightarrow> (e, k\<lparr>tkShell := es, tkRan := (if e = None then cmd else tkRan k)\<rparr>))),
     psSelect = (\<lambda>k. (case tkEvents k of
         [] \<Rightarrow> (PsDone, k\<lparr>tkGone := True\<rparr>)
       | ev # evs \<Rightarrow> (ev, k\<lparr>tkEvents := evs, tkLatest := (case ev of PsPort p \<Rightarrow> p | _ \<Rightarrow> tkLatest k),
            tkGone := (ev = PsDone)\<rparr>)))\<rparr>"

text \<open>The text that tells a client its port.\<close>

fun portText :: "client \<Rightarrow> int \<Rightarrow> string" where
  "portText (QBittorrent _ _ _) p = Encode [(''json'', qbPort p)]"
| "portText (Transmission _ _ _) p = trBody p"
| "portText (Deluge _ _) p = deBody p"

lemma Some_bindP:
  assumes "bindP m f w = Some (Inr x, w')"
  obtains a w1 where "m w = Some (Inr a, w1)" "f a w1 = Some (Inr x, w')"
  using assms by (auto simp: bindP_def split: option.splits sum.splits)

lemma Some_wrapErr: "wrapErr msg m w = Some (Inr x, w') \<longleftrightarrow> m w = Some (Inr x, w')"
  by (auto simp: wrapErr_def split: option.splits sum.splits)

lemma send_posts: "send (refTP ans) rq w = Some (r, w') \<Longrightarrow> rqMethod rq = ''POST'' \<Longrightarrow> tkPosted (kern w') = rqBody rq"
  by (auto simp: send_def outK_def refTP_def)

lemma refTP_rpc: "rpc (refTP ans) url body w = Some (Inr r, w') \<Longrightarrow> tkPosted (kern w') = body"
  by (auto simp: rpc_def bodyOf_def unexpected_def ret_def throw_def baseReq_def elim!: Some_bindP dest!: send_posts
      split: sum.splits if_splits)

lemma refTP_client:
  assumes "SyncPort (refTP ans) c p w = Some (Inr (), w')"
  shows "tkPosted (kern w') = portText c p"
proof (cases c)
  case (QBittorrent url user pass)
  have v: "qbVerifyPort (refTP ans) url p w1 = Some (Inr u, w2) \<Longrightarrow> tkPosted (kern w2) = tkPosted (kern w1)" for u w1 w2
    by (auto simp: qbVerifyPort_def send_def outK_def refTP_def baseReq_def bodyOf_def ret_def throw_def elim!: Some_bindP
        split: sum.splits if_splits)
  have p: "qbSetPort (refTP ans) url p w1 = Some (Inr u, w2) \<Longrightarrow> tkPosted (kern w2) = portText c p" for u w1 w2
    by (auto simp: qbSetPort_def QBittorrent postForm_def baseReq_def unexpected_def ret_def throw_def elim!: Some_bindP dest!: send_posts
        split: if_splits)
  show ?thesis using assms unfolding QBittorrent SyncPort.simps qbSync_def
    by (elim Some_bindP) (simp only: Some_wrapErr, drule p, drule v, simp add: QBittorrent)
next
  case (Transmission url user pass)
  have "trSetPort (refTP ans) url user pass se p w1 = Some (Inr (), w2) \<Longrightarrow> tkPosted (kern w2) = portText c p" for se w1 w2
    by (auto simp: trSetPort_def Transmission trAuth_def baseReq_def bodyOf_def unexpected_def ret_def throw_def elim!: Some_bindP
        dest!: send_posts split: sum.splits if_splits)
  then show ?thesis using assms unfolding Transmission SyncPort.simps trSync_def
    by (elim Some_bindP) (simp add: Some_wrapErr)
next
  case (Deluge url pass)
  have "deSetPort (refTP ans) url p w1 = Some (Inr (), w2) \<Longrightarrow> tkPosted (kern w2) = portText c p" for w1 w2
    by (auto simp: deSetPort_def Deluge ret_def throw_def elim!: Some_bindP dest!: refTP_rpc split: if_splits)
  then show ?thesis using assms unfolding Deluge SyncPort.simps deSync_def
    by (elim Some_bindP) (simp add: Some_wrapErr)
qed

definition tkClientAt :: "syncer \<Rightarrow> int \<Rightarrow> tk \<Rightarrow> bool" where
  "tkClientAt s p k \<longleftrightarrow> (case syClient s of None \<Rightarrow> True | Some c \<Rightarrow> tkPosted k = portText c p)"

interpretation reft: sync_host "refTP ans" s "tkClientAt s" "\<lambda>p k. tkRan k = expanded (syScript s) p" tkLatest tkGone
    "\<lambda>k. length (tkEvents k)" for ans s
proof unfold_locales
  show "tkClientAt s p (kern w')" if "syClient s = Some c" "SyncPort (refTP ans) c p w = Some (Inr (), w')" for c p w w'
    using refTP_client [OF that(2)] that(1) by (simp add: tkClientAt_def)
qed (auto simp: refTP_def tkClientAt_def split: list.splits if_splits option.splits)

section \<open>Texts\<close>

lemma ReplaceAll_map: "ReplaceAll s c new = concat (map (\<lambda>x. if x = c then new else [x]) s)"
  by (simp add: ReplaceAll_def)

lemma jsonEscape_chars: "jsonEscape s = concat (map escChar s)"
proof (induction s)
  case (Cons c s)
  have "jsonEscape (c # s) = jsonEscape [c] @ jsonEscape s" by (simp add: jsonEscape_def)
  moreover have "jsonEscape [c] = escChar c" by (simp add: jsonEscape_def escChar_def quoteC_def backslash_def)
  ultimately show ?case using Cons by simp
qed (simp add: jsonEscape_def)

text \<open>The check of qBittorrent compares the beginning of the number only.\<close>

lemma verify_accepts_longer:
  assumes "psDo P (baseReq ''GET'' (url @ ''/api/v2/app/preferences'')) (kern w) = (Inr (200, Inr (qbPort (10 * port + d))), k)"
    and "0 < port" "0 \<le> d" "d < 10"
  shows "qbVerifyPort P url port w = Some (Inr (), w\<lparr>kern := k\<rparr>)"
proof -
  have "Itoa (10 * port + d) = Itoa port @ [digitChar (nat d)]"
    using assms(2-4) ItoaN.simps [of "nat (10 * port + d)"] by (simp add: Itoa_def nat_add_distrib nat_mult_distrib)
  then have "qbPort (10 * port + d) = ''{'' @ qbExpected port @ [digitChar (nat d)] @ ''}''"
    by (simp add: qbPort_def qbExpected_def)
  then have "Contains (qbPort (10 * port + d)) (qbExpected port)"
    unfolding Contains_def by (metis sublist_appendI)
  then show ?thesis
    using assms(1) by (simp add: qbVerifyPort_def send_def bindP_def outK_def bodyOf_def ret_def)
qed

section \<open>Properties\<close>

text \<open>
  C18. The latest port wins. Handling a new port ends once the context is cancelled at the latest;
  unless it is cancelled, the client and the script have both been given the port that was
  received last, whichever ports arrived meanwhile and whichever attempts failed.
\<close>

theorem latest_port_wins:
  fixes w :: "'k net"
  assumes "sync_host P s clientAt scriptAt latest cancelled ticks" and "latest (kern w) = port"
  shows "\<exists>w'. handleNewPort P s port w = Some (Inr (), w') \<and> (cancelled (kern w') \<or>
    (syClient s \<noteq> None \<longrightarrow> clientAt (latest (kern w')) (kern w')) \<and> (syScript s \<noteq> [] \<longrightarrow> scriptAt (latest (kern w')) (kern w')))"
  using assms by (rule sync_host.handleNewPort_latest)

definition demoSync :: syncer where
  "demoSync = newSyncer \<lparr>psClient = ''trans'', psURL = [], psUser = [], psPass = [], psScript = ''echo {PORT}''\<rparr>"

definition demoTorrent :: "tk net" where
  "demoTorrent = \<lparr>kern = \<lparr>tkEvents = [PsTimer, PsPort 5000, PsTimer, PsTimer], tkLatest = 4000, tkGone = False, tkPosted = [],
     tkRan = [], tkShell = [Some (Errorf ''exit status 1'' [])]\<rparr>\<rparr>"

definition demoAnswer :: "request \<Rightarrow> err + response" where
  "demoAnswer rq = (if rqMethod rq = ''GET'' then Inr (409, Inr (sessionMarker @ ''abc'')) else Inr (200, Inr ''{\"result\":\"success\"}''))"

theorem latest_port_wins_witness:
  "\<exists>w'. handleNewPort (refTP demoAnswer) demoSync 4000 demoTorrent = Some (Inr (), w') \<and> (tkGone (kern w') \<or>
     (syClient demoSync \<noteq> None \<longrightarrow> tkClientAt demoSync (tkLatest (kern w')) (kern w')) \<and>
     (syScript demoSync \<noteq> [] \<longrightarrow> tkRan (kern w') = expanded (syScript demoSync) (tkLatest (kern w'))))"
  by (rule latest_port_wins [OF reft.sync_host_axioms]) (simp add: demoTorrent_def)

text \<open>
  A password reaches Deluge as it is. The login request is valid JSON for every password of
  printable characters, tabs and line breaks, whatever quotes and backslashes it has, and it
  decodes to that password.
\<close>

lemma deluge_login_roundtrip:
  assumes "jsonable pass"
  shows "decodeJSON (loginBody pass) = Some (JObj [(''method'', JStr ''auth.login''), (''params'', JArr [JStr pass]), (''id'', JNum ''1'')])"
proof -
  let ?s = "loginBody pass"
  have "5 \<le> 2 * length ?s" by (simp add: loginBody_def)
  then obtain m where m: "2 * length ?s = Suc (Suc (Suc (Suc (Suc m))))"
    by (auto simp: le_iff_add eval_nat_numeral)
  show ?thesis
    using strBody_escaped [OF assms]
    by (simp add: decodeJSON_def m loginBody_def jsonEscape_chars skipSpace_def quoteC_def HasPrefix_def val_def backslash_def
        parseAtom_def numToken_def validNumber_def validFrac_def validExp_def TrimPrefix_def isDigit_def)
qed

lemma deluge_login_roundtrip_witness:
  "decodeJSON (loginBody ''a\"b'') = Some (JObj [(''method'', JStr ''auth.login''), (''params'', JArr [JStr ''a\"b'']), (''id'', JNum ''1'')])"
  by (rule deluge_login_roundtrip) (simp add: jsonable_def val_def)

end
