(* ===== verification/GoTime.thy ===== *)
theory GoTime
  imports GoBytes "HOL-Library.Word" "HOL-Library.Monad_Syntax"
begin

text \<open>
  What the code uses of Go's \<^verbatim>\<open>time\<close>: parsing a time in the layout \<^verbatim>\<open>time.RFC3339\<close>. An instant is a
  number of nanoseconds since the beginning of 1970.
\<close>

text \<open>An integer as \<^verbatim>\<open>int64\<close> holds it, and the product of a count and a unit of \<^verbatim>\<open>time.Duration\<close>.\<close>

definition wrap64 :: "int \<Rightarrow> int" where
  "wrap64 i = sint (word_of_int i :: 64 word)"

definition durationOf :: "int \<Rightarrow> int \<Rightarrow> int" where
  "durationOf n unit = wrap64 (n * unit)"

lemma wrap64_id: "inInt64 i \<Longrightarrow> wrap64 i = i"
  by (simp add: wrap64_def inInt64_def sint_sbintrunc' signed_take_bit_int_eq_self)

section \<open>The calendar\<close>

definition leapYear :: "nat \<Rightarrow> bool" where
  "leapYear y \<longleftrightarrow> y mod 4 = 0 \<and> (y mod 100 \<noteq> 0 \<or> y mod 400 = 0)"

definition daysIn :: "nat \<Rightarrow> nat \<Rightarrow> nat" where
  "daysIn y m = (if m = 2 then (if leapYear y then 29 else 28) else if m \<in> {4, 6, 9, 11} then 30 else 31)"

text \<open>The days of the years before \<open>y\<close>, counted from the year 0.\<close>

definition yearDays :: "nat \<Rightarrow> int" where
  "yearDays y = 365 * int y + int ((y + 3) div 4) - int ((y + 99) div 100) + int ((y + 399) div 400)"

definition unixDay :: "nat \<Rightarrow> nat \<Rightarrow> nat \<Rightarrow> int" where
  "unixDay y m d = yearDays y + int (sum_list (map (daysIn y) [1..<m])) + int d - 1 - 719528"

definition instant :: "nat \<Rightarrow> nat \<Rightarrow> nat \<Rightarrow> nat \<Rightarrow> nat \<Rightarrow> nat \<Rightarrow> int" where
  "instant y m d h mi s = (unixDay y m d * 86400 + int h * 3600 + int mi * 60 + int s) * 1000000000"

text \<open>The reference for \<open>yearDays\<close>: a year is as long as its months.\<close>

lemma yearDays_step: "yearDays (Suc y) = yearDays y + int (\<Sum>m \<leftarrow> [1..<13]. daysIn y m)"
proof -
  have s: "(\<Sum>m \<leftarrow> [1..<13]. daysIn y m) = (if leapYear y then 366 else 365)"
    by (simp add: upt_rec daysIn_def)
  have k: "Suc (y + n) div Suc n = (y + n) div Suc n + (if y mod Suc n = 0 then 1 else 0)" for n
    using div_Suc [of "y + n" "Suc n"] mod_add_self2 [of y "Suc n"] by simp
  note d = k [of 3, simplified] k [of 99, simplified] k [of 399, simplified]
  have "y mod 400 = 0 \<Longrightarrow> y mod 100 = 0" "y mod 100 = 0 \<Longrightarrow> y mod 4 = 0" by auto
  then show ?thesis unfolding s yearDays_def leapYear_def by (simp add: d)
qed

section \<open>Parsing\<close>

definition getDigits :: "nat \<Rightarrow> string \<Rightarrow> (nat \<times> string) option" where
  "getDigits k s = (if k \<le> length s \<and> list_all isDigit (take k s) then Some (valDigits (take k s), drop k s) else None)"

text \<open>An hour may have one digit.\<close>

definition getHour :: "string \<Rightarrow> (nat \<times> string) option" where
  "getHour s = (case getDigits 2 s of Some x \<Rightarrow> Some x | None \<Rightarrow> getDigits 1 s)"

definition getLit :: "char \<Rightarrow> string \<Rightarrow> string option" where
  "getLit c s = (if s \<noteq> [] \<and> hd s = c then Some (tl s) else None)"

definition check :: "bool \<Rightarrow> unit option" where
  "check b = (if b then Some () else None)"

text \<open>Fractional seconds, which need not be in the layout: nanoseconds, the digits after the ninth dropped.\<close>

definition fraction :: "string \<Rightarrow> nat \<times> string" where
  "fraction s = (if 2 \<le> length s \<and> hd s \<in> {CHR ''.'', CHR '',''} \<and> isDigit (s ! 1)
     then (let f = takeWhile isDigit (tl s); g = take 9 f in (valDigits g * 10 ^ (9 - length g), drop (length f) (tl s)))
     else (0, s))"

text \<open>The offset from UTC in seconds.\<close>

definition zone :: "string \<Rightarrow> (int \<times> string) option" where
  "zone s = (case s of [] \<Rightarrow> None | c # t \<Rightarrow>
     if c = CHR ''Z'' then Some (0, t)
     else if c = CHR ''+'' \<or> c = CHR ''-'' then do {
       (h, t) \<leftarrow> getDigits 2 t;
       t \<leftarrow> getLit (CHR '':'') t;
       (m, t) \<leftarrow> getDigits 2 t;
       check (h \<le> 24 \<and> m \<le> 60);
       Some ((if c = CHR ''-'' then -1 else 1) * (int h * 3600 + int m * 60), t)
     } else None)"

definition ParseRFC3339 :: "string \<Rightarrow> int option" where
  "ParseRFC3339 s = do {
     (y, s) \<leftarrow> getDigits 4 s; s \<leftarrow> getLit (CHR ''-'') s;
     (m, s) \<leftarrow> getDigits 2 s; s \<leftarrow> getLit (CHR ''-'') s;
     (d, s) \<leftarrow> getDigits 2 s; s \<leftarrow> getLit (CHR ''T'') s;
     (h, s) \<leftarrow> getHour s; s \<leftarrow> getLit (CHR '':'') s;
     (mi, s) \<leftarrow> getDigits 2 s; s \<leftarrow> getLit (CHR '':'') s;
     (sec, s) \<leftarrow> getDigits 2 s;
     let (ns, s) = fraction s;
     (off, s) \<leftarrow> zone s;
     check (s = [] \<and> 1 \<le> m \<and> m \<le> 12 \<and> 1 \<le> d \<and> d \<le> daysIn y m \<and> h < 24 \<and> mi < 60 \<and> sec < 60);
     Some (instant y m d h mi sec - off * 1000000000 + int ns)
   }"

section \<open>Times are parsed as printed\<close>

definition pad2 :: "nat \<Rightarrow> string" where
  "pad2 n = [digitChar (n div 10), digitChar (n mod 10)]"

definition pad4 :: "nat \<Rightarrow> string" where
  "pad4 n = pad2 (n div 100) @ pad2 (n mod 100)"

definition dateTime :: "nat \<Rightarrow> nat \<Rightarrow> nat \<Rightarrow> nat \<Rightarrow> nat \<Rightarrow> nat \<Rightarrow> string" where
  "dateTime y m d h mi s = pad4 y @ ''-'' @ pad2 m @ ''-'' @ pad2 d @ ''T'' @ pad2 h @ '':'' @ pad2 mi @ '':'' @ pad2 s"

definition validTime :: "nat \<Rightarrow> nat \<Rightarrow> nat \<Rightarrow> nat \<Rightarrow> nat \<Rightarrow> nat \<Rightarrow> bool" where
  "validTime y m d h mi s \<longleftrightarrow> y < 10000 \<and> 1 \<le> m \<and> m \<le> 12 \<and> 1 \<le> d \<and> d \<le> daysIn y m \<and> h < 24 \<and> mi < 60 \<and> s < 60"

lemma getDigits_pad2 [simp]: "n < 100 \<Longrightarrow> getDigits 2 (pad2 n @ r) = Some (n, r)"
  by (simp add: getDigits_def pad2_def valDigits_def numeral_2_eq_2)

lemma getDigits_pad4 [simp]: "n < 10000 \<Longrightarrow> getDigits 4 (pad4 n @ r) = Some (n, r)"
proof -
  assume "n < 10000"
  moreover have "valDigits (pad2 a @ pad2 b) = 100 * a + b" if "a < 100" "b < 100" for a b
    using that by (simp add: valDigits_def pad2_def)
  ultimately have "valDigits (pad4 n) = n" by (simp add: pad4_def)
  moreover have "list_all isDigit (pad4 n)" "length (pad4 n) = 4" using \<open>n < 10000\<close> by (simp_all add: pad4_def pad2_def)
  ultimately show ?thesis by (simp add: getDigits_def)
qed

lemma getLit_Cons [simp]: "getLit c (c # s) = Some s"
  by (simp add: getLit_def)

lemma ParseRFC3339_dateTime:
  assumes "validTime y m d h mi s"
  shows "ParseRFC3339 (dateTime y m d h mi s @ ''Z'') = Some (instant y m d h mi s)"
proof -
  have "daysIn y m \<le> 31" by (simp add: daysIn_def)
  then have "m < 100" "d < 100" "h < 100" "mi < 100" "s < 100" "y < 10000" using assms by (auto simp: validTime_def)
  moreover have "fraction ''Z'' = (0, ''Z'')" "zone ''Z'' = Some (0, [])" by (simp_all add: fraction_def zone_def)
  ultimately show ?thesis
    using assms by (simp add: ParseRFC3339_def dateTime_def getHour_def check_def validTime_def)
qed

lemma dateTime_length: "length (dateTime y m d h mi s) = 19"
  by (simp add: dateTime_def pad4_def pad2_def)

end
