(* ===== verification/PortForward.thy ===== *)
theory PortForward
  imports PortSync GoTime Killswitch
begin

text \<open>
  Port forwarding (\<^verbatim>\<open>internal/portforward\<close>): the signature PIA grants, the payload that names the
  port, the bind that keeps it alive, and what is done with the port. The HTTPS exchange with
  the gateway, the certificate pool, the clock and the timers are parameters: time passes
  between two readings of the clock, which the world holds as \<open>now\<close>. Log lines are left out.
\<close>

section \<open>State (portforward.go)\<close>

record pfConfig =
  pfEnabled :: bool
  BindInterval :: int
  SignatureSafetyHours :: int
  PortFile :: string

record pfConnection =
  pcClientIP :: string
  pcServerCN :: string
  pcPFGateway :: string

record 'k pw = "'k sw" +
  pfPort :: int
  pfPayload :: string
  pfSignature :: string
  pfExpiresAt :: int
  pfBindTime :: int
  portFile :: fileState

definition retryInterval :: int where "retryInterval = 15 * second"
definition portBindDuration :: int where "portBindDuration = 20 * 60 * second"
definition hour :: int where "hour = 3600 * second"

text \<open>
  \<open>pGet cn url\<close>: the text of an error, or an answer whose body may fail to be read; \<open>pElapsed\<close>: the
  time since the clock was read last; \<open>pSelect rest\<close>: what the \<^verbatim>\<open>select\<close> over the retry interval,
  a deadline that is \<open>rest\<close> away and the context picked, and how long it took; \<open>pTicker\<close>: the
  next tick, or the error of the context.
\<close>

record 'k pfops =
  pGet :: "string \<Rightarrow> string \<Rightarrow> 'k \<Rightarrow> (string + (err + string)) \<times> 'k"
  pCert :: "'k \<Rightarrow> err option \<times> 'k"
  pElapsed :: "'k \<Rightarrow> nat \<times> 'k"
  pSelect :: "int \<Rightarrow> 'k \<Rightarrow> (wait \<times> nat) \<times> 'k"
  pTicker :: "'k \<Rightarrow> err option \<times> 'k"

definition clock :: "'k pfops \<Rightarrow> (('k, 'm) cw_scheme, int) prog" where
  "clock P = readClock (pElapsed P)"

section \<open>The gateway (client.go)\<close>

record signatureResponse =
  srStatus :: string
  srMessage :: string
  srPayload :: string
  srSignature :: string

datatype apiError = ApiError (aeOperation: string) (aeStatus: string) (aeMessage: string)

definition apiErrorText :: "apiError \<Rightarrow> string" where
  "apiErrorText e = aeOperation e @ '' failed: status='' @ aeStatus e @
     (if aeMessage e \<noteq> [] then '', message='' @ aeMessage e else [])"

definition preview :: "nat \<Rightarrow> string \<Rightarrow> string" where
  "preview n s = (if length s > n then take n s @ ''...'' else s)"

definition decodeSignature :: "string \<Rightarrow> signatureResponse option" where
  "decodeSignature body = (case decodeJSON body of None \<Rightarrow> None | Some v \<Rightarrow>
     (case (stringField ''status'' v, stringField ''message'' v, stringField ''payload'' v, stringField ''signature'' v) of
        (Some st, Some msg, Some pl, Some sig) \<Rightarrow> Some \<lparr>srStatus = st, srMessage = msg, srPayload = pl, srSignature = sig\<rparr>
      | _ \<Rightarrow> None))"

definition decodeBind :: "string \<Rightarrow> (string \<times> string) option" where
  "decodeBind body = (case decodeJSON body of None \<Rightarrow> None | Some v \<Rightarrow>
     (case (stringField ''status'' v, stringField ''message'' v) of (Some st, Some msg) \<Rightarrow> Some (st, msg) | _ \<Rightarrow> None))"

definition gatewayURL :: "pfConnection \<Rightarrow> string \<Rightarrow> (string \<times> string) list \<Rightarrow> string" where
  "gatewayURL conn path params = ''https://'' @ pcPFGateway conn @ '':19999/'' @ path @ ''?'' @ Encode params"

definition invalidJSON :: err where "invalidJSON = Errorf ''invalid JSON'' []"

text \<open>An answer of the API that is not OK is a value, so that the retry loop can tell it from an error.\<close>

definition getSignature :: "'k pfops \<Rightarrow> pfConnection \<Rightarrow> (('k, 'm) pw_scheme, apiError + signatureResponse) prog" where
  "getSignature P conn =
     bindP GetToken (\<lambda>token.
     bindP (askK (pGet P (pcServerCN conn) (gatewayURL conn ''getSignature'' [(''token'', token)]))) (\<lambda>resp. case resp of
       Inl msg \<Rightarrow> throw (Errorf (ReplaceText msg (QueryEscape token) (QueryEscape (preview 8 token))) [])
     | Inr (Inl e) \<Rightarrow> throw (Errorf ''failed to read response'' [e])
     | Inr (Inr body) \<Rightarrow>
         (if body = [] then throw (Errorf ''empty response'' [])
          else case decodeSignature body of
            None \<Rightarrow> throw invalidJSON
          | Some sig \<Rightarrow> ret (if srStatus sig \<noteq> ''OK'' then Inl (ApiError ''getSignature'' (srStatus sig) (srMessage sig)) else Inr sig))))"

definition bindPort :: "'k pfops \<Rightarrow> pfConnection \<Rightarrow> string \<Rightarrow> string \<Rightarrow> (('k, 'm) pw_scheme, apiError + unit) prog" where
  "bindPort P conn payload signature =
     bindP (askK (pGet P (pcServerCN conn) (gatewayURL conn ''bindPort'' [(''payload'', payload), (''signature'', signature)]))) (\<lambda>resp.
     case resp of
       Inl msg \<Rightarrow>
         (let msg = ReplaceText msg (QueryEscape payload) (QueryEscape (preview 16 payload));
              msg = ReplaceText msg (QueryEscape signature) (QueryEscape (preview 12 signature))
          in throw (Errorf (''request failed: '' @ msg) []))
     | Inr (Inl e) \<Rightarrow> throw (Errorf ''failed to read response'' [e])
     | Inr (Inr body) \<Rightarrow>
         (if body = [] then throw (Errorf ''empty response from bindport'' [])
          else case decodeBind body of
            None \<Rightarrow> throw invalidJSON
          | Some (st, msg) \<Rightarrow> ret (if st \<noteq> ''OK'' then Inl (ApiError ''bindPort'' st msg) else Inr ())))"

text \<open>
  The loop of \<^verbatim>\<open>retryWithDeadline\<close>: an answer of the API ends it, another error waits for the
  retry interval unless the deadline or the context comes first.
\<close>

definition pause :: "'k pfops \<Rightarrow> int \<Rightarrow> ('k, 'm) pw_scheme \<Rightarrow> wait \<times> ('k, 'm) pw_scheme" where
  "pause P deadline w = (let (d, k1) = pElapsed P (kern w); t = now w + int d; ((ev, el), k2) = pSelect P (deadline - t) k1
     in (ev, w\<lparr>kern := k2, now := t + int el\<rparr>))"

partial_function (option) retryLoop ::
    "'k pfops \<Rightarrow> string \<Rightarrow> (('k, 'm) pw_scheme, apiError + 'a) prog \<Rightarrow> int \<Rightarrow> ('k, 'm) pw_scheme \<Rightarrow> ((err + 'a) \<times> ('k, 'm) pw_scheme) option" where
  "retryLoop P op fn deadline w = (case fn w of
       None \<Rightarrow> None
     | Some (Inr (Inr x), w1) \<Rightarrow> Some (Inr x, w1)
     | Some (Inr (Inl api), w1) \<Rightarrow> Some (Inl (Errorf (op @ '' API error'') [Errorf (apiErrorText api) []]), w1)
     | Some (Inl e, w1) \<Rightarrow> (case pause P deadline w1 of (ev, w2) \<Rightarrow> (case ev of
           Tick \<Rightarrow> retryLoop P op fn deadline w2
         | Deadline \<Rightarrow> Some (Inl (Errorf (''failed to '' @ op @ '': port bind expiring soon'') []), w2)
         | CtxDone e' \<Rightarrow> Some (Inl e', w2))))"

definition retryWithDeadline ::
    "'k pfops \<Rightarrow> string \<Rightarrow> (('k, 'm) pw_scheme, apiError + 'a) prog \<Rightarrow> (('k, 'm) pw_scheme, 'a) prog" where
  "retryWithDeadline P op fn = bindP (getsP pfBindTime) (\<lambda>b. retryLoop P op fn (b + portBindDuration))"

definition getSignatureWithRetry :: "'k pfops \<Rightarrow> pfConnection \<Rightarrow> (('k, 'm) pw_scheme, signatureResponse) prog" where
  "getSignatureWithRetry P conn =
     bindP (clock P) (\<lambda>_. bindP TokenFresh (\<lambda>(fresh, tokenAge).
     if \<not> fresh then throw (Errorf ''token expired'' [])
     else retryWithDeadline P ''getSignature'' (getSignature P conn)))"

definition bindOnce :: "'k pfops \<Rightarrow> pfConnection \<Rightarrow> string \<Rightarrow> string \<Rightarrow> (('k, 'm) pw_scheme, apiError + unit) prog" where
  "bindOnce P conn payload signature = bindP (bindPort P conn payload signature) (\<lambda>r. case r of
       Inl api \<Rightarrow> ret (Inl api)
     | Inr _ \<Rightarrow> bindP (clock P) (\<lambda>t. bindP (modifyP (\<lambda>w. w\<lparr>pfBindTime := t\<rparr>)) (\<lambda>_. ret (Inr ()))))"

definition bindPortWithRetry :: "'k pfops \<Rightarrow> pfConnection \<Rightarrow> string \<Rightarrow> string \<Rightarrow> (('k, 'm) pw_scheme, unit) prog" where
  "bindPortWithRetry P conn payload signature = retryWithDeadline P ''bindPort'' (bindOnce P conn payload signature)"

definition parsePayload :: "string \<Rightarrow> err + (int \<times> int)" where
  "parsePayload payloadB64 = (case b64Decode payloadB64 of
       None \<Rightarrow> Inl (Errorf ''failed to decode payload'' [])
     | Some decoded \<Rightarrow> (case decodeJSON decoded of
         None \<Rightarrow> Inl (Errorf ''failed to parse payload JSON'' [])
       | Some v \<Rightarrow> (case (intField ''port'' v, stringField ''expires_at'' v) of
           (Some port, Some expiresStr) \<Rightarrow>
             (let expiresStr' = (if length expiresStr > 20 \<and> last expiresStr = CHR ''Z''
                    then hd (SplitN2 (CHR ''.'') expiresStr) @ ''Z'' else expiresStr)
              in case ParseRFC3339 expiresStr' of
                None \<Rightarrow> Inl (Errorf ''failed to parse expires_at'' [])
              | Some expiresAt \<Rightarrow> Inr (port, expiresAt))
         | _ \<Rightarrow> Inl (Errorf ''failed to parse payload JSON'' []))))"

section \<open>Acquiring and announcing\<close>

definition acquirePort :: "'k pfops \<Rightarrow> pfConnection \<Rightarrow> (('k, 'm) pw_scheme, unit) prog" where
  "acquirePort P conn =
     bindP (getSignatureWithRetry P conn) (\<lambda>resp. case parsePayload (srPayload resp) of
       Inl e \<Rightarrow> throw e
     | Inr (port, expiresAt) \<Rightarrow>
         (if port = 0 then throw (Errorf ''port is zero after parsing'' [])
          else bindP (modifyP (\<lambda>w. w\<lparr>pfPort := port, pfPayload := srPayload resp, pfSignature := srSignature resp, pfExpiresAt := expiresAt\<rparr>)) (\<lambda>_.
            bindPortWithRetry P conn (srPayload resp) (srSignature resp))))"

definition writePort :: "int \<Rightarrow> (('k, 'm) pw_scheme, unit) prog" where
  "writePort port = WriteFile (\<lambda>f. portFile_update (\<lambda>_. f)) (Itoa port)"

text \<open>\<open>sy\<close> tells whether there is a syncer to pass the port to.\<close>

definition announcePort :: "'k netops \<Rightarrow> bool \<Rightarrow> (('k, 'm) pw_scheme, unit) prog" where
  "announcePort N sy =
     bindP (getsP pfPort) (\<lambda>port.
     bindP (ignoreP (AllowForwardedPort N port)) (\<lambda>_.
     bindP (ignoreP (writePort port)) (\<lambda>_.
     bindP (updStats (UpdatePortForwarding True port)) (\<lambda>_.
     if sy then NotifyPort port else ret ()))))"

definition teardown :: "'k netops \<Rightarrow> pfConnection \<Rightarrow> (('k, 'm) pw_scheme, unit) prog" where
  "teardown N conn =
     bindP (RemovePFRoute N (pcPFGateway conn)) (\<lambda>_.
     bindP (RemoveForwardedPort N) (\<lambda>_.
     updStats (UpdatePortForwarding False 0)))"

section \<open>The run of a connection\<close>

text \<open>A failure tears the forwarding down and asks for a reconnection.\<close>

definition orTeardown :: "'k netops \<Rightarrow> pfConnection \<Rightarrow> (('k, 'm) pw_scheme, unit) prog \<Rightarrow> (('k, 'm) pw_scheme, unit) prog" where
  "orTeardown N conn m = bindP (tryP m) (\<lambda>r. case r of
       Inr _ \<Rightarrow> ret ()
     | Inl e \<Rightarrow> bindP (teardown N conn) (\<lambda>_. throw (Errorf '': '' [e, Sentinel ErrReconnect])))"

text \<open>What a tick does: the signature is renewed when it is about to expire, else the port is bound again.\<close>

definition onTick :: "'k netops \<Rightarrow> 'k pfops \<Rightarrow> bool \<Rightarrow> pfConfig \<Rightarrow> pfConnection \<Rightarrow> (('k, 'm) pw_scheme, unit) prog" where
  "onTick N P sy cfg conn =
     bindP (clock P) (\<lambda>t.
     bindP (getsP (\<lambda>w. (pfExpiresAt w, pfPayload w, pfSignature w))) (\<lambda>(expiresAt, payload, signature).
     if durationOf (SignatureSafetyHours cfg) hour > Since t expiresAt
     then bindP (orTeardown N conn (acquirePort P conn)) (\<lambda>_. announcePort N sy)
     else orTeardown N conn (bindPortWithRetry P conn payload signature)))"

partial_function (option) keepAlive ::
    "'k netops \<Rightarrow> 'k pfops \<Rightarrow> bool \<Rightarrow> pfConfig \<Rightarrow> pfConnection \<Rightarrow> ('k, 'm) pw_scheme \<Rightarrow> ((err + unit) \<times> ('k, 'm) pw_scheme) option" where
  "keepAlive N P sy cfg conn w = (case pTicker P (kern w) of (x, k) \<Rightarrow> (case x of
       Some _ \<Rightarrow> teardown N conn (w\<lparr>kern := k\<rparr>)
     | None \<Rightarrow> (case onTick N P sy cfg conn (w\<lparr>kern := k\<rparr>) of
           None \<Rightarrow> None
         | Some (Inl e, w') \<Rightarrow> Some (Inl e, w')
         | Some (Inr _, w') \<Rightarrow> keepAlive N P sy cfg conn w')))"

text \<open>A ticker with an interval that is not positive panics.\<close>

definition pfRun :: "'k netops \<Rightarrow> 'k pfops \<Rightarrow> bool \<Rightarrow> pfConfig \<Rightarrow> pfConnection \<Rightarrow> (('k, 'm) pw_scheme, unit) prog" where
  "pfRun N P sy cfg conn =
     (if pcPFGateway conn = [] then throw (Errorf ''port forwarding unavailable: no pf gateway'' [])
      else bindP (tryP (AddPFRoute N (pcPFGateway conn))) (\<lambda>r. case r of
        Inl _ \<Rightarrow> throw (Errorf ''failed to add pf gateway route'' [])
      | Inr _ \<Rightarrow>
          bindP (runK (pCert P)) (\<lambda>_.
          bindP (clock P) (\<lambda>t.
          bindP (modifyP (\<lambda>w. w\<lparr>pfPort := 0, pfPayload := [], pfSignature := [], pfExpiresAt := zeroTime,
              pfBindTime := t - portBindDuration + 60 * second\<rparr>)) (\<lambda>_.
          bindP (orTeardown N conn (acquirePort P conn)) (\<lambda>_.
          bindP (announcePort N sy) (\<lambda>_.
          if BindInterval cfg \<le> 0 then throw (panic ''non-positive interval for NewTicker'')
          else keepAlive N P sy cfg conn)))))))"

section \<open>Payloads\<close>

text \<open>The text of a payload, with a time that may have a fraction.\<close>

definition payloadText :: "int \<Rightarrow> string \<Rightarrow> string" where
  "payloadText port expires = ''{\"port\":'' @ Itoa port @ '',\"expires_at\":\"'' @ expires @ ''\"}''"

lemma decode_payloadText:
  assumes "\<forall>c \<in> set expires. 32 \<le> val c \<and> c \<noteq> quoteC \<and> c \<noteq> backslash"
  shows "decodeJSON (payloadText port expires) = Some (JObj [(''port'', JNum (Itoa port)), (''expires_at'', JStr expires)])"
proof -
  let ?s = "payloadText port expires"
  have "6 \<le> 2 * length ?s" by (simp add: payloadText_def)
  then obtain n where n: "2 * length ?s = Suc (Suc (Suc (Suc (Suc (Suc n)))))"
    by (auto simp: le_iff_add eval_nat_numeral)
  have sk: "skipSpace (Itoa port @ r) = Itoa port @ r" for r
  proof -
    obtain h t where h: "Itoa port = h # t" "isDigit h \<or> h = CHR ''-''"
      using ItoaN_hd by (cases "Itoa port") (auto simp: Itoa_def split: if_splits, metis list.sel(1))
    then show ?thesis by (auto simp: skipSpace_def isDigit_def)
  qed
  have v: "parseValue (Suc k) (Itoa port @ CHR '','' # r) = Some (JNum (Itoa port), CHR '','' # r)" for k r
  proof -
    obtain h t where h: "Itoa port = h # t" "isDigit h \<or> h = CHR ''-''"
      using ItoaN_hd by (cases "Itoa port") (auto simp: Itoa_def split: if_splits, metis list.sel(1))
    then have "h \<noteq> quoteC" "h \<noteq> CHR ''{''" "h \<noteq> CHR ''[''" by (auto simp: isDigit_def quoteC_def)
    then show ?thesis using sk [of "CHR '','' # r"] parseAtom_Itoa [of "CHR '',''" port r] h by (simp add: isDigit_def)
  qed
  have c: "skipSpace (x # t) = (if x \<in> {CHR 0x20, CHR 0x09, CHR 0x0A, CHR 0x0D} then skipSpace t else x # t)" "skipSpace [] = []" for x t
    by (simp_all add: skipSpace_def)
  have p: "parseValue (Suc k) (CHR 0x22 # t) = map_option (\<lambda>(b, r). (JStr b, r)) (strBody t)"
    "parseValue (Suc k) (CHR ''{'' # CHR 0x22 # t) = map_option (\<lambda>(ms, r). (JObj ms, r)) (parseMembers k (CHR 0x22 # t))" for k t
    by (simp_all add: skipSpace_def quoteC_def HasPrefix_def del: parseMembers.simps)
  show ?thesis
    using strBody_plain [OF assms, of "''}''"] unfolding decodeJSON_def n
    by (simp add: payloadText_def c p v quoteC_def HasPrefix_def val_def backslash_def del: parseValue.simps)
qed


definition fractionText :: "string \<Rightarrow> bool" where
  "fractionText f \<longleftrightarrow> f = [] \<or> hd f = CHR ''.'' \<and> list_all isDigit (tl f)"

text \<open>
  C38. The payload reads back. What the gateway grants, a port and the time until which it holds,
  with or without a fraction of a second, is what \<open>parsePayload\<close> gives: the port itself, whatever
  it is, and that instant without its fraction.
\<close>

theorem payload_roundtrip:
  assumes "inInt64 port" and "validTime y m d h mi s" and "fractionText f"
  shows "parsePayload (b64Encode (payloadText port (dateTime y m d h mi s @ f @ ''Z''))) = Inr (port, instant y m d h mi s)"
proof -
  let ?e = "dateTime y m d h mi s @ f @ ''Z''"
  have b: "daysIn y m \<le> 31" by (simp add: daysIn_def)
  have dig: "c \<in> set (pad2 n) \<Longrightarrow> n < 100 \<Longrightarrow> isDigit c" for c n by (auto simp: pad2_def)
  have dc: "isDigit c \<or> c \<in> set ''-:T''" if "c \<in> set (dateTime y m d h mi s)" for c
    using that assms(2) b by (auto simp: dateTime_def pad4_def validTime_def intro: dig)
  have nd: "CHR ''.'' \<notin> set (dateTime y m d h mi s)" using dc by (fastforce simp: isDigit_def)
  have ch: "32 \<le> val c \<and> c \<noteq> quoteC \<and> c \<noteq> backslash" if "isDigit c \<or> c \<in> set ''-:T.Z''" for c
    using that by (auto simp: isDigit_def val_def quoteC_def backslash_def)
  have fd: "isDigit c \<or> c = CHR ''.''" if "c \<in> set f" for c
    using that assms(3) by (cases f) (auto simp: fractionText_def list_all_iff)
  have "\<forall>c \<in> set ?e. isDigit c \<or> c \<in> set ''-:T.Z''" using dc fd by auto
  then have dec: "decodeJSON (payloadText port ?e) = Some (JObj [(''port'', JNum (Itoa port)), (''expires_at'', JStr ?e)])"
    using ch by (intro decode_payloadText) blast
  have tr: "(if length ?e > 20 \<and> last ?e = CHR ''Z'' then hd (SplitN2 (CHR ''.'') ?e) @ ''Z'' else ?e) = dateTime y m d h mi s @ ''Z''"
  proof (cases "f = []")
    case False
    then obtain g where "f = CHR ''.'' # g" using assms(3) by (cases f) (auto simp: fractionText_def)
    then show ?thesis using nd by (simp add: SplitN2_append dateTime_length)
  qed (simp add: dateTime_length)
  have "intField ''port'' (JObj [(''port'', JNum (Itoa port)), (''expires_at'', JStr ?e)]) = Some port"
    "stringField ''expires_at'' (JObj [(''port'', JNum (Itoa port)), (''expires_at'', JStr ?e)]) = Some ?e"
    by (simp_all add: intField_def stringField_def field_def fieldsOf_def asInt_def asString_def ParseInt_Itoa [OF assms(1)] toLower_def)
  then show ?thesis
    by (simp only: parsePayload_def b64_roundtrip option.case dec prod.case tr ParseRFC3339_dateTime [OF assms(2)] Let_def)
qed

theorem payload_roundtrip_witness:
  "parsePayload (b64Encode (payloadText 47823 (dateTime 2026 2 28 12 30 59 @ ''.123456789'' @ ''Z''))) = Inr (47823, instant 2026 2 28 12 30 59)"
  by (rule payload_roundtrip) (simp_all add: inInt64_def validTime_def fractionText_def daysIn_def leapYear_def isDigit_def)

end
