(* ===== verification/PortRun.thy ===== *)
theory PortRun
  imports PortForward HostKillswitch Verify
begin

text \<open>
  What the run of a connection with port forwarding (\<open>PortForward\<close>) guarantees: the retries are
  bounded, every consumer is told the same port, and the run leaves the firewall, the routes and
  the metrics as if no port had been forwarded.
\<close>

lemma bindP_assoc: "bindP (bindP m f) g = bindP m (\<lambda>x. bindP (f x) g)"
  by (rule ext) (simp add: bindP_def split: option.split sum.split)

section \<open>Retries\<close>

text \<open>The number of attempts that fit before a deadline, one right away and one after each interval.\<close>

definition attempts :: "int \<Rightarrow> nat" where
  "attempts rest = (if rest \<le> 0 then 1 else Suc (nat ((rest + retryInterval - 1) div retryInterval)))"

lemma attempts_pos: "1 \<le> attempts r"
  by (simp add: attempts_def)

lemma attempts_mono: "a \<le> b \<Longrightarrow> attempts a \<le> attempts b"
proof -
  assume "a \<le> b"
  then have "(a + retryInterval - 1) div retryInterval \<le> (b + retryInterval - 1) div retryInterval"
    by (intro zdiv_mono1) (auto simp: retryInterval_def second_def)
  with \<open>a \<le> b\<close> show ?thesis by (auto simp: attempts_def)
qed

lemma attempts_step: "0 < r \<Longrightarrow> Suc (attempts (r - retryInterval)) \<le> attempts r"
proof -
  assume r: "0 < r"
  have p: "0 < retryInterval" by (simp add: retryInterval_def second_def)
  have "(r - retryInterval + retryInterval - 1) div retryInterval + 1 = (r + retryInterval - 1) div retryInterval"
    using p div_add_self2 [of retryInterval "r - 1"] by (simp add: algebra_simps)
  moreover have "0 \<le> (r - 1) div retryInterval" using r p by (simp add: pos_imp_zdiv_nonneg_iff)
  ultimately show ?thesis using r by (auto simp: attempts_def nat_add_distrib)
qed

definition paces :: "'k pfops \<Rightarrow> bool" where
  "paces P \<longleftrightarrow> (\<forall>rest k el k'. pSelect P rest k = ((Tick, el), k') \<longrightarrow> 0 < rest \<and> retryInterval \<le> int el)"

lemma pausedD: "paces P \<Longrightarrow> pSelect P rest k = ((Tick, el), k') \<Longrightarrow> 0 < rest \<and> retryInterval \<le> int el"
  unfolding paces_def by blast

text \<open>\<open>I\<close> is what holds between attempts, \<open>calls\<close> what they may add up.\<close>

lemma wp_retryLoop:
  assumes "paces P"
    and fn: "\<And>w. I w \<Longrightarrow> wp fn (\<lambda>r w'. I w' \<and> calls w' \<le> Suc (calls w) \<and> now w \<le> now w') w"
    and p: "\<And>w ev w'. I w \<Longrightarrow> pause P d w = (ev, w') \<Longrightarrow> I w' \<and> calls w' \<le> (calls w :: nat)"
    and "I w"
  shows "wp (retryLoop P op fn d) (\<lambda>r w'. I w' \<and> calls w' \<le> calls w + attempts (d - now w)) w"
  using assms(4)
proof (induction "nat (d - now w)" arbitrary: w rule: less_induct)
  case less
  from fn [OF less(2)] obtain r w1 where f: "fn w = Some (r, w1)" "I w1" "calls w1 \<le> Suc (calls w)" "now w \<le> now w1"
    by (auto simp: wp_iff)
  have c1: "calls w1 \<le> calls w + attempts (d - now w)" using f(3) attempts_pos [of "d - now w"] by simp
  show ?case
  proof (cases r)
    case (Inr x)
    then show ?thesis using f c1 by (cases x) (simp_all add: retryLoop.simps [of _ _ _ _ w] wp_def)
  next
    case (Inl e)
    obtain ev w2 where pa: "pause P d w1 = (ev, w2)" by fastforce
    have 2: "I w2" "calls w2 \<le> calls w1" using p [OF f(2) pa] by auto
    show ?thesis
    proof (cases ev)
      case Tick
      obtain el k1 el' k2 where t: "pElapsed P (kern w1) = (el, k1)" "pSelect P (d - (now w1 + int el)) k1 = ((Tick, el'), k2)"
        "w2 = w1\<lparr>kern := k2, now := now w1 + int el + int el'\<rparr>"
        using pa Tick by (auto simp: pause_def Let_def split: prod.splits)
      have n: "0 < d - now w" "d - now w2 \<le> (d - now w) - retryInterval"
        using pausedD [OF assms(1) t(2)] t(3) f(4) by auto
      have "nat (d - now w2) < nat (d - now w)" using n by (simp add: retryInterval_def second_def)
      from less(1) [OF this 2(1)]
      have "wp (retryLoop P op fn d) (\<lambda>r w'. I w' \<and> calls w' \<le> calls w2 + attempts (d - now w2)) w2" .
      moreover have "calls w2 + attempts (d - now w2) \<le> calls w + attempts (d - now w)"
        using 2(2) f(3) attempts_mono [OF n(2)] attempts_step [OF n(1)] by linarith
      ultimately show ?thesis
        using f pa Inl Tick by (auto simp: retryLoop.simps [of _ _ _ _ w] wp_iff)
    qed (use f pa Inl 2 c1 in \<open>simp_all add: retryLoop.simps [of _ _ _ _ w] wp_def\<close>)
  qed
qed

section \<open>What the run relies on\<close>

text \<open>Rules none of which is for a forwarded port.\<close>

definition portFree :: "spec list \<Rightarrow> bool" where
  "portFree rs \<longleftrightarrow> (\<forall>proto port. portSpec proto port \<notin> set rs)"

locale pf_host = netfilter_host N V R H
  for N :: "'k netops" and V :: "'k \<Rightarrow> chains" and R :: "'k \<Rightarrow> iprules" and H :: "'k \<Rightarrow> bool" +
  fixes P :: "'k pfops" and ticks :: "'k \<Rightarrow> nat"
  assumes get_quiet: "quiet (undisturbed V R H) (pGet P cn url)" and get_ticks: "quiet (\<lambda>k k'. ticks k' \<le> ticks k) (pGet P cn url)"
    and cert_quiet: "quiet (undisturbed V R H) (pCert P)"
    and elapsed_quiet: "quiet (undisturbed V R H) (pElapsed P)" and elapsed_ticks: "quiet (\<lambda>k k'. ticks k' \<le> ticks k) (pElapsed P)"
    and select_quiet: "quiet (undisturbed V R H) (pSelect P rest)" and select_ticks: "quiet (\<lambda>k k'. ticks k' \<le> ticks k) (pSelect P rest)"
    and select_paces: "paces P"
    and ticker_quiet: "quiet (undisturbed V R H) (pTicker P)"
    and ticker: "pTicker P k = (None, k') \<Longrightarrow> ticks k' < ticks k"
    and insert_ticks: "quiet (\<lambda>k k'. ticks k' \<le> ticks k) (nInsert N f t c n s)"
    and delete_ticks: "quiet (\<lambda>k k'. ticks k' \<le> ticks k) (nDelete N f t c s)"

text \<open>The host undisturbed, no later tick, the firewall's bookkeeping and the metrics as they were.\<close>

definition calm :: "('k \<Rightarrow> chains) \<Rightarrow> ('k \<Rightarrow> iprules) \<Rightarrow> ('k \<Rightarrow> bool) \<Rightarrow> ('k \<Rightarrow> nat) \<Rightarrow> ('k, 'm) pw_scheme \<Rightarrow> ('k, 'm) pw_scheme \<Rightarrow> bool" where
  "calm v r h tk w0 w \<longleftrightarrow> undisturbed v r h (kern w0) (kern w) \<and> tk (kern w) \<le> tk (kern w0) \<and>
     activePort w = activePort w0 \<and> active w = active w0 \<and> stats w = stats w0 \<and> portCh w = portCh w0 \<and> portFile w = portFile w0"

lemma calm_refl [simp]: "calm v r h tk w w"
  by (simp add: calm_def)

lemma calm_trans: "calm v r h tk w0 w1 \<Longrightarrow> calm v r h tk w1 w2 \<Longrightarrow> calm v r h tk w0 w2"
  by (auto simp: calm_def undisturbed_def)

context pf_host
begin

abbreviation still :: "('k, 'm) pw_scheme \<Rightarrow> ('k, 'm) pw_scheme \<Rightarrow> bool" where
  "still \<equiv> calm V R H ticks"

lemma still_kern: "still w0 w \<Longrightarrow> undisturbed V R H (kern w) k' \<Longrightarrow> ticks k' \<le> ticks (kern w) \<Longrightarrow> still w0 (w\<lparr>kern := k'\<rparr>)"
  by (auto simp: calm_def undisturbed_def)

text \<open>Both laws of a step at once.\<close>

definition near :: "'k \<Rightarrow> 'k \<Rightarrow> bool" where
  "near k k' \<longleftrightarrow> undisturbed V R H k k' \<and> ticks k' \<le> ticks k"

lemma elapsed: "pElapsed P k = (a, k') \<Longrightarrow> near k k'"
  by (simp add: near_def quietD [OF elapsed_quiet] quietD [OF elapsed_ticks])

lemma select: "pSelect P rest k = (a, k') \<Longrightarrow> near k k'"
  by (simp add: near_def quietD [OF select_quiet] quietD [OF select_ticks])

lemma near_trans: "near k k1 \<Longrightarrow> near k1 k2 \<Longrightarrow> near k k2"
  by (auto simp: near_def undisturbed_def)

lemma still_near [simp]: "near (kern w) k' \<Longrightarrow> still w0 w \<Longrightarrow> still w0 (w\<lparr>kern := k', now := t\<rparr>)"
  by (auto simp: calm_def undisturbed_def near_def)

lemma still_get: "keeps (\<lambda>w. still w0 w \<and> pfPort w = p \<and> t0 \<le> now w) (askK (pGet P cn url))"
  by (rule keepsI) (auto intro!: wp_askK still_kern dest: quietD [OF get_quiet] quietD [OF get_ticks])

lemma still_clock: "keeps (\<lambda>w. still w0 w \<and> pfPort w = p \<and> t0 \<le> now w) (clock P)"
  unfolding clock_def by (rule keepsI) (auto intro!: wp_readClock dest!: elapsed)

lemma wp_clock: "still w0 w \<Longrightarrow> (\<And>t w'. still w0 w' \<Longrightarrow> Q (Inr t) w') \<Longrightarrow> wp (clock P) Q w"
  unfolding clock_def by (auto intro!: wp_readClock dest!: elapsed)

lemma still_getSignature: "keeps (\<lambda>w. still w0 w \<and> pfPort w = p \<and> t0 \<le> now w) (getSignature P conn)"
  unfolding getSignature_def GetToken_def
  by (intro keeps_bindP keeps_getsP still_get) (auto split: sum.splits option.splits)

lemma still_bindOnce: "keeps (\<lambda>w. still w0 w \<and> pfPort w = p \<and> t0 \<le> now w) (bindOnce P conn payload signature)"
proof -
  have "keeps (\<lambda>w. still w0 w \<and> pfPort w = p \<and> t0 \<le> now w) (bindPort P conn payload signature)"
    unfolding bindPort_def by (intro keeps_bindP still_get) (auto simp: Let_def split: sum.splits option.splits)
  moreover have "keeps (\<lambda>w. still w0 w \<and> pfPort w = p \<and> t0 \<le> now w) (modifyP (\<lambda>w. w\<lparr>pfBindTime := t\<rparr>))" for t
    by (rule keepsI) (simp add: calm_def)
  ultimately show ?thesis unfolding bindOnce_def
    by (intro keeps_bindP) (auto intro!: keeps_bindP still_clock split: sum.splits)
qed

lemma still_retry:
  assumes "\<And>w0 t0. keeps (\<lambda>w. still w0 w \<and> pfPort w = p \<and> t0 \<le> now w) fn"
  shows "keeps (\<lambda>w. still w0 w \<and> pfPort w = p) (retryWithDeadline P op fn)"
proof -
  have "wp (retryLoop P op fn d) (\<lambda>_ w'. still w0 w' \<and> pfPort w' = p) w" if "still w0 w \<and> pfPort w = p" for d w
  proof (rule wp_conseq [OF wp_retryLoop [where calls = "\<lambda>_. 0" and I = "\<lambda>w. still w0 w \<and> pfPort w = p", OF select_paces]])
    fix w1 assume "still w0 w1 \<and> pfPort w1 = p"
    then show "wp fn (\<lambda>r w'. (still w0 w' \<and> pfPort w' = p) \<and> 0 \<le> Suc 0 \<and> now w1 \<le> now w') w1"
      by (intro wp_keeps [OF assms [of w0 "now w1"]]) auto
  next
    fix w1 ev w2 assume "still w0 w1 \<and> pfPort w1 = p" "pause P d w1 = (ev, w2)"
    then show "(still w0 w2 \<and> pfPort w2 = p) \<and> 0 \<le> (0 :: nat)"
      by (auto simp: pause_def Let_def split: prod.splits dest!: elapsed select intro!: still_near intro: near_trans)
  qed (use that in auto)
  then show ?thesis unfolding retryWithDeadline_def by (auto intro!: keepsI)
qed

lemma keeps_still:
  assumes "\<And>p t0. keeps (\<lambda>w. still w0 w \<and> pfPort w = p \<and> t0 \<le> now w) m"
  shows "keeps (\<lambda>w. still w0 w \<and> pfPort w = p) m"
proof (rule keepsI)
  fix w assume "still w0 w \<and> pfPort w = p"
  then show "wp m (\<lambda>_ w. still w0 w \<and> pfPort w = p) w" by (intro wp_keeps [OF assms [of p "now w"]]) auto
qed

lemma still_sigRetry: "keeps (\<lambda>w. still w0 w \<and> pfPort w = p) (getSignatureWithRetry P conn)"
  unfolding getSignatureWithRetry_def TokenFresh_def
  by (intro keeps_bindP keeps_still [OF still_clock] keeps_getsP) (auto intro: still_retry still_getSignature split: prod.splits)

lemma still_bindRetry: "keeps (\<lambda>w. still w0 w \<and> pfPort w = p) (bindPortWithRetry P conn payload signature)"
  unfolding bindPortWithRetry_def by (rule still_retry [OF still_bindOnce])

lemma wp_bindRetry: "still w0 w \<Longrightarrow> wp (bindPortWithRetry P conn payload signature) (\<lambda>r w'. still w0 w' \<and> pfPort w' = pfPort w) w"
  by (rule keepsD [OF still_bindRetry [of w0 "pfPort w"]]) simp

lemma wp_acquire: "still w0 w \<Longrightarrow> wp (acquirePort P conn) (\<lambda>r w'. still w0 w' \<and> (\<forall>u. r = Inr u \<longrightarrow> pfPort w' \<noteq> 0)) w"
  unfolding acquirePort_def
proof (rule wp_keeps_bindP [OF still_sigRetry [of w0 "pfPort w"]])
  fix resp w1 assume 1: "still w0 w1 \<and> pfPort w1 = pfPort w"
  show "wp (case parsePayload (srPayload resp) of Inl e \<Rightarrow> throw e
      | Inr (port, expiresAt) \<Rightarrow> (if port = 0 then throw (Errorf ''port is zero after parsing'' [])
          else bindP (modifyP (\<lambda>w. w\<lparr>pfPort := port, pfPayload := srPayload resp, pfSignature := srSignature resp, pfExpiresAt := expiresAt\<rparr>)) (\<lambda>_.
            bindPortWithRetry P conn (srPayload resp) (srSignature resp))))
       (\<lambda>r w'. still w0 w' \<and> (\<forall>u. r = Inr u \<longrightarrow> pfPort w' \<noteq> 0)) w1"
  proof (cases "parsePayload (srPayload resp)")
    case (Inr pe)
    obtain port ex where pe: "pe = (port, ex)" by fastforce
    let ?w2 = "w1\<lparr>pfPort := port, pfPayload := srPayload resp, pfSignature := srSignature resp, pfExpiresAt := ex\<rparr>"
    have "still w0 ?w2" using 1 by (simp add: calm_def)
    from wp_bindRetry [OF this, of conn "srPayload resp" "srSignature resp"] show ?thesis
      using 1 Inr pe by (auto elim: wp_conseq)
  qed (use 1 in simp)
qed simp_all

section \<open>The firewall while a port is forwarded\<close>

text \<open>
  \<open>L\<close>: the routes are \<open>r1\<close>, and the chains are \<open>v0\<close>, whose input chain is the baseline and \<open>rs\<close>,
  but for the rules of the active port.
\<close>

definition forwards :: "chains \<Rightarrow> spec list \<Rightarrow> iprules \<Rightarrow> ('k, 'm) pw_scheme \<Rightarrow> bool" where
  "forwards v0 rs r1 w \<longleftrightarrow> H (kern w) \<and> R (kern w) = r1 \<and>
     (\<exists>rs'. V (kern w) = v0((IPv4, tableFilter, ChainIn) \<mapsto> estSpec # loSpec inDef # rs') \<and> withoutPort (activePort w) rs' = rs)"

lemma withoutPort_free: "portFree rs \<Longrightarrow> withoutPort p rs = rs"
  by (simp add: portFree_def withoutPort_def remove1_idem)

lemma withoutPort_new: "p \<noteq> 0 \<Longrightarrow> portFree rs \<Longrightarrow> withoutPort p (portSpec ''udp'' p # portSpec ''tcp'' p # rs) = rs"
  by (simp add: withoutPort_def portSpec_def)

lemma forwards_still: "forwards v0 rs r1 w \<Longrightarrow> still w w' \<Longrightarrow> forwards v0 rs r1 w'"
  by (auto simp: forwards_def calm_def undisturbed_def)

lemma forwards_kern: "kern w' = kern w \<Longrightarrow> activePort w' = activePort w \<Longrightarrow> forwards v0 rs r1 w \<Longrightarrow> forwards v0 rs r1 w'"
  by (simp add: forwards_def)

lemma keeps_ticks_allow: "keeps (\<lambda>w. ticks (kern w) \<le> n) (AllowForwardedPort N port)"
proof -
  have t: "transp (\<lambda>k k'. ticks k' \<le> ticks k)" by (rule transpI) simp
  have "keeps (\<lambda>w. ticks (kern w) \<le> n) (runK (nDelete N f t c s))" "keeps (\<lambda>w. ticks (kern w) \<le> n) (runK (nInsert N f t c i s))" for f t c s i
    by (rule keepsI, auto intro!: wp_runK dest!: quietD [OF delete_ticks] quietD [OF insert_ticks])+
  moreover have "keeps (\<lambda>w. ticks (kern w) \<le> n) (modifyP (activePort_update (\<lambda>_. port)))" by (rule keepsI) simp
  ultimately show ?thesis unfolding AllowForwardedPort_def RemoveForwardedPort_def
    by (intro keeps_bindP keeps_forP keeps_wrapErr) (auto intro!: keeps_ignoreP keeps_bindP)
qed

lemma wp_allow:
  assumes "forwards v0 rs r1 w" and "portFree rs" and "port \<noteq> 0"
  shows "wp (AllowForwardedPort N port) (\<lambda>r w'. r = Inr () \<and> forwards v0 rs r1 w' \<and> activePort w' = port \<and>
    ticks (kern w') \<le> ticks (kern w) \<and> w' = w\<lparr>kern := kern w', activePort := port\<rparr> \<and>
    V (kern w') = v0((IPv4, tableFilter, ChainIn) \<mapsto> [estSpec, loSpec inDef, portSpec ''udp'' port, portSpec ''tcp'' port] @ rs)) w"
proof -
  from assms(1) obtain rs' where h: "H (kern w)" "R (kern w) = r1" "V (kern w) = v0((IPv4, tableFilter, ChainIn) \<mapsto> estSpec # loSpec inDef # rs')"
    "withoutPort (activePort w) rs' = rs" by (auto simp: forwards_def)
  have "wp (AllowForwardedPort N port) (\<lambda>r w'. r = Inr () \<and> forwards v0 rs r1 w' \<and> activePort w' = port \<and> w' = w\<lparr>kern := kern w', activePort := port\<rparr> \<and>
    V (kern w') = v0((IPv4, tableFilter, ChainIn) \<mapsto> [estSpec, loSpec inDef, portSpec ''udp'' port, portSpec ''tcp'' port] @ rs)) w"
    by (rule AllowForwardedPort_host [OF h(1), of rs']) (auto simp: h forwards_def withoutPort_new [OF assms(3,2)])
  then show ?thesis using keepsD [OF keeps_ticks_allow, of w "ticks (kern w)" port] by (auto simp: wp_iff)
qed

lemma keeps_writePort: "(\<And>w fs x. I w \<Longrightarrow> I (w\<lparr>ioFaults := fs, portFile := x\<rparr>)) \<Longrightarrow> keeps I (writePort port)"
  by (rule keepsI) (auto simp: writePort_def WriteFile_def wp_def Let_def fault_def split: list.splits option.splits)

lemma wp_announce:
  assumes "forwards v0 rs r1 w" and "portFree rs" and "pfPort w \<noteq> 0"
  shows "wp (announcePort N sy) (\<lambda>r w'. r = Inr () \<and> forwards v0 rs r1 w' \<and> ticks (kern w') \<le> ticks (kern w) \<and>
    activePort w' = pfPort w \<and> PortForwardingActive (stats w') \<and> PortForwardingPort (stats w') = pfPort w \<and>
    (sy \<longrightarrow> portCh w' = Some (pfPort w)) \<and> (fault w = None \<longrightarrow> portFile w' = Inr (Itoa (pfPort w))) \<and>
    V (kern w') = v0((IPv4, tableFilter, ChainIn) \<mapsto> [estSpec, loSpec inDef, portSpec ''udp'' (pfPort w), portSpec ''tcp'' (pfPort w)] @ rs)) w"
proof -
  let ?p = "pfPort w"
  from wp_allow [OF assms] obtain w1 where 1: "AllowForwardedPort N ?p w = Some (Inr (), w1)" "forwards v0 rs r1 w1" "activePort w1 = ?p"
    "ticks (kern w1) \<le> ticks (kern w)" "w1 = w\<lparr>kern := kern w1, activePort := ?p\<rparr>"
    "V (kern w1) = v0((IPv4, tableFilter, ChainIn) \<mapsto> [estSpec, loSpec inDef, portSpec ''udp'' ?p, portSpec ''tcp'' ?p] @ rs)"
    by (auto simp: wp_iff)
  have "fault w1 = fault w" by (subst 1(5)) (simp add: fault_def)
  then obtain r w2 where 2: "writePort ?p w1 = Some (r, w2)" "kern w2 = kern w1" "activePort w2 = activePort w1"
    "fault w = None \<longrightarrow> portFile w2 = Inr (Itoa ?p)"
    by (cases "fault w") (auto simp: writePort_def WriteFile_def Let_def)
  show ?thesis
    using 1(2-4,6) 2(2-4)
    by (simp add: announcePort_def wp_def bindP_def getsP_def ignoreP_def ret_def 1(1) 2(1) updStats_def modifyP_def NotifyPort_def
        UpdatePortForwarding_def forwards_def)
qed

text \<open>What a teardown leaves.\<close>

definition tornDown :: "chains \<Rightarrow> spec list \<Rightarrow> iprules \<Rightarrow> ('k, 'm) pw_scheme \<Rightarrow> bool" where
  "tornDown v0 rs r0 w \<longleftrightarrow> V (kern w) = v0((IPv4, tableFilter, ChainIn) \<mapsto> estSpec # loSpec inDef # rs) \<and> R (kern w) = r0 \<and>
     \<not> PortForwardingActive (stats w) \<and> PortForwardingPort (stats w) = 0"

lemma wp_teardown:
  assumes "forwards v0 rs (r0(IPv4 := add_mset (priorityPIA, lookupSel (pcPFGateway conn)) (r0 IPv4))) w" and "pcPFGateway conn \<noteq> []"
  shows "wp (teardown N conn) (\<lambda>r w'. r = Inr () \<and> tornDown v0 rs r0 w') w"
proof -
  let ?gw = "pcPFGateway conn"
  from assms(1) obtain rs' where h: "H (kern w)" "R (kern w) = r0(IPv4 := add_mset (priorityPIA, lookupSel ?gw) (r0 IPv4))"
    "V (kern w) = v0((IPv4, tableFilter, ChainIn) \<mapsto> estSpec # loSpec inDef # rs')" "withoutPort (activePort w) rs' = rs"
    by (auto simp: forwards_def)
  have rp: "wp (RemovePFRoute N ?gw) (\<lambda>r w'. r = Inr () \<and> H (kern w') \<and> V (kern w') = V (kern w) \<and> R (kern w') = r0 \<and> activePort w' = activePort w) w"
  proof -
    have "wp (runK (nRun N ([''ip''] @ famArgs IPv4 @ [''rule'', ''del''] @ lookupSel ?gw @ [''priority'', ItoaN priorityPIA])))
      (\<lambda>r w'. H (kern w') \<and> V (kern w') = V (kern w) \<and> R (kern w') = r0 \<and> activePort w' = activePort w) w"
    proof (rule wp_runK)
      fix k' assume "nRun N ([''ip''] @ famArgs IPv4 @ [''rule'', ''del''] @ lookupSel ?gw @ [''priority'', ItoaN priorityPIA]) (kern w) = (None, k')"
      from rule_del_sel_ok [OF this] rule_del_sel_succ [OF h(1) this]
      show "H (kern (w\<lparr>kern := k'\<rparr>)) \<and> V (kern (w\<lparr>kern := k'\<rparr>)) = V (kern w) \<and> R (kern (w\<lparr>kern := k'\<rparr>)) = r0 \<and>
          activePort (w\<lparr>kern := k'\<rparr>) = activePort w" using h(2) by (simp add: lookupSel_def)
    next
      fix e k' assume "nRun N ([''ip''] @ famArgs IPv4 @ [''rule'', ''del''] @ lookupSel ?gw @ [''priority'', ItoaN priorityPIA]) (kern w) = (Some e, k')"
      from rule_del_sel_succ [OF h(1) this]
      show "H (kern (w\<lparr>kern := k'\<rparr>)) \<and> V (kern (w\<lparr>kern := k'\<rparr>)) = V (kern w) \<and> R (kern (w\<lparr>kern := k'\<rparr>)) = r0 \<and>
          activePort (w\<lparr>kern := k'\<rparr>) = activePort w" using h(2) by (simp add: lookupSel_def)
    qed
    then show ?thesis using assms(2) by (simp add: RemovePFRoute_def)
  qed
  have rf: "wp (RemoveForwardedPort N) (\<lambda>r w'. r = Inr () \<and> R (kern w') = R (kern w1) \<and>
     V (kern w') = v0((IPv4, tableFilter, ChainIn) \<mapsto> estSpec # loSpec inDef # rs)) w1"
    if "H (kern w1)" "V (kern w1) = V (kern w)" "activePort w1 = activePort w" for w1 :: "('k, 'm) pw_scheme"
  proof (rule wp_RemoveForwardedPort_host [OF that(1)])
    show "V (kern w1) (IPv4, tableFilter, ChainIn) = Some (estSpec # loSpec inDef # rs')" using that h by simp
  qed (use that h in \<open>auto simp: withoutPort_def portSpec_def estSpec_def loSpec_def\<close>)
  have upd: "wp (updStats (UpdatePortForwarding False 0)) (\<lambda>r w'. r = Inr () \<and> tornDown v0 rs r0 w') w2"
    if "R (kern w2) = r0" "V (kern w2) = v0((IPv4, tableFilter, ChainIn) \<mapsto> estSpec # loSpec inDef # rs)" for w2 :: "('k, 'm) pw_scheme"
    using that by (simp add: tornDown_def UpdatePortForwarding_def)
  from rp obtain w1 where 1: "RemovePFRoute N ?gw w = Some (Inr (), w1)" "H (kern w1)" "V (kern w1) = V (kern w)"
    "R (kern w1) = r0" "activePort w1 = activePort w" by (auto simp: wp_iff)
  from rf [OF 1(2,3,5)] obtain w2 where 2: "RemoveForwardedPort N w1 = Some (Inr (), w2)" "R (kern w2) = r0"
    "V (kern w2) = v0((IPv4, tableFilter, ChainIn) \<mapsto> estSpec # loSpec inDef # rs)" using 1(4) by (auto simp: wp_iff)
  from upd [OF 2(2,3)] show ?thesis by (simp add: teardown_def wp_def bindP_def 1(1) 2(1))
qed

text \<open>
  After a step: \<open>Q\<close> holds, or the step failed, everything is torn down and the error asks for a
  reconnection.
\<close>

definition stepped :: "chains \<Rightarrow> spec list \<Rightarrow> iprules \<Rightarrow> (('k, 'm) pw_scheme \<Rightarrow> bool) \<Rightarrow> err + unit \<Rightarrow> ('k, 'm) pw_scheme \<Rightarrow> bool" where
  "stepped v0 rs r0 Q r w \<longleftrightarrow> (case r of Inr _ \<Rightarrow> Q w | Inl e \<Rightarrow> errors_is e ErrReconnect \<and> tornDown v0 rs r0 w)"

lemma stepped_simps [simp]: "stepped v0 rs r0 Q (Inr u) w = Q w"
  "stepped v0 rs r0 Q (Inl e) w = (errors_is e ErrReconnect \<and> tornDown v0 rs r0 w)"
  by (simp_all add: stepped_def)

lemma wp_stepped:
  assumes "wp m (stepped v0 rs r0 Q) w" and "\<And>w'. Q w' \<Longrightarrow> wp (f ()) (stepped v0 rs r0 Q') w'"
  shows "wp (bindP m f) (stepped v0 rs r0 Q') w"
  unfolding wp_bindP
proof (rule wp_conseq [OF assms(1)])
  fix r w1 assume "stepped v0 rs r0 Q r w1"
  then show "case r of Inl e \<Rightarrow> stepped v0 rs r0 Q' (Inl e) w1 | Inr u \<Rightarrow> wp (f u) (stepped v0 rs r0 Q') w1"
    using assms(2) by (cases r) simp_all
qed

definition routed :: "iprules \<Rightarrow> pfConnection \<Rightarrow> iprules" where
  "routed r0 conn = r0(IPv4 := add_mset (priorityPIA, lookupSel (pcPFGateway conn)) (r0 IPv4))"

lemma wp_orTeardown:
  assumes "wp m (\<lambda>r w'. forwards v0 rs (routed r0 conn) w' \<and> (\<forall>u. r = Inr u \<longrightarrow> Q w')) w" and "pcPFGateway conn \<noteq> []"
  shows "wp (orTeardown N conn m) (stepped v0 rs r0 (\<lambda>w'. Q w' \<and> forwards v0 rs (routed r0 conn) w')) w"
  unfolding orTeardown_def wp_bindP wp_tryP
proof (rule wp_conseq [OF assms(1)], simp only: sum.case)
  fix r :: "err + unit" and w1 assume 1: "forwards v0 rs (routed r0 conn) w1 \<and> (\<forall>u. r = Inr u \<longrightarrow> Q w1)"
  show "wp (case r of Inl e \<Rightarrow> bindP (teardown N conn) (\<lambda>_. throw (Errorf '': '' [e, Sentinel ErrReconnect])) | Inr _ \<Rightarrow> ret ())
       (stepped v0 rs r0 (\<lambda>w'. Q w' \<and> forwards v0 rs (routed r0 conn) w')) w1"
  proof (cases r)
    case (Inl e)
    have "wp (teardown N conn) (\<lambda>r w'. r = Inr () \<and> tornDown v0 rs r0 w') w1"
      by (rule wp_teardown [OF _ assms(2)]) (use 1 in \<open>simp add: routed_def\<close>)
    then show ?thesis unfolding Inl sum.case wp_bindP by (rule wp_conseq) simp
  qed (use 1 in simp)
qed

text \<open>The state between two ticks.\<close>

definition holding :: "chains \<Rightarrow> spec list \<Rightarrow> iprules \<Rightarrow> nat \<Rightarrow> ('k, 'm) pw_scheme \<Rightarrow> bool" where
  "holding v0 rs r1 n w \<longleftrightarrow> forwards v0 rs r1 w \<and> ticks (kern w) \<le> n"

lemma wp_acquire_announce:
  assumes "forwards v0 rs (routed r0 conn) w" and "portFree rs" and "pcPFGateway conn \<noteq> []"
  shows "wp (bindP (orTeardown N conn (acquirePort P conn)) (\<lambda>_. announcePort N sy))
    (stepped v0 rs r0 (holding v0 rs (routed r0 conn) (ticks (kern w)))) w"
proof (rule wp_stepped)
  have "wp (acquirePort P conn) (\<lambda>r w'. forwards v0 rs (routed r0 conn) w' \<and> (\<forall>u. r = Inr u \<longrightarrow> still w w' \<and> pfPort w' \<noteq> 0)) w"
    by (rule wp_conseq [OF wp_acquire [OF calm_refl]]) (auto intro: forwards_still assms(1))
  from wp_orTeardown [OF this assms(3)]
  show "wp (orTeardown N conn (acquirePort P conn))
    (stepped v0 rs r0 (\<lambda>w'. (still w w' \<and> pfPort w' \<noteq> 0) \<and> forwards v0 rs (routed r0 conn) w')) w" .
next
  fix w2 assume 2: "(still w w2 \<and> pfPort w2 \<noteq> 0) \<and> forwards v0 rs (routed r0 conn) w2"
  then have "ticks (kern w2) \<le> ticks (kern w)" by (simp add: calm_def)
  then show "wp (announcePort N sy) (stepped v0 rs r0 (holding v0 rs (routed r0 conn) (ticks (kern w)))) w2"
    using 2 by (intro wp_conseq [OF wp_announce [OF _ assms(2)]]) (auto simp: holding_def)
qed

lemma wp_bind_again:
  assumes "forwards v0 rs (routed r0 conn) w" and "pcPFGateway conn \<noteq> []"
  shows "wp (orTeardown N conn (bindPortWithRetry P conn payload signature))
    (stepped v0 rs r0 (holding v0 rs (routed r0 conn) (ticks (kern w)))) w"
proof -
  have "wp (bindPortWithRetry P conn payload signature) (\<lambda>r w'. forwards v0 rs (routed r0 conn) w' \<and> (\<forall>u. r = Inr u \<longrightarrow> still w w')) w"
    by (rule wp_conseq [OF wp_bindRetry [OF calm_refl]]) (auto intro: forwards_still assms(1))
  from wp_orTeardown [OF this assms(2)] show ?thesis
    by (rule wp_conseq) (auto simp: stepped_def holding_def calm_def split: sum.splits)
qed

lemma holding_mono: "holding v0 rs r1 m w \<Longrightarrow> m \<le> n \<Longrightarrow> holding v0 rs r1 n w"
  by (simp add: holding_def)

lemma wp_onTick:
  assumes "forwards v0 rs (routed r0 conn) w" and "portFree rs" and "pcPFGateway conn \<noteq> []"
  shows "wp (onTick N P sy cfg conn) (stepped v0 rs r0 (holding v0 rs (routed r0 conn) (ticks (kern w)))) w"
  unfolding onTick_def
proof (simp only: wp_bindP [of "clock P"], rule wp_clock [OF calm_refl], simp only: sum.case)
  fix t w1 assume "still w w1"
  then have 1: "forwards v0 rs (routed r0 conn) w1" "ticks (kern w1) \<le> ticks (kern w)"
    by (auto intro: forwards_still assms(1) simp: calm_def)
  have m: "stepped v0 rs r0 (holding v0 rs (routed r0 conn) (ticks (kern w1))) r w' \<Longrightarrow>
      stepped v0 rs r0 (holding v0 rs (routed r0 conn) (ticks (kern w))) r w'" for r w'
    using holding_mono [OF _ 1(2)] by (cases r) auto
  have a: "wp (bindP (orTeardown N conn (acquirePort P conn)) (\<lambda>_. announcePort N sy))
      (stepped v0 rs r0 (holding v0 rs (routed r0 conn) (ticks (kern w)))) w1"
    by (rule wp_conseq [OF wp_acquire_announce [OF 1(1) assms(2,3)]]) (rule m)
  have b: "wp (orTeardown N conn (bindPortWithRetry P conn payload signature))
      (stepped v0 rs r0 (holding v0 rs (routed r0 conn) (ticks (kern w)))) w1" for payload signature
    by (rule wp_conseq [OF wp_bind_again [OF 1(1) assms(3)]]) (rule m)
  show "wp (bindP (getsP (\<lambda>w. (pfExpiresAt w, pfPayload w, pfSignature w))) (\<lambda>(expiresAt, payload, signature).
     if durationOf (SignatureSafetyHours cfg) hour > Since t expiresAt
     then bindP (orTeardown N conn (acquirePort P conn)) (\<lambda>_. announcePort N sy)
     else orTeardown N conn (bindPortWithRetry P conn payload signature)))
    (stepped v0 rs r0 (holding v0 rs (routed r0 conn) (ticks (kern w)))) w1"
    using a b by (simp del: wp_bindP add: wp_bindP [of "getsP f" for f])
qed

lemma wp_keepAlive:
  assumes "holding v0 rs (routed r0 conn) n w" and "portFree rs" and "pcPFGateway conn \<noteq> []"
  shows "wp (keepAlive N P sy cfg conn) (stepped v0 rs r0 (tornDown v0 rs r0)) w"
  using assms(1)
proof (induction n arbitrary: w rule: less_induct)
  case (less n)
  obtain x k where x: "pTicker P (kern w) = (x, k)" by fastforce
  let ?w = "w\<lparr>kern := k\<rparr>"
  have f: "forwards v0 rs (routed r0 conn) ?w"
    using less(2) quietD [OF ticker_quiet x] by (auto simp: holding_def forwards_def undisturbed_def)
  show ?case
  proof (cases x)
    case None
    have t: "ticks (kern ?w) < n" using ticker [OF x [unfolded None]] less(2) by (simp add: holding_def)
    from wp_onTick [OF f assms(2,3), of sy cfg] obtain r w' where o: "onTick N P sy cfg conn ?w = Some (r, w')"
      "stepped v0 rs r0 (holding v0 rs (routed r0 conn) (ticks (kern ?w))) r w'" by (auto simp: wp_iff)
    then show ?thesis using less(1) [OF t]
      by (cases r) (auto simp: wp_def keepAlive.simps [of _ _ _ _ _ w] x None)
  next
    case (Some e)
    have "wp (teardown N conn) (\<lambda>r w'. r = Inr () \<and> tornDown v0 rs r0 w') ?w"
      by (rule wp_teardown [OF _ assms(3)]) (use f in \<open>simp add: routed_def\<close>)
    then show ?thesis by (auto simp: wp_iff keepAlive.simps [of _ _ _ _ _ w] x Some)
  qed
qed

text \<open>
  The certificates may fail to load: then the code returns with the rule of the gateway in place
  and nothing else changed. \<open>leftover\<close> describes that exit from the state \<open>w\<close>.
\<close>

definition leftover :: "pfConnection \<Rightarrow> ('k, 'm) pw_scheme \<Rightarrow> err + unit \<Rightarrow> ('k, 'm) pw_scheme \<Rightarrow> bool" where
  "leftover conn w r w' \<longleftrightarrow> (\<exists>e k. pCert P k = (Some e, kern w') \<and> r = Inl e) \<and> V (kern w') = V (kern w) \<and>
     R (kern w') = routed (R (kern w)) conn \<and> stats w' = stats w"

lemma wp_pfRun:
  fixes w :: "('k, 'm) pw_scheme"
  assumes "H (kern w)" and "V (kern w) (IPv4, tableFilter, ChainIn) = Some (estSpec # loSpec inDef # rs)" and "portFree rs"
    and "pcPFGateway conn \<noteq> []" and "(priorityPIA, lookupSel (pcPFGateway conn)) \<notin># R (kern w) IPv4"
    and "0 < BindInterval cfg"
  shows "wp (pfRun N P sy cfg conn) (\<lambda>r w'. stepped (V (kern w)) rs (R (kern w)) (tornDown (V (kern w)) rs (R (kern w))) r w' \<or>
    leftover conn w r w') w"
proof -
  let ?v0 = "V (kern w)" and ?r0 = "R (kern w)"
  let ?Q = "stepped ?v0 rs ?r0 (tornDown ?v0 rs ?r0)"
  define start where "start t = (\<lambda>w. w\<lparr>pfPort := 0, pfPayload := [], pfSignature := [], pfExpiresAt := zeroTime,
      pfBindTime := t - portBindDuration + 60 * second\<rparr> :: ('k, 'm) pw_scheme)" for t :: int
  let ?rest = "bindP (clock P) (\<lambda>t. bindP (modifyP (start t)) (\<lambda>_.
      bindP (orTeardown N conn (acquirePort P conn)) (\<lambda>_. bindP (announcePort N sy) (\<lambda>_. keepAlive N P sy cfg conn))))"
  have loop: "wp (bindP (orTeardown N conn (acquirePort P conn)) (\<lambda>_. bindP (announcePort N sy) (\<lambda>_. keepAlive N P sy cfg conn))) ?Q w1"
    if "forwards ?v0 rs (routed ?r0 conn) w1" for w1
  proof -
    have "wp (bindP (bindP (orTeardown N conn (acquirePort P conn)) (\<lambda>_. announcePort N sy)) (\<lambda>_. keepAlive N P sy cfg conn)) ?Q w1"
      by (rule wp_stepped [OF wp_acquire_announce [OF that assms(3,4)]]) (rule wp_keepAlive [OF _ assms(3,4)])
    then show ?thesis by (simp add: bindP_assoc)
  qed
  have rest: "wp ?rest ?Q w2" if 2: "forwards ?v0 rs (routed ?r0 conn) w2" for w2 :: "('k, 'm) pw_scheme"
  proof (simp only: wp_bindP [of "clock P"], rule wp_clock [OF calm_refl], simp only: sum.case)
    fix t w3 assume "still w2 w3"
    then have "forwards ?v0 rs (routed ?r0 conn) (start t w3)" using forwards_still [OF 2] by (auto simp: start_def forwards_def)
    from loop [OF this] show "wp (bindP (modifyP (start t)) (\<lambda>_.
        bindP (orTeardown N conn (acquirePort P conn)) (\<lambda>_. bindP (announcePort N sy) (\<lambda>_. keepAlive N P sy cfg conn)))) ?Q w3"
      by (simp del: wp_bindP add: wp_bindP [of "modifyP f" for f])
  qed
  have main: "wp (bindP (runK (pCert P)) (\<lambda>_. ?rest)) (\<lambda>r w'. ?Q r w' \<or> leftover conn w r w') w1"
    if f: "forwards ?v0 rs (routed ?r0 conn) w1" "V (kern w1) = ?v0" "stats w1 = stats w" for w1 :: "('k, 'm) pw_scheme"
    unfolding wp_bindP [of "runK c" for c]
  proof (rule wp_runK, simp_all only: sum.case)
    fix k' assume "pCert P (kern w1) = (None, k')"
    then have "forwards ?v0 rs (routed ?r0 conn) (w1\<lparr>kern := k'\<rparr>)"
      using f(1) by (auto dest!: quietD [OF cert_quiet] simp: forwards_def undisturbed_def)
    from rest [OF this] show "wp ?rest (\<lambda>r w'. ?Q r w' \<or> leftover conn w r w') (w1\<lparr>kern := k'\<rparr>)" by (rule wp_conseq) simp
  next
    fix e k' assume c: "pCert P (kern w1) = (Some e, k')"
    then have "V k' = V (kern w1)" "R k' = R (kern w1)" using f(1)
      by (auto dest!: quietD [OF cert_quiet] simp: forwards_def undisturbed_def)
    then show "?Q (Inl e) (w1\<lparr>kern := k'\<rparr>) \<or> leftover conn w (Inl e) (w1\<lparr>kern := k'\<rparr>)"
      using f c by (auto simp: leftover_def forwards_def)
  qed
  have add: "wp (AddPFRoute N (pcPFGateway conn)) (\<lambda>r w'. r = Inr () \<and> forwards ?v0 rs (routed ?r0 conn) w' \<and>
      V (kern w') = ?v0 \<and> stats w' = stats w) w"
    unfolding AddPFRoute_def
    by (rule wp_rule_add_host [OF _ assms(1,5)])
      (use assms(2) in \<open>auto simp: lookupSel_def forwards_def routed_def withoutPort_free [OF assms(3)] intro!: exI [of _ rs]\<close>)
  show ?thesis
    unfolding pfRun_def using assms(4,6) main add
    by (auto simp: start_def [symmetric] wp_tryP elim!: wp_conseq simp del: wp_bindP simp: wp_bindP [of "tryP m" for m])
qed

end

section \<open>A reference gateway\<close>

text \<open>
  On the reference kernel, a gateway that is reached only while its route is in place and gives
  the same answers each time; a second passes between two readings of the clock. The ticks to
  come are entries of the kernel's table of outputs.
\<close>

definition tickKey :: "string list" where
  "tickKey = [''tick'']"

definition refGet :: "string \<Rightarrow> string \<Rightarrow> string \<Rightarrow> string \<Rightarrow> refk \<Rightarrow> string + (err + string)" where
  "refGet gw sig bnd url k = (if (priorityPIA, lookupSel gw) \<notin> set (rkRules k IPv4) then Inl ''dial tcp: i/o timeout''
     else Inr (Inr (if Contains url ''getSignature'' then sig else bnd)))"

definition refP :: "string \<Rightarrow> string \<Rightarrow> string \<Rightarrow> refk pfops" where
  "refP gw sig bnd = \<lparr>pGet = (\<lambda>cn url k. (refGet gw sig bnd url k, k)), pCert = Pair None, pElapsed = Pair (nat second),
     pSelect = (\<lambda>rest k. (if retryInterval < rest then (Tick, nat retryInterval) else (Deadline, nat rest), k)),
     pTicker = (\<lambda>k. (case rkShow k of [] \<Rightarrow> (Some (Sentinel ErrCanceled), k)
        | (a, s) # xs \<Rightarrow> if a = tickKey then (None, k\<lparr>rkShow := xs\<rparr>) else (Some (Sentinel ErrCanceled), k)))\<rparr>"

interpretation refpf: pf_host refN refV refR refH "refP gw sig bnd" "\<lambda>k. length (rkShow k)" for gw sig bnd
proof unfold_locales
  show "paces (refP gw sig bnd)"
    by (auto simp: paces_def refP_def retryInterval_def second_def split: if_splits)
  show "quiet (undisturbed refV refR refH) (pTicker (refP gw sig bnd))"
    by (auto simp: quiet_def refP_def undisturbed_def refH_def refV_def refR_def fun_eq_iff split: list.splits)
  show "length (rkShow k') < length (rkShow k)" if "pTicker (refP gw sig bnd) k = (None, k')" for k k'
    using that by (auto simp: refP_def split: list.splits if_splits)
qed (auto simp: quiet_def refP_def undisturbed_def refN_def refCmd_def refInsert_def refDelete_def setChain_def
    split: list.splits bool.splits option.splits)

section \<open>Properties\<close>

text \<open>
  C7. What a run leaves. On a healthy host whose input chain has no port of its own, with a gateway
  whose rule is not there yet and an interval a ticker accepts, a run of the port forwarding
  ends. Unless the certificates of PIA could not be loaded, then whatever the gateway answered,
  however often the port changed and whichever requests failed, every chain and every policy rule
  is what it was before, the metrics say that no port is forwarded, and an error the run ends with
  asks for a reconnection. If they could not be loaded, the run ends with that error, and exactly
  the rule of the gateway is left behind.
\<close>

theorem pf_run_tears_down:
  assumes "pf_host N V R H P ticks" and "H (kern w)"
    and "V (kern w) (IPv4, tableFilter, ChainIn) = Some (estSpec # loSpec inDef # rs)" and "portFree rs"
    and "pcPFGateway conn \<noteq> []" and "(priorityPIA, lookupSel (pcPFGateway conn)) \<notin># R (kern w) IPv4"
    and "0 < BindInterval cfg"
  shows "\<exists>r w'. pfRun N P sy cfg conn w = Some (r, w') \<and> V (kern w') = V (kern w) \<and>
    (R (kern w') = R (kern w) \<and> \<not> PortForwardingActive (stats w') \<and> PortForwardingPort (stats w') = 0 \<and>
       (\<forall>e. r = Inl e \<longrightarrow> errors_is e ErrReconnect) \<or>
     (\<exists>e k. pCert P k = (Some e, kern w') \<and> r = Inl e) \<and> stats w' = stats w \<and>
       R (kern w') = (R (kern w))(IPv4 := add_mset (priorityPIA, lookupSel (pcPFGateway conn)) (R (kern w) IPv4)))"
proof -
  from pf_host.wp_pfRun [OF assms, where sy = sy] obtain r w' where run: "pfRun N P sy cfg conn w = Some (r, w')"
    and s: "pf_host.stepped V R (V (kern w)) rs (R (kern w)) (pf_host.tornDown V R (V (kern w)) rs (R (kern w))) r w' \<or>
      pf_host.leftover V R P conn w r w'"
    by (auto simp: wp_iff)
  have v: "V (kern w) = (V (kern w))((IPv4, tableFilter, ChainIn) \<mapsto> estSpec # loSpec inDef # rs)"
    using assms(3) by (simp add: fun_upd_idem)
  from s show ?thesis
  proof
    assume "pf_host.stepped V R (V (kern w)) rs (R (kern w)) (pf_host.tornDown V R (V (kern w)) rs (R (kern w))) r w'"
    then have "pf_host.tornDown V R (V (kern w)) rs (R (kern w)) w'" "\<forall>e. r = Inl e \<longrightarrow> errors_is e ErrReconnect"
      by (cases r; simp add: pf_host.stepped_def [OF assms(1)])+
    with run v show ?thesis by (auto simp: pf_host.tornDown_def [OF assms(1)])
  next
    assume "pf_host.leftover V R P conn w r w'"
    with run show ?thesis by (auto simp: pf_host.leftover_def [OF assms(1)] pf_host.routed_def [OF assms(1)])
  qed
qed

definition demoConn :: pfConnection where
  "demoConn = \<lparr>pcClientIP = ''10.4.0.2'', pcServerCN = ''zurich401'', pcPFGateway = ''10.4.0.1''\<rparr>"

definition demoPF :: pfConfig where
  "demoPF = \<lparr>pfEnabled = True, BindInterval = 900 * second, SignatureSafetyHours = 6, PortFile = ''/run/pia-tun/port''\<rparr>"

text \<open>The reference host behind its killswitch, two ticks before the context is cancelled.\<close>

definition demoPW :: "refk pw" where
  "demoPW = \<lparr>kern = (kern demoUp)\<lparr>rkShow := [(tickKey, []), (tickKey, [])]\<rparr>, ipt4Cmd = [], ipt6Cmd = [], active = True, activePort = 0,
     Token = ''0123456789abcdef'', TokenTime = 0, AuthIPs = [], ServerListIPs = [], Servers = [], tokenFile = Inl (Sentinel ErrNotExist),
     writable = True, now = 0, ctxErr = None, resolvConf = Inr [], resolvBak = Inl (Sentinel ErrNotExist), ioFaults = [],
     upstreams = [], conns = (\<lambda>_. None), idx = 0, stats = exampleMetrics, portCh = None,
     pfPort = 0, pfPayload = [], pfSignature = [], pfExpiresAt = 0, pfBindTime = 0, portFile = Inl (Sentinel ErrNotExist)\<rparr>"

definition demoRest :: "spec list" where
  "demoRest = drop 2 (the (refV (kern demoUp) (IPv4, tableFilter, ChainIn)))"

lemma demoPW_chain: "refV (kern demoPW) (IPv4, tableFilter, ChainIn) = Some (estSpec # loSpec inDef # demoRest)"
  by code_simp

lemma demoRest_free: "portFree demoRest"
proof -
  have "list_all (\<lambda>s. length s \<noteq> 8) demoRest" by code_simp
  then show ?thesis by (auto simp: portFree_def list_all_iff portSpec_def)
qed

theorem pf_run_tears_down_witness:
  "\<exists>r w'. pfRun refN (refP ''10.4.0.1'' ''{}'' ''{}'') True demoPF demoConn demoPW = Some (r, w') \<and>
     refV (kern w') = refV (kern demoPW) \<and> refR (kern w') = refR (kern demoPW) \<and> \<not> PortForwardingActive (stats w') \<and>
     PortForwardingPort (stats w') = 0 \<and> (\<forall>e. r = Inl e \<longrightarrow> errors_is e ErrReconnect)"
proof -
  have "(priorityPIA, lookupSel (pcPFGateway demoConn)) \<notin># refR (kern demoPW) IPv4" by code_simp
  moreover have "refH (kern demoPW)" "pcPFGateway demoConn \<noteq> []" "0 < BindInterval demoPF"
    by (simp_all add: demoPW_def refH_def demoUp_def demoKernel_def demoConn_def demoPF_def second_def)
  moreover have "pCert (refP gw sig bnd) k \<noteq> (Some e, k')" for gw sig bnd k e k' by (simp add: refP_def)
  ultimately show ?thesis
    using pf_run_tears_down [OF refpf.pf_host_axioms, of demoPW demoRest demoConn demoPF, OF _ demoPW_chain demoRest_free] by blast
qed

text \<open>
  C15. The same port everywhere. On a healthy host, announcing the port that was granted leaves
  it in the rules of the firewall, in the port file, in the metrics and in the channel to the
  syncer, in place of the port announced before.
\<close>

theorem announced_everywhere:
  assumes "netfilter_host N V R H" and "H (kern w)"
    and "V (kern w) (IPv4, tableFilter, ChainIn) = Some (estSpec # loSpec inDef # rs)" and "fault w = None"
  shows "\<exists>w'. announcePort N True w = Some (Inr (), w') \<and>
    V (kern w') = (V (kern w))((IPv4, tableFilter, ChainIn) \<mapsto>
      [estSpec, loSpec inDef, portSpec ''udp'' (pfPort w), portSpec ''tcp'' (pfPort w)] @ withoutPort (activePort w) rs) \<and>
    portFile w' = Inr (Itoa (pfPort w)) \<and> PortForwardingActive (stats w') \<and> PortForwardingPort (stats w') = pfPort w \<and>
    pfPortGauge (stats w') = pfPort w \<and> portCh w' = Some (pfPort w)"
proof -
  have "wp (AllowForwardedPort N (pfPort w)) (\<lambda>r w1. r = Inr () \<and> w1 = w\<lparr>kern := kern w1, activePort := pfPort w\<rparr> \<and>
    V (kern w1) = (V (kern w))((IPv4, tableFilter, ChainIn) \<mapsto>
      [estSpec, loSpec inDef, portSpec ''udp'' (pfPort w), portSpec ''tcp'' (pfPort w)] @ withoutPort (activePort w) rs)) w"
    by (rule netfilter_host.AllowForwardedPort_host [OF assms(1-3)]) simp
  then obtain w1 where 1: "AllowForwardedPort N (pfPort w) w = Some (Inr (), w1)" "w1 = w\<lparr>kern := kern w1, activePort := pfPort w\<rparr>"
    "V (kern w1) = (V (kern w))((IPv4, tableFilter, ChainIn) \<mapsto>
      [estSpec, loSpec inDef, portSpec ''udp'' (pfPort w), portSpec ''tcp'' (pfPort w)] @ withoutPort (activePort w) rs)"
    by (auto simp: wp_iff)
  have "fault w1 = None" using assms(4) by (subst 1(2)) (simp add: fault_def)
  then show ?thesis
    using 1(3) by (simp add: announcePort_def bindP_def getsP_def ignoreP_def 1(1) writePort_def WriteFile_def updStats_def modifyP_def
        NotifyPort_def UpdatePortForwarding_def)
qed

theorem announced_everywhere_witness:
  "\<exists>w'. announcePort refN True (demoPW\<lparr>pfPort := 47823\<rparr>) = Some (Inr (), w') \<and> portFile w' = Inr (Itoa 47823) \<and>
     PortForwardingPort (stats w') = 47823 \<and> portCh w' = Some 47823"
proof -
  have "refV (kern (demoPW\<lparr>pfPort := 47823\<rparr>)) (IPv4, tableFilter, ChainIn) = Some (estSpec # loSpec inDef # demoRest)"
    using demoPW_chain by simp
  moreover have "refH (kern (demoPW\<lparr>pfPort := 47823\<rparr>))" "fault (demoPW\<lparr>pfPort := 47823\<rparr>) = None"
    by (simp_all add: demoPW_def refH_def demoUp_def demoKernel_def fault_def)
  ultimately show ?thesis using announced_everywhere [OF refk.netfilter_host_axioms, of "demoPW\<lparr>pfPort := 47823\<rparr>" demoRest] by auto
qed

text \<open>
  C16. Retries are bounded. However often the gateway cannot be reached, a request that is retried
  ends, after at most one attempt right away and one per fifteen seconds until twenty minutes
  after the last bind: no more than 81.
\<close>

theorem retry_attempts_bounded:
  fixes w :: "('k, 'm) pw_scheme" and calls :: "('k, 'm) pw_scheme \<Rightarrow> nat"
  assumes "paces P" and "\<And>w. wp fn (\<lambda>r w'. calls w' \<le> Suc (calls w) \<and> now w \<le> now w') w"
    and "\<And>d w. calls (snd (pause P d w)) \<le> calls w" and "pfBindTime w \<le> now w"
  shows "\<exists>r w'. retryWithDeadline P op fn w = Some (r, w') \<and>
    calls w' \<le> calls w + attempts (pfBindTime w + portBindDuration - now w) \<and> calls w' \<le> calls w + 81"
proof -
  have "wp (retryLoop P op fn (pfBindTime w + portBindDuration)) (\<lambda>r w'. True \<and> calls w' \<le> calls w + attempts (pfBindTime w + portBindDuration - now w)) w"
    by (rule wp_retryLoop [OF assms(1)]) (use assms(2,3) in \<open>auto, metis snd_conv\<close>)
  moreover have "attempts (pfBindTime w + portBindDuration - now w) \<le> attempts portBindDuration"
    using assms(4) by (intro attempts_mono) simp
  moreover have "attempts portBindDuration = 81"
    by (simp add: attempts_def portBindDuration_def retryInterval_def second_def)
  ultimately show ?thesis by (auto simp: wp_iff retryWithDeadline_def bindP_def getsP_def)
qed

text \<open>An attempt that fails, counted in place of the port.\<close>

definition demoAttempt :: "('k pw, apiError + unit) prog" where
  "demoAttempt = bindP (modifyP (\<lambda>w. w\<lparr>pfPort := pfPort w + 1\<rparr>)) (\<lambda>_. throw (Errorf ''timeout'' []))"

theorem retry_attempts_bounded_witness:
  "\<exists>r w'. retryWithDeadline (refP ''10.4.0.1'' [] []) ''bindPort'' demoAttempt demoPW = Some (r, w') \<and> nat (pfPort w') \<le> 81"
proof -
  have "wp demoAttempt (\<lambda>r w'. nat (pfPort w') \<le> Suc (nat (pfPort w)) \<and> now w \<le> now w') w" for w :: "refk pw"
    by (simp add: demoAttempt_def nat_le_iff)
  moreover have "nat (pfPort (snd (pause (refP ''10.4.0.1'' [] []) d w))) \<le> nat (pfPort w)" for d and w :: "refk pw"
    by (simp add: pause_def Let_def split: prod.splits)
  ultimately show ?thesis
    using retry_attempts_bounded [OF refpf.select_paces, where fn = demoAttempt and calls = "\<lambda>w. nat (pfPort w)" and w = demoPW]
    by (fastforce simp: demoPW_def)
qed

end
