(* ===== verification/Wan.thy ===== *)
theory Wan
  imports Status
begin

text \<open>
  The WAN check (\<^verbatim>\<open>internal/wan\<close>): TCP connections to the addresses that bypass the tunnel, and
  the wait until one of them succeeds. The connections, the clock, the context and the timers
  are parameters, which the health monitor (\<open>Monitor\<close>) shares. Log lines are left out.
\<close>

section \<open>The interface\<close>

text \<open>
  \<open>pbDial hosts timeout\<close>: the answers of parallel connections, one per address in the order they
  arrive, and the time until the caller had enough of them; \<open>pbServer host timeout\<close>: one
  connection beside another probe, with its latency; \<open>pbElapsed\<close>: the time since the clock was
  read last; \<open>pbCtx\<close>: the error of the context; \<open>pbAfter d\<close> and \<open>pbTicker\<close>: an interval or the
  next tick, or the error of the context when that comes first.
\<close>

record 'k probeops =
  pbDial :: "string list \<Rightarrow> int \<Rightarrow> 'k \<Rightarrow> ((string \<times> bool) list \<times> nat) \<times> 'k"
  pbServer :: "string \<Rightarrow> int \<Rightarrow> 'k \<Rightarrow> (bool \<times> nat) \<times> 'k"
  pbElapsed :: "'k \<Rightarrow> nat \<times> 'k"
  pbCtx :: "'k \<Rightarrow> err option \<times> 'k"
  pbAfter :: "int \<Rightarrow> 'k \<Rightarrow> err option \<times> 'k"
  pbTicker :: "'k \<Rightarrow> err option \<times> 'k"

text \<open>The loop over the results: it returns with the first success.\<close>

fun anySuccess :: "(string \<times> bool) list \<Rightarrow> bool" where
  "anySuccess [] = False"
| "anySuccess ((name, success) # rs) = (if success then True else anySuccess rs)"

text \<open>The parallel connections: whether one succeeded, and how long it took to tell.\<close>

definition probe :: "'k probeops \<Rightarrow> string list \<Rightarrow> int \<Rightarrow> (('k, 'm) cw_scheme, bool \<times> int) prog" where
  "probe B hosts timeout = bindP (askK (pbDial B hosts timeout)) (\<lambda>(results, el).
     bindP (modifyP (\<lambda>w. w\<lparr>now := now w + int el\<rparr>)) (\<lambda>_. ret (anySuccess results, int el)))"

section \<open>Operations\<close>

definition wanTimeout :: int where
  "wanTimeout = 5 * second"

definition Check :: "'k probeops \<Rightarrow> (('k, 'm) cw_scheme, bool) prog" where
  "Check B = bindP (probe B (map (\<lambda>ip. JoinHostPort ip ''13'') WANCheckIPs) wanTimeout) (\<lambda>(up, _). ret up)"

partial_function (option) waitLoop :: "'k probeops \<Rightarrow> ('k, 'm) sw_scheme \<Rightarrow> ((err + unit) \<times> ('k, 'm) sw_scheme) option" where
  "waitLoop B w = (case pbAfter B second (kern w) of (x, k) \<Rightarrow> (case x of
       Some e \<Rightarrow> Some (Inl e, w\<lparr>kern := k\<rparr>)
     | None \<Rightarrow> (case Check B (w\<lparr>kern := k\<rparr>) of
           None \<Rightarrow> None
         | Some (Inl e, w') \<Rightarrow> Some (Inl e, w')
         | Some (Inr up, w') \<Rightarrow> (if up then updStats (UpdateWANStatus True) w' else waitLoop B w'))))"

definition WaitForUp :: "'k probeops \<Rightarrow> (('k, 'm) sw_scheme, unit) prog" where
  "WaitForUp B = bindP (Check B) (\<lambda>up.
     if up then updStats (UpdateWANStatus True)
     else bindP (updStats (UpdateWANStatus False)) (\<lambda>_. waitLoop B))"

section \<open>What the loops rely on\<close>

text \<open>
  \<open>probed\<close> is the history of the parallel checks, \<open>gone\<close> that the context is cancelled, \<open>ticks\<close> how
  many ticks are left before it is. A check takes time.
\<close>

locale probe_host =
  fixes B :: "'k probeops" and probed :: "'k \<Rightarrow> bool list" and gone :: "'k \<Rightarrow> bool" and ticks :: "'k \<Rightarrow> nat"
  assumes dial: "pbDial B hosts t k = ((rs, el), k') \<Longrightarrow> probed k' = probed k @ [anySuccess rs] \<and> 0 < el \<and> ticks k' \<le> ticks k"
    and server: "quiet (\<lambda>k k'. probed k' = probed k \<and> ticks k' \<le> ticks k) (pbServer B host t)"
    and elapsed: "quiet (\<lambda>k k'. probed k' = probed k \<and> ticks k' \<le> ticks k) (pbElapsed B)"
    and ctx: "pbCtx B k = (x, k') \<Longrightarrow> probed k' = probed k \<and> ticks k' \<le> ticks k \<and> (x \<noteq> None \<longrightarrow> gone k')"
    and after: "pbAfter B d k = (x, k') \<Longrightarrow> probed k' = probed k \<and> (x \<noteq> None \<longrightarrow> gone k') \<and> (x = None \<longrightarrow> ticks k' < ticks k)"
    and ticker: "pbTicker B k = (x, k') \<Longrightarrow> probed k' = probed k \<and> (x \<noteq> None \<longrightarrow> gone k') \<and> (x = None \<longrightarrow> ticks k' < ticks k)"
begin

lemma wp_probe:
  assumes "\<And>up el k'. probed k' = probed (kern w) @ [up] \<Longrightarrow> 0 < el \<Longrightarrow> ticks k' \<le> ticks (kern w) \<Longrightarrow>
    Q (Inr (up, el)) (w\<lparr>kern := k', now := now w + el\<rparr>)"
  shows "wp (probe B hosts t) Q w"
  unfolding probe_def using assms by (auto intro!: wp_askK dest!: dial)

lemma wp_Check:
  assumes "\<And>up t k'. probed k' = probed (kern w) @ [up] \<Longrightarrow> ticks k' \<le> ticks (kern w) \<Longrightarrow> Q (Inr up) (w\<lparr>kern := k', now := t\<rparr>)"
  shows "wp (Check B) Q w"
  unfolding Check_def using assms by (auto intro!: wp_probe)

text \<open>The wait ends with the first check that succeeds, or with the context.\<close>

lemma wp_waitLoop:
  "wp (waitLoop B) (\<lambda>r w'. \<exists>fails. set fails \<subseteq> {False} \<and>
     ((r = Inr () \<and> probed (kern w') = probed (kern w) @ fails @ [True] \<and> stats w' = UpdateWANStatus True (stats w)) \<or>
      (\<exists>e. r = Inl e \<and> gone (kern w') \<and> probed (kern w') = probed (kern w) @ fails \<and> stats w' = stats w))) w"
proof (induction "ticks (kern w)" arbitrary: w rule: less_induct)
  case less
  obtain x k where x: "pbAfter B second (kern w) = (x, k)" by fastforce
  show ?case
  proof (cases x)
    case (Some e)
    then show ?thesis using after [OF x] x by (auto simp: waitLoop.simps [of _ w] wp_def intro!: exI [of _ "[]"])
  next
    case None
    have a: "probed k = probed (kern w)" "ticks k < ticks (kern w)" using after [OF x] None by auto
    have "wp (Check B) (\<lambda>r w'. \<exists>up. r = Inr up \<and> probed (kern w') = probed (kern w) @ [up] \<and> ticks (kern w') \<le> ticks k \<and>
        stats w' = stats w) (w\<lparr>kern := k\<rparr>)" by (rule wp_Check) (simp add: a)
    then obtain up w1 where 1: "Check B (w\<lparr>kern := k\<rparr>) = Some (Inr up, w1)" "probed (kern w1) = probed (kern w) @ [up]"
      "ticks (kern w1) \<le> ticks k" "stats w1 = stats w" by (auto simp: wp_iff)
    show ?thesis
    proof (cases up)
      case True
      then show ?thesis using 1 x None
        by (auto simp: waitLoop.simps [of _ w] wp_def updStats_def modifyP_def intro!: exI [of _ "[]"])
    next
      case False
      have "ticks (kern w1) < ticks (kern w)" using 1(3) a(2) by simp
      from less [OF this] obtain r w' fails where 2: "waitLoop B w1 = Some (r, w')" "set fails \<subseteq> {False}"
        "(r = Inr () \<and> probed (kern w') = probed (kern w1) @ fails @ [True] \<and> stats w' = UpdateWANStatus True (stats w1)) \<or>
         (\<exists>e. r = Inl e \<and> gone (kern w') \<and> probed (kern w') = probed (kern w1) @ fails \<and> stats w' = stats w1)"
        by (auto simp: wp_iff)
      have "waitLoop B w = Some (r, w')" using 1(1) 2(1) x None False by (simp add: waitLoop.simps [of _ w])
      moreover have "set (False # fails) \<subseteq> {False}" using 2(2) by simp
      moreover have "(r = Inr () \<and> probed (kern w') = probed (kern w) @ (False # fails) @ [True] \<and> stats w' = UpdateWANStatus True (stats w)) \<or>
         (\<exists>e. r = Inl e \<and> gone (kern w') \<and> probed (kern w') = probed (kern w) @ (False # fails) \<and> stats w' = stats w)"
        using 2(3) 1(2,4) False by simp
      ultimately show ?thesis unfolding wp_iff by blast
    qed
  qed
qed

end

section \<open>A reference network\<close>

text \<open>The outcomes of the checks to come, what was probed, and the ticks before the context is cancelled.\<close>

record bk =
  bkAnswers :: "bool list"
  bkProbed :: "bool list"
  bkGone :: bool
  bkTicks :: nat

definition refTick :: "bk \<Rightarrow> err option \<times> bk" where
  "refTick k = (if bkTicks k = 0 then (Some (Sentinel ErrCanceled), k\<lparr>bkGone := True\<rparr>) else (None, k\<lparr>bkTicks := bkTicks k - 1\<rparr>))"

definition refB :: "bk probeops" where
  "refB = \<lparr>pbDial = (\<lambda>hosts t k. let up = (bkAnswers k \<noteq> [] \<and> hd (bkAnswers k)); rs = map (\<lambda>h. (h, up)) hosts
       in ((rs, nat t + 1), k\<lparr>bkAnswers := tl (bkAnswers k), bkProbed := bkProbed k @ [anySuccess rs]\<rparr>)),
     pbServer = (\<lambda>_ _. Pair (True, 20000000)), pbElapsed = Pair 1000,
     pbCtx = (\<lambda>k. (if bkGone k then Some (Sentinel ErrCanceled) else None, k)), pbAfter = (\<lambda>_. refTick), pbTicker = refTick\<rparr>"

interpretation refb: probe_host refB bkProbed bkGone bkTicks
  by unfold_locales (auto simp: refB_def refTick_def quiet_def Let_def split: if_splits)

definition demoSW :: "'k \<Rightarrow> 'k sw" where
  "demoSW k = \<lparr>kern = k, ipt4Cmd = [], ipt6Cmd = [], active = True, activePort = 0,
     Token = [], TokenTime = 0, AuthIPs = [], ServerListIPs = [], Servers = [], tokenFile = Inl (Sentinel ErrNotExist),
     writable = True, now = 0, ctxErr = None, resolvConf = Inr [], resolvBak = Inl (Sentinel ErrNotExist), ioFaults = [],
     upstreams = [], conns = (\<lambda>_. None), idx = 0, stats = exampleMetrics, portCh = None\<rparr>"

section \<open>Properties\<close>

text \<open>
  C13. The wait for the WAN. It ends: with success as soon as a check succeeds, which is the last
  one it makes, and the metrics then say that the WAN is up; or with the error of a cancelled
  context, after checks that all failed, and the metrics then say that it is down.
\<close>

theorem wait_for_up:
  assumes "probe_host B probed gone ticks"
  shows "\<exists>r w' fails. WaitForUp B w = Some (r, w') \<and> set fails \<subseteq> {False} \<and>
    ((r = Inr () \<and> probed (kern w') = probed (kern w) @ fails @ [True] \<and> WANUp (stats w')) \<or>
     (\<exists>e. r = Inl e \<and> gone (kern w') \<and> fails \<noteq> [] \<and> probed (kern w') = probed (kern w) @ fails \<and> \<not> WANUp (stats w')))"
proof -
  have "wp (Check B) (\<lambda>r w'. \<exists>up. r = Inr up \<and> probed (kern w') = probed (kern w) @ [up]) w"
    by (rule probe_host.wp_Check [OF assms]) simp
  then obtain up w1 where 1: "Check B w = Some (Inr up, w1)" "probed (kern w1) = probed (kern w) @ [up]" by (auto simp: wp_iff)
  show ?thesis
  proof (cases up)
    case True
    then show ?thesis using 1
      by (auto simp: WaitForUp_def bindP_def updStats_def modifyP_def UpdateWANStatus_def intro!: exI [of _ "[]"])
  next
    case False
    let ?w = "w1\<lparr>stats := UpdateWANStatus False (stats w1)\<rparr>"
    from probe_host.wp_waitLoop [OF assms, of ?w] obtain r w' fails where 2: "waitLoop B ?w = Some (r, w')" "set fails \<subseteq> {False}"
      "(r = Inr () \<and> probed (kern w') = probed (kern ?w) @ fails @ [True] \<and> stats w' = UpdateWANStatus True (stats ?w)) \<or>
       (\<exists>e. r = Inl e \<and> gone (kern w') \<and> probed (kern w') = probed (kern ?w) @ fails \<and> stats w' = stats ?w)"
      by (auto simp: wp_iff)
    have "WaitForUp B w = Some (r, w')" using 1(1) 2(1) False by (simp add: WaitForUp_def bindP_def updStats_def modifyP_def)
    moreover have "set (False # fails) \<subseteq> {False}" using 2(2) by simp
    moreover have "(r = Inr () \<and> probed (kern w') = probed (kern w) @ (False # fails) @ [True] \<and> WANUp (stats w')) \<or>
     (\<exists>e. r = Inl e \<and> gone (kern w') \<and> False # fails \<noteq> [] \<and> probed (kern w') = probed (kern w) @ (False # fails) \<and> \<not> WANUp (stats w'))"
      using 2(3) 1(2) False by (auto simp: UpdateWANStatus_def)
    ultimately show ?thesis by blast
  qed
qed

theorem wait_for_up_witness:
  "\<exists>r w' fails. WaitForUp refB (demoSW \<lparr>bkAnswers = [False, False, True], bkProbed = [], bkGone = False, bkTicks = 5\<rparr>) = Some (r, w') \<and>
     set fails \<subseteq> {False} \<and> ((r = Inr () \<and> bkProbed (kern w') = fails @ [True] \<and> WANUp (stats w')) \<or>
     (\<exists>e. r = Inl e \<and> bkGone (kern w') \<and> fails \<noteq> [] \<and> bkProbed (kern w') = fails \<and> \<not> WANUp (stats w')))"
  using wait_for_up [OF refb.probe_host_axioms, of "demoSW \<lparr>bkAnswers = [False, False, True], bkProbed = [], bkGone = False, bkTicks = 5\<rparr>"]
  by (simp add: demoSW_def)

end
