(* ===== verification/Monitor.thy ===== *)
theory Monitor
  imports Wan GoTime
begin

text \<open>
  The health monitor (\<^verbatim>\<open>internal/monitor\<close>): a check at every tick, and, when one fails, checks in
  rapid succession until one succeeds or the failure window is over. Log lines are left out.
\<close>

record monitorConfig =
  Interval :: int
  FailureWindow :: int

definition monTimeout :: int where
  "monTimeout = 3 * second"

definition monHosts :: "string list" where
  "monHosts = [''1.1.1.1:443'', ''8.8.8.8:443'', ''9.9.9.9:443'']"

definition checkConnectivity :: "'k probeops \<Rightarrow> int \<Rightarrow> (('k, 'm) cw_scheme, bool \<times> int) prog" where
  "checkConnectivity B timeout = probe B monHosts timeout"

text \<open>The latency in nanoseconds, or -1.\<close>

definition checkServerLatency :: "'k probeops \<Rightarrow> string \<Rightarrow> (('k, 'm) cw_scheme, int) prog" where
  "checkServerLatency B serverIP =
     bindP (askK (pbServer B (serverIP @ '':443'') monTimeout)) (\<lambda>(ok, el). ret (if ok then int el else -1))"

definition serverLatency :: "'k probeops \<Rightarrow> string \<Rightarrow> (('k, 'm) cw_scheme, int) prog" where
  "serverLatency B serverIP = (if serverIP = [] then ret (-1) else checkServerLatency B serverIP)"

text \<open>\<open>t\<close> is the timeout of the next check, which never grows.\<close>

partial_function (option) rapidLoop ::
    "'k probeops \<Rightarrow> int \<Rightarrow> int \<Rightarrow> int \<Rightarrow> ('k, 'm) sw_scheme \<Rightarrow> ((err + unit) \<times> ('k, 'm) sw_scheme) option" where
  "rapidLoop B window failureStart t w = (case pbCtx B (kern w) of (x, k) \<Rightarrow>
     (if x \<noteq> None then Some (Inr (), w\<lparr>kern := k\<rparr>)
      else case readClock (pbElapsed B) (w\<lparr>kern := k\<rparr>) of
        None \<Rightarrow> None | Some (Inl e, w1) \<Rightarrow> Some (Inl e, w1)
      | Some (Inr now1, w1) \<Rightarrow> (let remaining = wrap64 (window - Since failureStart now1) in
          if remaining \<le> 0 then Some (Inl (Errorf ''connection down'' []), w1)
          else let t = min remaining t in case checkConnectivity B t w1 of
            None \<Rightarrow> None | Some (Inl e, w2) \<Rightarrow> Some (Inl e, w2)
          | Some (Inr (ok, _), w2) \<Rightarrow> (case readClock (pbElapsed B) w2 of
              None \<Rightarrow> None | Some (Inl e, w3) \<Rightarrow> Some (Inl e, w3)
            | Some (Inr now3, w3) \<Rightarrow>
                (if ok then Some (Inr (), w3)
                 else if Since failureStart now3 \<ge> window then Some (Inl (Errorf ''connection down'' []), w3)
                 else rapidLoop B window failureStart t w3)))))"

definition performRapidChecks :: "'k probeops \<Rightarrow> monitorConfig \<Rightarrow> (('k, 'm) sw_scheme, unit) prog" where
  "performRapidChecks B cfg =
     bindP (readClock (pbElapsed B)) (\<lambda>failureStart. rapidLoop B (FailureWindow cfg) failureStart monTimeout)"

text \<open>What goes to the metrics when they are enabled.\<close>

definition recordCheck :: "'k probeops \<Rightarrow> string \<Rightarrow> bool \<Rightarrow> int \<Rightarrow> (('k, 'm) sw_scheme, unit) prog" where
  "recordCheck B serverIP ok duration =
     bindP (getsP (\<lambda>w. mcEnabled (mConfig (stats w)))) (\<lambda>enabled.
     if enabled then
       bindP (readClock (pbElapsed B)) (\<lambda>t. bindP (updStats (RecordCheck ok duration t)) (\<lambda>_.
       bindP (serverLatency B serverIP) (\<lambda>latency.
       if latency > 0 then updStats (ObserveServerLatency latency) else ret ())))
     else ret ())"

definition performCheck :: "'k probeops \<Rightarrow> monitorConfig \<Rightarrow> string \<Rightarrow> (('k, 'm) sw_scheme, unit) prog" where
  "performCheck B cfg serverIP =
     bindP (checkConnectivity B monTimeout) (\<lambda>(ok, duration).
     bindP (recordCheck B serverIP ok duration) (\<lambda>_.
     bindP (askK (pbCtx B)) (\<lambda>x.
     if x \<noteq> None then ret ()
     else if \<not> ok then performRapidChecks B cfg
     else ret ())))"

definition reconnectErr :: "err \<Rightarrow> err" where
  "reconnectErr e = Errorf '': '' [e, Sentinel ErrReconnect]"

definition checkOr :: "'k probeops \<Rightarrow> monitorConfig \<Rightarrow> string \<Rightarrow> (('k, 'm) sw_scheme, unit) prog" where
  "checkOr B cfg serverIP = bindP (tryP (performCheck B cfg serverIP)) (\<lambda>r. case r of
       Inr _ \<Rightarrow> ret () | Inl e \<Rightarrow> throw (reconnectErr e))"

partial_function (option) monitorLoop ::
    "'k probeops \<Rightarrow> monitorConfig \<Rightarrow> string \<Rightarrow> ('k, 'm) sw_scheme \<Rightarrow> ((err + unit) \<times> ('k, 'm) sw_scheme) option" where
  "monitorLoop B cfg serverIP w = (case pbTicker B (kern w) of (x, k) \<Rightarrow>
     (if x \<noteq> None then Some (Inr (), w\<lparr>kern := k\<rparr>)
      else case checkOr B cfg serverIP (w\<lparr>kern := k\<rparr>) of
        None \<Rightarrow> None
      | Some (Inl e, w') \<Rightarrow> Some (Inl e, w')
      | Some (Inr _, w') \<Rightarrow> monitorLoop B cfg serverIP w'))"

text \<open>A ticker with an interval that is not positive panics.\<close>

definition monitorRun :: "'k probeops \<Rightarrow> monitorConfig \<Rightarrow> string \<Rightarrow> (('k, 'm) sw_scheme, unit) prog" where
  "monitorRun B cfg serverIP =
     (if Interval cfg \<le> 0 then throw (panic ''non-positive interval for NewTicker'')
      else bindP (checkOr B cfg serverIP) (\<lambda>_. monitorLoop B cfg serverIP))"

section \<open>What the checks amount to\<close>

text \<open>
  \<open>checked\<close>: what was probed since \<open>w0\<close>. An error means that every check failed for the whole
  window; success that the context is cancelled or that the last check succeeded.
\<close>

definition verdictOf :: "('k \<Rightarrow> bool list) \<Rightarrow> ('k \<Rightarrow> bool) \<Rightarrow> int \<Rightarrow> int \<Rightarrow> bool list \<Rightarrow> err + unit \<Rightarrow> ('k, 'm) cw_scheme \<Rightarrow> bool" where
  "verdictOf pr g window start before r w \<longleftrightarrow> (\<exists>new. pr (kern w) = before @ new \<and>
     (case r of Inl _ \<Rightarrow> set new \<subseteq> {False} \<and> window \<le> now w - start
      | Inr _ \<Rightarrow> g (kern w) \<or> (new \<noteq> [] \<and> last new)))"

lemma verdictOf_step:
  assumes "verdictOf pr g window start (before @ [False]) r w"
  shows "verdictOf pr g window start before r w"
proof -
  from assms obtain new where new: "pr (kern w) = before @ False # new"
    "case r of Inl _ \<Rightarrow> set new \<subseteq> {False} \<and> window \<le> now w - start | Inr _ \<Rightarrow> g (kern w) \<or> (new \<noteq> [] \<and> last new)"
    by (auto simp: verdictOf_def)
  then show ?thesis unfolding verdictOf_def by (intro exI [of _ "False # new"]) (auto split: sum.splits)
qed

lemma Since_window:
  assumes "0 \<le> window" "window < 2 ^ 63" "start \<le> n"
  shows "Since start n \<ge> window \<longleftrightarrow> n - start \<ge> window" and "wrap64 (window - Since start n) = window - Since start n"
    and "window - Since start n \<le> 0 \<longleftrightarrow> window \<le> n - start"
proof -
  have "0 \<le> Since start n" "Since start n < 2 ^ 63" using assms(3) by (simp_all add: Since_def Let_def)
  then show "wrap64 (window - Since start n) = window - Since start n"
    using assms(1,2) by (intro wrap64_id) (simp add: inInt64_def)
  show "Since start n \<ge> window \<longleftrightarrow> n - start \<ge> window" "window - Since start n \<le> 0 \<longleftrightarrow> window \<le> n - start"
    using assms by (auto simp: Since_def Let_def)
qed

context probe_host
begin

lemma wp_clock:
  assumes "\<And>t k'. probed k' = probed (kern w) \<Longrightarrow> ticks k' \<le> ticks (kern w) \<Longrightarrow> now w \<le> t \<Longrightarrow> Q (Inr t) (w\<lparr>kern := k', now := t\<rparr>)"
  shows "wp (readClock (pbElapsed B)) Q w"
  by (rule wp_readClock) (use assms quietD [OF elapsed] in auto)

lemma wp_rapidLoop:
  assumes "0 \<le> window" "window < 2 ^ 63" "start \<le> now w"
  shows "wp (rapidLoop B window start t) (\<lambda>r w'. verdictOf probed gone window start (probed (kern w)) r w' \<and> now w \<le> now w' \<and>
    ticks (kern w') \<le> ticks (kern w)) w"
  using assms(3)
proof (induction "nat (window - (now w - start))" arbitrary: w t rule: less_induct)
  case less
  obtain x k where x: "pbCtx B (kern w) = (x, k)" by fastforce
  note c = ctx [OF x]
  show ?case
  proof (cases x)
    case (Some e)
    then show ?thesis using c x by (auto simp: rapidLoop.simps [of _ _ _ _ w] wp_def verdictOf_def)
  next
    case None
    have "wp (readClock (pbElapsed B)) (\<lambda>r w1. \<exists>t. r = Inr t \<and> now w1 = t \<and> now w \<le> t \<and> probed (kern w1) = probed k \<and> ticks (kern w1) \<le> ticks k)
      (w\<lparr>kern := k\<rparr>)" by (rule wp_clock) simp
    then obtain t1 w1 where 1: "readClock (pbElapsed B) (w\<lparr>kern := k\<rparr>) = Some (Inr t1, w1)" "now w1 = t1" "now w \<le> t1"
      "probed (kern w1) = probed (kern w)" "ticks (kern w1) \<le> ticks (kern w)" using c by (auto simp: wp_iff)
    have st: "start \<le> t1" using less(2) 1(3) by simp
    note sw = Since_window [OF assms(1,2) st]
    show ?thesis
    proof (cases "window \<le> t1 - start")
      case True
      then show ?thesis using 1 x None sw
        by (simp add: rapidLoop.simps [of _ _ _ _ w] wp_def Let_def verdictOf_def)
    next
      case open': False
      let ?t = "min (window - Since start t1) t"
      have "wp (checkConnectivity B ?t) (\<lambda>r w2. \<exists>up el. r = Inr (up, el) \<and> now w2 = t1 + el \<and> 0 < el \<and>
        probed (kern w2) = probed (kern w) @ [up] \<and> ticks (kern w2) \<le> ticks (kern w)) w1"
        unfolding checkConnectivity_def by (rule wp_probe) (use 1 in auto)
      then obtain up el w2 where 2: "checkConnectivity B ?t w1 = Some (Inr (up, el), w2)" "now w2 = t1 + el" "0 < el"
        "probed (kern w2) = probed (kern w) @ [up]" "ticks (kern w2) \<le> ticks (kern w)" by (auto simp: wp_iff)
      have "wp (readClock (pbElapsed B)) (\<lambda>r w3. \<exists>t. r = Inr t \<and> now w3 = t \<and> now w2 \<le> t \<and> probed (kern w3) = probed (kern w2) \<and>
        ticks (kern w3) \<le> ticks (kern w2)) w2" by (rule wp_clock) simp
      then obtain t3 w3 where 3: "readClock (pbElapsed B) w2 = Some (Inr t3, w3)" "now w3 = t3" "t1 + el \<le> t3"
        "probed (kern w3) = probed (kern w) @ [up]" "ticks (kern w3) \<le> ticks (kern w)" using 2 by (auto simp: wp_iff)
      have st3: "start \<le> t3" using st 2(3) 3(3) by simp
      have pos: "\<not> wrap64 (window - Since start t1) \<le> 0" using open' sw by simp
      have run: "rapidLoop B window start t w = (if up then Some (Inr (), w3)
          else if window \<le> t3 - start then Some (Inl (Errorf ''connection down'' []), w3) else rapidLoop B window start ?t w3)"
        using x None 1(1) 2(1) 3(1) pos sw(2) Since_window(1) [OF assms(1,2) st3]
        by (simp add: rapidLoop.simps [of _ _ _ _ w] Let_def)
      have fin: "now w \<le> now w3" using 1(3) 2(3) 3(2,3) by simp
      show ?thesis
      proof (cases "up \<or> window \<le> t3 - start")
        case True
        then show ?thesis using run 3 fin by (auto simp: wp_def verdictOf_def)
      next
        case False
        have "nat (window - (now w3 - start)) < nat (window - (now w - start))" using False 1(3) 2(3) 3(2,3) less(2) by simp
        from less(1) [OF this, of ?t] show ?thesis
          using False run 3 fin st3 by (auto simp: wp_def split: option.splits dest: verdictOf_step)
      qed
    qed
  qed
qed

lemma wp_performCheck:
  assumes "0 \<le> FailureWindow cfg" "FailureWindow cfg < 2 ^ 63"
  shows "wp (performCheck B cfg srv) (\<lambda>r w'. verdictOf probed gone (FailureWindow cfg) (now w) (probed (kern w)) r w' \<and>
    ticks (kern w') \<le> ticks (kern w) \<and> now w \<le> now w' \<and> probed (kern w') \<noteq> probed (kern w)) w" (is "wp _ ?Q w")
proof -
  define J where "J up w' \<longleftrightarrow> probed (kern w') = probed (kern w) @ [up] \<and> ticks (kern w') \<le> ticks (kern w) \<and> now w \<le> now w'"
    for up and w' :: "('k, 'a) sw_scheme"
  have jc: "succeeds (J up) (readClock (pbElapsed B))" for up
    by (rule succeedsI, rule wp_clock) (auto simp: J_def)
  have js: "succeeds (J up) (askK (pbServer B h t))" for up h t
    by (rule succeedsI) (auto intro!: wp_askK simp: J_def dest!: quietD [OF server])
  have ju: "succeeds (J up) (updStats f)" "succeeds (J up) (getsP g)" for up f and g :: "('k, 'a) sw_scheme \<Rightarrow> bool"
    by (rule succeedsI, simp add: J_def)+
  have "succeeds (J up) (checkServerLatency B srv)" for up
    unfolding checkServerLatency_def by (auto intro!: succeeds_bindP js split: prod.splits)
  then have jr: "succeeds (J up) (recordCheck B srv ok d)" for up ok d
    unfolding recordCheck_def serverLatency_def by (auto intro!: succeeds_bindP jc ju)
  have rapid: "wp (performRapidChecks B cfg) ?Q w1" if j: "J False w1" for w1
    unfolding performRapidChecks_def wp_bindP
  proof (rule wp_clock, unfold sum.case)
    fix t k' assume k: "probed k' = probed (kern w1)" "ticks k' \<le> ticks (kern w1)" "now w1 \<le> t"
    let ?w2 = "w1\<lparr>kern := k', now := t\<rparr>"
    have d: "verdictOf probed gone (FailureWindow cfg) t (probed (kern w) @ [False]) r w' \<Longrightarrow> now w \<le> t \<Longrightarrow>
        verdictOf probed gone (FailureWindow cfg) (now w) (probed (kern w)) r w'" for r and w' :: "('k, 'a) sw_scheme"
      by (rule verdictOf_step) (auto simp: verdictOf_def split: sum.splits)
    show "wp (rapidLoop B (FailureWindow cfg) t monTimeout) ?Q ?w2"
      by (rule wp_conseq [OF wp_rapidLoop [OF assms]]) (use j k d in \<open>auto simp: J_def, auto simp: verdictOf_def\<close>)
  qed
  have decide: "wp (bindP (askK (pbCtx B)) (\<lambda>x. if x \<noteq> None then ret () else if \<not> ok then performRapidChecks B cfg else ret ())) ?Q w1"
    if "J ok w1" for ok w1
    unfolding wp_bindP
  proof (rule wp_askK, unfold sum.case)
    fix x k' assume "pbCtx B (kern w1) = (x, k')"
    note k = ctx [OF this]
    have "J ok (w1\<lparr>kern := k'\<rparr>)" using that k by (simp add: J_def)
    then show "wp (if x \<noteq> None then ret () else if \<not> ok then performRapidChecks B cfg else ret ()) ?Q (w1\<lparr>kern := k'\<rparr>)"
      using k rapid by (cases "x = None \<and> \<not> ok") (auto simp: J_def verdictOf_def)
  qed
  show ?thesis unfolding performCheck_def checkConnectivity_def wp_bindP [of "probe B h t" for h t]
  proof (rule wp_probe, unfold sum.case prod.case)
    fix ok el k' assume "probed k' = probed (kern w) @ [ok]" "0 < (el :: int)" "ticks k' \<le> ticks (kern w)"
    then have "J ok (w\<lparr>kern := k', now := now w + el\<rparr>)" by (simp add: J_def)
    from succeedsD [OF jr this, of ok el] obtain u w1 where "recordCheck B srv ok el (w\<lparr>kern := k', now := now w + el\<rparr>) = Some (Inr u, w1)" "J ok w1"
      by blast
    then show "wp (bindP (recordCheck B srv ok el) (\<lambda>_. bindP (askK (pbCtx B))
        (\<lambda>x. if x \<noteq> None then ret () else if \<not> ok then performRapidChecks B cfg else ret ()))) ?Q (w\<lparr>kern := k', now := now w + el\<rparr>)"
      using decide [of ok w1] by (simp add: wp_def bindP_def)
  qed
qed

lemma wp_checkOr:
  assumes "0 \<le> FailureWindow cfg" "FailureWindow cfg < 2 ^ 63"
  shows "wp (checkOr B cfg srv) (\<lambda>r w'. (\<exists>new. probed (kern w') = probed (kern w) @ new) \<and> ticks (kern w') \<le> ticks (kern w) \<and>
    (\<forall>e. r = Inl e \<longrightarrow> errors_is e ErrReconnect \<and> (\<exists>fails. fails \<noteq> [] \<and> set fails \<subseteq> {False} \<and> probed (kern w') = probed (kern w) @ fails \<and>
       (\<exists>e'. performCheck B cfg srv w = Some (Inl e', w')) \<and> FailureWindow cfg \<le> now w' - now w))) w"
proof -
  from wp_performCheck [OF assms, of srv w] obtain r w' where 1: "performCheck B cfg srv w = Some (r, w')"
    "verdictOf probed gone (FailureWindow cfg) (now w) (probed (kern w)) r w'" "ticks (kern w') \<le> ticks (kern w)"
    "probed (kern w') \<noteq> probed (kern w)" by (auto simp: wp_iff)
  then show ?thesis
    by (cases r) (auto simp: checkOr_def wp_def bindP_def tryP_def throw_def ret_def verdictOf_def reconnectErr_def)
qed

text \<open>A run makes its checks until one stretch of failures lasts for the window, or it is cancelled.\<close>

definition ranOut :: "monitorConfig \<Rightarrow> string \<Rightarrow> bool list \<Rightarrow> err + unit \<Rightarrow> ('k, 'm) sw_scheme \<Rightarrow> bool" where
  "ranOut cfg srv before r w \<longleftrightarrow> (r = Inr () \<longrightarrow> gone (kern w)) \<and>
     (\<forall>e. r = Inl e \<longrightarrow> errors_is e ErrReconnect \<and> (\<exists>w1 old fails e'. performCheck B cfg srv w1 = Some (Inl e', w) \<and>
        probed (kern w1) = before @ old \<and> probed (kern w) = before @ old @ fails \<and> fails \<noteq> [] \<and> set fails \<subseteq> {False} \<and>
        FailureWindow cfg \<le> now w - now w1))"

lemma ranOut_later: "ranOut cfg srv (before @ new) r w \<Longrightarrow> ranOut cfg srv before r w"
  unfolding ranOut_def by (cases r) (simp_all, metis append.assoc)

lemma wp_monitorLoop:
  assumes "0 \<le> FailureWindow cfg" "FailureWindow cfg < 2 ^ 63"
  shows "wp (monitorLoop B cfg srv) (\<lambda>r w'. ranOut cfg srv (probed (kern w)) r w') w"
proof (induction "ticks (kern w)" arbitrary: w rule: less_induct)
  case less
  obtain x k where x: "pbTicker B (kern w) = (x, k)" by fastforce
  note t = ticker [OF x]
  show ?case
  proof (cases x)
    case (Some e)
    then show ?thesis using t x by (auto simp: monitorLoop.simps [of _ _ _ w] wp_def ranOut_def)
  next
    case None
    let ?w = "w\<lparr>kern := k\<rparr>"
    from wp_checkOr [OF assms, of srv ?w] obtain r w1 where 1: "checkOr B cfg srv ?w = Some (r, w1)" "ticks (kern w1) \<le> ticks k"
      and n: "\<exists>new. probed (kern w1) = probed k @ new"
      and e: "\<forall>e. r = Inl e \<longrightarrow> errors_is e ErrReconnect \<and> (\<exists>fails. fails \<noteq> [] \<and> set fails \<subseteq> {False} \<and> probed (kern w1) = probed k @ fails \<and>
       (\<exists>e'. performCheck B cfg srv ?w = Some (Inl e', w1)) \<and> FailureWindow cfg \<le> now w1 - now w)" by (auto simp: wp_iff)
    show ?thesis
    proof (cases r)
      case (Inl e')
      with e obtain fails e2 where *: "errors_is e' ErrReconnect" "fails \<noteq> []" "set fails \<subseteq> {False}" "probed (kern w1) = probed k @ fails"
        "performCheck B cfg srv ?w = Some (Inl e2, w1)" "FailureWindow cfg \<le> now w1 - now w" by auto
      then have "\<exists>w2 old fails e'. performCheck B cfg srv w2 = Some (Inl e', w1) \<and> probed (kern w2) = probed (kern w) @ old \<and>
          probed (kern w1) = probed (kern w) @ old @ fails \<and> fails \<noteq> [] \<and> set fails \<subseteq> {False} \<and> FailureWindow cfg \<le> now w1 - now w2"
        using t by (intro exI [of _ ?w] exI [of _ "[]"] exI [of _ fails] exI [of _ e2]) simp
      then have "ranOut cfg srv (probed (kern w)) r w1" using Inl *(1) by (simp add: ranOut_def)
      then show ?thesis using 1 x None Inl by (simp add: monitorLoop.simps [of _ _ _ w] wp_def)
    next
      case (Inr u)
      have "ticks (kern w1) < ticks (kern w)" using 1(2) t None by simp
      from less [OF this] obtain r' w' where 2: "monitorLoop B cfg srv w1 = Some (r', w')" "ranOut cfg srv (probed (kern w1)) r' w'"
        by (auto simp: wp_iff)
      have "ranOut cfg srv (probed (kern w)) r' w'" using 2(2) n t None ranOut_later by auto
      then show ?thesis using 1(1) 2(1) x None Inr by (simp add: monitorLoop.simps [of _ _ _ w] wp_def)
    qed
  qed
qed

end

section \<open>Properties\<close>

text \<open>
  C12. A reconnection is asked for only when the tunnel has failed for the whole window.
  A run of the monitor always ends. It ends without an error only when it is cancelled, and with
  an error that asks for a reconnection only after a check that failed, as did every rapid check
  after it, until the failure window had passed.
\<close>

theorem monitor_reconnects:
  fixes w :: "('k, 'm) sw_scheme"
  assumes "probe_host B probed gone ticks" and "0 < Interval cfg" and "0 \<le> FailureWindow cfg" and "FailureWindow cfg < 2 ^ 63"
  shows "\<exists>r w'. monitorRun B cfg srv w = Some (r, w') \<and> (r = Inr () \<longrightarrow> gone (kern w')) \<and>
    (\<forall>e. r = Inl e \<longrightarrow> errors_is e ErrReconnect \<and> (\<exists>w1 old fails e'. performCheck B cfg srv w1 = Some (Inl e', w') \<and>
        probed (kern w1) = probed (kern w) @ old \<and> probed (kern w') = probed (kern w) @ old @ fails \<and> fails \<noteq> [] \<and> set fails \<subseteq> {False} \<and>
        FailureWindow cfg \<le> now w' - now w1))"
proof -
  from probe_host.wp_checkOr [OF assms(1,3,4), of srv w] obtain r w1 where 1: "checkOr B cfg srv w = Some (r, w1)"
    and n: "\<exists>new. probed (kern w1) = probed (kern w) @ new"
    and e: "\<forall>e. r = Inl e \<longrightarrow> errors_is e ErrReconnect \<and> (\<exists>fails. fails \<noteq> [] \<and> set fails \<subseteq> {False} \<and> probed (kern w1) = probed (kern w) @ fails \<and>
     (\<exists>e'. performCheck B cfg srv w = Some (Inl e', w1)) \<and> FailureWindow cfg \<le> now w1 - now w)" by (auto simp: wp_iff)
  show ?thesis
  proof (cases r)
    case (Inl e')
    with e obtain fails e2 where *: "errors_is e' ErrReconnect" "fails \<noteq> []" "set fails \<subseteq> {False}" "probed (kern w1) = probed (kern w) @ fails"
      "performCheck B cfg srv w = Some (Inl e2, w1)" "FailureWindow cfg \<le> now w1 - now w" by auto
    then have "\<exists>w2 old fails e'. performCheck B cfg srv w2 = Some (Inl e', w1) \<and> probed (kern w2) = probed (kern w) @ old \<and>
        probed (kern w1) = probed (kern w) @ old @ fails \<and> fails \<noteq> [] \<and> set fails \<subseteq> {False} \<and> FailureWindow cfg \<le> now w1 - now w2"
      by (intro exI [of _ w] exI [of _ "[]"] exI [of _ fails] exI [of _ e2]) simp
    then show ?thesis using 1 Inl assms(2) *(1) by (simp add: monitorRun_def bindP_def)
  next
    case (Inr u)
    obtain new where new: "probed (kern w1) = probed (kern w) @ new" using n by blast
    from probe_host.wp_monitorLoop [OF assms(1,3,4), of srv w1] obtain r' w' where 2: "monitorLoop B cfg srv w1 = Some (r', w')"
      "probe_host.ranOut B probed gone cfg srv (probed (kern w1)) r' w'" by (auto simp: wp_iff)
    have "probe_host.ranOut B probed gone cfg srv (probed (kern w)) r' w'"
      using 2(2) new probe_host.ranOut_later [OF assms(1)] by metis
    then show ?thesis using 1 Inr 2(1) assms(2) by (simp add: monitorRun_def bindP_def probe_host.ranOut_def [OF assms(1)])
  qed
qed

definition demoMonitor :: monitorConfig where
  "demoMonitor = \<lparr>Interval = 10 * second, FailureWindow = 30 * second\<rparr>"

definition demoNet :: "bk sw" where
  "demoNet = demoSW \<lparr>bkAnswers = [True, False, True, False], bkProbed = [], bkGone = False, bkTicks = 5\<rparr>"

theorem monitor_reconnects_witness:
  "\<exists>r w'. monitorRun refB demoMonitor ''212.102.35.1'' demoNet = Some (r, w') \<and> (r = Inr () \<longrightarrow> bkGone (kern w')) \<and>
    (\<forall>e. r = Inl e \<longrightarrow> errors_is e ErrReconnect)"
  using monitor_reconnects [OF refb.probe_host_axioms, of demoMonitor "''212.102.35.1''" demoNet]
  by (fastforce simp: demoMonitor_def second_def)

end
