(* ===== verification/AppConfig.thy ===== *)
theory AppConfig
  imports PortForward Monitor Proxy
begin

text \<open>
  The configuration (\<^verbatim>\<open>internal/app/config.go\<close>): what the environment and the secret files under
  \<^verbatim>\<open>/run/secrets\<close> make of it. A variable that is not set reads as the empty string, as in Go.
  The warnings about secrets and the debug listing of the values are left out.
\<close>

type_synonym env = "string \<Rightarrow> string"
type_synonym files = "string \<Rightarrow> fileState"

record piaSection =
  User :: string
  Pass :: string
  Location :: string
  DIPToken :: string
  ManualCN :: string
  ManualIP :: string

record vpnSection =
  MTU :: int
  IPv6Enabled :: bool
  wgBackend :: string

record fwSection =
  iptBackend :: string
  LANs :: string

record config =
  Version :: string
  LogLevel :: string
  SHA :: string
  DNS :: "string list"
  DNSMode :: string
  BootstrapDNS :: "string list"
  GetRealIP :: bool
  cPIA :: piaSection
  cVPN :: vpnSection
  cFW :: fwSection
  cPF :: pfConfig
  cPS :: psConfig
  cProxy :: proxyConfig
  cMetrics :: metricsConfig
  cMonitor :: monitorConfig

section \<open>Reading a variable\<close>

definition getEnv :: "env \<Rightarrow> string \<Rightarrow> string \<Rightarrow> string" where
  "getEnv env key dflt = (if env key \<noteq> [] then env key else dflt)"

definition getEnvOrSecret :: "env \<Rightarrow> files \<Rightarrow> string \<Rightarrow> string \<Rightarrow> string" where
  "getEnvOrSecret env files key dflt =
     (if env key \<noteq> [] then env key
      else case files (''/run/secrets/'' @ toLower key) of Inr content \<Rightarrow> TrimSpace content | Inl _ \<Rightarrow> dflt)"

definition getEnvBool :: "env \<Rightarrow> string \<Rightarrow> bool \<Rightarrow> bool" where
  "getEnvBool env key dflt = (if env key \<noteq> [] then env key = ''true'' else dflt)"

definition getEnvInt :: "env \<Rightarrow> string \<Rightarrow> int \<Rightarrow> int" where
  "getEnvInt env key dflt = (if env key \<noteq> [] then (case ParseInt (env key) of Some i \<Rightarrow> i | None \<Rightarrow> dflt) else dflt)"

definition parseLogLevel :: "string \<Rightarrow> int" where
  "parseLogLevel level = (let l = toLower level in
     if l = ''trace'' \<or> l = ''3'' then 3 else if l = ''debug'' \<or> l = ''2'' then 2
     else if l = ''error'' \<or> l = ''0'' then 0 else 1)"

text \<open>The loop over the parts of a list of servers.\<close>

fun serverParts :: "string list \<Rightarrow> string list" where
  "serverParts [] = []"
| "serverParts (s # ss) = (let s = TrimSpace s in if s \<noteq> [] then s # serverParts ss else serverParts ss)"

definition parseDNS :: "string \<Rightarrow> string \<times> string list" where
  "parseDNS dns =
     (if dns = ''pia'' then (''pia'', []) else if dns = ''system'' then (''system'', [])
      else (let servers = serverParts (Split (CHR '','') dns) in
        if Contains dns ''tls://'' then (''dot'', servers) else (''do53'', servers)))"

definition parseBootstrapDNS :: "string \<Rightarrow> string list" where
  "parseBootstrapDNS dns = (if dns = [] then [] else serverParts (Split (CHR '','') dns))"

definition setupAutoEnable :: "env \<Rightarrow> env" where
  "setupAutoEnable env =
     (if env ''PS_CLIENT'' \<noteq> [] \<or> env ''PS_SCRIPT'' \<noteq> [] then env(''PF_ENABLED'' := ''true'') else env)"

section \<open>The sections\<close>

definition loadPIAConfig :: "env \<Rightarrow> files \<Rightarrow> piaSection" where
  "loadPIAConfig env files = \<lparr>
     User = getEnvOrSecret env files ''PIA_USER'' [],
     Pass = getEnvOrSecret env files ''PIA_PASS'' [],
     Location = getEnv env ''PIA_LOCATIONS'' ''all'',
     DIPToken = getEnvOrSecret env files ''PIA_DIP_TOKEN'' [],
     ManualCN = getEnv env ''PIA_CN'' [],
     ManualIP = getEnv env ''PIA_IP'' []\<rparr>"

definition loadVPNConfig :: "env \<Rightarrow> vpnSection" where
  "loadVPNConfig env = \<lparr>
     MTU = getEnvInt env ''MTU'' 1420,
     IPv6Enabled = getEnvBool env ''IPV6_ENABLED'' False,
     wgBackend = getEnv env ''WG_BACKEND'' []\<rparr>"

definition loadFWConfig :: "env \<Rightarrow> fwSection" where
  "loadFWConfig env = \<lparr>iptBackend = getEnv env ''IPT_BACKEND'' [], LANs = getEnv env ''LOCAL_NETWORKS'' []\<rparr>"

definition loadPFConfig :: "env \<Rightarrow> pfConfig" where
  "loadPFConfig env = \<lparr>
     pfEnabled = getEnvBool env ''PF_ENABLED'' False,
     BindInterval = durationOf (getEnvInt env ''PF_BIND_INTERVAL'' 900) second,
     SignatureSafetyHours = getEnvInt env ''PF_SIGNATURE_SAFETY_HOURS'' 6,
     PortFile = getEnv env ''PORT_FILE'' ''/run/pia-tun/port''\<rparr>"

definition loadPSConfig :: "env \<Rightarrow> files \<Rightarrow> psConfig" where
  "loadPSConfig env files = \<lparr>
     psClient = getEnv env ''PS_CLIENT'' [],
     psURL = getEnv env ''PS_URL'' [],
     psUser = getEnvOrSecret env files ''PS_USER'' [],
     psPass = getEnvOrSecret env files ''PS_PASS'' [],
     psScript = getEnv env ''PS_SCRIPT'' []\<rparr>"

definition loadProxyConfig :: "env \<Rightarrow> files \<Rightarrow> proxyConfig" where
  "loadProxyConfig env files = \<lparr>
     HTTPEnabled = getEnvBool env ''HTTP_PROXY_ENABLED'' False,
     Socks5Enabled = getEnvBool env ''SOCKS5_ENABLED'' False,
     pUser = getEnvOrSecret env files ''PROXY_USER'' [],
     pPass = getEnvOrSecret env files ''PROXY_PASS'' [],
     Socks5Port = getEnvInt env ''SOCKS5_PORT'' 1080,
     HTTPPort = getEnvInt env ''HTTP_PROXY_PORT'' 8888\<rparr>"

definition loadMetricsConfig :: "env \<Rightarrow> metricsConfig" where
  "loadMetricsConfig env = \<lparr>
     mcEnabled = getEnvBool env ''METRICS_ENABLED'' True,
     mcPort = getEnvInt env ''METRICS_PORT'' 9090,
     mcName = getEnv env ''INSTANCE_NAME'' []\<rparr>"

definition loadMonitorConfig :: "env \<Rightarrow> monitorConfig" where
  "loadMonitorConfig env = \<lparr>
     Interval = durationOf (getEnvInt env ''HC_INTERVAL'' 10) second,
     FailureWindow = durationOf (getEnvInt env ''HC_FAILURE_WINDOW'' 30) second\<rparr>"

text \<open>The configuration and the log level.\<close>

definition LoadConfig :: "env \<Rightarrow> files \<Rightarrow> config \<times> int" where
  "LoadConfig env0 files =
     (let env = setupAutoEnable env0;
          (dnsMode, dns) = parseDNS (getEnv env ''DNS'' ''pia'')
      in (\<lparr>Version = getEnv env ''VERSION'' ''local'',
           LogLevel = getEnv env ''LOG_LEVEL'' ''info'',
           SHA = getEnv env ''SHA'' [],
           DNS = dns,
           DNSMode = dnsMode,
           BootstrapDNS = parseBootstrapDNS (getEnv env ''BOOTSTRAP_DNS'' []),
           GetRealIP = getEnvBool env ''GET_REAL_IP'' True,
           cPIA = loadPIAConfig env files,
           cVPN = loadVPNConfig env,
           cFW = loadFWConfig env,
           cPF = loadPFConfig env,
           cPS = loadPSConfig env files,
           cProxy = loadProxyConfig env files,
           cMetrics = loadMetricsConfig env,
           cMonitor = loadMonitorConfig env\<rparr>,
          parseLogLevel (getEnv env ''LOG_LEVEL'' ''info'')))"

definition validate :: "config \<Rightarrow> err option" where
  "validate cfg = (if User (cPIA cfg) = [] \<or> Pass (cPIA cfg) = []
     then Some (Errorf ''Set PIA_USER and PIA_PASS environment variables, or use Docker secrets at /run/secrets/pia_user and pia_pass'' [])
     else None)"

section \<open>What a configuration satisfies\<close>

text \<open>A part of a list of servers: no comma, no white space around it, not empty.\<close>

definition serverName :: "string \<Rightarrow> bool" where
  "serverName s \<longleftrightarrow> s \<noteq> [] \<and> CHR '','' \<notin> set s \<and> \<not> isSpace (hd s) \<and> \<not> isSpace (last s)"

lemma TrimSpace_ends: "TrimSpace s \<noteq> [] \<Longrightarrow> \<not> isSpace (hd (TrimSpace s)) \<and> \<not> isSpace (last (TrimSpace s))"
proof -
  assume n: "TrimSpace s \<noteq> []"
  let ?d = "dropWhile isSpace s" and ?r = "dropWhile isSpace (rev (dropWhile isSpace s))"
  have r: "?r \<noteq> []" and "\<not> isSpace (hd ?r)" using n hd_dropWhile [of isSpace "rev ?d"] by (auto simp: TrimSpace_def)
  then have l: "\<not> isSpace (last (TrimSpace s))" by (simp add: TrimSpace_def last_rev)
  obtain p where "rev ?d = p @ ?r" by (metis takeWhile_dropWhile_id)
  then have "?d = rev ?r @ rev p" by (metis rev_append rev_rev_ident)
  moreover have "?d \<noteq> []" using r by (metis dropWhile.simps(1) rev.simps(1))
  then have "\<not> isSpace (hd ?d)" using hd_dropWhile [of isSpace s] dropWhile_eq_Nil_conv by blast
  ultimately have "\<not> isSpace (hd (rev ?r))" using r by (metis hd_append2 rev_is_Nil_conv)
  then show ?thesis using l by (simp add: TrimSpace_def)
qed

lemma TrimSpace_set: "set (TrimSpace s) \<subseteq> set s"
  unfolding TrimSpace_def by (metis set_dropWhileD set_rev subsetI)

lemma serverParts_names: "\<forall>p \<in> set ps. CHR '','' \<notin> set p \<Longrightarrow> s \<in> set (serverParts ps) \<Longrightarrow> serverName s"
proof (induction ps)
  case (Cons p ps)
  then show ?case using TrimSpace_ends [of p] TrimSpace_set [of p]
    by (auto simp: Let_def serverName_def split: if_splits)
qed simp

lemma servers_named: "s \<in> set (serverParts (Split (CHR '','') dns)) \<Longrightarrow> serverName s"
  by (rule serverParts_names) (auto dest: Split_parts_no_sep)

lemma wrap64_range: "inInt64 (wrap64 i)"
  using sint_lt [of "word_of_int i :: 64 word"] sint_ge [of "word_of_int i :: 64 word"] by (simp add: wrap64_def inInt64_def)

lemma serverParts_all: "\<forall>s \<in> set ss. serverName s \<Longrightarrow> serverParts (map (Cons CHR '' '') ss) = ss"
proof (induction ss)
  case (Cons s ss)
  have "TrimSpace (CHR '' '' # s) = TrimSpace s" by (simp add: TrimSpace_def isSpace_def)
  moreover have "TrimSpace s = s" "s \<noteq> []" using Cons.prems by (auto simp: serverName_def intro!: TrimSpace_id)
  ultimately show ?case using Cons by simp
qed simp

lemma Split_Join_comma:
  "\<forall>s \<in> set (s0 # ss). CHR '','' \<notin> set s \<Longrightarrow> Split (CHR '','') (Join (s0 # ss) '', '') = s0 # map (Cons CHR '' '') ss"
proof (induction ss arbitrary: s0)
  case Nil
  then show ?case by (simp add: Split_no_sep)
next
  case (Cons s1 ss)
  have "Split (CHR '','') (Join (s1 # ss) '', '') = s1 # map (Cons CHR '' '') ss"
    by (rule Cons.IH) (use Cons.prems in simp)
  then have "Split (CHR '','') (CHR '' '' # Join (s1 # ss) '', '') = (CHR '' '' # s1) # map (Cons CHR '' '') ss"
    by (simp only: Split.simps) simp
  moreover have "Join (s0 # s1 # ss) '', '' = s0 @ CHR '','' # CHR '' '' # Join (s1 # ss) '', ''" by simp
  moreover have "CHR '','' \<notin> set s0" using Cons.prems by simp
  note Split_append_sep [OF this, of "CHR '' '' # Join (s1 # ss) '', ''"]
  ultimately show ?case by simp
qed

lemma parts_of_join:
  assumes "\<forall>s \<in> set ss. serverName s" and "ss \<noteq> []"
  shows "serverParts (Split (CHR '','') (Join ss '', '')) = ss"
proof -
  obtain s0 r where ss: "ss = s0 # r" using assms(2) by (cases ss) auto
  have "Split (CHR '','') (Join ss '', '') = s0 # map (Cons CHR '' '') r"
    unfolding ss by (rule Split_Join_comma) (use assms ss in \<open>auto simp: serverName_def\<close>)
  moreover have "TrimSpace s0 = s0" "s0 \<noteq> []" using assms ss
    by (auto simp: serverName_def intro!: TrimSpace_id)
  ultimately show ?thesis using serverParts_all [of r] assms ss by simp
qed

lemma sublist_sep: "c \<notin> set p \<Longrightarrow> sublist p (a @ c # b) \<longleftrightarrow> sublist p a \<or> sublist p b"
proof
  assume c: "c \<notin> set p" and "sublist p (a @ c # b)"
  then obtain l r where lr: "a @ c # b = l @ p @ r" by (auto simp: sublist_def)
  show "sublist p a \<or> sublist p b"
  proof (cases "length l + length p \<le> length a")
    case True
    then have "a = l @ p @ take (length a - length (l @ p)) r" using arg_cong [OF lr, of "take (length a)"] by simp
    then show ?thesis by (metis sublist_appendI)
  next
    case False
    have "length a < length l"
    proof (rule ccontr)
      assume "\<not> length a < length l"
      then have i: "length a - length l < length p" using False by arith
      have "(l @ p @ r) ! length a = c" using arg_cong [OF lr, of "\<lambda>x. x ! length a"] by simp
      then have "p ! (length a - length l) = c" using i \<open>\<not> length a < length l\<close> by (simp add: nth_append)
      then show False using i c nth_mem by metis
    qed
    then have "b = drop (length a + 1) l @ p @ r"
      using arg_cong [OF lr, of "drop (length a + 1)"] by simp
    then show ?thesis by (metis sublist_appendI)
  qed
qed (auto simp: sublist_def, metis append.assoc append_Cons, metis append.assoc append_Cons)

lemma Contains_join:
  assumes "CHR '','' \<notin> set p" and "CHR '' '' \<notin> set p" and "p \<noteq> []" and "ss \<noteq> []"
  shows "Contains (Join ss '', '') p \<longleftrightarrow> (\<exists>s \<in> set ss. Contains s p)"
  using assms(4)
proof (induction ss rule: induct_list012)
  case (3 s t ss)
  have "Contains (Join (s # t # ss) '', '') p \<longleftrightarrow> sublist p (s @ CHR '','' # ([] @ CHR '' '' # Join (t # ss) '', ''))"
    by (simp add: Contains_def)
  also have "\<dots> \<longleftrightarrow> sublist p s \<or> sublist p (Join (t # ss) '', '')"
    unfolding sublist_sep [OF assms(1)] sublist_sep [OF assms(2)] using assms(3) by simp
  finally show ?case using 3 by (simp add: Contains_def)
qed (simp_all add: Contains_def)

section \<open>Properties\<close>

text \<open>
  C35. Every configuration is well formed, whatever the environment and the secret files hold: the
  DNS mode is one of the four the program knows, with servers only where the mode has them and
  every one a single name; the log level is between 0 and 3; the intervals fit 64 bits; and port
  forwarding is on whenever a client or a script waits for the port.
\<close>

theorem config_well_formed:
  "case LoadConfig env files of (cfg, level) \<Rightarrow>
     DNSMode cfg \<in> {''pia'', ''system'', ''do53'', ''dot''} \<and> (DNSMode cfg \<in> {''pia'', ''system''} \<longrightarrow> DNS cfg = []) \<and>
     (\<forall>s \<in> set (DNS cfg) \<union> set (BootstrapDNS cfg). serverName s) \<and> level \<in> {0, 1, 2, 3} \<and>
     inInt64 (BindInterval (cPF cfg)) \<and> inInt64 (Interval (cMonitor cfg)) \<and> inInt64 (FailureWindow (cMonitor cfg)) \<and>
     (psClient (cPS cfg) \<noteq> [] \<or> psScript (cPS cfg) \<noteq> [] \<longrightarrow> pfEnabled (cPF cfg)) \<and> Location (cPIA cfg) \<noteq> [] \<and> PortFile (cPF cfg) \<noteq> []"
proof -
  define e where "e = setupAutoEnable env"
  obtain m d where md: "parseDNS (getEnv e ''DNS'' ''pia'') = (m, d)" by fastforce
  then have "m \<in> {''pia'', ''system'', ''do53'', ''dot''}" "m \<in> {''pia'', ''system''} \<longrightarrow> d = []" "\<forall>s \<in> set d. serverName s"
    using servers_named by (auto simp: parseDNS_def Let_def split: if_splits)
  moreover have "\<forall>s \<in> set (parseBootstrapDNS x). serverName s" for x
    using servers_named by (auto simp: parseBootstrapDNS_def)
  moreover have "parseLogLevel x \<in> {0, 1, 2, 3}" for x by (simp add: parseLogLevel_def Let_def)
  moreover have "getEnv e k [] \<noteq> [] \<longleftrightarrow> e k \<noteq> []" for k by (simp add: getEnv_def)
  moreover have "e ''PS_CLIENT'' \<noteq> [] \<or> e ''PS_SCRIPT'' \<noteq> [] \<longrightarrow> getEnvBool e ''PF_ENABLED'' False"
    by (auto simp: e_def setupAutoEnable_def getEnvBool_def)
  moreover have "getEnv e k x \<noteq> []" if "x \<noteq> []" for k x using that by (simp add: getEnv_def)
  ultimately show ?thesis unfolding ball_Un
    by (simp add: LoadConfig_def Let_def e_def [symmetric] md loadPFConfig_def loadMonitorConfig_def loadPSConfig_def loadPIAConfig_def
        durationOf_def wrap64_range)
qed

text \<open>
  The intervals are exact for reasonable values only. A health-check interval that the
  environment gives in seconds is that many seconds exactly when it is at most 9223372036, about
  292 years, in absolute value; beyond that it wraps around.
\<close>

lemma interval_exact:
  assumes "env ''HC_INTERVAL'' = Itoa n" and "inInt64 n"
  shows "Interval (cMonitor (fst (LoadConfig env files))) = n * second \<longleftrightarrow> \<bar>n\<bar> \<le> 9223372036"
proof -
  have e: "setupAutoEnable env ''HC_INTERVAL'' = Itoa n" using assms(1) by (simp add: setupAutoEnable_def)
  have "Itoa n \<noteq> []" by (auto simp: Itoa_def)
  then have "Interval (cMonitor (fst (LoadConfig env files))) = wrap64 (n * second)"
    by (simp add: LoadConfig_def Let_def loadMonitorConfig_def getEnvInt_def e ParseInt_Itoa [OF assms(2)] durationOf_def split: prod.splits)
  moreover have "wrap64 (n * second) = n * second \<longleftrightarrow> inInt64 (n * second)" by (metis wrap64_id wrap64_range)
  moreover have "inInt64 (n * second) \<longleftrightarrow> \<bar>n\<bar> \<le> 9223372036" by (auto simp: inInt64_def second_def)
  ultimately show ?thesis by simp
qed

definition demoEnv :: env where
  "demoEnv = (\<lambda>_. [])(''HC_INTERVAL'' := Itoa 9223372037, ''PS_CLIENT'' := ''deluge'')"

theorem config_well_formed_witness:
  "pfEnabled (cPF (fst (LoadConfig demoEnv (\<lambda>_. Inl (Sentinel ErrNotExist))))) \<and>
     DNS (fst (LoadConfig demoEnv (\<lambda>_. Inl (Sentinel ErrNotExist)))) = []"
proof -
  have "psClient (cPS (fst (LoadConfig demoEnv (\<lambda>_. Inl (Sentinel ErrNotExist))))) = ''deluge''"
    "DNSMode (fst (LoadConfig demoEnv (\<lambda>_. Inl (Sentinel ErrNotExist)))) = ''pia''"
    by (simp_all add: LoadConfig_def Let_def setupAutoEnable_def demoEnv_def getEnv_def parseDNS_def loadPSConfig_def)
  then show ?thesis
    using config_well_formed [of demoEnv "\<lambda>_. Inl (Sentinel ErrNotExist)"] by (simp add: split_beta)
qed

lemma interval_exact_witness:
  "Interval (cMonitor (fst (LoadConfig demoEnv (\<lambda>_. Inl (Sentinel ErrNotExist))))) \<noteq> 9223372037 * second"
  using interval_exact [of demoEnv 9223372037 "\<lambda>_. Inl (Sentinel ErrNotExist)"] by (simp add: demoEnv_def inInt64_def)

text \<open>
  A list of DNS servers reads back. Joined by commas and spaces, the names come out as they
  went in, in the same order, and the mode is DNS over TLS exactly when one of them asks for it.
\<close>

lemma dns_list_roundtrip:
  assumes "\<forall>s \<in> set ss. serverName s" and "ss \<noteq> []" and "ss \<noteq> [''pia'']" and "ss \<noteq> [''system'']"
  shows "parseDNS (Join ss '', '') = (if \<exists>s \<in> set ss. Contains s ''tls://'' then ''dot'' else ''do53'', ss) \<and>
    parseBootstrapDNS (Join ss '', '') = ss"
proof
  note p = parts_of_join [OF assms(1,2)]
  have "serverParts (Split (CHR '','') []) = []" by code_simp
  then have ne: "Join ss '', '' \<noteq> []" using p assms(2) by metis
  then show "parseBootstrapDNS (Join ss '', '') = ss" using p by (simp add: parseBootstrapDNS_def)
  have "serverParts (Split (CHR '','') ''pia'') = [''pia'']" "serverParts (Split (CHR '','') ''system'') = [''system'']" by code_simp+
  then have "Join ss '', '' \<noteq> ''pia''" "Join ss '', '' \<noteq> ''system''" using p assms(3,4) by metis+
  moreover have "Contains (Join ss '', '') ''tls://'' \<longleftrightarrow> (\<exists>s \<in> set ss. Contains s ''tls://'')"
    by (rule Contains_join [OF _ _ _ assms(2)]) simp_all
  ultimately show "parseDNS (Join ss '', '') = (if \<exists>s \<in> set ss. Contains s ''tls://'' then ''dot'' else ''do53'', ss)"
    using p by (simp add: parseDNS_def Let_def)
qed

lemma dns_list_roundtrip_witness:
  "parseDNS ''tls://1.1.1.1, 9.9.9.9'' = (''dot'', [''tls://1.1.1.1'', ''9.9.9.9''])"
proof -
  have "Join [''tls://1.1.1.1'', ''9.9.9.9''] '', '' = ''tls://1.1.1.1, 9.9.9.9''" by simp
  moreover have "Contains ''tls://1.1.1.1'' ''tls://''" unfolding Contains_def by code_simp
  ultimately show ?thesis
    using dns_list_roundtrip [of "[''tls://1.1.1.1'', ''9.9.9.9'']"] by (simp add: serverName_def isSpace_def)
qed

end
