(* ===== verification/App.thy ===== *)
theory App
  imports AppConfig Backend VpnSetup Verify PortRun
begin

text \<open>
  The orchestration of the program (\<^verbatim>\<open>internal/app/app.go\<close>, \<^verbatim>\<open>network.go\<close>, \<^verbatim>\<open>cmd/pia-tun/main.go\<close> and
  the loop of \<^verbatim>\<open>internal/cacher\<close>): initialisation behind the killswitch, connecting with retries,
  the services of a connection, reconnecting and cleaning up. The metrics collector, the API
  server and the proxies, which run beside it, are modelled in their own theories; log lines
  are left out.
\<close>

section \<open>State and parameters\<close>

record 'k aw = "'k pw" +
  connInfo :: "connectionInfo option"
  connectionUp :: bool
  exitedCleanly :: bool
  preVPNIP :: string
  appDNS :: "string list"

text \<open>
  What the program uses of its host. \<open>apLookup\<close> is the system resolver; \<open>apStatus\<close>, \<open>apProbes\<close> and
  \<open>apNewIpt\<close> are what \<^verbatim>\<open>firewall.New\<close> finds; \<open>apCtx\<close> is the error of the context, \<open>apSleep\<close> waits for
  an interval or for the context, \<open>apTicker\<close> for the next tick or the context; \<open>apFetch\<close> are the
  answers of web services asked at given addresses, in the order they arrive; \<open>apGroup\<close> runs
  services side by side until all of them have returned, and gives the first error
  (\<^verbatim>\<open>errgroup\<close>).
\<close>

record 'k appops =
  apN :: "'k netops"
  apS :: "'k sysops"
  apA :: "'k api"
  apD :: "'k dotops"
  apP :: "'k pfops"
  apT :: "'k psops"
  apB :: "'k probeops"
  apLookup :: "string \<Rightarrow> 'k \<Rightarrow> (err + string list) \<times> 'k"
  apStatus :: "err + string"
  apProbes :: probes
  apNewIpt :: "family \<Rightarrow> string \<Rightarrow> err option"
  apCtx :: "'k \<Rightarrow> err option \<times> 'k"
  apSleep :: "int \<Rightarrow> 'k \<Rightarrow> err option \<times> 'k"
  apTicker :: "'k \<Rightarrow> err option \<times> 'k"
  apFetch :: "(string \<times> string) list \<Rightarrow> 'k \<Rightarrow> (string \<times> (err + string)) list \<times> 'k"
  apGroup :: "('k pw, unit) prog list \<Rightarrow> ('k pw, unit) prog"

text \<open>A component works on its own part of the state; the fields of the application are out of its reach.\<close>

definition within :: "('k pw, 'a) prog \<Rightarrow> ('k aw, 'a) prog" where
  "within m w = (case m (pw.truncate w) of None \<Rightarrow> None | Some (r, p) \<Rightarrow> Some (r, pw.extend p (pw.more w)))"

section \<open>The real address (network.go)\<close>

definition realIPServices :: "string list" where
  "realIPServices = [''api.ipify.org'', ''icanhazip.com'']"

text \<open>A host that resolved to no address makes the code panic.\<close>

fun realTargets :: "(string \<times> hostResult) list \<Rightarrow> (string \<times> string) list option" where
  "realTargets [] = Some []"
| "realTargets ((hostname, result) # rs) =
     (if hrNXDomain result then realTargets rs
      else if hrIPs result = [] then None
      else map_option (Cons (hostname, hrIPs result ! 0)) (realTargets rs))"

definition fetchExternalIP :: "string \<times> (err + string) \<Rightarrow> err + string" where
  "fetchExternalIP resp = map_sum (\<lambda>e. e) TrimSpace (snd resp)"

fun firstFetched :: "(err + string) list \<Rightarrow> string" where
  "firstFetched [] = []"
| "firstFetched (Inr ip # rs) = ip"
| "firstFetched (Inl e # rs) = firstFetched rs"

definition realSpecs :: "(string \<times> string) list \<Rightarrow> exemption list" where
  "realSpecs targets = map (\<lambda>(hostname, ip). \<lparr>exIP = ip, exPort = ''443'', exProto = ''tcp'', exComment = hostname\<rparr>) targets"

definition captureRealIP :: "'k appops \<Rightarrow> resolver \<Rightarrow> ('k pw, string) prog" where
  "captureRealIP Z r =
     bindP (tryP (ResolveAll (apN Z) (apS Z) r realIPServices)) (\<lambda>res. case res of
       Inl _ \<Rightarrow> ret []
     | Inr resolved \<Rightarrow>
         (if length resolved = 0 then ret []
          else case realTargets resolved of
            None \<Rightarrow> throw (panic ''index out of range'')
          | Some targets \<Rightarrow>
              bindP (ignoreP (AddExemptions (apN Z) (realSpecs targets))) (\<lambda>_.
              deferP (RemoveExemptions (apN Z))
                (bindP (askK (apFetch Z targets)) (\<lambda>resps. ret (firstFetched (map fetchExternalIP resps)))))))"

section \<open>Retries\<close>

definition initialDelay :: int where "initialDelay = 5 * second"
definition maxDelay :: int where "maxDelay = 60 * second"

text \<open>What follows a failure: an error that ends the retries, or the delay that follows the next failure.\<close>

definition afterFailure :: "'k appops \<Rightarrow> int \<Rightarrow> err \<Rightarrow> ('k aw, int) prog" where
  "afterFailure Z delay e =
     bindP (askK (apCtx Z)) (\<lambda>x. case x of
       Some e' \<Rightarrow> throw e'
     | None \<Rightarrow>
         (if errors_is e ErrFatal then throw e
          else if errors_is e ErrRateLimited then bindP (runK (apSleep Z hour)) (\<lambda>_. ret delay)
          else bindP (within (Check (apB Z))) (\<lambda>up.
            if \<not> up then bindP (ignoreP (within (WaitForUp (apB Z)))) (\<lambda>_. ret initialDelay)
            else bindP (runK (apSleep Z delay)) (\<lambda>_. ret (min (2 * delay) maxDelay)))))"

partial_function (option) retryFrom ::
    "'k appops \<Rightarrow> ('k aw, unit) prog \<Rightarrow> int \<Rightarrow> 'k aw \<Rightarrow> ((err + unit) \<times> 'k aw) option" where
  "retryFrom Z fn delay w = (case fn w of
       None \<Rightarrow> None
     | Some (Inr _, w1) \<Rightarrow> Some (Inr (), w1)
     | Some (Inl e, w1) \<Rightarrow> (case afterFailure Z delay e w1 of
           None \<Rightarrow> None
         | Some (Inl e', w2) \<Rightarrow> Some (Inl e', w2)
         | Some (Inr delay', w2) \<Rightarrow> retryFrom Z fn delay' w2))"

definition retryWithWANCheck :: "'k appops \<Rightarrow> ('k aw, unit) prog \<Rightarrow> ('k aw, unit) prog" where
  "retryWithWANCheck Z fn = retryFrom Z fn initialDelay"

section \<open>DNS\<close>

definition setupDNS :: "'k appops \<Rightarrow> config \<Rightarrow> resolver \<Rightarrow> ('k aw, unit) prog" where
  "setupDNS Z cfg r =
     (if DNSMode cfg = ''pia'' then ret ()
      else if DNSMode cfg = ''system'' then
        bindP (within (fatalErr ''resolv.conf'' ReadResolv)) (\<lambda>resolvServers. modifyP (\<lambda>w. w\<lparr>appDNS := resolvServers\<rparr>))
      else if DNSMode cfg = ''do53'' then
        bindP (getsP appDNS) (\<lambda>dns. within (fatalErr ''resolv.conf'' (WriteResolv dns)))
      else if DNSMode cfg = ''dot'' then
        bindP (getsP appDNS) (\<lambda>dns.
        bindP (within (wgDown (apN Z) (apS Z))) (\<lambda>_.
        within (proxySetup (apN Z) (apS Z) (apD Z) r dns)))
      else throw (Errorf (''unknown DNS mode: '' @ DNSMode cfg) []))"

section \<open>Connecting\<close>

definition vpnConfigOf :: "config \<Rightarrow> vpnConfig" where
  "vpnConfigOf cfg = \<lparr>
     vcPIAUser = User (cPIA cfg), vcPIAPass = Pass (cPIA cfg), vcLocation = Location (cPIA cfg),
     vcDIPToken = DIPToken (cPIA cfg), vcPFRequired = pfEnabled (cPF cfg),
     vcManualCN = ManualCN (cPIA cfg), vcManualIP = ManualIP (cPIA cfg),
     vcMTU = MTU (cVPN cfg), vcIPv6 = IPv6Enabled (cVPN cfg), vcWGBackend = wgBackend (cVPN cfg)\<rparr>"

definition connect :: "'k appops \<Rightarrow> config \<Rightarrow> resolver \<Rightarrow> ('k aw, unit) prog" where
  "connect Z cfg r =
     bindP (within (wgDown (apN Z) (apS Z))) (\<lambda>_.
     bindP (within (vpnSetup (apN Z) (apS Z) (apA Z) r (vpnConfigOf cfg))) (\<lambda>info.
     bindP (modifyP (\<lambda>w. w\<lparr>connInfo := Some info\<rparr>)) (\<lambda>_.
     bindP (getsP now) (\<lambda>t.
     bindP (updStats (RecordNewConnection (ciServerCN info) (ciServerIP info) t)) (\<lambda>_.
     bindP (if DNSMode cfg = ''pia''
       then within (bindP (WriteResolv (ciDNS info)) (\<lambda>_. AddPIADNSRoutes (apN Z) (ciDNS info)))
       else ret ()) (\<lambda>_.
     bindP (getsP preVPNIP) (\<lambda>ip.
     bindP (within (VerifyConnection (apN Z) (apS Z) ip)) (\<lambda>_.
     bindP (modifyP (\<lambda>w. w\<lparr>connectionUp := True\<rparr>)) (\<lambda>_.
     updStats (UpdateConnectionStatus True))))))))))"

section \<open>The services of a connection\<close>

text \<open>The loop of the cacher (\<^verbatim>\<open>cacher.Run\<close>); a refresh that failed three times is dropped.\<close>

partial_function (option) cacherRun :: "'k appops \<Rightarrow> string \<Rightarrow> string \<Rightarrow> 'k pw \<Rightarrow> ((err + unit) \<times> 'k pw) option" where
  "cacherRun Z user pass w = (case apTicker Z (kern w) of (x, k) \<Rightarrow> (case x of
       Some e \<Rightarrow> Some (Inl e, w\<lparr>kern := k\<rparr>)
     | None \<Rightarrow> (case scheduledRefresh (apA Z) (apLookup Z) user pass (w\<lparr>kern := k\<rparr>) of
           None \<Rightarrow> None
         | Some (Inl e, w') \<Rightarrow> Some (Inl e, w')
         | Some (Inr _, w') \<Rightarrow> cacherRun Z user pass w')))"

definition pfConnectionOf :: "connectionInfo \<Rightarrow> pfConnection" where
  "pfConnectionOf info = \<lparr>pcClientIP = ciClientIP info, pcServerCN = ciServerCN info, pcPFGateway = ciPFGateway info\<rparr>"

definition services :: "'k appops \<Rightarrow> config \<Rightarrow> connectionInfo \<Rightarrow> ('k pw, unit) prog list" where
  "services Z cfg info =
     [monitorRun (apB Z) (cMonitor cfg) (ciServerIP info),
      cacherRun Z (User (cPIA cfg)) (Pass (cPIA cfg))] @
     (if psClient (cPS cfg) \<noteq> [] \<or> psScript (cPS cfg) \<noteq> [] then [runSyncer (apT Z) (newSyncer (cPS cfg))] else []) @
     (if pfEnabled (cPF cfg) then [pfRun (apN Z) (apP Z) True (cPF cfg) (pfConnectionOf info)] else [])"

definition signalDown :: "'k appops \<Rightarrow> config \<Rightarrow> ('k aw, unit) prog" where
  "signalDown Z cfg =
     bindP (modifyP (\<lambda>w. w\<lparr>connectionUp := False\<rparr>)) (\<lambda>_.
     bindP (updStats (UpdateConnectionStatus False)) (\<lambda>_.
     if DNSMode cfg = ''pia'' then within (ignoreP ClearResolv)
     else if DNSMode cfg = ''dot'' then within (CloseUpstreams (apD Z))
     else ret ()))"

text \<open>Before a first connection there is no \<open>connInfo\<close>, and the code would panic.\<close>

definition runServices :: "'k appops \<Rightarrow> config \<Rightarrow> ('k aw, unit) prog" where
  "runServices Z cfg =
     bindP (getsP connInfo) (\<lambda>ci. case ci of
       None \<Rightarrow> throw (panic ''nil pointer dereference'')
     | Some info \<Rightarrow>
         bindP (modifyP (\<lambda>w. w\<lparr>portCh := None\<rparr>)) (\<lambda>_.
         bindP (tryP (within (apGroup Z (services Z cfg info)))) (\<lambda>err.
         bindP (askK (apCtx Z)) (\<lambda>x.
         if x \<noteq> None then ret ()
         else bindP (signalDown Z cfg) (\<lambda>_. case err of Inl e \<Rightarrow> throw e | Inr _ \<Rightarrow> ret ())))))"

section \<open>The life of the program\<close>

definition newFirewallP :: "'k appops \<Rightarrow> string \<Rightarrow> ('k pw, unit) prog" where
  "newFirewallP Z backend w =
     (case NewFirewall (apNewIpt Z) (apStatus Z) (apProbes Z) (kern w) backend of
        Inl e \<Rightarrow> Some (Inl e, w)
      | Inr f \<Rightarrow> Some (Inr (), w\<lparr>ipt4Cmd := ipt4Cmd f, ipt6Cmd := ipt6Cmd f, active := active f, activePort := activePort f\<rparr>))"

text \<open>What comes before the killswitch, the killswitch, and what comes behind it.\<close>

definition setAside :: "config \<Rightarrow> ('k pw, unit) prog" where
  "setAside cfg = (if DNSMode cfg \<noteq> ''system'' then bindP Backup (\<lambda>_. ClearResolv) else ret ())"

definition raise :: "'k appops \<Rightarrow> config \<Rightarrow> ('k pw, unit) prog" where
  "raise Z cfg =
     bindP (newFirewallP Z (iptBackend (cFW cfg))) (\<lambda>_.
     Setup (apN Z) \<lparr>kcLANs = LANs (cFW cfg), kcIPv6Enabled = IPv6Enabled (cVPN cfg)\<rparr>)"

definition liftSum :: "err + 'a \<Rightarrow> ('w, 'a) prog" where
  "liftSum r w = Some (r, w)"

definition prepare :: "'k appops \<Rightarrow> config \<Rightarrow> ('k aw, resolver) prog" where
  "prepare Z cfg =
     bindP (getsP now) (\<lambda>t.
     bindP (modifyP (\<lambda>w. w\<lparr>stats := NewMetrics (cMetrics cfg) (Version cfg) t\<rparr>)) (\<lambda>_.
     let r = NewExemptResolver (BootstrapDNS cfg) in
     bindP (retryWithWANCheck Z (setupDNS Z cfg r)) (\<lambda>_.
     bindP (getsP appDNS) (\<lambda>dns.
     bindP (liftSum (ValidateDNS r dns (DNSMode cfg))) (\<lambda>_.
     bindP (if GetRealIP cfg then bindP (within (captureRealIP Z r)) (\<lambda>ip. modifyP (\<lambda>w. w\<lparr>preVPNIP := ip\<rparr>)) else ret ()) (\<lambda>_.
     bindP (within NewCache) (\<lambda>_. ret r)))))))"

definition initialize :: "'k appops \<Rightarrow> config \<Rightarrow> ('k aw, resolver) prog" where
  "initialize Z cfg = bindP (within (setAside cfg)) (\<lambda>_. bindP (within (raise Z cfg)) (\<lambda>_. prepare Z cfg))"

text \<open>What follows the services: the end, an error, or another connection; then the services run again.\<close>

definition afterServices :: "'k appops \<Rightarrow> config \<Rightarrow> resolver \<Rightarrow> err + unit \<Rightarrow> ('k aw, bool) prog" where
  "afterServices Z cfg r err =
     bindP (askK (apCtx Z)) (\<lambda>x.
     if x \<noteq> None then bindP (modifyP (\<lambda>w. w\<lparr>exitedCleanly := True\<rparr>)) (\<lambda>_. ret False)
     else case err of
       Inr _ \<Rightarrow> throw (panic ''nil pointer dereference'')
     | Inl e \<Rightarrow>
         (if errors_is e ErrReconnect then
            bindP (ignoreP (within (WaitForUp (apB Z)))) (\<lambda>_.
            bindP (retryWithWANCheck Z (connect Z cfg r)) (\<lambda>_.
            bindP (updStats RecordReconnect) (\<lambda>_. ret True)))
          else throw e))"

partial_function (option) serviceLoop :: "'k appops \<Rightarrow> config \<Rightarrow> resolver \<Rightarrow> 'k aw \<Rightarrow> ((err + unit) \<times> 'k aw) option" where
  "serviceLoop Z cfg r w = (case bindP (tryP (runServices Z cfg)) (afterServices Z cfg r) w of
       None \<Rightarrow> None
     | Some (Inl e, w') \<Rightarrow> Some (Inl e, w')
     | Some (Inr again, w') \<Rightarrow> (if again then serviceLoop Z cfg r w' else Some (Inr (), w')))"

definition cleanup :: "'k appops \<Rightarrow> ('k aw, unit) prog" where
  "cleanup Z =
     bindP (within (wgDown (apN Z) (apS Z))) (\<lambda>_.
     bindP (getsP exitedCleanly) (\<lambda>clean.
     if clean then within (bindP (Cleanup (apN Z)) (\<lambda>_. ignoreP Restore)) else ret ()))"

definition freshApp :: "config \<Rightarrow> 'k aw \<Rightarrow> 'k aw" where
  "freshApp cfg w = w\<lparr>connInfo := None, connectionUp := False, exitedCleanly := False, preVPNIP := [], appDNS := DNS cfg\<rparr>"

definition run :: "'k appops \<Rightarrow> config \<Rightarrow> ('k aw, unit) prog" where
  "run Z cfg = (case validate cfg of
       Some e \<Rightarrow> throw e
     | None \<Rightarrow>
         bindP (modifyP (freshApp cfg)) (\<lambda>_.
         bindP (initialize Z cfg) (\<lambda>r.
         deferP (cleanup Z)
           (bindP (retryWithWANCheck Z (connect Z cfg r)) (\<lambda>_. serviceLoop Z cfg r)))))"

definition Run :: "'k appops \<Rightarrow> env \<Rightarrow> files \<Rightarrow> ('k aw, unit) prog" where
  "Run Z env files = run Z (fst (LoadConfig env files))"

text \<open>The exit status of a process whose run did not panic.\<close>

definition exitStatus :: "err + unit \<Rightarrow> nat" where
  "exitStatus r = (case r of Inr _ \<Rightarrow> 0 | Inl e \<Rightarrow> if \<not> errors_is e ErrCanceled then 1 else 0)"

end
