(* ===== verification/AppSafety.thy ===== *)
theory AppSafety
  imports App DnsProxy
begin

text \<open>
  The killswitch holds for as long as the program runs (\<open>App\<close>): whatever a component asks of the
  firewall, and whichever commands fail, the chains drop what they should. \<open>keeps\<close> is for the
  programs that always return, \<open>preserves\<close> for those that may run for ever.
\<close>

section \<open>What the program may ask for\<close>

definition openPorts :: "(string \<times> string) set" where
  "openPorts = {(''443'', ''tcp''), (''53'', ''udp''), (''53'', ''tcp''), (''1337'', ''tcp'')}"

text \<open>Sets of rules, by chain, that have all the rules the program may add.\<close>

definition opens :: "(string \<Rightarrow> spec set) \<Rightarrow> bool" where
  "opens F \<longleftrightarrow> [''-j'', chainExempt] \<in> F ChainOut \<and> (\<forall>ip port proto. (port, proto) \<in> openPorts \<longrightarrow> exemptSpec ip port proto \<in> F chainExempt) \<and>
     (\<forall>proto port. portSpec proto port \<in> F ChainIn)"

lemma opensD:
  assumes "opens F"
  shows "[''-j'', chainExempt] \<in> F ChainOut" "exemptSpec ip ''443'' ''tcp'' \<in> F chainExempt" "exemptSpec ip ''53'' ''udp'' \<in> F chainExempt"
    "exemptSpec ip ''53'' ''tcp'' \<in> F chainExempt" "exemptSpec ip ''1337'' ''tcp'' \<in> F chainExempt" "portSpec proto port \<in> F ChainIn"
  using assms by (auto simp: opens_def openPorts_def)

section \<open>Connecting\<close>

context host_world
begin

lemma KS_still: "(\<And>k0. keeps (still k0) m) \<Longrightarrow> keeps (KS F) m"
  by (rule keepsI, rule wp_keeps [where I = "still (kern w)" for w]) (auto simp: undisturbed_def)

lemma KS_query: "opens F \<Longrightarrow> keeps (KS F) (query N S hosts srv)"
  unfolding query_def
  by (intro keeps_bindP keeps_wrapErr keeps_deferP keeps_AddExemptions keeps_RemoveExemptions KS_still [OF keeps_sys(10)])
    (auto simp: dnsExemptions_def opensD)

lemma KS_Resolve: "opens F \<Longrightarrow> keeps (KS F) (Resolve N S r host)"
proof -
  assume F: "opens F"
  have "keeps (KS F) (resolveLoop N S host srvs)" for srvs
    by (induction srvs) (auto intro!: keeps_bindP keeps_tryP KS_query [OF F] split: sum.split option.split)
  then show ?thesis unfolding Resolve_def .
qed

lemma KS_ResolveAll: "opens F \<Longrightarrow> keeps (KS F) (ResolveAll N S r hosts)"
proof -
  assume F: "opens F"
  have "keeps (KS F) (resolveAllLoop N S hosts srvs)" for srvs
    by (induction srvs) (auto intro!: keeps_bindP keeps_tryP KS_query [OF F] split: sum.split)
  then show ?thesis unfolding ResolveAll_def .
qed

lemma KS_modify: "(\<And>w. kern (f w) = kern w) \<Longrightarrow> keeps (KS F) (modifyP f)"
  by (rule keepsI) simp

lemma KS_wgUp: "keeps (KS F) (wgUp N S cfg)"
proof -
  have r: "keeps (KS F) (ipRuleAdd N IPv4 vpnSel priorityVPN)" "keeps (KS F) (ipRuleAdd N IPv4 suppressSel prioritySuppress)"
    by (rule keeps_KS_RF [where P = "{200, 300}"], rule keeps_rule_add,
        simp add: priorityVPN_def prioritySuppress_def, simp add: vpnSel_def suppressSel_def)+
  have c: "keeps (KS F) (runCmd N (addrCmd cfg))" "keeps (KS F) (runCmd N (mtuCmd cfg))" "keeps (KS F) (runCmd N fwmarkCmd)"
    "keeps (KS F) (runCmd N (peerCmd cfg))" "keeps (KS F) (runCmd N upCmd)" "keeps (KS F) (runCmd N routeCmd)"
    by (rule KS_still, rule keeps_runCmd,
        simp add: plainCmd_def addrCmd_def mtuCmd_def fwmarkCmd_def peerCmd_def upCmd_def routeCmd_def)+
  show ?thesis unfolding wgUp_def
    by (intro keeps_bindP keeps_wrapErr r c keeps_ret KS_still [OF keeps_createInterface] KS_still [OF keeps_setKey]
        KS_still [OF keeps_checkRPFilter])
qed

lemma KS_wgDown: "keeps (KS F) (wgDown N S)"
proof -
  have "keeps (KS F) (delLoop N [''ip'', ''rule'', ''del'', ''priority'', ItoaN p])" if "p \<in> {200, 300}" for p
    by (rule keeps_KS_RF [where P = "{200, 300}"], rule keeps_delLoop [where f = IPv4 and d = "''del''" and pw = "''priority''" and p = p])
      (use that in auto)
  then have "keeps (KS F) (cleanupRoutingRules N)"
    unfolding cleanupRoutingRules_def by (intro keeps_forP) (auto simp: priorityVPN_def prioritySuppress_def)
  moreover have "keeps (KS F) (runCmd N [''ip'', ''link'', ''set'', IfaceName, ''down''])" "keeps (KS F) (runCmd N [''ip'', ''link'', ''del'', IfaceName])"
    "keeps (KS F) (runK (nRun N [''pkill'', ''-f'', ''wireguard-go '' @ IfaceName]))"
    by (rule KS_still, rule keeps_runCmd keeps_cmd, simp add: plainCmd_def)+
  ultimately show ?thesis unfolding wgDown_def
    by (intro keeps_bindP keeps_ignoreP KS_still [OF keeps_sys(8)]) auto
qed

lemma KS_Verify: "keeps (KS F) (VerifyConnection N S ip)"
  by (rule keepsI, rule wp_conseq [OF wp_VerifyConnection]) (auto simp: undisturbed_def)

end

context vpn_world
begin

lemma KS_tryAuth: "opens F \<Longrightarrow> keeps (KS F) (tryAuth N A ip user pass)"
  unfolding tryAuth_def
  by (intro keeps_bindP keeps_wrapErr keeps_deferP keeps_AddExemption keeps_RemoveExemptions KS_still [OF still_api(2)] opensD)

lemma KS_authLoop: "opens F \<Longrightarrow> keeps (KS F) (authLoop N A user pass ips)"
  by (induction ips) (auto intro!: keeps_bindP keeps_tryP KS_tryAuth split: sum.split)

lemma KS_cache: "keeps (KS F) (MergeAuthIPs ips)" "keeps (KS F) (MergeServerListIPs ips)" "keeps (KS F) (SetToken tok)" "keeps (KS F) ClearToken"
  "keeps (KS F) ClearServerListIPs" "keeps (KS F) (MergeServers ss)"
  unfolding MergeAuthIPs_def MergeServerListIPs_def SetToken_def ClearToken_def ClearServerListIPs_def MergeServers_def Let_def removeToken_def
  by (rule KS_modify; simp)+

lemma KS_getToken: "opens F \<Longrightarrow> keeps (KS F) (getToken N S A r cfg)"
  unfolding getToken_def authenticate_def TokenFresh_def GetToken_def
  by (auto intro!: keeps_bindP KS_authLoop KS_cache KS_Resolve split: option.split prod.split)

lemma KS_getServers: "opens F \<Longrightarrow> keeps (KS F) (getServers N S A r)"
proof -
  assume F: "opens F"
  have "keeps (KS F) (tryServerListIPs N A ips)" for ips
    by (induction ips) (auto intro!: keeps_bindP keeps_tryP keeps_AddExemption KS_still [OF still_api(1)] opensD [OF F] split: sum.split)
  then show ?thesis unfolding getServers_def
    by (auto intro!: keeps_bindP KS_Resolve [OF F] KS_cache split: sum.split)
qed

lemma KS_raceLoop:
  "keeps (KS F) (bindP (askK (sRace S ips)) (\<lambda>evs. case raceLoop [] evs of None \<Rightarrow> neverP | Some collected \<Rightarrow> ret (raceBest cs collected)))"
proof (rule keepsI, unfold wp_bindP, rule wp_askK)
  fix w :: "('k, 'm) net_scheme" and evs k' assume w: "KS F w" and race: "sRace S ips (kern w) = (evs, k')"
  have "undisturbed V R H (kern w) k'" using sysD quietD [where f = "sRace S ips" and rel = "undisturbed V R H", OF _ race] by blast
  moreover have "raceLoop [] evs \<noteq> None"
    using race_ends [of ips "kern w"] raceLoop_ends [of "[]" evs] race by (cases "raceLoop [] evs") auto
  ultimately show "case Inr evs of Inl e \<Rightarrow> KS F (w\<lparr>kern := k'\<rparr>)
    | Inr a \<Rightarrow> wp (case raceLoop [] a of None \<Rightarrow> neverP | Some collected \<Rightarrow> ret (raceBest cs collected)) (\<lambda>_. KS F) (w\<lparr>kern := k'\<rparr>)"
    using w by (auto simp: undisturbed_def)
qed

lemma KS_raceDefer:
  "keeps (KS F) (deferP (RemoveExemptions N) (bindP (askK (sRace S ips))
     (\<lambda>evs. case raceLoop [] evs of None \<Rightarrow> neverP | Some collected \<Rightarrow> ret (raceBest cs collected))))"
  by (rule keeps_deferP [OF keeps_RemoveExemptions KS_raceLoop])

lemma KS_raceOpen: "opens F \<Longrightarrow> keeps (KS F) (wrapErr ''raceServers'' (AddExemptions N (raceSpecs cs)))"
  by (intro keeps_wrapErr keeps_AddExemptions) (auto simp: raceSpecs_def opensD)

lemma KS_race:
  assumes "opens F"
  shows "keeps (KS F) (raceServers N S cs)"
proof (cases "length cs = 0")
  case False
  then show ?thesis unfolding raceServers_def by (simp only: if_False keeps_bindP KS_raceOpen [OF assms] KS_raceDefer)
qed (simp add: raceServers_def)

lemma KS_select: "opens F \<Longrightarrow> keeps (KS F) (selectServer N S cfg)"
  unfolding selectServer_def Let_def by (auto intro!: keeps_bindP KS_race)

lemma KS_choose: "opens F \<Longrightarrow> keeps (KS F) (chooseServer N S A cfg token)"
proof -
  assume F: "opens F"
  have "keeps (KS F) (resolveDIPLoop N A d token ips)" for d ips
    by (induction ips) (auto intro!: keeps_bindP keeps_tryP keeps_AddExemption KS_still [OF still_api(3)] opensD [OF F] split: sum.split)
  then show ?thesis unfolding chooseServer_def resolveDIP_def Let_def
    by (auto intro!: keeps_bindP KS_select [OF F] split: prod.split option.split)
qed

lemma KS_register: "opens F \<Longrightarrow> keeps (KS F) (registerKey N A cfg token ip cn key)"
  unfolding registerKey_def
  by (auto intro!: keeps_bindP keeps_wrapErr keeps_tryP keeps_AddExemption opensD KS_still [OF still_addkey(1)] KS_still [OF still_addkey(2)]
      KS_cache split: sum.split)

lemma KS_vpnSetup: "opens F \<Longrightarrow> keeps (KS F) (vpnSetup N S A r cfg)"
  unfolding vpnSetup_def
  by (intro keeps_bindP KS_getToken) (auto intro!: keeps_bindP KS_getServers KS_choose KS_register keeps_fatalErr KS_wgUp
      KS_still [OF keeps_GenerateKeyPair] split: prod.split)

end

section \<open>DNS and cache\<close>

text \<open>Writes to files do not touch the host of the firewall.\<close>

lemma keeps_WriteFile: "(\<And>w fs x. I w \<Longrightarrow> I (put x (w\<lparr>ioFaults := fs\<rparr>))) \<Longrightarrow> keeps I (WriteFile put data)"
  by (rule keepsI) (auto simp: WriteFile_def wp_def Let_def split: option.splits)

lemma keeps_readP: "keeps I (readP f)"
  by (rule keepsI) (simp add: readP_def wp_def split: sum.splits)

lemma keeps_RemoveBak: "(\<And>w fs. I w \<Longrightarrow> I (w\<lparr>ioFaults := fs\<rparr>)) \<Longrightarrow> (\<And>w x. I w \<Longrightarrow> I (putBak x w)) \<Longrightarrow> keeps I RemoveBak"
  by (rule keepsI) (auto simp: RemoveBak_def wp_def Let_def split: option.splits)

context netfilter
begin

lemma KS_resolv:
  "keeps (KS F) (WriteResolv ss)" "keeps (KS F) ClearResolv" "keeps (KS F) Backup" "keeps (KS F) Restore" "keeps (KS F) ReadResolv"
  unfolding WriteResolv_def ClearResolv_def Backup_def Restore_def ReadResolv_def Let_def
  by (auto intro!: keeps_bindP keeps_wrapErr keeps_WriteFile keeps_readP keeps_ignoreP keeps_RemoveBak simp: putConf_def putBak_def)

lemma KS_NewCache: "keeps (KS F) NewCache"
  by (rule keepsI) (auto simp: NewCache_def wp_modifyP emptyCache_def removeToken_def Let_def split: sum.splits option.splits)

end

end
