(* ===== verification/AppRun.thy ===== *)
theory AppRun
  imports AppSafety Monitor
begin

text \<open>
  The life of the program (\<open>App\<close>) as a whole: the killswitch is kept from its setup to the exit,
  unless the program was told to stop; what the exit tells; how long the retries wait and that
  they succeed; what a connection leaves behind.
\<close>

section \<open>Programs that may run for ever\<close>

definition preserves :: "('w \<Rightarrow> bool) \<Rightarrow> ('w, 'a) prog \<Rightarrow> bool" where
  "preserves I m \<longleftrightarrow> (\<forall>w r w'. I w \<longrightarrow> m w = Some (r, w') \<longrightarrow> I w')"

lemma preservesI: "(\<And>w r w'. I w \<Longrightarrow> m w = Some (r, w') \<Longrightarrow> I w') \<Longrightarrow> preserves I m"
  by (auto simp: preserves_def)

lemma preservesD: "preserves I m \<Longrightarrow> m w = Some (r, w') \<Longrightarrow> I w \<Longrightarrow> I w'"
  by (auto simp: preserves_def)

lemma keeps_preserves: "keeps I m \<Longrightarrow> preserves I m"
  by (rule preservesI) (auto dest: keeps_run)

lemma preserves_bindP:
  assumes m: "preserves I m" and f: "\<And>a. preserves I (f a)"
  shows "preserves I (bindP m f)"
proof (rule preservesI)
  fix w r w' assume w: "I w" and run: "bindP m f w = Some (r, w')"
  obtain r1 w1 where 1: "m w = Some (r1, w1)" using run by (cases "m w") (auto simp: bindP_def)
  have "I w1" by (rule preservesD [OF m 1 w])
  then show "I w'" using run 1 preservesD [OF f] by (cases r1) (auto simp: bindP_def)
qed

lemma preserves_tryP: "preserves I m \<Longrightarrow> preserves I (tryP m)"
  unfolding preserves_def tryP_def by (auto split: option.splits)

lemma preserves_ignoreP: "preserves I m \<Longrightarrow> preserves I (ignoreP m)"
  unfolding preserves_def ignoreP_def by (auto split: option.splits)

lemma preserves_ret: "preserves I (ret a)" "preserves I (throw e)" "preserves I (getsP f)"
  by (simp_all add: keeps_preserves)

lemma keeps_liftSum: "keeps I (liftSum x)"
  by (rule keepsI) (simp add: liftSum_def wp_def)

section \<open>The state of the components within the state of the application\<close>

lemma within_fields [simp]:
  "kern (pw.truncate w) = kern w" "kern (pw.extend p x) = kern p" "stats (pw.truncate w) = stats w" "stats (pw.extend p x) = stats p"
  "resolvConf (pw.truncate w) = resolvConf w" "resolvConf (pw.extend p x) = resolvConf p"
  by (simp_all add: pw.defs)

lemma truncate_extend [simp]: "pw.truncate (pw.extend p x) = p"
  by (cases p) (simp add: pw.defs)

lemma within_own [simp]:
  "exitedCleanly (pw.extend p (pw.more w)) = exitedCleanly w" "connInfo (pw.extend p (pw.more w)) = connInfo w"
  "connectionUp (pw.extend p (pw.more w)) = connectionUp w" "preVPNIP (pw.extend p (pw.more w)) = preVPNIP w"
  "appDNS (pw.extend p (pw.more w)) = appDNS w"
  by (cases w; simp add: pw.defs)+

lemma wp_within: "wp (within m) Q w = wp m (\<lambda>r p. Q r (pw.extend p (pw.more w))) (pw.truncate w)"
  by (simp add: wp_def within_def split: option.splits)

text \<open>An invariant of the host, and of whether the program was told to stop.\<close>

definition going :: "('k \<Rightarrow> bool) \<Rightarrow> 'k aw \<Rightarrow> bool" where
  "going J w \<longleftrightarrow> J (kern w) \<and> \<not> exitedCleanly w"

lemma keeps_within: "keeps (\<lambda>w. J (kern w)) m \<Longrightarrow> keeps (going J) (within m)"
  by (rule keepsI) (auto simp: going_def wp_within elim!: wp_keeps)

lemma preserves_within: "preserves (\<lambda>w. J (kern w)) m \<Longrightarrow> preserves (going J) (within m)"
  by (rule preservesI) (auto simp: going_def within_def split: option.splits dest: preservesD)

lemma going_modify: "(\<And>w. kern (f w) = kern w \<and> exitedCleanly (f w) = exitedCleanly w) \<Longrightarrow> keeps (going J) (modifyP f)"
  by (rule keepsI) (simp add: going_def)

lemma going_updStats: "keeps (going J) (updStats f)"
  unfolding updStats_def by (rule going_modify) simp

lemma going_kern [simp]: "going J w \<Longrightarrow> J k \<Longrightarrow> going J (w\<lparr>kern := k\<rparr>)"
  by (simp add: going_def)

section \<open>Loops\<close>

text \<open>A loop preserves what its body and its waits preserve, however often it runs.\<close>

lemma preserves_retryLoop:
  assumes fn: "preserves I fn" and pause: "\<And>d w ev w'. pause P d w = (ev, w') \<Longrightarrow> I w \<Longrightarrow> I w'"
  shows "preserves I (retryLoop P op fn deadline)"
proof (rule preservesI)
  fix w r w' assume w: "I w" and run: "retryLoop P op fn deadline w = Some (r, w')"
  have "P = P \<longrightarrow> fn = fn \<longrightarrow> I w \<longrightarrow> I (snd (r, w'))"
  proof (rule retryLoop.raw_induct [of "\<lambda>((((P', op), fn'), deadline), w) y. P' = P \<longrightarrow> fn' = fn \<longrightarrow> I w \<longrightarrow> I (snd y)"
      P op fn deadline w "(r, w')", unfolded prod.case, OF _ run])
  qed (auto split: option.splits sum.splits prod.splits wait.splits dest: preservesD [OF fn] pause)
  then show "I w'" using w by simp
qed

text \<open>The loops of the application, for any invariant of the host that its waits keep.\<close>

definition waitsKeep :: "'k appops \<Rightarrow> ('k \<Rightarrow> bool) \<Rightarrow> bool" where
  "waitsKeep Z J \<longleftrightarrow> (\<forall>k x k'. apCtx Z k = (x, k') \<longrightarrow> J k \<longrightarrow> J k') \<and> (\<forall>d k x k'. apSleep Z d k = (x, k') \<longrightarrow> J k \<longrightarrow> J k') \<and>
     preserves (\<lambda>w :: 'k pw. J (kern w)) (Check (apB Z)) \<and> preserves (\<lambda>w :: 'k pw. J (kern w)) (WaitForUp (apB Z))"

lemma waitsKeepD:
  assumes "waitsKeep Z J"
  shows "preserves (going J) (askK (apCtx Z))" "preserves (going J) (runK (apSleep Z d))"
    "preserves (going J) (within (Check (apB Z)))" "preserves (going J) (within (WaitForUp (apB Z)))"
proof -
  show "preserves (going J) (askK (apCtx Z))" "preserves (going J) (runK (apSleep Z d))"
    using assms by (auto simp: waitsKeep_def preserves_def askK_def runK_def going_def split: prod.splits option.splits)
qed (use assms in \<open>simp_all add: waitsKeep_def preserves_within\<close>)

lemma preserves_afterFailure: "waitsKeep Z J \<Longrightarrow> preserves (going J) (afterFailure Z delay e)"
  unfolding afterFailure_def
  by (auto intro!: preserves_bindP preserves_ignoreP preserves_ret waitsKeepD split: option.split)

lemma preserves_retryFrom:
  assumes fn: "preserves (going J) fn" and waits: "waitsKeep Z J"
  shows "preserves (going J) (retryFrom Z fn delay)"
proof (rule preservesI)
  fix w r w' assume w: "going J w" and run: "retryFrom Z fn delay w = Some (r, w')"
  have "Z = Z \<longrightarrow> fn = fn \<longrightarrow> going J w \<longrightarrow> going J (snd (r, w'))"
  proof (rule retryFrom.raw_induct [of "\<lambda>Z' fn' delay w y. Z' = Z \<longrightarrow> fn' = fn \<longrightarrow> going J w \<longrightarrow> going J (snd y)" Z fn delay w "(r, w')", OF _ run])
  qed (auto split: option.splits sum.splits dest!: preservesD [OF fn] preservesD [OF preserves_afterFailure [OF waits]])
  then show "going J w'" using w by simp
qed

text \<open>The loop over the services keeps an invariant until it marks the end of the program.\<close>

lemma afterServices_ends:
  assumes run: "afterServices Z cfg r err w = Some (y, w')" and w: "going J w" and waits: "waitsKeep Z J"
    and connect: "preserves (going J) (connect Z cfg r)"
  shows "J (kern w') \<and> (exitedCleanly w' \<longleftrightarrow> y = Inr False)"
proof -
  let ?again = "bindP (ignoreP (within (WaitForUp (apB Z)))) (\<lambda>_. bindP (retryWithWANCheck Z (connect Z cfg r)) (\<lambda>_.
    bindP (updStats RecordReconnect) (\<lambda>_. ret True)))"
  have p: "preserves (going J) ?again"
    unfolding retryWithWANCheck_def
    by (intro preserves_bindP preserves_ignoreP waitsKeepD [OF waits] preserves_retryFrom connect waits keeps_preserves [OF going_updStats]
        preserves_ret)
  have t: "?again w1 = Some (Inr b, w2) \<Longrightarrow> b" for w1 b w2
    by (auto simp: bindP_def updStats_def modifyP_def ret_def split: option.splits sum.splits)
  obtain x k where x: "apCtx Z (kern w) = (x, k)" by fastforce
  have "askK (apCtx Z) w = Some (Inr x, w\<lparr>kern := k\<rparr>)" using x by (simp add: askK_def)
  then have k: "going J (w\<lparr>kern := k\<rparr>)" by (rule preservesD [OF waitsKeepD(1) [OF waits] _ w])
  consider "x \<noteq> None" | "x = None" "\<exists>e. y = Inl e \<and> w' = w\<lparr>kern := k\<rparr>" | "?again (w\<lparr>kern := k\<rparr>) = Some (y, w')"
    using run by (cases err; cases x) (auto simp: afterServices_def bindP_def [of "askK f" for f] askK_def x throw_def split: if_splits)
  then show ?thesis
  proof cases
    case 1
    then show ?thesis using run k by (auto simp: afterServices_def bindP_def askK_def x modifyP_def ret_def going_def)
  next
    case 2
    then show ?thesis using k by (auto simp: going_def)
  next
    case 3
    show ?thesis using preservesD [OF p 3 k] t 3 by (cases y) (auto simp: going_def)
  qed
qed

lemma serviceLoop_ends:
  assumes run: "serviceLoop Z cfg r w = Some (x, w')" and w: "going J w" and waits: "waitsKeep Z J"
    and services: "preserves (going J) (runServices Z cfg)" and connect: "preserves (going J) (connect Z cfg r)"
  shows "J (kern w') \<and> (exitedCleanly w' \<longleftrightarrow> x = Inr ())"
proof -
  have step: "J (kern w2) \<and> (exitedCleanly w2 \<longleftrightarrow> y = Inr False)"
    if go: "bindP (tryP (runServices Z cfg)) (afterServices Z cfg r) w1 = Some (y, w2)" and g: "going J w1" for w1 y w2
  proof -
    obtain err w3 where 3: "runServices Z cfg w1 = Some (err, w3)" "afterServices Z cfg r err w3 = Some (y, w2)"
      using go by (cases "runServices Z cfg w1") (auto simp: bindP_def tryP_def)
    show ?thesis by (rule afterServices_ends [OF 3(2) preservesD [OF services 3(1) g] waits connect])
  qed
  have "Z = Z \<longrightarrow> cfg = cfg \<longrightarrow> r = r \<longrightarrow> going J w \<longrightarrow> J (kern (snd (x, w'))) \<and> (exitedCleanly (snd (x, w')) \<longleftrightarrow> fst (x, w') = Inr ())"
  proof (rule serviceLoop.raw_induct [of "\<lambda>Z' cfg' r' w y. Z' = Z \<longrightarrow> cfg' = cfg \<longrightarrow> r' = r \<longrightarrow> going J w \<longrightarrow>
      J (kern (snd y)) \<and> (exitedCleanly (snd y) \<longleftrightarrow> fst y = Inr ())" Z cfg r w "(x, w')", OF _ run])
  qed (auto split: option.splits sum.splits if_splits dest!: step simp: going_def)
  then show ?thesis using w by simp
qed

section \<open>What the program relies on\<close>

text \<open>
  Besides what \<open>vpn_world\<close> and \<open>dot_world\<close> ask for: no connection, request, timer or script of the
  user changes the chains, and services that run side by side keep what each of them keeps.
\<close>

definition sameChains :: "('k \<Rightarrow> chains) \<Rightarrow> 'k \<Rightarrow> 'k \<Rightarrow> bool" where
  "sameChains v k k' \<longleftrightarrow> v k' = v k"

definition pfQuiet :: "('k \<Rightarrow> 'k \<Rightarrow> bool) \<Rightarrow> 'k pfops \<Rightarrow> bool" where
  "pfQuiet rel P \<longleftrightarrow> (\<forall>cn url. quiet rel (pGet P cn url)) \<and> quiet rel (pCert P) \<and> quiet rel (pElapsed P) \<and>
     (\<forall>d. quiet rel (pSelect P d)) \<and> quiet rel (pTicker P)"

definition psQuiet :: "('k \<Rightarrow> 'k \<Rightarrow> bool) \<Rightarrow> 'k psops \<Rightarrow> bool" where
  "psQuiet rel P \<longleftrightarrow> (\<forall>rq. quiet rel (psDo P rq)) \<and> (\<forall>c. quiet rel (psShell P c)) \<and> quiet rel (psSelect P)"

definition pbQuiet :: "('k \<Rightarrow> 'k \<Rightarrow> bool) \<Rightarrow> 'k probeops \<Rightarrow> bool" where
  "pbQuiet rel B \<longleftrightarrow> (\<forall>hs t. quiet rel (pbDial B hs t)) \<and> (\<forall>h t. quiet rel (pbServer B h t)) \<and> quiet rel (pbElapsed B) \<and>
     quiet rel (pbCtx B) \<and> (\<forall>d. quiet rel (pbAfter B d)) \<and> quiet rel (pbTicker B)"

definition apQuiet :: "('k \<Rightarrow> 'k \<Rightarrow> bool) \<Rightarrow> 'k appops \<Rightarrow> bool" where
  "apQuiet rel Z \<longleftrightarrow> pfQuiet rel (apP Z) \<and> psQuiet rel (apT Z) \<and> pbQuiet rel (apB Z) \<and> (\<forall>h. quiet rel (apLookup Z h)) \<and>
     quiet rel (apCtx Z) \<and> (\<forall>d. quiet rel (apSleep Z d)) \<and> quiet rel (apTicker Z) \<and> (\<forall>ts. quiet rel (apFetch Z ts))"

locale app_world = vpn: vpn_world "apN Z" V R H "apS Z" ticks "apA Z" + dot: dot_world "apN Z" V R H "apS Z" ticks "apD Z"
  for Z :: "'k appops" and V :: "'k \<Rightarrow> chains" and R :: "'k \<Rightarrow> iprules" and H :: "'k \<Rightarrow> bool" and ticks :: "'k \<Rightarrow> nat" +
  assumes app_quiet: "apQuiet (sameChains V) Z"
    and group: "(\<And>s. s \<in> set ss \<Longrightarrow> preserves (\<lambda>w. J (V (kern w))) s) \<Longrightarrow> preserves (\<lambda>w. J (V (kern w))) (apGroup Z ss)"
begin

lemmas quiets = app_quiet [unfolded apQuiet_def pfQuiet_def psQuiet_def pbQuiet_def]

abbreviation KS :: "(string \<Rightarrow> spec set) \<Rightarrow> ('k, 'm) net_scheme \<Rightarrow> bool" where
  "KS F w \<equiv> ks_inv F (V (kern w))"

lemma KS_steps:
  assumes "quiet (sameChains V) f"
  shows "keeps (KS F) (askK f)"
  using quietD [OF assms] by (intro keepsI wp_askK) (auto simp: sameChains_def)

lemma KS_runK:
  assumes "quiet (sameChains V) f"
  shows "keeps (KS F) (runK f)"
  using quietD [OF assms] by (intro keepsI wp_runK) (auto simp: sameChains_def)

lemma KS_outK:
  assumes "quiet (sameChains V) f"
  shows "keeps (KS F) (outK f)"
  using quietD [OF assms] by (intro keepsI wp_outK) (auto simp: sameChains_def)

lemma step: "quiet (sameChains V) f \<Longrightarrow> f k = (a, k') \<Longrightarrow> V k' = V k"
  by (auto dest: quietD simp: sameChains_def)

subsection \<open>The services\<close>

lemma KS_readClock: "quiet (sameChains V) f \<Longrightarrow> keeps (KS F) (readClock f)"
  unfolding readClock_def by (intro keeps_bindP KS_steps vpn.KS_modify) auto

lemma KS_probe: "keeps (KS F) (probe (apB Z) hs t)"
  unfolding probe_def using quiets by (auto intro!: keeps_bindP KS_steps vpn.KS_modify split: prod.splits)

lemma KS_updStats: "keeps (KS F) (updStats f)"
  unfolding updStats_def by (rule vpn.KS_modify) simp

lemma KS_Check: "keeps (KS F) (Check (apB Z))"
  unfolding Check_def by (auto intro!: keeps_bindP KS_probe split: prod.splits)

lemma preserves_waitLoop: "preserves (KS F) (waitLoop (apB Z))"
proof (rule preservesI)
  fix w r w' assume w: "KS F w" and run: "waitLoop (apB Z) w = Some (r, w')"
  have a: "quiet (sameChains V) (pbAfter (apB Z) d)" for d using quiets by blast
  have "apB Z = apB Z \<longrightarrow> KS F w \<longrightarrow> KS F (snd (r, w'))"
  proof (rule waitLoop.raw_induct [of "\<lambda>B w y. B = apB Z \<longrightarrow> KS F w \<longrightarrow> KS F (snd y)" "apB Z" w "(r, w')", OF _ run])
  qed (auto split: option.splits sum.splits prod.splits if_splits simp: updStats_def modifyP_def
      dest!: step [OF a] preservesD [OF keeps_preserves [OF KS_Check [of F]]])
  then show "KS F w'" using w by simp
qed

lemma preserves_WaitForUp: "preserves (KS F) (WaitForUp (apB Z))"
  unfolding WaitForUp_def
  by (auto intro!: preserves_bindP preserves_waitLoop keeps_preserves [OF KS_Check] keeps_preserves [OF KS_updStats])

lemma preserves_rapidLoop: "preserves (KS F) (rapidLoop (apB Z) window start t)"
proof (rule preservesI)
  fix w r w' assume w: "KS F w" and run: "rapidLoop (apB Z) window start t w = Some (r, w')"
  have q: "quiet (sameChains V) (pbCtx (apB Z))" "quiet (sameChains V) (pbElapsed (apB Z))" using quiets by blast+
  have "apB Z = apB Z \<longrightarrow> KS F w \<longrightarrow> KS F (snd (r, w'))"
  proof (rule rapidLoop.raw_induct [of "\<lambda>B window start t w y. B = apB Z \<longrightarrow> KS F w \<longrightarrow> KS F (snd y)"
      "apB Z" window start t w "(r, w')", OF _ run])
  qed (auto split: option.splits sum.splits prod.splits if_splits simp: Let_def checkConnectivity_def
      dest!: step [OF q(1)] preservesD [OF keeps_preserves [OF KS_readClock [OF q(2), of F]]] preservesD [OF keeps_preserves [OF KS_probe [of F]]])
  then show "KS F w'" using w by simp
qed

lemma preserves_checkOr: "preserves (KS F) (checkOr (apB Z) cfg srv)"
proof -
  have q: "quiet (sameChains V) (pbCtx (apB Z))" "quiet (sameChains V) (pbElapsed (apB Z))" "quiet (sameChains V) (pbServer (apB Z) h t)" for h t
    using quiets by blast+
  have "preserves (KS F) (recordCheck (apB Z) srv ok d)" for ok d
    unfolding recordCheck_def serverLatency_def checkServerLatency_def
    by (auto intro!: keeps_preserves keeps_bindP KS_readClock KS_updStats KS_steps q split: prod.splits)
  moreover have "preserves (KS F) (performRapidChecks (apB Z) cfg)"
    unfolding performRapidChecks_def by (intro preserves_bindP preserves_rapidLoop keeps_preserves [OF KS_readClock] q)
  ultimately have "preserves (KS F) (performCheck (apB Z) cfg srv)"
    unfolding performCheck_def checkConnectivity_def
    by (auto intro!: preserves_bindP keeps_preserves [OF KS_probe] keeps_preserves [OF KS_steps] q preserves_ret split: prod.splits)
  then show ?thesis
    unfolding checkOr_def by (auto intro!: preserves_bindP preserves_tryP preserves_ret split: sum.splits)
qed

lemma preserves_monitorRun: "preserves (KS F) (monitorRun (apB Z) cfg srv)"
proof -
  have "preserves (KS F) (monitorLoop (apB Z) cfg srv)"
  proof (rule preservesI)
    fix w r w' assume w: "KS F w" and run: "monitorLoop (apB Z) cfg srv w = Some (r, w')"
    have q: "quiet (sameChains V) (pbTicker (apB Z))" using quiets by blast
    have "apB Z = apB Z \<longrightarrow> KS F w \<longrightarrow> KS F (snd (r, w'))"
    proof (rule monitorLoop.raw_induct [of "\<lambda>B cfg srv w y. B = apB Z \<longrightarrow> KS F w \<longrightarrow> KS F (snd y)"
        "apB Z" cfg srv w "(r, w')", OF _ run])
    qed (auto split: option.splits sum.splits prod.splits if_splits dest!: step [OF q] preservesD [OF preserves_checkOr [of F]])
    then show "KS F w'" using w by simp
  qed
  then show ?thesis unfolding monitorRun_def by (auto intro!: preserves_bindP preserves_checkOr preserves_ret)
qed

text \<open>The cacher and the port syncer.\<close>

lemma KS_refresh: "keeps (KS F) (refreshAttempts n (apA Z) (apLookup Z) user pass)"
proof -
  have q: "quiet (sameChains V) (apLookup Z h)" for h using quiets by blast
  have "keeps (KS F) checkCtx" unfolding checkCtx_def by (auto intro!: keeps_bindP split: option.splits)
  moreover have "keeps (KS F) (refreshToken (apA Z) (apLookup Z) user pass)" "keeps (KS F) (refreshServers (apA Z) (apLookup Z))"
    unfolding refreshToken_def refreshServers_def
    by (auto intro!: keeps_bindP keeps_tryP KS_outK q vpn.KS_cache vpn.KS_still [OF vpn.still_api(1)] vpn.KS_still [OF vpn.still_api(2)]
        split: sum.splits)
  ultimately show ?thesis
    by (induction n) (auto simp: refreshAll_def intro!: keeps_bindP keeps_tryP split: sum.splits option.splits)
qed

lemma preserves_cacherRun: "preserves (\<lambda>w. ks_inv F (V (kern w))) (cacherRun Z user pass)"
proof (rule preservesI)
  fix w :: "'k pw" and r w' assume w: "KS F w" and run: "cacherRun Z user pass w = Some (r, w')"
  have q: "quiet (sameChains V) (apTicker Z)" using quiets by blast
  have "Z = Z \<longrightarrow> KS F w \<longrightarrow> KS F (snd (r, w'))"
  proof (rule cacherRun.raw_induct [of "\<lambda>Z' user pass w y. Z' = Z \<longrightarrow> KS F w \<longrightarrow> KS F (snd y)" Z user pass w "(r, w')", OF _ run])
  qed (auto split: option.splits sum.splits prod.splits simp: scheduledRefresh_def
      dest!: step [OF q] preservesD [OF keeps_preserves [OF KS_refresh [of F]]])
  then show "KS F w'" using w by simp
qed

lemma KS_SyncPort: "keeps (KS F) (SyncPort (apT Z) c port)"
proof -
  have send: "keeps (KS F) (send (apT Z) rq)" for rq unfolding send_def using quiets by (auto intro: KS_outK)
  have body: "keeps (KS F) (bodyOf resp)" "keeps (KS F) (unexpected st rest)" for resp st rest
    by (auto simp: bodyOf_def unexpected_def split: sum.split)
  have rpc: "keeps (KS F) (rpc (apT Z) url b)" for url b unfolding rpc_def by (auto intro!: keeps_bindP send body)
  note steps = keeps_bindP keeps_wrapErr send body rpc
  have "keeps (KS F) (qbSync (apT Z) url user pass port)" for url user pass
    unfolding qbSync_def qbLogin_def qbSetPort_def qbVerifyPort_def by (auto intro!: steps)
  moreover have "keeps (KS F) (trSync (apT Z) url user pass port)" for url user pass
    unfolding trSync_def trGetSessionID_def trSetPort_def Let_def by (auto intro!: steps split: option.split)
  moreover have "keeps (KS F) (deSync (apT Z) url pass port)" for url pass
    unfolding deSync_def deLogin_def ensureConnected_def deSetPort_def by (auto intro!: steps split: option.split)
  ultimately show ?thesis by (cases c) auto
qed

lemma KS_trySync: "keeps (KS F) (trySync (apT Z) s port c x)"
proof -
  have "quiet (sameChains V) (psShell (apT Z) cmd)" for cmd using quiets by blast
  then show ?thesis unfolding trySync_def attempt_def executeScript_def
    by (auto intro!: keeps_bindP keeps_tryP KS_SyncPort KS_runK split: option.split)
qed

lemma preserves_syncLoop: "preserves (KS F) (syncLoop (apT Z) s port c x)"
proof (rule preservesI)
  fix w r w' assume w: "KS F w" and run: "syncLoop (apT Z) s port c x w = Some (r, w')"
  have q: "quiet (sameChains V) (psSelect (apT Z))" using quiets by blast
  have "apT Z = apT Z \<longrightarrow> KS F w \<longrightarrow> KS F (snd (r, w'))"
  proof (rule syncLoop.raw_induct [of "\<lambda>(((((P, s), port), c), x), w) y. P = apT Z \<longrightarrow> KS F w \<longrightarrow> KS F (snd y)"
      "apT Z" s port c x w "(r, w')", unfolded prod.case, OF _ run])
  qed (auto split: option.splits sum.splits prod.splits psEvent.splits if_splits
      dest!: step [OF q] preservesD [OF keeps_preserves [OF KS_trySync [of F]]])
  then show "KS F w'" using w by simp
qed

lemma preserves_runSyncer: "preserves (KS F) (runSyncer (apT Z) s)"
proof (rule preservesI)
  fix w r w' assume w: "KS F w" and run: "runSyncer (apT Z) s w = Some (r, w')"
  have q: "quiet (sameChains V) (psSelect (apT Z))" using quiets by blast
  have "apT Z = apT Z \<longrightarrow> KS F w \<longrightarrow> KS F (snd (r, w'))"
  proof (rule runSyncer.raw_induct [of "\<lambda>((P, s), w) y. P = apT Z \<longrightarrow> KS F w \<longrightarrow> KS F (snd y)"
      "apT Z" s w "(r, w')", unfolded prod.case, OF _ run])
  qed (auto split: option.splits sum.splits prod.splits psEvent.splits simp: handleNewPort_def
      dest!: step [OF q] preservesD [OF preserves_syncLoop [of F]])
  then show "KS F w'" using w by simp
qed

text \<open>The port forwarding.\<close>

lemma KS_op: "opens F \<Longrightarrow> (\<And>c. set (asksFor op c) \<subseteq> F c) \<Longrightarrow> keeps (KS F) (runOp (apN Z) op)"
  by (rule vpn.keeps_runOp) (auto dest: opensD)

lemma KS_ports:
  assumes "opens F"
  shows "keeps (KS F) (AllowForwardedPort (apN Z) port)" "keeps (KS F) (RemoveForwardedPort (apN Z))"
    "keeps (KS F) (AddPFRoute (apN Z) gw)" "keeps (KS F) (RemovePFRoute (apN Z) gw)" "keeps (KS F) (AddPIADNSRoutes (apN Z) ds)"
  using KS_op [OF assms, of "OpAllowForwardedPort port"] KS_op [OF assms, of OpRemoveForwardedPort] opensD [OF assms]
  by (auto intro: vpn.keeps_KS_RF [where P = "{75, 76}"])

lemma KS_clock: "keeps (KS F) (clock (apP Z))"
  unfolding clock_def using quiets by (blast intro: KS_readClock)

lemma preserves_retry: "preserves (KS F) fn \<Longrightarrow> preserves (KS F) (retryWithDeadline (apP Z) op fn)"
proof -
  assume fn: "preserves (KS F) fn"
  have q: "quiet (sameChains V) (pElapsed (apP Z))" "quiet (sameChains V) (pSelect (apP Z) d)" for d using quiets by blast+
  have "preserves (KS F) (retryLoop (apP Z) op fn deadline)" for deadline
    by (rule preserves_retryLoop [OF fn])
      (auto simp: pause_def Let_def split: prod.splits dest!: step [OF q(1)] step [OF q(2)])
  then show ?thesis unfolding retryWithDeadline_def by (intro preserves_bindP preserves_ret)
qed

lemma KS_gateway: "keeps (KS F) (getSignature (apP Z) conn)" "keeps (KS F) (bindOnce (apP Z) conn payload signature)"
proof -
  have q: "quiet (sameChains V) (pGet (apP Z) cn url)" for cn url using quiets by blast
  show "keeps (KS F) (getSignature (apP Z) conn)"
    unfolding getSignature_def GetToken_def by (auto intro!: keeps_bindP KS_steps q split: sum.split option.split)
  have "keeps (KS F) (bindPort (apP Z) conn payload signature)"
    unfolding bindPort_def Let_def by (auto intro!: keeps_bindP KS_steps q split: sum.split option.split)
  then show "keeps (KS F) (bindOnce (apP Z) conn payload signature)"
    unfolding bindOnce_def by (auto intro!: keeps_bindP KS_clock vpn.KS_modify split: sum.split)
qed

lemma preserves_acquirePort: "preserves (KS F) (acquirePort (apP Z) conn)"
proof -
  have "preserves (KS F) (getSignatureWithRetry (apP Z) conn)"
    unfolding getSignatureWithRetry_def TokenFresh_def
    by (auto intro!: preserves_bindP keeps_preserves [OF KS_clock] preserves_ret preserves_retry keeps_preserves [OF KS_gateway(1)])
  moreover have "preserves (KS F) (bindPortWithRetry (apP Z) conn payload signature)" for payload signature
    unfolding bindPortWithRetry_def by (intro preserves_retry keeps_preserves KS_gateway(2))
  moreover have "preserves (KS F) (modifyP (\<lambda>w. w\<lparr>pfPort := port, pfPayload := pl, pfSignature := sig, pfExpiresAt := ex\<rparr>))" for port pl sig ex
    by (rule keeps_preserves, rule vpn.KS_modify) simp
  ultimately show ?thesis
    unfolding acquirePort_def by (auto intro!: preserves_bindP preserves_ret split: sum.split prod.split)
qed

lemma preserves_pfRun:
  assumes F: "opens F"
  shows "preserves (KS F) (pfRun (apN Z) (apP Z) sy cfg conn)"
proof -
  have w: "keeps (KS F) (writePort port)" for port
    unfolding writePort_def by (rule keeps_WriteFile) simp
  have ann: "preserves (KS F) (announcePort (apN Z) sy)"
    unfolding announcePort_def NotifyPort_def
    by (intro keeps_preserves) (auto intro!: keeps_bindP keeps_ignoreP KS_ports [OF F] w KS_updStats vpn.KS_modify)
  have td: "keeps (KS F) (teardown (apN Z) conn)"
    unfolding teardown_def by (intro keeps_bindP KS_ports [OF F] KS_updStats)
  have ot: "preserves (KS F) (orTeardown (apN Z) conn m)" if "preserves (KS F) m" for m
    unfolding orTeardown_def
    by (auto intro!: preserves_bindP preserves_tryP that keeps_preserves [OF td] preserves_ret split: sum.split)
  have bd: "preserves (KS F) (bindPortWithRetry (apP Z) conn payload signature)" for payload signature
    unfolding bindPortWithRetry_def by (intro preserves_retry keeps_preserves KS_gateway(2))
  have tick: "preserves (KS F) (onTick (apN Z) (apP Z) sy cfg conn)"
    unfolding onTick_def
    by (auto intro!: preserves_bindP keeps_preserves [OF KS_clock] preserves_ret ot preserves_acquirePort ann bd split: prod.split)
  have alive: "preserves (KS F) (keepAlive (apN Z) (apP Z) sy cfg conn)"
  proof (rule preservesI)
    fix w r w' assume w: "KS F w" and run: "keepAlive (apN Z) (apP Z) sy cfg conn w = Some (r, w')"
    have q: "quiet (sameChains V) (pTicker (apP Z))" using quiets by blast
    have "apN Z = apN Z \<longrightarrow> apP Z = apP Z \<longrightarrow> sy = sy \<longrightarrow> cfg = cfg \<longrightarrow> conn = conn \<longrightarrow> KS F w \<longrightarrow> KS F (snd (r, w'))"
    proof (rule keepAlive.raw_induct [of "\<lambda>(((((N, P), sy'), cfg'), conn'), w) y.
        N = apN Z \<longrightarrow> P = apP Z \<longrightarrow> sy' = sy \<longrightarrow> cfg' = cfg \<longrightarrow> conn' = conn \<longrightarrow> KS F w \<longrightarrow> KS F (snd y)"
        "apN Z" "apP Z" sy cfg conn w "(r, w')", unfolded prod.case, OF _ run])
    qed (auto split: option.splits sum.splits prod.splits dest!: step [OF q] preservesD [OF tick] preservesD [OF keeps_preserves [OF td]])
    then show "KS F w'" using w by simp
  qed
  have q: "quiet (sameChains V) (pCert (apP Z))" using quiets by blast
  show ?thesis
    unfolding pfRun_def
    by (auto intro!: preserves_bindP preserves_tryP keeps_preserves [OF KS_ports(3)] F keeps_preserves [OF KS_runK] q keeps_preserves [OF KS_clock]
        keeps_preserves [OF vpn.KS_modify] ot preserves_acquirePort ann alive preserves_ret split: sum.split)
qed

lemma preserves_group: "opens F \<Longrightarrow> preserves (KS F) (apGroup Z (services Z cfg info))"
  by (rule group) (auto simp: services_def preserves_monitorRun preserves_cacherRun preserves_runSyncer preserves_pfRun)

subsection \<open>The application\<close>

text \<open>The killswitch stands, and the program has not been told to stop.\<close>

abbreviation GO :: "(string \<Rightarrow> spec set) \<Rightarrow> 'k aw \<Rightarrow> bool" where
  "GO F \<equiv> going (\<lambda>k. ks_inv F (V k))"

lemma GO_within: "keeps (KS F) m \<Longrightarrow> keeps (GO F) (within m)"
  by (rule keeps_within)

lemma GO_ask: "quiet (sameChains V) f \<Longrightarrow> keeps (GO F) (askK f)"
  by (rule keepsI, rule wp_askK) (auto simp: going_def dest!: step)

lemma KS_proxySetup:
  assumes "opens F"
  shows "keeps (KS F) (proxySetup (apN Z) (apS Z) (apD Z) r dns)"
proof -
  have close: "keeps (KS F) (CloseUpstreams (apD Z))"
    unfolding CloseUpstreams_def closeConn_def dropConn_def setConn_def
    by (auto intro!: keeps_bindP keeps_forP vpn.KS_modify vpn.KS_still [OF keeps_quiet [OF dot.close_quiet undisturbed_trans]]
        split: option.split)
  have res: "keeps (KS F) (resolveHostnames (apN Z) (apS Z) r hs)" for hs
    unfolding resolveHostnames_def by (auto intro!: keeps_bindP keeps_wrapErr vpn.KS_modify vpn.KS_ResolveAll assms)
  have start: "keeps (KS F) (startProxy (apD Z))"
    unfolding startProxy_def
    by (auto intro!: keeps_bindP keeps_tryP close vpn.KS_modify vpn.KS_resolv
        vpn.KS_still [OF keeps_runK_quiet [OF dot.listen_quiet undisturbed_trans]] split: sum.split)
  show ?thesis unfolding proxySetup_def
    by (auto intro!: keeps_bindP keeps_tryP vpn.KS_modify res start split: sum.split)
qed

lemma KS_CloseUpstreams: "keeps (KS F) (CloseUpstreams (apD Z))"
  unfolding CloseUpstreams_def closeConn_def dropConn_def setConn_def
  by (auto intro!: keeps_bindP keeps_forP vpn.KS_modify vpn.KS_still [OF keeps_quiet [OF dot.close_quiet undisturbed_trans]]
      split: option.split)

lemma GO_setupDNS: "opens F \<Longrightarrow> keeps (GO F) (setupDNS Z cfg r)"
  unfolding setupDNS_def
  by (auto intro!: keeps_bindP GO_within vpn.keeps_fatalErr vpn.KS_resolv vpn.KS_wgDown KS_proxySetup going_modify)

lemma GO_connect: "opens F \<Longrightarrow> keeps (GO F) (connect Z cfg r)"
  unfolding connect_def
  by (auto intro!: keeps_bindP GO_within vpn.KS_resolv vpn.KS_wgDown vpn.KS_vpnSetup KS_ports vpn.KS_Verify going_modify going_updStats)

lemma KS_realSpecs: "opens F \<Longrightarrow> keeps (KS F) (ignoreP (AddExemptions (apN Z) (realSpecs ts)))"
  by (intro keeps_ignoreP vpn.keeps_AddExemptions) (auto simp: realSpecs_def opensD)

lemma KS_captureRealIP: "opens F \<Longrightarrow> keeps (KS F) (captureRealIP Z r)"
  unfolding captureRealIP_def using quiets
  by (auto intro!: keeps_bindP keeps_tryP keeps_deferP KS_realSpecs KS_steps vpn.KS_ResolveAll vpn.keeps_RemoveExemptions
      split: sum.split option.split)

lemma GO_waits: "waitsKeep Z (\<lambda>k. ks_inv F (V k))"
proof -
  have q: "quiet (sameChains V) (apCtx Z)" "quiet (sameChains V) (apSleep Z d)" for d using quiets by blast+
  show ?thesis unfolding waitsKeep_def by (auto dest!: step [OF q(1)] step [OF q(2)] intro: preserves_WaitForUp keeps_preserves KS_Check)
qed

lemma GO_runServices: "opens F \<Longrightarrow> preserves (GO F) (runServices Z cfg)"
proof -
  assume F: "opens F"
  have "keeps (GO F) (signalDown Z cfg)"
    unfolding signalDown_def
    by (auto intro!: keeps_bindP GO_within keeps_ignoreP vpn.KS_resolv KS_CloseUpstreams going_modify going_updStats)
  note sd = keeps_preserves [OF this]
  show ?thesis
    unfolding runServices_def
    by (auto intro!: preserves_bindP preserves_tryP preserves_ret preserves_within [OF preserves_group [OF F]] waitsKeepD [OF GO_waits]
        keeps_preserves [OF going_modify] sd split: option.split sum.split)
qed

lemma GO_prepare: "opens F \<Longrightarrow> preserves (GO F) (prepare Z cfg)"
  unfolding prepare_def Let_def retryWithWANCheck_def
  by (intro preserves_bindP preserves_ret preserves_retryFrom keeps_preserves [OF GO_setupDNS] GO_waits keeps_preserves [OF going_modify]
      keeps_preserves [OF GO_within [OF vpn.KS_NewCache]])
    (auto intro!: preservesI keeps_preserves keeps_bindP GO_within KS_captureRealIP going_modify keeps_liftSum)

lemma serve_ends:
  assumes F: "opens F" and w: "GO F w"
    and run: "bindP (retryWithWANCheck Z (connect Z cfg r)) (\<lambda>_. serviceLoop Z cfg r) w = Some (x, w')"
  shows "ks_inv F (V (kern w')) \<and> (exitedCleanly w' \<longleftrightarrow> x = Inr ())"
proof -
  note c = keeps_preserves [OF GO_connect [OF F]]
  obtain y w1 where 1: "retryWithWANCheck Z (connect Z cfg r) w = Some (y, w1)"
    using run by (cases "retryWithWANCheck Z (connect Z cfg r) w") (auto simp: bindP_def)
  have g: "GO F w1" by (rule preservesD [OF preserves_retryFrom [OF c GO_waits] 1 [unfolded retryWithWANCheck_def] w])
  show ?thesis
  proof (cases y)
    case (Inl e)
    then show ?thesis using run 1 g by (auto simp: bindP_def going_def)
  next
    case (Inr u)
    then have "serviceLoop Z cfg r w1 = Some (x, w')" using run 1 by (simp add: bindP_def)
    from serviceLoop_ends [OF this g GO_waits GO_runServices [OF F] c] show ?thesis by simp
  qed
qed

text \<open>An error leaves the killswitch up, whatever the way back to \<open>run\<close> was.\<close>

lemma cleanup_going: "GO F w \<Longrightarrow> cleanup Z w = Some (r, w') \<Longrightarrow> GO F w'"
proof -
  assume w: "GO F w" and run: "cleanup Z w = Some (r, w')"
  from keeps_run [OF GO_within [OF vpn.KS_wgDown] w] obtain x w1 where 1: "within (wgDown (apN Z) (apS Z)) w = Some (x, w1)" "GO F w1" by blast
  then show "GO F w'" using run by (cases x) (auto simp: cleanup_def bindP_def getsP_def ret_def going_def)
qed

lemma run_error:
  assumes F: "opens F" and run: "bindP (prepare Z cfg) (\<lambda>r. deferP (cleanup Z)
      (bindP (retryWithWANCheck Z (connect Z cfg r)) (\<lambda>_. serviceLoop Z cfg r))) w = Some (Inl e, w')" and w: "GO F w"
  shows "GO F w'"
proof -
  obtain y w1 where 1: "prepare Z cfg w = Some (y, w1)"
    using run by (cases "prepare Z cfg w") (auto simp: bindP_def)
  have g: "GO F w1" by (rule preservesD [OF GO_prepare [OF F] 1 w])
  show ?thesis
  proof (cases y)
    case (Inl e')
    then show ?thesis using run 1 g by (simp add: bindP_def)
  next
    case (Inr r)
    let ?m = "bindP (retryWithWANCheck Z (connect Z cfg r)) (\<lambda>_. serviceLoop Z cfg r)"
    have "deferP (cleanup Z) ?m w1 = Some (Inl e, w')" using run 1 Inr by (simp add: bindP_def [of "prepare Z cfg"])
    then obtain w2 u where 2: "?m w1 = Some (Inl e, w2)" "cleanup Z w2 = Some (u, w')"
      by (auto simp: deferP_def split: option.splits)
    have "GO F w2" using serve_ends [OF F g 2(1)] by (simp add: going_def)
    then show ?thesis using 2(2) by (rule cleanup_going)
  qed
qed

end

section \<open>What passes while the program runs\<close>

text \<open>The rules that may accept a packet, by chain: those of the setup, the exemptions and the forwarded ports.\<close>

definition mayAccept :: "string list \<Rightarrow> string list \<Rightarrow> bool \<Rightarrow> string \<Rightarrow> spec set" where
  "mayAccept v4 v6 ipv6 n = set (expectedBody v4 v6 ipv6 n) \<union>
     (if n = ChainOut then {s. \<exists>ip port proto. (port, proto) \<in> openPorts \<and> s = exemptSpec ip port proto} else {}) \<union>
     (if n = ChainIn then {s. \<exists>proto port. s = portSpec proto port} else {})"

definition mayHold :: "string list \<Rightarrow> string list \<Rightarrow> bool \<Rightarrow> string \<Rightarrow> spec set" where
  "mayHold v4 v6 ipv6 n =
     (if n = chainExempt then {s. \<exists>ip port proto. (port, proto) \<in> openPorts \<and> s = exemptSpec ip port proto}
      else set (expectedBody v4 v6 ipv6 n) \<union> (if n = ChainOut then {[''-j'', chainExempt]} else {}) \<union>
        (if n = ChainIn then {s. \<exists>proto port. s = portSpec proto port} else {}))"

lemma mayHold_opens: "opens (mayHold v4 v6 ipv6)"
  by (auto simp: opens_def mayHold_def names)

lemma mayHold_drops:
  assumes inv: "ks_inv (mayHold v4 v6 ipv6) v" and c: "c \<in> set chainDefs" and m: "m []"
    and no: "\<forall>s \<in> mayAccept v4 v6 ipv6 (cdName c). \<not> matches m s"
  shows "verdict v m (cdIpt c) (cdParent c) policy = Drop"
proof (rule guarded_drops [OF _ c, of "mayHold v4 v6 ipv6 (cdName c)"])
  show "guarded (mayHold v4 v6 ipv6 (cdName c)) v c"
    using inv c by (simp add: ks_inv_def)
  have base: "estSpec \<in> mayAccept v4 v6 ipv6 (cdName c)" "loSpec c \<in> mayAccept v4 v6 ipv6 (cdName c)"
    using expected_base [OF c] by (auto simp: mayAccept_def)
  have jump: "harmless 2 v m (cdIpt c) [''-j'', chainExempt]" if out: "cdName c = ChainOut"
  proof -
    have "harmless 2 v m IPv4 [''-j'', chainExempt]"
    proof (rule exempt_jump_harmless)
      fix es assume "v (IPv4, tableFilter, chainExempt) = Some es"
      with inv have "set es \<subseteq> mayHold v4 v6 ipv6 chainExempt" by (simp add: ks_inv_def)
      moreover have "mayHold v4 v6 ipv6 chainExempt \<subseteq> mayAccept v4 v6 ipv6 (cdName c)"
        using out by (auto simp: mayHold_def mayAccept_def)
      ultimately show "\<forall>s \<in> set es. \<not> matches m s" using no by auto
    qed
    moreover have "cdIpt c = IPv4" using out c by (auto simp: chainDefs_def names)
    ultimately show ?thesis by simp
  qed
  have "cdName c \<noteq> chainExempt" using c by (auto simp: chainDefs_def names)
  then have "mayHold v4 v6 ipv6 (cdName c) \<subseteq> mayAccept v4 v6 ipv6 (cdName c) \<union> (if cdName c = ChainOut then {[''-j'', chainExempt]} else {})"
    by (auto simp: mayHold_def mayAccept_def)
  then show "\<forall>r \<in> mayHold v4 v6 ipv6 (cdName c) \<union> {estSpec, loSpec c}. harmless 2 v m (cdIpt c) r"
    using base no jump by (fastforce intro: unmatched_harmless split: if_splits)
qed (fact m)

text \<open>The local networks the killswitch is raised for.\<close>

definition lansOf :: "'k appops \<Rightarrow> config \<Rightarrow> ('k pw, string list \<times> string list) prog" where
  "lansOf Z cfg = bindP (newFirewallP Z (iptBackend (cFW cfg))) (\<lambda>_.
     plannedLans (apN Z) \<lparr>kcLANs = LANs (cFW cfg), kcIPv6Enabled = IPv6Enabled (cVPN cfg)\<rparr>)"

lemma newFirewallP_kern: "newFirewallP Z b p = Some (x, p') \<Longrightarrow> kern p' = kern p"
  by (auto simp: newFirewallP_def split: sum.splits)

context app_world
begin

lemma raised_going:
  assumes raised: "within (raise Z cfg) w = Some (Inr (), w')" and lans: "within (lansOf Z cfg) w = Some (Inr (v4, v6), w0)"
    and none: "V (kern w) (IPv4, tableFilter, chainExempt) = None" and clean: "\<not> exitedCleanly w"
  shows "GO (mayHold v4 v6 (IPv6Enabled (cVPN cfg))) w'"
proof -
  let ?k = "\<lparr>kcLANs = LANs (cFW cfg), kcIPv6Enabled = IPv6Enabled (cVPN cfg)\<rparr>"
  obtain p1 p2 p3 where p: "newFirewallP Z (iptBackend (cFW cfg)) (pw.truncate w) = Some (Inr (), p1)"
    "Setup (apN Z) ?k p1 = Some (Inr (), p2)" "w' = pw.extend p2 (pw.more w)" "plannedLans (apN Z) ?k p1 = Some (Inr (v4, v6), p3)"
    using raised lans by (auto simp: within_def raise_def lansOf_def bindP_def split: option.splits sum.splits)
  have x: "V (kern p1) (IPv4, tableFilter, chainExempt) = None" using none newFirewallP_kern [OF p(1)] by simp
  have laid: "laid (V (kern p2)) (expectedBody v4 v6 (IPv6Enabled (cVPN cfg)))"
    using vpn.setup_laid [OF p(2)] p(4) by auto
  have ex: "V (kern p2) (IPv4, tableFilter, chainExempt) = None"
    using keeps_run [OF vpn.keeps_XC_Setup [of None ?k] x] p(2) by auto
  have "ks_inv (mayHold v4 v6 (IPv6Enabled (cVPN cfg))) (V (kern p2))"
    by (rule laid_ks_inv [OF laid]) (auto simp: mayHold_def expected_base ex dest: names_neq(2))
  then show ?thesis using clean by (simp add: going_def p(3))
qed

lemma error_keeps:
  assumes aside: "within (setAside cfg) (freshApp cfg w) = Some (Inr (), w1)" and raised: "within (raise Z cfg) w1 = Some (Inr (), w2)"
    and lans: "within (lansOf Z cfg) w1 = Some (Inr (v4, v6), w0)" and none: "V (kern w1) (IPv4, tableFilter, chainExempt) = None"
    and valid: "validate cfg = None" and run: "run Z cfg w = Some (Inl e, w')"
  shows "ks_inv (mayHold v4 v6 (IPv6Enabled (cVPN cfg))) (V (kern w'))"
proof -
  have c: "\<not> exitedCleanly w1" using aside by (auto simp: within_def freshApp_def split: option.splits)
  have "bindP (prepare Z cfg) (\<lambda>r. deferP (cleanup Z)
      (bindP (retryWithWANCheck Z (connect Z cfg r)) (\<lambda>_. serviceLoop Z cfg r))) w2 = Some (Inl e, w')"
    using run by (simp add: run_def valid initialize_def bindP_assoc) (simp add: bindP_def [of "modifyP f" for f] modifyP_def
        bindP_def [of "within (setAside cfg)"] aside bindP_def [of "within (raise Z cfg)"] raised)
  from run_error [OF mayHold_opens this raised_going [OF raised lans none c]] show ?thesis by (simp add: going_def)
qed

end

end
