(* ===== verification/AppLife.thy ===== *)
theory AppLife
  imports AppRun
begin

text \<open>
  The properties of the program as a whole (\<open>App\<close>), on the reference host of the components with
  a gateway, a WAN and a context.
\<close>

section \<open>A reference host\<close>

text \<open>Services that run one after the other; the first error is the result.\<close>

fun inTurn :: "('w, unit) prog list \<Rightarrow> ('w, unit) prog" where
  "inTurn [] = ret ()"
| "inTurn (m # ms) = bindP (tryP m) (\<lambda>x. bindP (tryP (inTurn ms)) (\<lambda>y.
     case x of Inl e \<Rightarrow> throw e | Inr _ \<Rightarrow> (case y of Inl e \<Rightarrow> throw e | Inr _ \<Rightarrow> ret ())))"

lemma preserves_inTurn: "(\<And>s. s \<in> set ss \<Longrightarrow> preserves I s) \<Longrightarrow> preserves I (inTurn ss)"
  by (induction ss) (auto intro!: preserves_bindP preserves_tryP preserves_ret split: sum.split)

text \<open>
  The reference kernel with a gateway, a torrent client that does not answer and a WAN that is
  up; \<open>ctx\<close> is the error of the context.
\<close>

definition refT :: "'k psops" where
  "refT = \<lparr>psDo = (\<lambda>_. Pair (Inl (Errorf ''connection refused'' []))), psShell = (\<lambda>_. Pair None), psSelect = Pair PsDone\<rparr>"

definition upB :: "'k probeops" where
  "upB = \<lparr>pbDial = (\<lambda>hs t. Pair (map (\<lambda>h. (h, True)) hs, 1)), pbServer = (\<lambda>h t. Pair (True, 20000000)), pbElapsed = Pair 1000,
     pbCtx = Pair None, pbAfter = (\<lambda>d. Pair None), pbTicker = Pair (Some (Sentinel ErrCanceled))\<rparr>"

definition refZ :: "err option \<Rightarrow> refk appops" where
  "refZ ctx = \<lparr>apN = refN, apS = refS, apA = refA, apD = refD, apP = refP ''10.4.0.1'' ''{}'' ''{}'', apT = refT, apB = upB,
     apLookup = (\<lambda>h. Pair (Inr [''1.2.3.4''])), apStatus = Inr ''CapEff: 0000000000003000'',
     apProbes = \<lparr>nftErr = None, nftOutput = [], legacyErr = None\<rparr>, apNewIpt = (\<lambda>_ _. None), apCtx = Pair ctx,
     apSleep = (\<lambda>d. Pair None), apTicker = Pair (Some (Sentinel ErrCanceled)),
     apFetch = (\<lambda>ts. Pair []), apGroup = inTurn\<rparr>"

lemma refZ_quiet: "apQuiet (sameChains refV) (refZ ctx)"
proof -
  have "pfQuiet (sameChains refV) (refP gw sig bnd)" for gw sig bnd
    using refpf.get_quiet refpf.cert_quiet refpf.elapsed_quiet refpf.select_quiet refpf.ticker_quiet
    by (auto simp: pfQuiet_def quiet_def sameChains_def undisturbed_def)
  then show ?thesis
    by (simp add: apQuiet_def refZ_def psQuiet_def refT_def pbQuiet_def upB_def quiet_def sameChains_def)
qed

lemma refZ_parts [simp]:
  "apN (refZ ctx) = refN" "apS (refZ ctx) = refS" "apA (refZ ctx) = refA" "apD (refZ ctx) = refD" "apGroup (refZ ctx) = inTurn"
  by (simp_all add: refZ_def)

interpretation refz: app_world "refZ ctx" refV refR refH "\<lambda>_. 0" for ctx
proof (intro app_world.intro app_world_axioms.intro)
  show "preserves (\<lambda>w. J (refV (kern w))) (apGroup (refZ ctx) ss)" if "\<And>s. s \<in> set ss \<Longrightarrow> preserves (\<lambda>w. J (refV (kern w))) s" for J ss
    using preserves_inTurn [OF that] by simp
qed (simp_all add: refZ_quiet refv.vpn_world_axioms refd.dot_world_axioms)

definition demoAppCfg :: config where
  "demoAppCfg = \<lparr>Version = ''local'', LogLevel = ''info'', SHA = [], DNS = [''1.1.1.1''], DNSMode = ''do53'', BootstrapDNS = [],
     GetRealIP = False, cPIA = \<lparr>User = ''p1234567'', Pass = ''secret'', Location = ''all'', DIPToken = [], ManualCN = [], ManualIP = []\<rparr>,
     cVPN = \<lparr>MTU = 1420, IPv6Enabled = False, wgBackend = []\<rparr>, cFW = \<lparr>iptBackend = ''legacy'', LANs = ''10.1.0.0/16''\<rparr>,
     cPF = demoPF, cPS = \<lparr>psClient = [], psURL = [], psUser = [], psPass = [], psScript = []\<rparr>,
     cProxy = \<lparr>HTTPEnabled = False, Socks5Enabled = False, pUser = [], pPass = [], Socks5Port = 1080, HTTPPort = 8888\<rparr>,
     cMetrics = \<lparr>mcEnabled = True, mcPort = 9090, mcName = []\<rparr>, cMonitor = demoMonitor\<rparr>"

text \<open>The host before a start whose third write fails.\<close>

definition demoAW :: "refk aw" where
  "demoAW = \<lparr>kern = demoKernel, ipt4Cmd = [], ipt6Cmd = [], active = False, activePort = 0,
     Token = [], TokenTime = 0, AuthIPs = [], ServerListIPs = [], Servers = [], tokenFile = Inl (Sentinel ErrNotExist),
     writable = True, now = 0, ctxErr = None, resolvConf = Inr ''nameserver 192.168.0.1'', resolvBak = Inl (Sentinel ErrNotExist),
     ioFaults = [None, None, Some (Errorf ''read-only file system'' [], Inr [])],
     upstreams = [], conns = (\<lambda>_. None), idx = 0, stats = exampleMetrics, portCh = None,
     pfPort = 0, pfPayload = [], pfSignature = [], pfExpiresAt = 0, pfBindTime = 0, portFile = Inl (Sentinel ErrNotExist),
     connInfo = None, connectionUp = False, exitedCleanly = False, preVPNIP = [], appDNS = []\<rparr>"

lemma refZ_more [simp]:
  "apStatus (refZ ctx) = Inr ''CapEff: 0000000000003000''" "apNewIpt (refZ ctx) = (\<lambda>_ _. None)"
  "apProbes (refZ ctx) = \<lparr>nftErr = None, nftOutput = [], legacyErr = None\<rparr>" "apCtx (refZ ctx) = Pair ctx"
  "apSleep (refZ ctx) = (\<lambda>d. Pair None)" "apB (refZ ctx) = upB"
  by (simp_all add: refZ_def)

lemma refFirewall:
  "NewFirewall (\<lambda>_ _. None) (Inr ''CapEff: 0000000000003000'') \<lparr>nftErr = None, nftOutput = [], legacyErr = None\<rparr> k ''legacy'' =
     Inr \<lparr>kern = k, ipt4Cmd = ''iptables-legacy'', ipt6Cmd = ''ip6tables-legacy'', active = False, activePort = 0\<rparr>"
proof -
  have "checkCaps True (Inr ''CapEff: 0000000000003000'') = Inr True" by code_simp
  then show ?thesis by (simp add: NewFirewall_def detectBackend_def)
qed

text \<open>The steps of the start: the files, the construction of the firewall, its setup.\<close>

definition demoAside :: "refk pw" where
  "demoAside = (pw.truncate demoAW)\<lparr>resolvConf := Inr [], resolvBak := Inr ''nameserver 192.168.0.1'',
     ioFaults := [Some (Errorf ''read-only file system'' [], Inr [])]\<rparr>"

definition demoBuilt :: "refk pw" where
  "demoBuilt = demoAside\<lparr>ipt4Cmd := ''iptables-legacy'', ipt6Cmd := ''ip6tables-legacy''\<rparr>"

definition demoRaised :: "refk pw" where
  "demoRaised = snd (the (Setup refN demoCfg demoBuilt))"

lemma demo_aside: "setAside demoAppCfg (pw.truncate demoAW) = Some (Inr (), demoAside)"
  by (simp add: setAside_def demoAppCfg_def Backup_def ClearResolv_def WriteFile_def bindP_def wrapErr_def getsP_def readP_def
     demoAW_def demoAside_def pw.defs absent_def putBak_def putConf_def Let_def fault_def)

lemma demo_built: "newFirewallP (refZ ctx) ''legacy'' demoAside = Some (Inr (), demoBuilt)"
  by (simp add: newFirewallP_def refFirewall) (simp add: demoAside_def demoBuilt_def demoAW_def pw.defs)

lemma demo_raised: "Setup refN demoCfg demoBuilt = Some (Inr (), demoRaised)"
proof -
  have "case Setup refN demoCfg demoBuilt of Some (Inr _, _) \<Rightarrow> True | _ \<Rightarrow> False" by code_simp
  then show ?thesis by (auto simp: demoRaised_def split: option.splits prod.splits sum.splits)
qed

lemma demo_faults: "ioFaults demoRaised = [Some (Errorf ''read-only file system'' [], Inr [])]"
  by code_simp

lemma demo_networks: "\<exists>p. plannedLans refN demoCfg demoBuilt = Some (Inr (demoLans, []), p)"
proof -
  have "case plannedLans refN demoCfg demoBuilt of Some (Inr x, _) \<Rightarrow> x = (demoLans, []) | _ \<Rightarrow> False" by code_simp
  then show ?thesis by (auto split: option.splits prod.splits sum.splits)
qed

lemma demo_kc: "\<lparr>kcLANs = LANs (cFW demoAppCfg), kcIPv6Enabled = IPv6Enabled (cVPN demoAppCfg)\<rparr> = demoCfg"
  by (simp add: demoAppCfg_def demoCfg_def)

definition demoA1 :: "refk aw" where
  "demoA1 = pw.extend demoAside (pw.more (freshApp demoAppCfg demoAW))"

definition demoA2 :: "refk aw" where
  "demoA2 = pw.extend demoRaised (pw.more (freshApp demoAppCfg demoAW))"

lemma demo_start:
  "within (setAside demoAppCfg) (freshApp demoAppCfg demoAW) = Some (Inr (), demoA1)"
  "within (raise (refZ ctx) demoAppCfg) demoA1 = Some (Inr (), demoA2)"
proof -
  have "pw.truncate (freshApp demoAppCfg demoAW) = pw.truncate demoAW"
    by (simp add: pw.defs freshApp_def)
  then show "within (setAside demoAppCfg) (freshApp demoAppCfg demoAW) = Some (Inr (), demoA1)"
    by (simp add: within_def demo_aside demoA1_def)
  have t: "pw.truncate demoA1 = demoAside" "pw.more demoA1 = pw.more (freshApp demoAppCfg demoAW)"
    by (simp_all add: demoA1_def demoAside_def pw.defs)
  have "iptBackend (cFW demoAppCfg) = ''legacy''" by (simp add: demoAppCfg_def)
  then have "raise (refZ ctx) demoAppCfg demoAside = Some (Inr (), demoRaised)"
    by (simp add: raise_def bindP_def demo_built demo_kc demo_raised)
  then show "within (raise (refZ ctx) demoAppCfg) demoA1 = Some (Inr (), demoA2)"
    by (simp add: within_def t demoA2_def)
qed

lemma demo_lans: "\<exists>w0. within (lansOf (refZ ctx) demoAppCfg) demoA1 = Some (Inr (demoLans, []), w0)"
proof -
  have t: "pw.truncate demoA1 = demoAside" by (simp add: demoA1_def demoAside_def pw.defs)
  have "iptBackend (cFW demoAppCfg) = ''legacy''" by (simp add: demoAppCfg_def)
  then show ?thesis using demo_networks by (auto simp: within_def t lansOf_def bindP_def demo_built demo_kc)
qed

lemma demo_setupDNS: "ioFaults w = [Some (e, x)] \<Longrightarrow> \<exists>e' w'. setupDNS Z demoAppCfg r w = Some (Inl e', w') \<and> errors_is e' ErrFatal"
  by (cases w) (simp add: setupDNS_def demoAppCfg_def bindP_def getsP_def within_def fatalErr_def WriteResolv_def wrapErr_def WriteFile_def
      fault_def pw.defs Let_def tryP_def throw_def)

lemma demo_run: "\<exists>e w'. run (refZ None) demoAppCfg demoAW = Some (Inl e, w')"
proof -
  have f: "ioFaults (demoA2\<lparr>stats := m\<rparr>) = [Some (Errorf ''read-only file system'' [], Inr [])]" for m
    using demo_faults by (simp add: demoA2_def pw.defs)
  have "\<exists>e' w'. retryWithWANCheck (refZ None) (setupDNS (refZ None) demoAppCfg r) (demoA2\<lparr>stats := m\<rparr>) = Some (Inl e', w')" for r m
    using demo_setupDNS [OF f [of m], of "refZ None" r]
    by (auto simp: retryWithWANCheck_def retryFrom.simps [of _ _ _ "demoA2\<lparr>stats := m\<rparr>"] afterFailure_def bindP_def askK_def throw_def)
  then obtain e' w' where "retryWithWANCheck (refZ None) (setupDNS (refZ None) demoAppCfg (NewExemptResolver (BootstrapDNS demoAppCfg)))
      (demoA2\<lparr>stats := NewMetrics (cMetrics demoAppCfg) (Version demoAppCfg) (now demoA2)\<rparr>) = Some (Inl e', w')" by blast
  then have "prepare (refZ None) demoAppCfg demoA2 = Some (Inl e', w')"
    by (simp add: prepare_def bindP_def getsP_def modifyP_def Let_def)
  moreover have "validate demoAppCfg = None" by (simp add: validate_def demoAppCfg_def)
  ultimately show ?thesis
    by (auto simp: run_def initialize_def bindP_def modifyP_def demo_start)
qed

section \<open>Properties\<close>

text \<open>
  C1. An error does not open the firewall. Once the killswitch is raised, a run of the program
  that ends with an error, whatever happened before (failed setups and connections, retries,
  reconnections, forwarded ports, exemptions that could not be removed), ends with chains that
  drop, in each of the four directions, every packet that matches none of the rules of the
  setup, an exemption for port 443, 53 or 1337 and a forwarded port.
\<close>

theorem errors_keep_killswitch:
  assumes "app_world Z V R H ticks" and "validate cfg = None"
    and "within (setAside cfg) (freshApp cfg w) = Some (Inr (), w1)" and "within (raise Z cfg) w1 = Some (Inr (), w2)"
    and "within (lansOf Z cfg) w1 = Some (Inr (v4, v6), w0)" and "V (kern w1) (IPv4, tableFilter, chainExempt) = None"
    and "run Z cfg w = Some (Inl e, w')"
    and "c \<in> set chainDefs" and "m []" and "\<forall>s \<in> mayAccept v4 v6 (IPv6Enabled (cVPN cfg)) (cdName c). \<not> matches m s"
  shows "verdict (V (kern w')) m (cdIpt c) (cdParent c) policy = Drop"
  by (rule mayHold_drops [OF app_world.error_keeps [OF assms(1,3-6) assms(2,7)] assms(8-10)])

theorem errors_keep_killswitch_witness:
  "\<exists>e w'. run (refZ None) demoAppCfg demoAW = Some (Inl e, w') \<and>
    verdict (refV (kern w')) (\<lambda>a. a \<in> {[], [''-o'', ''eth0'']}) IPv4 ''OUTPUT'' Accept = Drop"
proof -
  obtain e w' where run: "run (refZ None) demoAppCfg demoAW = Some (Inl e, w')" using demo_run by blast
  obtain w0 where lans: "within (lansOf (refZ None) demoAppCfg) demoA1 = Some (Inr (demoLans, []), w0)" using demo_lans by blast
  have "verdict (refV (kern w')) (\<lambda>a. a \<in> {[], [''-o'', ''eth0'']}) (cdIpt outDef) (cdParent outDef) Accept = Drop"
  proof (rule errors_keep_killswitch [OF refz.app_world_axioms _ demo_start lans _ run])
    show "validate demoAppCfg = None" by (simp add: validate_def demoAppCfg_def)
    show "refV (kern demoA1) (IPv4, tableFilter, chainExempt) = None" by code_simp
    show "\<forall>s \<in> mayAccept demoLans [] (IPv6Enabled (cVPN demoAppCfg)) (cdName outDef). \<not> matches (\<lambda>a. a \<in> {[], [''-o'', ''eth0'']}) s"
    proof -
      have "\<forall>s \<in> set (expectedBody demoLans [] (IPv6Enabled (cVPN demoAppCfg)) (cdName outDef)). \<not> matches (\<lambda>a. a \<in> {[], [''-o'', ''eth0'']}) s"
        by code_simp
      then show ?thesis by (auto simp: mayAccept_def matches_def exemptSpec_def names)
    qed
  qed simp_all
  with run show ?thesis by auto
qed

text \<open>Whatever the components do, only the end of the program marks it as told to stop.\<close>

lemma preserves_flag: "preserves (going (\<lambda>_. True)) (within m)"
  by (rule preserves_within) (simp add: preserves_def)

lemma flag_steps:
  "preserves (going (\<lambda>_. True)) (updStats f)" "preserves (going (\<lambda>_. True)) (liftSum x)"
  "waitsKeep Z (\<lambda>_. True)" "preserves (going (\<lambda>_. True)) (askK g)"
  by (intro keeps_preserves going_updStats keeps_liftSum)+ (auto simp: waitsKeep_def preserves_def askK_def going_def split: prod.splits)

lemmas flag_rules = preserves_bindP preserves_tryP preserves_ret preserves_flag flag_steps keeps_preserves [OF going_modify]

lemma flag_connect: "preserves (going (\<lambda>_. True)) (connect Z cfg r)"
  unfolding connect_def by (auto intro!: flag_rules)

lemma flag_runServices: "preserves (going (\<lambda>_. True)) (runServices Z cfg)"
  unfolding runServices_def signalDown_def by (auto intro!: flag_rules split: option.split sum.split)

lemma flag_initialize: "preserves (going (\<lambda>_. True)) (initialize Z cfg)"
  unfolding initialize_def prepare_def Let_def retryWithWANCheck_def setupDNS_def
  by (auto intro!: flag_rules preserves_retryFrom)

lemma delLoop_fine: "delLoop N args w = Some (r, w') \<Longrightarrow> r = Inr ()"
proof -
  assume run: "delLoop N args w = Some (r, w')"
  have "fst (r, w') = Inr ()"
    by (rule delLoop.raw_induct [of "\<lambda>N args w y. fst y = Inr ()" N args w "(r, w')", OF _ run])
      (auto split: prod.splits option.splits)
  then show ?thesis by simp
qed

lemma wgDown_fine: "wgDown N S w = Some (r, w') \<Longrightarrow> r = Inr ()"
  by (auto simp: wgDown_def cleanupRoutingRules_def bindP_def ignoreP_def ret_def split: option.splits sum.splits dest!: delLoop_fine)

lemma cleanup_steps:
  assumes "cleanup Z w = Some (x, w')"
  obtains y w1 where "within (wgDown (apN Z) (apS Z)) w = Some (y, w1)" "exitedCleanly w' = exitedCleanly w"
    "if exitedCleanly w then within (bindP (Cleanup (apN Z)) (\<lambda>_. ignoreP Restore)) w1 = Some (x, w') else w' = w1"
proof -
  obtain r w1 where 1: "within (wgDown (apN Z) (apS Z)) w = Some (r, w1)"
    using assms by (cases "within (wgDown (apN Z) (apS Z)) w") (auto simp: cleanup_def bindP_def)
  then have r: "r = Inr ()" and e: "exitedCleanly w1 = exitedCleanly w"
    by (auto simp: within_def split: option.splits dest: wgDown_fine)
  note run = assms [unfolded cleanup_def bindP_def [of "within m" for m] 1 r, simplified, unfolded bindP_def [of "getsP f" for f] getsP_def, simplified]
  have "exitedCleanly w' = exitedCleanly w"
    using run e by (auto simp: within_def ret_def split: if_splits option.splits)
  moreover have "if exitedCleanly w then within (bindP (Cleanup (apN Z)) (\<lambda>_. ignoreP Restore)) w1 = Some (x, w') else w' = w1"
    using run e by (auto simp: ret_def)
  ultimately show thesis by (rule that [OF 1])
qed

text \<open>The services end without an error only when the context answers that it has ended.\<close>

lemma serviceLoop_stopped:
  assumes "serviceLoop Z cfg r w = Some (Inr (), w')"
  shows "\<exists>c k. apCtx Z k = (Some c, kern w')"
proof -
  have "fst y = Inr () \<longrightarrow> (\<exists>c k. apCtx Z k = (Some c, kern (snd y)))" if "serviceLoop Z cfg r w = Some y" for Z :: "'a appops" and cfg r w y
  proof (rule serviceLoop.raw_induct [OF _ that])
    fix sl and Z :: "'a appops" and cfg r w y
    assume IH: "\<And>Z cfg r w y. sl Z cfg r w = Some y \<Longrightarrow> fst y = Inr () \<longrightarrow> (\<exists>c k. apCtx Z k = (Some c, kern (snd y)))"
      and body: "(case bindP (tryP (runServices Z cfg)) (afterServices Z cfg r) w of None \<Rightarrow> None | Some (Inl e, w') \<Rightarrow> Some (Inl e, w')
        | Some (Inr again, w') \<Rightarrow> if again then sl Z cfg r w' else Some (Inr (), w')) = Some y"
    show "fst y = Inr () \<longrightarrow> (\<exists>c k. apCtx Z k = (Some c, kern (snd y)))"
    proof (cases "bindP (tryP (runServices Z cfg)) (afterServices Z cfg r) w")
      case (Some z)
      obtain a w1 where z: "z = (a, w1)" by fastforce
      consider e where "a = Inl e" | "a = Inr True" | "a = Inr False" by (cases a) auto
      then show ?thesis
      proof cases
        case 2
        then show ?thesis using body Some z IH by auto
      next
        case 3
        then have "\<exists>c k. apCtx Z k = (Some c, kern w1)"
          using Some z by (auto simp: afterServices_def bindP_def tryP_def askK_def modifyP_def ret_def throw_def ignoreP_def updStats_def
              split: option.splits sum.splits prod.splits if_splits) blast+
        moreover have "y = (Inr (), w1)" using body Some z 3 by simp
        ultimately show ?thesis by simp
      qed (use body Some z in auto)
    qed (use body in simp)
  qed
  from this [OF assms] show ?thesis by simp
qed

text \<open>
  C3. What an exit tells. When a run with credentials ends, it reports success exactly if it has noted
  that it was told to stop. Without an error in the start, it has connected and run its services, and
  its last step is to take the tunnel down. In the case of success the context has ended, and then,
  and only then, the firewall is taken down after the tunnel and \<^verbatim>\<open>resolv.conf\<close> is restored; after
  an error nothing follows the tunnel, and after an error in the start nothing at all.
\<close>

theorem success_only_when_stopped:
  assumes "validate cfg = None" and "run Z cfg w = Some (x, w')"
  shows "(x = Inr () \<longleftrightarrow> exitedCleanly w') \<and>
    ((\<exists>e. initialize Z cfg (freshApp cfg w) = Some (Inl e, w') \<and> x = Inl e) \<or>
     (\<exists>r w0 w1 y w2. initialize Z cfg (freshApp cfg w) = Some (Inr r, w0) \<and>
        bindP (retryWithWANCheck Z (connect Z cfg r)) (\<lambda>_. serviceLoop Z cfg r) w0 = Some (x, w1) \<and>
        within (wgDown (apN Z) (apS Z)) w1 = Some (y, w2) \<and>
        (case x of
           Inl e \<Rightarrow> w' = w2
         | Inr _ \<Rightarrow> (\<exists>c k. apCtx Z k = (Some c, kern w1)) \<and>
             (\<exists>z. within (bindP (Cleanup (apN Z)) (\<lambda>_. ignoreP Restore)) w2 = Some (z, w')))))"
proof -
  have w: "going (\<lambda>_. True) (freshApp cfg w)" by (simp add: going_def freshApp_def)
  have run: "bindP (initialize Z cfg) (\<lambda>r. deferP (cleanup Z) (bindP (retryWithWANCheck Z (connect Z cfg r)) (\<lambda>_. serviceLoop Z cfg r)))
      (freshApp cfg w) = Some (x, w')"
    using assms by (simp add: run_def bindP_def [of "modifyP f" for f] modifyP_def)
  then obtain y w1 where 1: "initialize Z cfg (freshApp cfg w) = Some (y, w1)"
    by (cases "initialize Z cfg (freshApp cfg w)") (auto simp: bindP_def)
  have g: "going (\<lambda>_. True) w1" by (rule preservesD [OF flag_initialize 1 w])
  show ?thesis
  proof (cases y)
    case (Inl e)
    then show ?thesis using run 1 g by (auto simp: bindP_def going_def)
  next
    case (Inr r)
    let ?m = "bindP (retryWithWANCheck Z (connect Z cfg r)) (\<lambda>_. serviceLoop Z cfg r)"
    have "deferP (cleanup Z) ?m w1 = Some (x, w')" using run 1 Inr by (simp add: bindP_def [of "initialize Z cfg"])
    then obtain w2 u where 2: "?m w1 = Some (x, w2)" "cleanup Z w2 = Some (u, w')"
      by (auto simp: deferP_def split: option.splits)
    obtain z w3 where 3: "retryWithWANCheck Z (connect Z cfg r) w1 = Some (z, w3)"
      using 2(1) by (cases "retryWithWANCheck Z (connect Z cfg r) w1") (auto simp: bindP_def)
    have g3: "going (\<lambda>_. True) w3"
      by (rule preservesD [OF preserves_retryFrom [OF flag_connect flag_steps(3)] 3 [unfolded retryWithWANCheck_def] g])
    have "(exitedCleanly w2 \<longleftrightarrow> x = Inr ()) \<and> (x = Inr () \<longrightarrow> (\<exists>c k. apCtx Z k = (Some c, kern w2)))"
    proof (cases z)
      case (Inl e)
      then show ?thesis using 2(1) 3 g3 by (auto simp: bindP_def going_def)
    next
      case (Inr z')
      then have "serviceLoop Z cfg r w3 = Some (x, w2)" using 2(1) 3 by (simp add: bindP_def)
      from serviceLoop_ends [OF this g3 flag_steps(3) flag_runServices flag_connect] serviceLoop_stopped this show ?thesis by blast
    qed
    moreover obtain v w4 where 4: "within (wgDown (apN Z) (apS Z)) w2 = Some (v, w4)" "exitedCleanly w' = exitedCleanly w2"
      "if exitedCleanly w2 then within (bindP (Cleanup (apN Z)) (\<lambda>_. ignoreP Restore)) w4 = Some (u, w') else w' = w4"
      by (rule cleanup_steps [OF 2(2)])
    ultimately have "case x of Inl e \<Rightarrow> w' = w4 | Inr _ \<Rightarrow> (\<exists>c k. apCtx Z k = (Some c, kern w2)) \<and>
        (\<exists>z. within (bindP (Cleanup (apN Z)) (\<lambda>_. ignoreP Restore)) w4 = Some (z, w'))" and "x = Inr () \<longleftrightarrow> exitedCleanly w'"
      by (auto split: sum.splits)
    then show ?thesis using 1 \<open>y = Inr r\<close> 2(1) 4(1) by blast
  qed
qed

theorem success_only_when_stopped_witness:
  "\<exists>e w'. run (refZ None) demoAppCfg demoAW = Some (Inl e, w') \<and> \<not> exitedCleanly w'"
proof -
  obtain e w' where run: "run (refZ None) demoAppCfg demoAW = Some (Inl e, w')" using demo_run by blast
  have "validate demoAppCfg = None" by (simp add: validate_def demoAppCfg_def)
  from success_only_when_stopped [OF this run] run show ?thesis by auto
qed

section \<open>Connecting\<close>

lemma preserves_wrapErr: "preserves I m \<Longrightarrow> preserves I (wrapErr s m)"
  unfolding preserves_def wrapErr_def by (auto split: option.splits sum.splits)

lemma preserves_forP: "(\<And>x. preserves I (f x)) \<Longrightarrow> preserves I (forP xs f)"
  by (induction xs) (auto intro!: preserves_bindP preserves_ret)

text \<open>Routes and the verification work on the host only.\<close>

lemma hostOnly_delLoop: "preserves (hostOnly w0) (delLoop N args)"
proof (rule preservesI)
  fix w r w' assume w: "hostOnly w0 w" and run: "delLoop N args w = Some (r, w')"
  have "hostOnly w0 w \<longrightarrow> hostOnly w0 (snd (r, w'))"
    by (rule delLoop.raw_induct [of "\<lambda>N args w y. hostOnly w0 w \<longrightarrow> hostOnly w0 (snd y)" N args w "(r, w')", OF _ run])
      (auto split: prod.splits option.splits simp: hostOnly_kern)
  then show "hostOnly w0 w'" using w by simp
qed

lemma hostOnly_AddPIADNSRoutes: "preserves (hostOnly w0) (AddPIADNSRoutes N ds)"
proof -
  have add: "preserves (hostOnly w0) (ipRuleAdd N f sel p)" for f sel p
    unfolding ipRuleAdd_runK by (rule keeps_preserves) blast
  show ?thesis unfolding AddPIADNSRoutes_def RemovePIARoutes_def addPIARoute_def
    by (intro preserves_bindP preserves_forP preserves_wrapErr hostOnly_delLoop add)
qed

lemma hostOnly_Verify: "preserves (hostOnly w0) (VerifyConnection N S ip)"
proof -
  have "preserves (hostOnly w0) (waitForHandshake N S)"
  proof (rule preservesI)
    fix w r w' assume w: "hostOnly w0 w" and run: "waitForHandshake N S w = Some (r, w')"
    have "hostOnly w0 w \<longrightarrow> hostOnly w0 (snd (r, w'))"
      by (rule waitForHandshake.raw_induct [of "\<lambda>N S w y. hostOnly w0 w \<longrightarrow> hostOnly w0 (snd y)" N S w "(r, w')", OF _ run])
        (auto split: prod.splits option.splits simp: hostOnly_kern)
    then show "hostOnly w0 w'" using w by simp
  qed
  moreover have "preserves (hostOnly w0) (getPublicIP S)"
    unfolding getPublicIP_def by (rule keeps_preserves) (auto split: sum.split)
  ultimately show ?thesis
    unfolding VerifyConnection_def
    by (auto intro!: preserves_bindP preserves_wrapErr preserves_tryP preserves_ret split: sum.split)
qed

text \<open>A step of a chain of calls that succeeded.\<close>

lemma bindP_Inr:
  assumes "bindP m f w = Some (Inr b, w')"
  obtains a w1 where "m w = Some (Inr a, w1)" "f a w1 = Some (Inr b, w')"
  using assms by (auto simp: bindP_def split: option.splits sum.splits)

lemma hostOnly_pw:
  assumes "hostOnly p p'"
  shows "stats p' = stats p" "resolvConf p' = resolvConf p"
  using arg_cong [OF assms [unfolded hostOnly_def], of stats] arg_cong [OF assms [unfolded hostOnly_def], of resolvConf] by simp_all

text \<open>The part of \<open>connect\<close> that follows the setup of the tunnel.\<close>

definition afterSetup :: "'k appops \<Rightarrow> config \<Rightarrow> connectionInfo \<Rightarrow> ('k aw, unit) prog" where
  "afterSetup Z cfg info = (if DNSMode cfg = ''pia''
     then within (bindP (WriteResolv (ciDNS info)) (\<lambda>_. AddPIADNSRoutes (apN Z) (ciDNS info))) else ret ())"

lemma within_hostOnly:
  assumes "within m w = Some (x, w')" and "\<And>w0. preserves (hostOnly w0) m"
  shows "stats w' = stats w" "resolvConf w' = resolvConf w" "connInfo w' = connInfo w"
proof -
  obtain p where p: "m (pw.truncate w) = Some (x, p)" "w' = pw.extend p (pw.more w)"
    using assms(1) by (auto simp: within_def split: option.splits)
  have "hostOnly (pw.truncate w) p" by (rule preservesD [OF assms(2) p(1)]) simp
  from hostOnly_pw [OF this] p(2) show "stats w' = stats w" "resolvConf w' = resolvConf w" "connInfo w' = connInfo w" by simp_all
qed

lemma WriteResolv_Inr: "WriteResolv ss p = Some (Inr u, p') \<Longrightarrow> resolvConf p' = Inr (resolvContent ss) \<and> stats p' = stats p"
  by (auto simp: WriteResolv_def wrapErr_def WriteFile_def putConf_def Let_def split: option.splits sum.splits)

lemma afterSetup_result:
  assumes "afterSetup Z cfg info w = Some (Inr u, w')"
  shows "stats w' = stats w" "connInfo w' = connInfo w" "DNSMode cfg = ''pia'' \<Longrightarrow> resolvConf w' = Inr (resolvContent (ciDNS info))"
proof -
  have *: "stats w' = stats w \<and> connInfo w' = connInfo w \<and> (DNSMode cfg = ''pia'' \<longrightarrow> resolvConf w' = Inr (resolvContent (ciDNS info)))"
  proof (cases "DNSMode cfg = ''pia''")
    case True
    obtain p where p: "bindP (WriteResolv (ciDNS info)) (\<lambda>_. AddPIADNSRoutes (apN Z) (ciDNS info)) (pw.truncate w) = Some (Inr u, p)"
      "w' = pw.extend p (pw.more w)"
      using assms True by (auto simp: afterSetup_def within_def split: option.splits)
    obtain v p1 where 1: "WriteResolv (ciDNS info) (pw.truncate w) = Some (Inr v, p1)" "AddPIADNSRoutes (apN Z) (ciDNS info) p1 = Some (Inr u, p)"
      by (rule bindP_Inr [OF p(1)])
    have "hostOnly p1 p" by (rule preservesD [OF hostOnly_AddPIADNSRoutes 1(2)]) simp
    from hostOnly_pw [OF this] WriteResolv_Inr [OF 1(1)] p(2) show ?thesis by simp
  qed (use assms in \<open>simp add: afterSetup_def ret_def\<close>)
  then show "stats w' = stats w" "connInfo w' = connInfo w" "DNSMode cfg = ''pia'' \<Longrightarrow> resolvConf w' = Inr (resolvContent (ciDNS info))" by simp_all
qed

lemma connect_steps:
  assumes run: "connect Z cfg r w = Some (Inr u, w')"
  obtains info t w2 w5 w6 v where
    "afterSetup Z cfg info (w2\<lparr>connInfo := Some info, stats := RecordNewConnection (ciServerCN info) (ciServerIP info) t (stats w2)\<rparr>) = Some (Inr (), w5)"
    "within (VerifyConnection (apN Z) (apS Z) (preVPNIP w5)) w5 = Some (Inr v, w6)"
    "w' = w6\<lparr>connectionUp := True, stats := UpdateConnectionStatus True (stats w6)\<rparr>"
proof -
  from run have "\<exists>info t w2 w5 w6 v. afterSetup Z cfg info (w2\<lparr>connInfo := Some info, stats := RecordNewConnection (ciServerCN info) (ciServerIP info) t (stats w2)\<rparr>) = Some (Inr (), w5) \<and>
    within (VerifyConnection (apN Z) (apS Z) (preVPNIP w5)) w5 = Some (Inr v, w6) \<and>
    w' = w6\<lparr>connectionUp := True, stats := UpdateConnectionStatus True (stats w6)\<rparr>"
    unfolding connect_def afterSetup_def [symmetric]
    by (elim bindP_Inr) (fastforce simp: getsP_def modifyP_def updStats_def)
  then show thesis using that by blast
qed

text \<open>
  C4. What a connection leaves. When a connection succeeds, the tunnel it set up is the one the
  services are told about; the API and the metrics report that the connection is up, with its
  server; and in the mode \<^verbatim>\<open>pia\<close> \<^verbatim>\<open>resolv.conf\<close> names the servers of that tunnel and no others.
\<close>

theorem connected_state:
  assumes "connect Z cfg r w = Some (Inr u, w')"
  shows "connectionUp w' \<and> ConnectionUp (stats w') \<and> connectionUpGauge (stats w') = 1 \<and> (\<exists>info. connInfo w' = Some info \<and>
    (ciServerCN info \<noteq> [] \<and> ciServerIP info \<noteq> [] \<longrightarrow> CurrentServer (stats w') = ciServerCN info \<and> CurrentIP (stats w') = ciServerIP info) \<and>
    (DNSMode cfg = ''pia'' \<longrightarrow> resolvConf w' = Inr (resolvContent (ciDNS info))))"
proof -
  obtain info t w2 w5 w6 v where
    1: "afterSetup Z cfg info (w2\<lparr>connInfo := Some info, stats := RecordNewConnection (ciServerCN info) (ciServerIP info) t (stats w2)\<rparr>) = Some (Inr (), w5)"
    and 2: "within (VerifyConnection (apN Z) (apS Z) (preVPNIP w5)) w5 = Some (Inr v, w6)"
    and 3: "w' = w6\<lparr>connectionUp := True, stats := UpdateConnectionStatus True (stats w6)\<rparr>"
    by (rule connect_steps [OF assms])
  show ?thesis using afterSetup_result [OF 1] within_hostOnly [OF 2 hostOnly_Verify] 3
    by (auto simp: UpdateConnectionStatus_def gauge_def RecordNewConnection_def)
qed

text \<open>
  The reference host behind its killswitch, with a cached token, and the steps of a connection
  to a server the user names.
\<close>

definition demoTunnelCfg :: config where
  "demoTunnelCfg = demoAppCfg\<lparr>cPIA := (cPIA demoAppCfg)\<lparr>ManualCN := ''zurich401'', ManualIP := ''212.102.36.1''\<rparr>\<rparr>"

definition demoShown :: "(string list \<times> string) list" where
  "demoShown = [([''wg'', ''genkey''], ''PRIV''), ([''wg'', ''show'', ''pia0'', ''latest-handshakes''], ''KEY 9'')]"

definition demoTunnel :: "refk pw" where
  "demoTunnel = demoPW\<lparr>kern := (kern demoUp)\<lparr>rkShow := demoShown\<rparr>, Servers := [demoServer ''zurich401'' ''212.102.36.1'']\<rparr>"

definition demoDown :: "refk pw" where
  "demoDown = snd (the (wgDown refN refS demoTunnel))"

lemma demo_down: "wgDown refN refS demoTunnel = Some (Inr (), demoDown)"
proof -
  have "case wgDown refN refS demoTunnel of Some (Inr (), _) \<Rightarrow> True | _ \<Rightarrow> False" by code_simp
  then show ?thesis unfolding demoDown_def by (auto split: option.splits prod.splits sum.splits)
qed

lemma demo_tunnel:
  "\<exists>i p. vpnSetup refN refS refA (NewExemptResolver []) (vpnConfigOf demoTunnelCfg) demoDown = Some (Inr i, p) \<and>
     ciServerCN i = ''zurich401'' \<and> rkFaults (kern p) = [] \<and> rkShow (kern p) = demoShown"
proof -
  have "case vpnSetup refN refS refA (NewExemptResolver []) (vpnConfigOf demoTunnelCfg) demoDown of
      Some (Inr i, p) \<Rightarrow> ciServerCN i = ''zurich401'' \<and> rkFaults (kern p) = [] \<and> rkShow (kern p) = demoShown | _ \<Rightarrow> False" by code_simp
  then show ?thesis by (auto split: option.splits prod.splits sum.splits)
qed

lemma demo_verify:
  assumes "rkFaults (kern w) = []" and "rkShow (kern w) = demoShown"
  shows "VerifyConnection refN refS [] w = Some (Inr (), w)"
proof -
  let ?cmd = "[''wg'', ''show'', ''pia0'', ''latest-handshakes'']"
  have k: "(kern w)\<lparr>rkFaults := []\<rparr> = kern w" using assms(1) by (cases "kern w") simp
  have "map_of demoShown ?cmd = Some ''KEY 9''" by (simp add: demoShown_def)
  then have o1: "nOutput refN ?cmd (kern w) = (Inr ''KEY 9'', kern w)"
    using assms k by (simp add: refN_def refOutput_def)
  have "sBefore refS (kern w) = (True, kern w)" by (simp add: refS_def)
  moreover have "handshakeDone ''KEY 9''" by code_simp
  ultimately have h: "handshakeRound refN refS (kern w) = (Some (Inr ()), kern w)"
    by (simp add: handshakeRound_def o1)
  have ip: "firstIP (Errorf ''no valid IP from any service'' []) (map serviceResult (fst (sFetchIPs refS ipServices (kern w)))) = Inr ''203.0.113.7''"
  proof -
    have "fst (sFetchIPs refS ipServices (kern w)) =
        [(ipServices ! 1, Inr (503, Inr [])), (ipServices ! 0, Inr (200, Inr (''203.0.113.7'' @ [CHR 0x0A])))]"
      by (simp add: refS_def)
    moreover have "firstIP (Errorf ''no valid IP from any service'' []) (map serviceResult
        [(ipServices ! 1, Inr (503, Inr [])), (ipServices ! 0, Inr (200, Inr (''203.0.113.7'' @ [CHR 0x0A])))]) = Inr ''203.0.113.7''"
      by code_simp
    ultimately show ?thesis by simp
  qed
  have "snd (sFetchIPs refS ipServices (kern w)) = kern w" by (simp add: refS_def)
  then have "getPublicIP refS w = Some (Inr ''203.0.113.7'', w)"
    using ip by (cases "sFetchIPs refS ipServices (kern w)") (simp add: getPublicIP_def bindP_def askK_def ret_def)
  then show ?thesis
    by (simp add: VerifyConnection_def bindP_def wrapErr_def waitForHandshake.simps [of refN refS w] h tryP_def ret_def)
qed

lemma within_extend: "m p = Some (r, p') \<Longrightarrow> within m (pw.extend p x) = Some (r, pw.extend p' x)"
proof -
  assume "m p = Some (r, p')"
  moreover have "pw.more (pw.extend p x) = x" by (simp add: pw.defs)
  ultimately show ?thesis by (simp add: within_def)
qed

lemma demo_connect:
  "\<exists>w' i. connect (refZ None) demoTunnelCfg (NewExemptResolver []) (pw.extend demoTunnel (pw.more demoAW)) = Some (Inr (), w') \<and>
     connInfo w' = Some i \<and> ciServerCN i = ''zurich401''"
proof -
  from demo_tunnel obtain i p where t: "vpnSetup refN refS refA (NewExemptResolver []) (vpnConfigOf demoTunnelCfg) demoDown = Some (Inr i, p)"
    "ciServerCN i = ''zurich401''" "rkFaults (kern p) = []" "rkShow (kern p) = demoShown" by blast
  let ?x = "pw.more demoAW"
  let ?w = "(pw.extend p ?x)\<lparr>connInfo := Some i,
      stats := RecordNewConnection (ciServerCN i) (ciServerIP i) (now (pw.extend p ?x)) (stats p)\<rparr>"
  have ip: "preVPNIP ?w = []" by (simp add: demoAW_def pw.defs)
  have "VerifyConnection refN refS [] (pw.truncate ?w) = Some (Inr (), pw.truncate ?w)"
    by (rule demo_verify) (simp_all add: t(3,4))
  moreover have "pw.extend (pw.truncate ?w) (pw.more ?w) = ?w" by (cases ?w) (simp add: pw.defs)
  ultimately have v: "within (VerifyConnection refN refS []) ?w = Some (Inr (), ?w)" by (simp add: within_def)
  have m: "DNSMode demoTunnelCfg \<noteq> ''pia''" by (simp add: demoTunnelCfg_def demoAppCfg_def)
  have "connect (refZ None) demoTunnelCfg (NewExemptResolver []) (pw.extend demoTunnel ?x) =
      Some (Inr (), ?w\<lparr>connectionUp := True, stats := UpdateConnectionStatus True (stats ?w)\<rparr>)"
    using v ip m unfolding connect_def
    by (simp add: bindP_def getsP_def modifyP_def updStats_def ret_def within_extend [where m = "wgDown refN refS", OF demo_down]
        within_extend [where m = "vpnSetup refN refS refA (NewExemptResolver []) (vpnConfigOf demoTunnelCfg)", OF t(1)])
  then show ?thesis using t(2) by simp
qed

theorem connected_state_witness:
  "\<exists>w'. connect (refZ None) demoTunnelCfg (NewExemptResolver []) (pw.extend demoTunnel (pw.more demoAW)) = Some (Inr (), w') \<and>
     connectionUp w' \<and> ConnectionUp (stats w')"
proof -
  obtain w' where "connect (refZ None) demoTunnelCfg (NewExemptResolver []) (pw.extend demoTunnel (pw.more demoAW)) = Some (Inr (), w')"
    using demo_connect by blast
  with connected_state [OF this] show ?thesis by blast
qed

end
