(* ===== verification/AppRetry.thy ===== *)
theory AppRetry
  imports AppLife
begin

text \<open>
  The retries of the application (\<^verbatim>\<open>retryWithWANCheck\<close> of \<^verbatim>\<open>internal/app/app.go\<close>): the
  phases they go through, with what they wait for and how long, and that they succeed as soon
  as what they retry does.
\<close>

section \<open>The phases of the retries\<close>

text \<open>
  What the retries do to the host, as far as it can be seen: an attempt that failed, a check of the
  WAN, a wait. \<open>phase\<close> says what is allowed next. After \<open>n\<close> waits in a row an attempt is made
  (\<open>Trying\<close>); its failure is judged (\<open>Bad\<close>); the WAN was up and a wait is due (\<open>Due\<close>); or it was
  down, and the retries wait for it (\<open>Down\<close>).
\<close>

datatype event = Failed err | Probed bool | Slept int

datatype phase = Trying nat | Bad err nat | Due nat | Down

text \<open>The wait after \<open>n\<close> others: five seconds doubled \<open>n\<close> times, a minute at most.\<close>

definition wait :: "nat \<Rightarrow> int" where
  "wait n = min (5 * second * 2 ^ n) (60 * second)"

fun allowed :: "phase \<Rightarrow> event \<Rightarrow> phase option" where
  "allowed (Trying n) (Failed e) = Some (Bad e n)"
| "allowed (Bad e n) (Slept d) =
     (if errors_is e ErrRateLimited \<and> \<not> errors_is e ErrFatal \<and> d = 3600 * second then Some (Trying n) else None)"
| "allowed (Bad e n) (Probed up) =
     (if errors_is e ErrRateLimited \<or> errors_is e ErrFatal then None else Some (if up then Due n else Down))"
| "allowed (Due n) (Slept d) = (if d = wait n then Some (Trying (Suc n)) else None)"
| "allowed Down (Probed up) = Some (if up then Trying 0 else Down)"
| "allowed Down (Failed e) = Some (Bad e 0)"
| "allowed _ _ = None"

fun phases :: "phase \<Rightarrow> event list \<Rightarrow> phase option" where
  "phases s [] = Some s"
| "phases s (ev # evs) = (case allowed s ev of None \<Rightarrow> None | Some s' \<Rightarrow> phases s' evs)"

lemma phases_append: "phases s (xs @ ys) = Option.bind (phases s xs) (\<lambda>s'. phases s' ys)"
  by (induction xs arbitrary: s) (auto split: option.splits)

definition delays :: "int set" where
  "delays = {5 * second, 10 * second, 20 * second, 40 * second, 60 * second}"

lemma wait_0: "wait 0 = initialDelay"
  by (simp add: wait_def initialDelay_def second_def)

lemma wait_Suc: "wait (Suc n) = min (2 * wait n) maxDelay"
  by (auto simp: wait_def maxDelay_def second_def min_def)

lemma wait_delays: "wait n \<in> delays"
proof (induction n)
  case (Suc n)
  then show ?case by (auto simp: wait_Suc delays_def maxDelay_def second_def)
qed (simp add: wait_0 initialDelay_def delays_def)

text \<open>What is allowed waits an hour, or one of the delays.\<close>

lemma phases_waits: "phases s evs = Some s' \<Longrightarrow> Slept d \<in> set evs \<Longrightarrow> d \<in> insert hour delays"
proof (induction s evs rule: phases.induct)
  case (2 s ev evs)
  show ?case
  proof (cases "ev = Slept d")
    case True
    then show ?thesis using 2(2) by (cases s) (auto simp: hour_def wait_delays split: if_splits)
  next
    case False
    then show ?thesis using 2 by (auto split: option.splits)
  qed
qed simp

text \<open>
  \<open>records Z hist fn\<close>: \<open>hist\<close> is the history of these events on the host. Each wait and each check
  is one, an attempt is one if it fails, and nothing else adds to it.
\<close>

definition records :: "'k appops \<Rightarrow> ('k \<Rightarrow> event list) \<Rightarrow> ('k aw, unit) prog \<Rightarrow> bool" where
  "records Z hist fn \<longleftrightarrow>
     (\<forall>d k x k'. apSleep Z d k = (x, k') \<longrightarrow> hist k' = hist k @ [Slept d]) \<and>
     (\<forall>k x k'. apCtx Z k = (x, k') \<longrightarrow> hist k' = hist k) \<and>
     (\<forall>hs t k rs el k'. pbDial (apB Z) hs t k = ((rs, el), k') \<longrightarrow> hist k' = hist k @ [Probed (anySuccess rs)]) \<and>
     (\<forall>d k x k'. pbAfter (apB Z) d k = (x, k') \<longrightarrow> hist k' = hist k) \<and>
     (\<forall>w x w'. fn w = Some (x, w') \<longrightarrow> hist (kern w') = hist (kern w) @ (case x of Inl e \<Rightarrow> [Failed e] | Inr _ \<Rightarrow> []))"

lemma Check_recorded:
  assumes "records Z hist fn"
  shows "\<exists>up w'. Check (apB Z) w = Some (Inr up, w') \<and> hist (kern w') = hist (kern w) @ [Probed up]"
  using assms by (auto simp: Check_def probe_def bindP_def askK_def modifyP_def ret_def records_def split: prod.splits)

lemma updStats_kern: "updStats g w = Some (x, w') \<Longrightarrow> kern w' = kern w"
  by (auto simp: updStats_def modifyP_def)

text \<open>Waiting for the WAN: checks, the last of which succeeds if any.\<close>

definition waited :: "('k \<Rightarrow> event list) \<Rightarrow> 'k \<Rightarrow> 'k \<Rightarrow> bool" where
  "waited hist k k' \<longleftrightarrow> (\<exists>evs s. hist k' = hist k @ evs \<and> phases Down evs = Some s \<and> (s = Down \<or> s = Trying 0))"

lemma waited_step: "hist k1 = hist k @ [Probed False] \<Longrightarrow> waited hist k1 k' \<Longrightarrow> waited hist k k'"
  unfolding waited_def by (elim exE, rule_tac x = "Probed False # evs" in exI) auto

lemma waited_up: "hist k' = hist k @ [Probed True] \<Longrightarrow> waited hist k k'"
  unfolding waited_def by (intro exI [of _ "[Probed True]"]) simp

lemma waitLoop_recorded:
  assumes rec: "records Z hist fn" and run: "waitLoop (apB Z) w = Some (x, w')"
  shows "waited hist (kern w) (kern w')"
proof -
  have "B = apB Z \<longrightarrow> waited hist (kern w) (kern (snd y))" if "waitLoop B w = Some y" for B w y
  proof (rule waitLoop.raw_induct [OF _ that])
    fix wl B w y
    assume IH: "\<And>B w y. wl B w = Some y \<Longrightarrow> B = apB Z \<longrightarrow> waited hist (kern w) (kern (snd y))"
      and body: "(case pbAfter B second (kern w) of (x, k) \<Rightarrow> (case x of Some e \<Rightarrow> Some (Inl e, w\<lparr>kern := k\<rparr>)
         | None \<Rightarrow> (case Check B (w\<lparr>kern := k\<rparr>) of None \<Rightarrow> None | Some (Inl e, w') \<Rightarrow> Some (Inl e, w')
           | Some (Inr up, w') \<Rightarrow> (if up then updStats (UpdateWANStatus True) w' else wl B w')))) = Some y"
    show "B = apB Z \<longrightarrow> waited hist (kern w) (kern (snd y))"
    proof
      assume B: "B = apB Z"
      obtain z k where a: "pbAfter B second (kern w) = (z, k)" by fastforce
      have k: "hist k = hist (kern w)" using rec a B by (auto simp: records_def)
      obtain up w1 where c: "Check B (w\<lparr>kern := k\<rparr>) = Some (Inr up, w1)" "hist (kern w1) = hist (kern w) @ [Probed up]"
        using Check_recorded [OF rec, of "w\<lparr>kern := k\<rparr>"] B k by auto
      consider e where "z = Some e" | "z = None" "up" | "z = None" "\<not> up" by blast
      then show "waited hist (kern w) (kern (snd y))"
      proof cases
        case 1
        then show ?thesis using body a k by (auto simp: waited_def intro!: exI [of _ "[]"])
      next
        case 2
        then have "kern (snd y) = kern w1" using body a c(1) by (cases y) (auto dest: updStats_kern)
        then show ?thesis using c(2) 2 by (auto intro: waited_up)
      next
        case 3
        then have "wl B w1 = Some y" using body a c(1) by simp
        from IH [OF this] B show ?thesis using c(2) 3 by (auto intro: waited_step)
      qed
    qed
  qed
  from this [OF run] show ?thesis by simp
qed

lemma WaitForUp_recorded:
  assumes rec: "records Z hist fn" and run: "WaitForUp (apB Z) w = Some (x, w')"
  shows "waited hist (kern w) (kern w')"
proof -
  obtain up w1 where c: "Check (apB Z) w = Some (Inr up, w1)" "hist (kern w1) = hist (kern w) @ [Probed up]"
    using Check_recorded [OF rec, of w] by auto
  show ?thesis
  proof (cases up)
    case True
    then have "kern w' = kern w1" using run c(1) by (auto simp: WaitForUp_def bindP_def dest: updStats_kern)
    then show ?thesis using c(2) True by (auto intro: waited_up)
  next
    case False
    then have "waitLoop (apB Z) (w1\<lparr>stats := UpdateWANStatus False (stats w1)\<rparr>) = Some (x, w')"
      using run c(1) by (simp add: WaitForUp_def bindP_def updStats_def modifyP_def)
    from waitLoop_recorded [OF rec this] c(2) False show ?thesis by (auto intro: waited_step)
  qed
qed

definition endsIn :: "'k appops \<Rightarrow> phase \<Rightarrow> err \<Rightarrow> bool" where
  "endsIn Z s e \<longleftrightarrow> (\<exists>n. s = Bad e n) \<and> errors_is e ErrFatal \<or> (\<exists>k k'. apCtx Z k = (Some e, k')) \<or>
     (\<exists>d k k'. apSleep Z d k = (Some e, k'))"

text \<open>The delay that is due belongs to the phase.\<close>

definition due :: "phase \<Rightarrow> nat \<Rightarrow> bool" where
  "due s n \<longleftrightarrow> s = Trying n \<or> s = Down \<and> n = 0"

lemma due_fails: "due s n \<Longrightarrow> allowed s (Failed e) = Some (Bad e n)"
  by (auto simp: due_def)

lemma afterFailure_phases:
  assumes rec: "records Z hist fn" and run: "afterFailure Z (wait n) e w = Some (x, w')"
  shows "\<exists>evs s. hist (kern w') = hist (kern w) @ evs \<and> phases (Bad e n) evs = Some s \<and>
    (case x of Inr d \<Rightarrow> \<exists>m. d = wait m \<and> due s m | Inl e' \<Rightarrow> endsIn Z s e')"
proof -
  obtain y k where c: "apCtx Z (kern w) = (y, k)" by fastforce
  have k: "hist k = hist (kern w)" using rec c by (auto simp: records_def)
  let ?w = "w\<lparr>kern := k\<rparr>"
  have sl: "hist k2 = hist (kern w1) @ [Slept d]" if "apSleep Z d (kern w1) = (z, k2)" for d w1 z k2
    using rec that by (auto simp: records_def)
  obtain up p where ck: "Check (apB Z) (pw.truncate ?w) = Some (Inr up, p)" "hist (kern p) = hist k @ [Probed up]"
    using Check_recorded [OF rec, of "pw.truncate ?w"] by auto
  define w1 where "w1 = pw.extend p (pw.more ?w)"
  have ck': "within (Check (apB Z)) ?w = Some (Inr up, w1)" "hist (kern w1) = hist k @ [Probed up]"
    using ck by (simp_all add: within_def w1_def)
  consider e' where "y = Some e'" "x = Inl e'" "w' = ?w" | "y = None" "errors_is e ErrFatal" "x = Inl e" "w' = ?w"
    | z k2 where "y = None" "\<not> errors_is e ErrFatal" "errors_is e ErrRateLimited" "apSleep Z hour k = (z, k2)" "w' = ?w\<lparr>kern := k2\<rparr>"
        "x = (case z of None \<Rightarrow> Inr (wait n) | Some e' \<Rightarrow> Inl e')"
    | u where "y = None" "\<not> errors_is e ErrFatal" "\<not> errors_is e ErrRateLimited" "\<not> up" "within (WaitForUp (apB Z)) w1 = Some (u, w')" "x = Inr (wait 0)"
    | z k2 where "y = None" "\<not> errors_is e ErrFatal" "\<not> errors_is e ErrRateLimited" "up" "apSleep Z (wait n) (kern w1) = (z, k2)"
        "w' = w1\<lparr>kern := k2\<rparr>" "x = (case z of None \<Rightarrow> Inr (wait (Suc n)) | Some e' \<Rightarrow> Inl e')"
    using run unfolding afterFailure_def
    by (auto simp: bindP_def askK_def c ck'(1) throw_def runK_def ignoreP_def ret_def wait_0 wait_Suc split: option.splits if_splits prod.splits sum.splits)
  then show ?thesis
  proof cases
    case 1
    then have "endsIn Z (Bad e n) e'" using c by (auto simp: endsIn_def)
    then show ?thesis using 1 k by (intro exI [of _ "[]"]) simp
  next
    case 2
    then show ?thesis using k by (intro exI [of _ "[]"]) (simp add: endsIn_def)
  next
    case 3
    have "endsIn Z (Trying n) e'" if "z = Some e'" for e' using 3(4) that by (auto simp: endsIn_def)
    then show ?thesis using 3 sl [of hour ?w] k
      by (intro exI [of _ "[Slept hour]"] exI [of _ "Trying n"]) (auto simp: hour_def due_def split: option.splits)
  next
    case 4
    obtain p' where "WaitForUp (apB Z) (pw.truncate w1) = Some (u, p')" "kern w' = kern p'"
      using 4(5) by (auto simp: within_def split: option.splits)
    then have "waited hist (kern w1) (kern w')" using WaitForUp_recorded [OF rec] by fastforce
    then obtain evs s where evs: "hist (kern w') = hist (kern w1) @ evs" "phases Down evs = Some s" "s = Down \<or> s = Trying 0"
      by (auto simp: waited_def)
    have "due s 0" using evs(3) by (auto simp: due_def)
    then show ?thesis using evs(1,2) ck'(2) k 4
      by (intro exI [of _ "Probed False # evs"] exI [of _ s]) auto
  next
    case 5
    have "endsIn Z (Trying (Suc n)) e'" if "z = Some e'" for e' using 5(5) that by (auto simp: endsIn_def)
    then show ?thesis using 5 sl [OF 5(5)] ck'(2) k
      by (intro exI [of _ "[Probed True, Slept (wait n)]"] exI [of _ "Trying (Suc n)"]) (auto simp: due_def split: option.splits)
  qed
qed

definition retried :: "'k appops \<Rightarrow> ('k \<Rightarrow> event list) \<Rightarrow> phase \<Rightarrow> 'k \<Rightarrow> err + unit \<Rightarrow> 'k \<Rightarrow> bool" where
  "retried Z hist s k x k' \<longleftrightarrow> (\<exists>evs s'. hist k' = hist k @ evs \<and> phases s evs = Some s' \<and>
     (case x of Inr _ \<Rightarrow> \<exists>n. due s' n | Inl e \<Rightarrow> endsIn Z s' e))"

lemma retried_more:
  assumes "hist k1 = hist k @ evs" "phases s evs = Some s1" "retried Z hist s1 k1 x k'"
  shows "retried Z hist s k x k'"
  using assms unfolding retried_def by (elim exE, rule_tac x = "evs @ evsa" in exI) (simp add: phases_append)

lemma retryFrom_phases:
  assumes rec: "records Z hist fn" and run: "retryFrom Z fn (wait n) w = Some (x, w')" and "due s n"
  shows "retried Z hist s (kern w) x (kern w')"
proof -
  have "\<forall>n s. Z' = Z \<longrightarrow> fn' = fn \<longrightarrow> d = wait n \<longrightarrow> due s n \<longrightarrow> retried Z hist s (kern w) (fst y) (kern (snd y))"
    if "retryFrom Z' fn' d w = Some y" for Z' fn' d w y
  proof (rule retryFrom.raw_induct [OF _ that])
    fix rt Z' fn' d w y
    assume IH: "\<And>Z' fn' d w y. rt Z' fn' d w = Some y \<Longrightarrow>
        \<forall>n s. Z' = Z \<longrightarrow> fn' = fn \<longrightarrow> d = wait n \<longrightarrow> due s n \<longrightarrow> retried Z hist s (kern w) (fst y) (kern (snd y))"
      and body: "(case fn' w of None \<Rightarrow> None | Some (Inl e, w1) \<Rightarrow> (case afterFailure Z' d e w1 of None \<Rightarrow> None
          | Some (Inl e', w2) \<Rightarrow> Some (Inl e', w2) | Some (Inr delay', w2) \<Rightarrow> rt Z' fn' delay' w2) | Some (Inr _, w1) \<Rightarrow> Some (Inr (), w1)) = Some y"
    show "\<forall>n s. Z' = Z \<longrightarrow> fn' = fn \<longrightarrow> d = wait n \<longrightarrow> due s n \<longrightarrow> retried Z hist s (kern w) (fst y) (kern (snd y))"
    proof (intro allI impI)
      fix n s assume [simp]: "Z' = Z" "fn' = fn" "d = wait n" and s: "due s n"
      obtain r w1 where 1: "fn w = Some (r, w1)" using body by (cases "fn w") auto
      have h: "hist (kern w1) = hist (kern w) @ (case r of Inl e \<Rightarrow> [Failed e] | Inr _ \<Rightarrow> [])"
        using rec 1 by (simp add: records_def)
      show "retried Z hist s (kern w) (fst y) (kern (snd y))"
      proof (cases r)
        case (Inr u)
        then show ?thesis using body 1 h s by (auto simp: retried_def intro!: exI [of _ "[]"])
      next
        case (Inl e)
        obtain z w2 where 2: "afterFailure Z (wait n) e w1 = Some (z, w2)"
          using body 1 Inl by (cases "afterFailure Z (wait n) e w1") auto
        from afterFailure_phases [OF rec 2] obtain evs s2 where evs: "hist (kern w2) = hist (kern w1) @ evs"
          "phases (Bad e n) evs = Some s2" "case z of Inr d \<Rightarrow> \<exists>m. d = wait m \<and> due s2 m | Inl e' \<Rightarrow> endsIn Z s2 e'" by blast
        have "hist (kern w2) = hist (kern w) @ Failed e # evs" "phases s (Failed e # evs) = Some s2"
          using h evs(1,2) Inl due_fails [OF s] by simp_all
        moreover have "retried Z hist s2 (kern w2) (fst y) (kern (snd y))"
        proof (cases z)
          case (Inl e')
          then show ?thesis using body 1 2 \<open>r = Inl e\<close> evs(3) by (auto simp: retried_def intro!: exI [of _ "[]"])
        next
          case (Inr delay')
          then have "rt Z fn delay' w2 = Some y" using body 1 2 \<open>r = Inl e\<close> by simp
          from IH [OF this] show ?thesis using evs(3) Inr by auto
        qed
        ultimately show ?thesis by (rule retried_more)
      qed
    qed
  qed
  from this [OF run] assms(3) show ?thesis by simp
qed

section \<open>Failures that end\<close>

lemma Check_returns: "\<exists>up w'. Check B w = Some (Inr up, w')"
  by (simp add: Check_def probe_def bindP_def askK_def modifyP_def ret_def split: prod.splits)

text \<open>\<open>failures\<close> bounds the failures that are left; the waits do not add to them and are not cut short.\<close>

definition patient :: "'k appops \<Rightarrow> ('k \<Rightarrow> nat) \<Rightarrow> bool" where
  "patient Z failures \<longleftrightarrow> (\<forall>d k x k'. apSleep Z d k = (x, k') \<longrightarrow> x = None \<and> failures k' \<le> failures k) \<and>
     (\<forall>k x k'. apCtx Z k = (x, k') \<longrightarrow> x = None \<and> failures k' \<le> failures k) \<and>
     (\<forall>n. keeps (\<lambda>w :: 'k pw. failures (kern w) \<le> n) (Check (apB Z)) \<and> keeps (\<lambda>w :: 'k pw. failures (kern w) \<le> n) (WaitForUp (apB Z)))"

lemma keeps_within_kern: "keeps (\<lambda>p. J (kern p)) m \<Longrightarrow> keeps (\<lambda>w. J (kern w)) (within m)"
  by (rule keepsI) (auto simp: wp_within elim!: wp_keeps)

lemma afterFailure_patient:
  fixes w :: "'k aw"
  assumes pat: "patient Z failures" and e: "\<not> errors_is e ErrFatal"
  shows "\<exists>delay' w'. afterFailure Z delay e w = Some (Inr delay', w') \<and> failures (kern w') \<le> failures (kern w)"
proof -
  have ck: "keeps (\<lambda>w :: 'k pw. failures (kern w) \<le> n) (Check (apB Z))"
    and wt: "keeps (\<lambda>w :: 'k pw. failures (kern w) \<le> n) (WaitForUp (apB Z))" for n
    using pat by (auto simp: patient_def)
  have sleep: "succeeds (\<lambda>w :: 'k aw. failures (kern w) \<le> n) (runK (apSleep Z d))" for d n
    by (rule succeedsI, rule wp_runK) (use pat in \<open>fastforce simp: patient_def\<close>)+
  have check: "succeeds (\<lambda>w :: 'k aw. failures (kern w) \<le> n) (within (Check (apB Z)))" for n
  proof (rule succeedsI)
    fix w :: "'k aw" assume "failures (kern w) \<le> n"
    then have "failures (kern (pw.truncate w)) \<le> n" by simp
    from keeps_run [OF ck this] obtain r p where "Check (apB Z) (pw.truncate w) = Some (r, p)" "failures (kern p) \<le> n" by blast
    moreover from this(1) obtain up where "r = Inr up" using Check_returns [of "apB Z" "pw.truncate w"] by auto
    ultimately show "wp (within (Check (apB Z))) (\<lambda>r w'. (\<exists>x. r = Inr x) \<and> failures (kern w') \<le> n) w"
      by (simp add: within_def wp_def)
  qed
  have wait: "keeps (\<lambda>w :: 'k aw. failures (kern w) \<le> n) (within (WaitForUp (apB Z)))" for n
    by (rule keeps_within_kern [where J = "\<lambda>k. failures k \<le> n"]) (rule wt)
  obtain k where c: "apCtx Z (kern w) = (None, k)" "failures k \<le> failures (kern w)"
    using pat by (cases "apCtx Z (kern w)") (auto simp: patient_def)
  have "succeeds (\<lambda>w :: 'k aw. failures (kern w) \<le> failures k) (if errors_is e ErrRateLimited then bindP (runK (apSleep Z hour)) (\<lambda>_. ret delay)
      else bindP (within (Check (apB Z))) (\<lambda>up. if \<not> up then bindP (ignoreP (within (WaitForUp (apB Z)))) (\<lambda>_. ret initialDelay)
        else bindP (runK (apSleep Z delay)) (\<lambda>_. ret (min (2 * delay) maxDelay))))" (is "succeeds _ ?m")
    by (auto intro!: succeeds_bindP sleep check succeeds_ignoreP wait)
  from succeedsD [OF this, of "w\<lparr>kern := k\<rparr>"] obtain d w' where "?m (w\<lparr>kern := k\<rparr>) = Some (Inr d, w')" "failures (kern w') \<le> failures k"
    by auto
  moreover have "afterFailure Z delay e w = ?m (w\<lparr>kern := k\<rparr>)"
    using e by (simp add: afterFailure_def bindP_def [of "askK f" for f] askK_def c(1))
  ultimately show ?thesis using c(2) by auto
qed

lemma retryFrom_succeeds:
  fixes fn :: "('k aw, unit) prog"
  assumes "patient Z failures" and "\<And>w. fn w \<noteq> None"
    and "\<And>w e w'. fn w = Some (Inl e, w') \<Longrightarrow> \<not> errors_is e ErrFatal \<and> failures (kern w') < failures (kern w)"
  shows "\<exists>w'. retryFrom Z fn delay w = Some (Inr (), w')"
proof (induction "failures (kern w)" arbitrary: w delay rule: less_induct)
  case less
  obtain r w1 where 1: "fn w = Some (r, w1)" using assms(2) [of w] by auto
  show ?case
  proof (cases r)
    case (Inr u)
    then show ?thesis using 1 by (simp add: retryFrom.simps [of _ _ _ w])
  next
    case (Inl e)
    note f = assms(3) [OF 1 [unfolded Inl]]
    obtain d w2 where 2: "afterFailure Z delay e w1 = Some (Inr d, w2)" "failures (kern w2) \<le> failures (kern w1)"
      using afterFailure_patient [OF assms(1) conjunct1 [OF f]] by blast
    have "failures (kern w2) < failures (kern w)" using f 2(2) by simp
    from less [OF this, of d] show ?thesis using 1 Inl 2(1) by (simp add: retryFrom.simps [of _ _ _ w])
  qed
qed

section \<open>Properties\<close>


text \<open>An operation of the reference host that fails once for every fault that is left.\<close>

definition demoTry :: "(refk aw, unit) prog" where
  "demoTry w = (case rkFaults (kern w) of [] \<Rightarrow> Some (Inr (), w)
     | x # xs \<Rightarrow> Some (Inl (Errorf ''no route to host'' []), w\<lparr>kern := (kern w)\<lparr>rkFaults := xs\<rparr>\<rparr>))"

lemma upB_still: "keeps (\<lambda>w. J (kern w)) (Check upB)" "keeps (\<lambda>w. J (kern w)) (WaitForUp upB)"
proof -
  show "keeps (\<lambda>w. J (kern w)) (Check upB)"
    by (rule keepsI) (simp add: Check_def probe_def wp_def bindP_def askK_def upB_def modifyP_def ret_def)
  show "keeps (\<lambda>w. J (kern w)) (WaitForUp upB)"
    by (rule keepsI)
      (simp add: WaitForUp_def Check_def probe_def wp_def bindP_def askK_def upB_def modifyP_def ret_def updStats_def WANCheckIPs_def)
qed

lemma demoTry_fails:
  "demoTry w \<noteq> None" "demoTry w = Some (Inl e, w') \<Longrightarrow> \<not> errors_is e ErrFatal \<and> length (rkFaults (kern w')) < length (rkFaults (kern w))"
  by (auto simp: demoTry_def split: list.splits)

lemma refZ_patient: "patient (refZ None) (\<lambda>k. length (rkFaults k))"
  by (auto simp: patient_def intro!: upB_still [where J = "\<lambda>k. length (rkFaults k) \<le> n" for n])



text \<open>
  The reference host with a log of the events, in its table of outputs: a wait is as many strokes
  as nanoseconds. A fault is an attempt that fails.
\<close>

definition strokes :: "int \<Rightarrow> string" where
  "strokes d = replicate (nat \<bar>d\<bar>) (if 0 \<le> d then CHR ''+'' else CHR ''-'')"

definition noted :: "string \<Rightarrow> event" where
  "noted s = (if s = ''failed'' then Failed (Errorf ''no route to host'' []) else if s = ''up'' then Probed True
     else if s = ''down'' then Probed False else Slept (if CHR ''-'' \<in> set s then - int (length s) else int (length s)))"

definition logged :: "refk \<Rightarrow> event list" where
  "logged k = map (\<lambda>(c, s). noted s) (rkShow k)"

definition jot :: "string \<Rightarrow> refk \<Rightarrow> refk" where
  "jot s k = k\<lparr>rkShow := rkShow k @ [([], s)]\<rparr>"

lemma logged_jot: "logged (jot s k) = logged k @ [noted s]"
  by (simp add: logged_def jot_def)

definition loggingZ :: "refk appops" where
  "loggingZ = (refZ None)\<lparr>apSleep := (\<lambda>d k. (None, jot (strokes d) k)),
     apB := upB\<lparr>pbDial := (\<lambda>hs t k. let rs = fst (fst (pbDial upB hs t k)) in ((rs, 1), jot (if anySuccess rs then ''up'' else ''down'') k))\<rparr>\<rparr>"

definition loggedTry :: "(refk aw, unit) prog" where
  "loggedTry w = (case rkFaults (kern w) of [] \<Rightarrow> Some (Inr (), w)
     | x # xs \<Rightarrow> Some (Inl (Errorf ''no route to host'' []), w\<lparr>kern := jot ''failed'' ((kern w)\<lparr>rkFaults := xs\<rparr>)\<rparr>))"

lemma noted_simps: "noted ''failed'' = Failed (Errorf ''no route to host'' [])" "noted ''up'' = Probed True" "noted ''down'' = Probed False"
  "noted (strokes d) = Slept d"
proof -
  have "CHR ''f'' \<notin> set (strokes d)" "CHR ''u'' \<notin> set (strokes d)" "CHR ''d'' \<notin> set (strokes d)" by (auto simp: strokes_def)
  then have "strokes d \<noteq> ''failed''" "strokes d \<noteq> ''up''" "strokes d \<noteq> ''down''" by force+
  then show "noted (strokes d) = Slept d" by (auto simp: noted_def strokes_def)
qed (simp_all add: noted_def)

lemma loggingZ_records: "records loggingZ logged loggedTry"
proof -
  have "apB loggingZ = upB\<lparr>pbDial := (\<lambda>hs t k. let rs = fst (fst (pbDial upB hs t k)) in ((rs, 1), jot (if anySuccess rs then ''up'' else ''down'') k))\<rparr>"
    "apSleep loggingZ = (\<lambda>d k. (None, jot (strokes d) k))" "apCtx loggingZ = apCtx (refZ None)"
    by (simp_all add: loggingZ_def)
  moreover have "logged (k\<lparr>rkFaults := xs\<rparr>) = logged k" for k xs by (simp add: logged_def)
  ultimately show ?thesis
    by (auto simp: records_def refZ_more upB_def logged_jot noted_simps loggedTry_def Let_def split: list.splits)
qed

lemma loggedTry_again:
  assumes "rkFaults (kern w) = x # xs"
  shows "\<exists>w1. retryFrom loggingZ loggedTry d w = retryFrom loggingZ loggedTry (min (2 * d) maxDelay) w1 \<and> rkFaults (kern w1) = xs \<and>
    logged (kern w1) = logged (kern w) @ [Failed (Errorf ''no route to host'' []), Probed True, Slept d]"
proof -
  let ?e = "Errorf ''no route to host'' []" and ?w = "w\<lparr>kern := jot ''failed'' ((kern w)\<lparr>rkFaults := xs\<rparr>)\<rparr>"
  have "\<exists>w1. afterFailure loggingZ d ?e ?w = Some (Inr (min (2 * d) maxDelay), w1) \<and>
    kern w1 = jot (strokes d) (jot ''up'' (kern ?w))"
    by (simp add: afterFailure_def within_def Check_def probe_def bindP_def askK_def modifyP_def ret_def runK_def loggingZ_def
        refZ_more upB_def WANCheckIPs_def Let_def)
  then obtain w1 where w1: "afterFailure loggingZ d ?e ?w = Some (Inr (min (2 * d) maxDelay), w1)"
    "kern w1 = jot (strokes d) (jot ''up'' (kern ?w))" by blast
  have "logged ((kern w)\<lparr>rkFaults := xs\<rparr>) = logged (kern w)" by (simp add: logged_def)
  then show ?thesis using w1 assms
    by (intro exI [of _ w1]) (simp add: retryFrom.simps [of _ _ _ w] loggedTry_def logged_jot noted_simps, simp add: jot_def)
qed


end
