(* ===== verification/Api.thy ===== *)
theory Api
  imports AppLife
begin

text \<open>
  The HTTP endpoints (\<^verbatim>\<open>internal/api/server.go\<close>): what the handlers that \<^verbatim>\<open>New\<close> registers answer, from
  the state of the killswitch, of the connection and of the metrics. The server itself, the
  encoder of JSON and the exposition format of Prometheus are library code: the last two are
  parameters. A path is one the mux has cleaned.
\<close>

section \<open>Queries of a URL\<close>

text \<open>\<^verbatim>\<open>url.QueryUnescape\<close>, and \<^verbatim>\<open>Query().Get\<close>: parts that are not well formed are dropped, the first value counts.\<close>

fun QueryUnescape :: "string \<Rightarrow> string option" where
  "QueryUnescape [] = Some []"
| "QueryUnescape (c # s) =
     (if c = CHR ''%'' then (case s of
        a # b # s' \<Rightarrow> (case (hexVal a, hexVal b) of
            (Some x, Some y) \<Rightarrow> map_option (Cons (char_of (16 * x + y))) (QueryUnescape s')
          | _ \<Rightarrow> None)
      | _ \<Rightarrow> None)
      else map_option (Cons (if c = CHR ''+'' then CHR '' '' else c)) (QueryUnescape s))"

definition queryPart :: "string \<Rightarrow> (string \<times> string) option" where
  "queryPart part =
     (if part = [] \<or> CHR '';'' \<in> set part then None
      else let (k, v) = (takeWhile (\<lambda>c. c \<noteq> CHR ''='') part, drop 1 (dropWhile (\<lambda>c. c \<noteq> CHR ''='') part))
        in case (QueryUnescape k, QueryUnescape v) of (Some k', Some v') \<Rightarrow> Some (k', v') | _ \<Rightarrow> None)"

definition queryGet :: "string \<Rightarrow> string \<Rightarrow> string" where
  "queryGet rawQuery key = (case map_of (List.map_filter queryPart (Split (CHR ''&'') rawQuery)) key of None \<Rightarrow> [] | Some v \<Rightarrow> v)"

section \<open>The handlers\<close>

text \<open>The status, the content type when a handler sets it, and the body.\<close>

record answer =
  anStatus :: nat
  anType :: "string option"
  anBody :: string

definition plain :: "nat \<Rightarrow> string \<Rightarrow> answer" where
  "plain status body = \<lparr>anStatus = status, anType = None, anBody = body @ [CHR 0x0A]\<rparr>"

text \<open>\<^verbatim>\<open>http.Error\<close>, which \<^verbatim>\<open>http.NotFound\<close> uses too.\<close>

definition httpError :: "string \<Rightarrow> nat \<Rightarrow> answer" where
  "httpError msg status = \<lparr>anStatus = status, anType = Some ''text/plain; charset=utf-8'', anBody = msg @ [CHR 0x0A]\<rparr>"

definition ready :: "bool \<Rightarrow> answer" where
  "ready killswitchUp = (if killswitchUp then plain 200 ''ready'' else plain 503 ''not ready'')"

definition health :: "bool \<Rightarrow> answer" where
  "health connected = (if connected then plain 200 ''healthy'' else plain 503 ''unhealthy'')"

text \<open>
  \<open>stats\<close> is what \<^verbatim>\<open>GetStats\<close> gives: \<open>None\<close> when it panics, and then the connection is closed without
  an answer. \<open>enc\<close> is the JSON encoder, which ends a value with a newline, \<open>scrape\<close> the handler
  of Prometheus.
\<close>

definition metricsPage :: "((string \<times> stat) list \<Rightarrow> string) \<Rightarrow> (metrics \<Rightarrow> answer) \<Rightarrow> string \<Rightarrow> (string \<times> stat) list option \<Rightarrow> metrics \<Rightarrow> answer option" where
  "metricsPage enc scrape rawQuery sts m =
     (if \<not> mcEnabled (mConfig m) then Some (httpError ''Metrics not enabled'' 404)
      else if queryGet rawQuery ''format'' = ''json'' then
        map_option (\<lambda>xs. \<lparr>anStatus = 200, anType = Some ''application/json'', anBody = enc xs\<rparr>) sts
      else Some (scrape m))"

definition serve :: "((string \<times> stat) list \<Rightarrow> string) \<Rightarrow> (metrics \<Rightarrow> answer) \<Rightarrow> bool \<Rightarrow> bool \<Rightarrow> (string \<times> stat) list option \<Rightarrow> metrics \<Rightarrow>
    string \<Rightarrow> string \<Rightarrow> answer option" where
  "serve enc scrape killswitchUp connected sts m path rawQuery =
     (if path = ''/ready'' then Some (ready killswitchUp)
      else if path = ''/health'' then Some (health connected)
      else if path = ''/metrics'' then metricsPage enc scrape rawQuery sts m
      else Some (httpError ''404 page not found'' 404))"

text \<open>The API of the program: the functions that \<^verbatim>\<open>app.go\<close> passes to \<^verbatim>\<open>New\<close> read its state at each request.\<close>

definition apiServe :: "((string \<times> stat) list \<Rightarrow> string) \<Rightarrow> (metrics \<Rightarrow> answer) \<Rightarrow> (int \<Rightarrow> int \<Rightarrow> string) \<Rightarrow> (int \<Rightarrow> int \<Rightarrow> string) \<Rightarrow>
    'k aw \<Rightarrow> string \<Rightarrow> string \<Rightarrow> answer option" where
  "apiServe enc scrape fmt1 fmt2 w =
     serve enc scrape (IsActive w) (connectionUp w) (GetStats fmt1 fmt2 (now w) (stats w)) (stats w)"

section \<open>The endpoints follow the connection\<close>

lemma serve_health: "serve enc scrape ks c sts m ''/health'' q = Some (health c)"
  by (simp add: serve_def)

text \<open>What follows the signal that the connection is down touches neither the flag nor the metrics.\<close>

lemma keeps_stats_modifyP: "(\<And>w. stats (f w) = stats w) \<Longrightarrow> keeps (\<lambda>w. stats w = s) (modifyP f)"
  by (rule keepsI) (simp add: wp_def modifyP_def)

lemma keeps_stats_askK: "keeps (\<lambda>w. stats w = s) (askK c)"
  by (rule keepsI, rule wp_askK) simp

lemma keeps_stats: "keeps (\<lambda>w. stats w = s) (ignoreP ClearResolv)" "keeps (\<lambda>w. stats w = s) (CloseUpstreams D)"
  unfolding ClearResolv_def CloseUpstreams_def closeConn_def dropConn_def setConn_def
  by (auto simp: putConf_def intro!: keeps_bindP keeps_forP keeps_ignoreP keeps_wrapErr keeps_WriteFile keeps_stats_modifyP keeps_stats_askK
      split: option.split)

definition down :: "'k aw \<Rightarrow> bool" where
  "down w \<longleftrightarrow> \<not> connectionUp w \<and> \<not> ConnectionUp (stats w) \<and> connectionUpGauge (stats w) = 0"

lemma preserves_down:
  assumes "\<And>s. preserves (\<lambda>w. stats w = s) m"
  shows "preserves down (within m)"
proof (rule preservesI)
  fix w r w' assume w: "down w" and "within m w = Some (r, w')"
  then obtain p where p: "m (pw.truncate w) = Some (r, p)" "w' = pw.extend p (pw.more w)"
    by (auto simp: within_def split: option.splits)
  have "stats p = stats w" by (rule preservesD [OF assms p(1)]) simp
  then show "down w'" using w p(2) by (simp add: down_def)
qed

lemma signalDown_down:
  assumes "signalDown Z cfg w = Some (r, w')"
  shows "down w'"
proof -
  have down: "down (w\<lparr>connectionUp := False, stats := UpdateConnectionStatus False (stats w)\<rparr>)"
    by (simp add: down_def UpdateConnectionStatus_def gauge_def)
  have "preserves down (if DNSMode cfg = ''pia'' then within (ignoreP ClearResolv)
      else if DNSMode cfg = ''dot'' then within (CloseUpstreams (apD Z)) else ret ())"
    by (auto intro: preserves_down keeps_preserves keeps_stats preserves_ret)
  then show ?thesis
    by (rule preservesD [where I = down, OF _ _ down]) (use assms in \<open>simp add: signalDown_def bindP_def modifyP_def updStats_def\<close>)
qed

lemma within_flag: "within m w = Some (x, w') \<Longrightarrow> connectionUp w' = connectionUp w"
  by (auto simp: within_def split: option.splits)

lemma runServices_down:
  assumes "runServices Z cfg w = Some (Inl e, w')" and "connInfo w \<noteq> None"
  shows "down w'"
  using assms by (auto simp: runServices_def bindP_def getsP_def modifyP_def tryP_def askK_def ret_def throw_def
      split: option.splits sum.splits prod.splits if_splits dest: signalDown_down)

lemma runServices_stop:
  assumes "runServices Z cfg w = Some (Inr u, w')" and "connInfo w \<noteq> None"
  shows "down w' \<or> connectionUp w' = connectionUp w \<and> (\<exists>c k. apCtx Z k = (Some c, kern w'))"
proof -
  obtain info where info: "connInfo w = Some info" using assms(2) by auto
  obtain err w1 where g: "within (apGroup Z (services Z cfg info)) (w\<lparr>portCh := None\<rparr>) = Some (err, w1)"
    using assms(1) info by (auto simp: runServices_def bindP_def getsP_def modifyP_def tryP_def split: option.splits)
  obtain x k where x: "apCtx Z (kern w1) = (x, k)" by fastforce
  have flag: "connectionUp w1 = connectionUp w" using within_flag [OF g] by simp
  show ?thesis
  proof (cases x)
    case (Some c)
    then have "w' = w1\<lparr>kern := k\<rparr>" using assms(1) info g x
      by (auto simp: runServices_def bindP_def getsP_def modifyP_def tryP_def askK_def ret_def)
    then show ?thesis using flag x Some by auto
  next
    case None
    then show ?thesis using assms(1) info g x
      by (auto simp: runServices_def bindP_def getsP_def modifyP_def tryP_def askK_def ret_def throw_def
          split: option.splits sum.splits dest: signalDown_down)
  qed
qed

text \<open>A connection that fails leaves the flag alone: it is set in the last step.\<close>

lemma connect_fails:
  assumes "connect Z cfg r w = Some (Inl e, w')"
  shows "connectionUp w' = connectionUp w"
proof -
  have same: "connectionUp w2 = connectionUp w1" if "within m w1 = Some (x, w2)" for m x w1 and w2 :: "'a aw"
    by (rule within_flag [OF that])
  show ?thesis using assms unfolding connect_def
    by (auto simp: bindP_def modifyP_def getsP_def updStats_def ret_def split: option.splits sum.splits if_splits dest!: same)
qed

lemma GetStats_connection:
  "GetStats fmt1 fmt2 t m = Some xs \<Longrightarrow> map_of xs ''connection_up'' = Some (SBool (ConnectionUp m))"
  by (auto simp: GetStats_def split: option.splits)

text \<open>
  C17. The API tells whether the tunnel works. \<^verbatim>\<open>/health\<close> answers 200 from a connection that succeeds on,
  through any work of its services; when they have ended it answers 503, unless the program
  is told to stop, which leaves the answer as it was until the process ends. The attempts to connect
  again leave the answer alone until one of them succeeds. At the start and at the end the
  gauge of Prometheus and the JSON of \<^verbatim>\<open>/metrics\<close> say the same.
\<close>

theorem health_follows_tunnel:
  assumes "connect Z cfg r w = Some (Inr u, w1)" and "runServices Z cfg w1 = Some (y, w2)"
  shows "apiServe enc scrape fmt1 fmt2 w1 ''/health'' qs = Some (plain 200 ''healthy'') \<and> connectionUpGauge (stats w1) = 1 \<and>
    (\<forall>t xs. GetStats fmt1 fmt2 t (stats w1) = Some xs \<longrightarrow> map_of xs ''connection_up'' = Some (SBool True)) \<and>
    (\<forall>m z wm. within m w1 = Some (z :: err + 'z, wm) \<longrightarrow>
       apiServe enc scrape fmt1 fmt2 wm ''/health'' qs = Some (plain 200 ''healthy'')) \<and>
    (apiServe enc scrape fmt1 fmt2 w2 ''/health'' qs = Some (plain 503 ''unhealthy'') \<and> connectionUpGauge (stats w2) = 0 \<and>
       (\<forall>t xs. GetStats fmt1 fmt2 t (stats w2) = Some xs \<longrightarrow> map_of xs ''connection_up'' = Some (SBool False)) \<or>
     y = Inr () \<and> (\<exists>c k. apCtx Z k = (Some c, kern w2)) \<and>
       apiServe enc scrape fmt1 fmt2 w2 ''/health'' qs = Some (plain 200 ''healthy'')) \<and>
    (\<forall>r' e w3. connect Z cfg r' w2 = Some (Inl e, w3) \<longrightarrow>
       apiServe enc scrape fmt1 fmt2 w3 ''/health'' qs = apiServe enc scrape fmt1 fmt2 w2 ''/health'' qs)"
proof -
  obtain info t w3 w5 w6 v where
    1: "afterSetup Z cfg info (w3\<lparr>connInfo := Some info, stats := RecordNewConnection (ciServerCN info) (ciServerIP info) t (stats w3)\<rparr>) = Some (Inr (), w5)"
    and 2: "within (VerifyConnection (apN Z) (apS Z) (preVPNIP w5)) w5 = Some (Inr v, w6)"
    and 3: "w1 = w6\<lparr>connectionUp := True, stats := UpdateConnectionStatus True (stats w6)\<rparr>"
    by (rule connect_steps [OF assms(1)])
  have info: "connInfo w1 \<noteq> None" using afterSetup_result(2) [OF 1] within_hostOnly(3) [OF 2 hostOnly_Verify] 3 by simp
  have up: "connectionUp w1" "ConnectionUp (stats w1)" "connectionUpGauge (stats w1) = 1"
    by (simp_all add: 3 UpdateConnectionStatus_def gauge_def)
  have health: "apiServe enc scrape fmt1 fmt2 w' ''/health'' qs = Some (if connectionUp w' then plain 200 ''healthy'' else plain 503 ''unhealthy'')" for w'
    by (simp add: apiServe_def serve_health health_def)
  have "down w2 \<or> y = Inr () \<and> connectionUp w2 \<and> (\<exists>c k. apCtx Z k = (Some c, kern w2))"
  proof (cases y)
    case (Inl e)
    then show ?thesis using runServices_down [OF assms(2) [unfolded Inl] info] by simp
  next
    case (Inr v)
    then show ?thesis using runServices_stop [OF assms(2) [unfolded Inr] info] up(1) by simp
  qed
  moreover have "connectionUp wm" if "within m w1 = Some (z :: err + 'z, wm)" for m z wm
    using within_flag [OF that] up(1) by simp
  ultimately show ?thesis using up
    by (auto simp: health down_def connect_fails dest: GetStats_connection)
qed

text \<open>The reference host, whose services ask for a reconnection at once.\<close>

definition brokenZ :: "refk appops" where
  "brokenZ = (refZ None)\<lparr>apGroup := (\<lambda>_. throw (Sentinel ErrReconnect))\<rparr>"

lemma within_throw: "within (throw e) w = Some (Inl e, w)"
  by (cases w) (simp add: within_def throw_def pw.defs)

lemma broken_services:
  assumes "connInfo w = Some info"
  shows "\<exists>w2. runServices brokenZ demoTunnelCfg w = Some (Inl (Sentinel ErrReconnect), w2)"
  using assms by (simp add: runServices_def bindP_def getsP_def modifyP_def tryP_def brokenZ_def within_throw askK_def ret_def throw_def
      refZ_def signalDown_def updStats_def demoTunnelCfg_def demoAppCfg_def)

theorem health_follows_tunnel_witness:
  "\<exists>w1 w2. connect brokenZ demoTunnelCfg (NewExemptResolver []) (pw.extend demoTunnel (pw.more demoAW)) = Some (Inr (), w1) \<and>
     runServices brokenZ demoTunnelCfg w1 = Some (Inl (Sentinel ErrReconnect), w2) \<and>
     apiServe (\<lambda>_. []) (\<lambda>_. plain 200 []) (\<lambda>_ _. []) (\<lambda>_ _. []) w1 ''/health'' [] = Some (plain 200 ''healthy'') \<and>
     apiServe (\<lambda>_. []) (\<lambda>_. plain 200 []) (\<lambda>_ _. []) (\<lambda>_ _. []) w2 ''/health'' [] = Some (plain 503 ''unhealthy'')"
proof -
  have "connect brokenZ = connect (refZ None)"
    by (intro ext) (simp add: brokenZ_def connect_def cong: if_cong)
  then obtain w1 i where w1: "connect brokenZ demoTunnelCfg (NewExemptResolver []) (pw.extend demoTunnel (pw.more demoAW)) = Some (Inr (), w1)"
    "connInfo w1 = Some i"
    using demo_connect by metis
  obtain w2 where "runServices brokenZ demoTunnelCfg w1 = Some (Inl (Sentinel ErrReconnect), w2)"
    using broken_services [OF w1(2)] by blast
  from w1(1) this health_follows_tunnel [OF w1(1) this] show ?thesis by blast
qed

end
