(* ===== verification/Log.thy ===== *)
theory Log
  imports Json Metrics
begin

text \<open>
  The output of the program (\<^verbatim>\<open>internal/log\<close>): which lines are shown at a level, and the boxes of the
  banners. A line is the bytes it prints; the time of day of a diagnostic line is a parameter, as is the
  formatted message. \<^verbatim>\<open>FormatDuration\<close> is with its caller, in \<open>Metrics\<close>.
\<close>

section \<open>Lines\<close>

definition newline :: string where "newline = [CHR 0x0A]"
definition escape :: "string \<Rightarrow> string" where "escape code = CHR 0x1B # CHR ''['' # code"

definition ColorReset :: string where "ColorReset = escape ''0m''"
definition ColorBold :: string where "ColorBold = escape ''1m''"
definition ColorRed :: string where "ColorRed = escape ''0;31m''"
definition ColorGreen :: string where "ColorGreen = escape ''0;32m''"
definition ColorBlue :: string where "ColorBlue = escape ''0;34m''"
definition ColorYellow :: string where "ColorYellow = escape ''0;33m''"
definition ColorCyan :: string where "ColorCyan = escape ''0;36m''"

text \<open>\<^verbatim>\<open>%-12s\<close>, for texts of one byte per character.\<close>

definition padRight :: "nat \<Rightarrow> string \<Rightarrow> string" where
  "padRight n s = s @ replicate (n - length s) (CHR '' '')"

definition diagnostic :: "string \<Rightarrow> string \<Rightarrow> string \<Rightarrow> string \<Rightarrow> string \<Rightarrow> string" where
  "diagnostic color tag timestamp pfx msg =
     ''    '' @ color @ tag @ ColorReset @ '' '' @ timestamp @ '' - '' @ padRight 12 (pfx @ '':'') @ '' '' @ msg @ newline"

definition Debug :: "int \<Rightarrow> string \<Rightarrow> string \<Rightarrow> string \<Rightarrow> string" where
  "Debug level timestamp pfx msg = (if level < 2 then [] else diagnostic ColorBlue ''[DEBUG]'' timestamp pfx msg)"

definition Trace :: "int \<Rightarrow> string \<Rightarrow> string \<Rightarrow> string \<Rightarrow> string" where
  "Trace level timestamp pfx msg = (if level < 3 then [] else diagnostic ColorYellow ''[TRACE]'' timestamp pfx msg)"

definition marked :: "string \<Rightarrow> nat \<Rightarrow> string \<Rightarrow> string" where
  "marked color sign msg = ''  '' @ color @ utf8 sign @ ColorReset @ '' '' @ msg @ newline"

definition Success :: "int \<Rightarrow> string \<Rightarrow> string" where
  "Success level msg = (if level < 1 then [] else marked ColorGreen 0x2713 msg)"

definition Step :: "int \<Rightarrow> string \<Rightarrow> string" where
  "Step level msg = (if level < 1 then [] else newline @ ColorBlue @ utf8 0x25B6 @ ColorReset @ '' '' @ msg @ newline)"

definition Info :: "int \<Rightarrow> string \<Rightarrow> string" where
  "Info level msg = (if level < 1 then [] else ''  '' @ msg @ newline)"

definition Error :: "string \<Rightarrow> string" where
  "Error msg = marked ColorRed 0x2717 msg"

definition Warning :: "string \<Rightarrow> string" where
  "Warning msg = marked ColorYellow 0x26A0 msg"

section \<open>Boxes\<close>

text \<open>\<^verbatim>\<open>strings.Repeat\<close> panics for a count below zero.\<close>

definition Repeat :: "string \<Rightarrow> int \<Rightarrow> string option" where
  "Repeat s n = (if n < 0 then None else Some (concat (replicate (nat n) s)))"

definition boxBorder :: string where
  "boxBorder = concat (replicate 48 (utf8 0x2550))"

definition boxTop :: "string \<Rightarrow> string" where
  "boxTop color = color @ utf8 0x2554 @ boxBorder @ utf8 0x2557 @ ColorReset"

definition boxBottom :: "string \<Rightarrow> string" where
  "boxBottom color = color @ utf8 0x255A @ boxBorder @ utf8 0x255D @ ColorReset"

definition boxSide :: "string \<Rightarrow> string" where
  "boxSide color = color @ utf8 0x2551 @ ColorReset"

definition boxEmpty :: "string \<Rightarrow> string" where
  "boxEmpty color = boxSide color @ replicate 48 (CHR '' '') @ boxSide color"

definition boxCenter :: "string \<Rightarrow> string \<Rightarrow> int \<Rightarrow> string option" where
  "boxCenter color content visibleLen =
     (let left = quot (48 - visibleLen) 2; right = 48 - visibleLen - left in
      case (Repeat '' '' left, Repeat '' '' right) of
        (Some l, Some r) \<Rightarrow> Some (boxSide color @ l @ content @ r @ boxSide color)
      | _ \<Rightarrow> None)"

text \<open>\<open>None\<close>: the program panics.\<close>

definition StartupBanner :: "int \<Rightarrow> string \<Rightarrow> string \<Rightarrow> string option" where
  "StartupBanner level version sha =
     (if level < 1 then Some []
      else let versionText = ''pia-tun '' @ version; c = ColorCyan in
        case (boxCenter c (ColorBold @ versionText @ ColorReset) (int (length versionText)),
              boxCenter c (ColorGreen @ ''x0lie'' @ ColorReset) 5) of
          (Some title, Some author) \<Rightarrow>
            Some (newline @ Join [boxTop c, boxEmpty c, title, author, boxEmpty c, boxBottom c] newline @ newline @
              (if version = ''develop'' \<and> sha \<noteq> [] then '' commit: '' @ sha @ newline else []))
        | _ \<Rightarrow> None)"

definition banner :: "int \<Rightarrow> string \<Rightarrow> nat \<Rightarrow> string \<Rightarrow> int \<Rightarrow> string option" where
  "banner level c sign msg visibleLen =
     (if level < 1 then Some []
      else map_option (\<lambda>line. newline @ Join [boxTop c, line, boxBottom c] newline @ newline)
        (boxCenter c (c @ utf8 sign @ ColorReset @ '' '' @ ColorBold @ msg @ ColorReset) visibleLen))"

definition ConnectedBanner :: "int \<Rightarrow> string option" where
  "ConnectedBanner level = banner level ColorGreen 0x2713 ''VPN Connected'' 15"

definition ReconnectingBanner :: "int \<Rightarrow> string option" where
  "ReconnectingBanner level = banner level ColorYellow 0x21BB ''Reconnecting VPN'' 18"

section \<open>What fits into a box\<close>

lemma quot_half: "0 \<le> m \<Longrightarrow> quot m 2 = m div 2"
  by (cases "m = 0") (simp_all add: quot_def)

lemma boxCenter_fits:
  assumes "0 \<le> n"
  shows "boxCenter color content n \<noteq> None \<longleftrightarrow> n \<le> 48"
proof (cases "n \<le> 48")
  case True
  then have "0 \<le> quot (48 - n) 2" "quot (48 - n) 2 \<le> 48 - n" by (simp_all add: quot_half)
  then show ?thesis using True by (simp add: boxCenter_def Repeat_def Let_def)
next
  case False
  then have "quot (48 - n) 2 < 0 \<or> 48 - n - quot (48 - n) 2 < 0" by (auto simp: quot_def)
  then show ?thesis using False by (auto simp: boxCenter_def Repeat_def Let_def)
qed

text \<open>A line of a box is as wide as its borders: the content with its visible length, and spaces around it.\<close>

lemma boxCenter_width:
  assumes "boxCenter color content n = Some line" and "0 \<le> n"
  obtains l r where "line = boxSide color @ replicate l (CHR '' '') @ content @ replicate r (CHR '' '') @ boxSide color" "int l + n + int r = 48"
    "l = r \<or> r = Suc l"
proof -
  have n: "n \<le> 48" using boxCenter_fits [OF assms(2), of color content] assms(1) by simp
  have rep: "Repeat '' '' k = Some (replicate (nat k) (CHR '' ''))" if "0 \<le> k" for k
    using that by (simp add: Repeat_def concat_replicate_single)
  show thesis
  proof (rule that)
    show "line = boxSide color @ replicate (nat ((48 - n) div 2)) (CHR '' '') @ content @ replicate (nat (48 - n - (48 - n) div 2)) (CHR '' '') @ boxSide color"
      using assms(1) n by (simp add: boxCenter_def Let_def quot_half rep)
  qed (use n in auto)
qed

text \<open>
  The start-up banner panics exactly if it is shown and the version has more than 40 bytes, which
  the environment decides; the other banners never do.
\<close>

lemma banner_panics: "StartupBanner level version sha = None \<longleftrightarrow> 1 \<le> level \<and> 40 < length version"
proof -
  define title where "title = boxCenter ColorCyan (ColorBold @ (''pia-tun '' @ version) @ ColorReset) (int (length (''pia-tun '' @ version)))"
  define author where "author = boxCenter ColorCyan (ColorGreen @ ''x0lie'' @ ColorReset) 5"
  have "author \<noteq> None" unfolding author_def by (subst boxCenter_fits) simp_all
  moreover have "title \<noteq> None \<longleftrightarrow> length version \<le> 40" unfolding title_def by (subst boxCenter_fits) auto
  ultimately show ?thesis
    unfolding StartupBanner_def Let_def title_def [symmetric] author_def [symmetric] by (auto split: option.split)
qed

lemma banners_fit: "ConnectedBanner level \<noteq> None" "ReconnectingBanner level \<noteq> None"
  using boxCenter_fits [of 15] boxCenter_fits [of 18] by (auto simp: ConnectedBanner_def ReconnectingBanner_def banner_def)

end
