(* ===== verification/Spec2Isabelle.thy ===== *)
theory Spec2Isabelle
  imports HostKillswitch Backend VpnSetup Verify DnsProxy Proxy Metrics PortSync PortRun Monitor AppConfig AppRetry Api Log
begin

text \<open>
  Verification library of pia-tun, a container that connects to Private Internet Access over
  WireGuard behind a firewall killswitch (Go sources under \<^verbatim>\<open>src/\<close>).

  \<^bold>\<open>The program.\<close> \<^verbatim>\<open>cmd/pia-tun/main.go\<close> runs \<^verbatim>\<open>internal/app\<close>: it reads the configuration from the
  environment, sets \<^verbatim>\<open>resolv.conf\<close> aside, raises the killswitch (\<^verbatim>\<open>internal/firewall\<close>), sets up DNS
  (\<^verbatim>\<open>internal/dns\<close>), and connects: it finds and races servers, authenticates, registers a key and brings
  the tunnel up (\<^verbatim>\<open>internal/vpn\<close>, \<^verbatim>\<open>internal/pia\<close>, \<^verbatim>\<open>internal/wg\<close>, \<^verbatim>\<open>internal/cacher\<close>), with exemptions from
  the killswitch for as long as a request takes. Then the services of the connection run side by side: the
  health monitor (\<^verbatim>\<open>internal/monitor\<close>), the cacher, port forwarding (\<^verbatim>\<open>internal/portforward\<close>) and the port
  syncer (\<^verbatim>\<open>internal/portsync\<close>). One that asks for a reconnection ends them all and the program waits for
  the WAN (\<^verbatim>\<open>internal/wan\<close>) and connects again; a stop takes the firewall down; an error leaves it up.
  Beside this run the metrics collector, the API and the proxies (\<^verbatim>\<open>internal/metrics\<close>, \<^verbatim>\<open>api\<close>, \<^verbatim>\<open>proxy\<close>).

  \<^bold>\<open>How it is modelled.\<close> An operation is a program \<open>'w \<Rightarrow> ((err + 'a) \<times> 'w) option\<close> (\<open>Prelude\<close>): it gets the state and
  gives an error or a value and the new state; \<open>None\<close> means that it does not return. A panic is an error value
  of its own; one in a service, which would end the process at once, ends that service with an error. The state is one record that grows by extension, so that an operation of a component runs
  unchanged inside a larger one: \<open>'k net\<close> (the opaque kernel of the host), \<open>'k fw\<close> (the firewall), \<open>'k cw\<close>
  (the cache and the clock), \<open>'k rw\<close> (\<^verbatim>\<open>resolv.conf\<close>), \<open>'k dw\<close> (the DNS proxy), \<open>'k sw\<close> (metrics and the port channel), \<open>'k pw\<close>
  (port forwarding), \<open>'k aw\<close> (the application). Code that is not under \<^verbatim>\<open>src/\<close> is a parameter: records of
  functions on the opaque kernel (\<open>netops\<close>, \<open>sysops\<close>, \<open>api\<close>, \<open>dotops\<close>, \<open>probeops\<close>, \<open>psops\<close>, \<open>pfops\<close>, \<open>appops\<close>), each call of
  which gives an answer and the next kernel. What is assumed of them is the \<open>assumes\<close> of a locale; every
  locale is interpreted on a reference host that computes (\<open>RefKernel\<close> and the \<open>ref\<close> definitions of the other
  theories), at which the witnesses of the properties are evaluated.

  \<^bold>\<open>Theories.\<close>
  \<^item> \<open>Prelude\<close>, \<open>GoStrings\<close>, \<open>GoNet\<close>, \<open>GoBytes\<close>, \<open>Json\<close>, \<open>GoTime\<close>: programs and their calculus (\<open>wp\<close> for total correctness, \<open>keeps\<close> for
    invariants of operations that return); what the code uses of \<^verbatim>\<open>strings\<close>, \<^verbatim>\<open>strconv\<close>, \<^verbatim>\<open>net\<close>, \<^verbatim>\<open>encoding\<close>, \<^verbatim>\<open>time\<close>.
  \<^item> \<open>Netfilter\<close>, \<open>RefKernel\<close>: iptables and \<^verbatim>\<open>ip rule\<close> as an interface with laws (locales \<open>netfilter\<close>: any command may
    fail; \<open>netfilter_host\<close>: a command fails for a documented reason only), and the reference kernel.
  \<^item> \<open>Firewall\<close>, \<open>Routing\<close>, \<open>Killswitch\<close>, \<open>HostKillswitch\<close>, \<open>Backend\<close> (\<^verbatim>\<open>internal/firewall\<close>): chains, exemptions, forwarded ports;
    policy rules of PIA resolvers, local networks and the bypass; \<^verbatim>\<open>Setup\<close> and \<^verbatim>\<open>Cleanup\<close>; the choice of the backend and
    the drop counters. The lemmas give a packet semantics of the chains, the rules a setup lays out, the
    invariant \<open>ks_inv\<close> of the killswitch under every operation and every fault, and exact effects on a healthy host.
  \<^item> \<open>PiaClient\<close>, \<open>Cacher\<close> (\<^verbatim>\<open>internal/pia\<close>, \<^verbatim>\<open>internal/cacher\<close>): requests and answers; the cache, its invariant, merging
    as the update of a map, the token file.
  \<^item> \<open>World\<close>, \<open>Resolver\<close>, \<open>Servers\<close>, \<open>Wg\<close>, \<open>VpnSetup\<close>, \<open>Verify\<close> (\<^verbatim>\<open>internal/dns/resolver.go\<close>, \<^verbatim>\<open>internal/vpn\<close>, \<^verbatim>\<open>internal/wg\<close>):
    a connection from the server list to the leak test. Each operation closes the exemptions it opened (locale \<open>exemptor\<close>)
    and its result is tied to what the servers answered.
  \<^item> \<open>Resolv\<close>, \<open>DnsProxy\<close> (\<^verbatim>\<open>internal/dns\<close>): \<^verbatim>\<open>resolv.conf\<close>, and the DNS-over-TLS proxy.
  \<^item> \<open>Proxy\<close>, \<open>Metrics\<close>, \<open>Api\<close> (\<^verbatim>\<open>internal/proxy\<close>, \<^verbatim>\<open>internal/metrics\<close>, \<^verbatim>\<open>internal/api\<close>): the SOCKS5 and HTTP handlers, the state of
    the metrics with its refinement of sums over restarting counters, the collector, and the endpoints.
  \<^item> \<open>Log\<close> (\<^verbatim>\<open>internal/log\<close>): the lines and the banners as texts; which titles fit into a box.
  \<^item> \<open>Status\<close>, \<open>Wan\<close>, \<open>Monitor\<close>, \<open>PortSync\<close>, \<open>PortForward\<close>, \<open>PortRun\<close> (\<^verbatim>\<open>internal/wan\<close>, \<^verbatim>\<open>monitor\<close>, \<^verbatim>\<open>portsync\<close>, \<^verbatim>\<open>portforward\<close>): the services of a
    connection; \<open>PortRun\<close> holds the run of the port forwarding on a healthy host.
  \<^item> \<open>AppConfig\<close>, \<open>App\<close>, \<open>AppSafety\<close>, \<open>AppRun\<close>, \<open>AppLife\<close>, \<open>AppRetry\<close> (\<^verbatim>\<open>internal/app\<close>, \<^verbatim>\<open>cmd/pia-tun\<close>): the configuration; the definitions of
    the whole program; that every component keeps the killswitch; that a run does; what a run reports and
    leaves; the retries, as a run of phases over the history of what they did to the host.

  \<^bold>\<open>What the properties show.\<close> They are numbered by importance from C1 on, across the theories. At their head is the promise
  of the program: a run that ends with an error leaves a killswitch that drops what it has to, whatever
  happened on the way (C1), as do all operations of the components in any order (C2). Then what a run reports
  and leaves (C3, C4, C9), what a setup lays out (C5), that the leak test, the monitor and the API tell the truth,
  that retries go on and back off, what port forwarding leaves behind, where the policy rules send a packet to a
  resolver of PIA (\<open>settles\<close>, \<open>decides\<close> in \<open>Routing\<close>), and the correctness of each component. Where a property speaks of what
  was asked of the host on the way (\<open>hist\<close>, \<open>probed\<close>, \<open>sent\<close>, \<open>dials\<close>), it does so for any history of the kernel to which exactly
  the named calls add.

  \<^bold>\<open>Loops, bounds and fuel.\<close> Loops over data are structural recursion. Loops that depend on the world are
  \<open>partial_function (option)\<close>; that they return is proved, from a bound on the events that are left before the
  context is cancelled (\<open>ticks\<close> in the locales), from the clock that moves on in every pause (\<open>retryLoop\<close>, \<open>rapidLoop\<close>) or
  from a measure on the rules that are left (\<open>delLoop\<close>). The one definition with fuel is \<open>parseValue\<close> of \<open>Json\<close>: \<open>decodeJSON\<close>
  starts it with twice the length of the text and one, and \<open>parse_enough\<close> shows that more fuel gives the same result.
  Integers are unbounded where the code cannot overflow; durations wrap at 64 bits (\<open>durationOf\<close>), the counters of iptables are
  \<open>64 word\<close>.

  \<^bold>\<open>Not modelled.\<close> The calls that log (and \<^verbatim>\<open>logConfig\<close>, \<^verbatim>\<open>showMonitorStatus\<close>, \<^verbatim>\<open>showProxyStatus\<close>), which print a line and change nothing (the start-up banner can
  panic, which \<open>Log\<close> shows apart from the run); the registration
  of the metrics with Prometheus and the exposition format; the accept loops, listeners and the copying of bytes
  of the proxies, the DNS server and the API, which are calls of the library; TLS, certificates and HTTP, which are parameters;
  mutexes, since a program here is one thread of calls: the services of a connection run side by side in the parameter \<open>apGroup\<close>, of
  which \<open>app_world\<close> assumes that what each service keeps is kept by the group, and the metrics collector, the API and the proxies,
  which do not touch the firewall, are not interleaved with the rest. Sleeps with no effect on the result are left out.
\<close>

end
